(* ===== verification/Prelude.thy ===== *)
theory Prelude
  imports Main "HOL-Library.Word"
begin

section \<open>Prelude: machine words, C++ errors, and the automation shared by all components\<close>

text \<open>
  This theory holds what every component of the model uses: the fixed-width integer types of
  the C++ code, its exceptions as values, the little-endian layout of integers in a byte
  array, generic facts about lists that are updated in place, and the collections of
  simplification rules that the component theories extend.
\<close>

unbundle bit_operations_syntax

named_theorems buf_simps \<open>facts about the byte streams\<close>
named_theorems wire_simps \<open>facts about the wire format of the protocol objects\<close>

type_synonym byte = "8 word"
type_synonym u16 = "16 word"
type_synonym u32 = "32 word"
type_synonym u64 = "64 word"

text \<open>
  The ways in which a C++ operation of the library can end other than by returning:
  the standard exceptions it throws, a failed \<^verbatim>\<open>assert\<close> (which aborts), and undefined
  behaviour such as the first element of an empty vector.
\<close>

datatype exn = OutOfRange | InvalidArgument | BadAlloc | AssertFail | Undefined

subsection \<open>Sums used as results\<close>

fun bind_res :: "'e + 'a \<Rightarrow> ('a \<Rightarrow> 'e + 'b) \<Rightarrow> 'e + 'b" where
  "bind_res (Inl e) f = Inl e"
| "bind_res (Inr x) f = f x"

lemma bind_res_cong [fundef_cong]:
  "m = m' \<Longrightarrow> (\<And>x. m' = Inr x \<Longrightarrow> f x = f' x) \<Longrightarrow> bind_res m f = bind_res m' f'"
  by (cases m') auto

lemma bind_res_Inr_conv: "bind_res r f = Inr y \<longleftrightarrow> (\<exists>x. r = Inr x \<and> f x = Inr y)"
  by (cases r) auto

lemma bind_res_Inr_id [simp]: "bind_res r Inr = r"
  by (cases r) auto

subsection \<open>Little-endian integers\<close>

text \<open>The byte layouts written by the output stream, least significant byte first.\<close>

definition le16 :: "u16 \<Rightarrow> byte list" where
  "le16 w = [ucast w, ucast (drop_bit 8 w)]"

definition le32 :: "u32 \<Rightarrow> byte list" where
  "le32 w = [ucast w, ucast (drop_bit 8 w), ucast (drop_bit 16 w), ucast (drop_bit 24 w)]"

definition le64 :: "u64 \<Rightarrow> byte list" where
  "le64 w = [ucast w, ucast (drop_bit 8 w), ucast (drop_bit 16 w), ucast (drop_bit 24 w),
     ucast (drop_bit 32 w), ucast (drop_bit 40 w), ucast (drop_bit 48 w), ucast (drop_bit 56 w)]"

lemma length_le [simp]: "length (le16 w) = 2" "length (le32 v) = 4" "length (le64 u) = 8"
  by (simp_all add: le16_def le32_def le64_def)

text \<open>The shift-and-or expressions by which the input stream reads them back.\<close>

definition un16 :: "byte \<Rightarrow> byte \<Rightarrow> u16" where
  "un16 a b = ucast a OR push_bit 8 (ucast b)"

definition un32 :: "byte \<Rightarrow> byte \<Rightarrow> byte \<Rightarrow> byte \<Rightarrow> u32" where
  "un32 a b c d = ucast a OR push_bit 8 (ucast b) OR push_bit 16 (ucast c) OR push_bit 24 (ucast d)"

definition un64 :: "byte \<Rightarrow> byte \<Rightarrow> byte \<Rightarrow> byte \<Rightarrow> byte \<Rightarrow> byte \<Rightarrow> byte \<Rightarrow> byte \<Rightarrow> u64" where
  "un64 a b c d e f g h = ucast a OR push_bit 8 (ucast b) OR push_bit 16 (ucast c)
     OR push_bit 24 (ucast d) OR push_bit 32 (ucast e) OR push_bit 40 (ucast f)
     OR push_bit 48 (ucast g) OR push_bit 56 (ucast h)"

text \<open>One byte of a word, put back at its place.\<close>

lemma bit_byte_at:
  fixes w :: "'a::len word"
  assumes "n < LENGTH('a)"
  shows "bit (push_bit k (ucast (ucast (drop_bit k w) :: byte)) :: 'a word) n
     \<longleftrightarrow> k \<le> n \<and> n < k + 8 \<and> bit w n"
  using assms by (auto simp: bit_simps)

lemma bit_byte_low:
  fixes w :: "'a::len word"
  assumes "n < LENGTH('a)"
  shows "bit (ucast (ucast w :: byte) :: 'a word) n \<longleftrightarrow> n < 8 \<and> bit w n"
  using assms by (auto simp: bit_simps)

lemma un16_le16: "un16 (ucast w) (ucast (drop_bit 8 w)) = (w :: u16)"
  unfolding un16_def
  by (rule bit_word_eqI) (simp add: bit_or_iff bit_byte_at bit_byte_low, arith)

lemma un32_le32:
  "un32 (ucast w) (ucast (drop_bit 8 w)) (ucast (drop_bit 16 w)) (ucast (drop_bit 24 w)) = (w :: u32)"
  unfolding un32_def
  by (rule bit_word_eqI) (simp add: bit_or_iff bit_byte_at bit_byte_low, arith)

lemma un64_le64:
  "un64 (ucast w) (ucast (drop_bit 8 w)) (ucast (drop_bit 16 w)) (ucast (drop_bit 24 w))
     (ucast (drop_bit 32 w)) (ucast (drop_bit 40 w)) (ucast (drop_bit 48 w)) (ucast (drop_bit 56 w))
   = (w :: u64)"
  unfolding un64_def
  by (rule bit_word_eqI) (simp add: bit_or_iff bit_byte_at bit_byte_low, arith)

subsection \<open>Numbers stored in words\<close>

lemma unat_of_nat_byte: "n < 256 \<Longrightarrow> unat (of_nat n :: byte) = n"
  by (simp add: unat_of_nat)

lemma unat_of_nat_u16: "n < 65536 \<Longrightarrow> unat (of_nat n :: u16) = n"
  by (simp add: unat_of_nat)

end
