(* ===== verification/Historic.thy ===== *)
theory Historic
  imports Complex_Main Prelude
begin

section \<open>History ring (tools/utils.h)\<close>

text \<open>
  \<^verbatim>\<open>HistoricBuffer\<close>: the last \<open>size\<close> values of a quantity in a ring. \<open>hoff\<close> is the slot
  that the next value overwrites. The template's size is the length of the data; floating
  point values are exact reals.
\<close>

record 'a hist =
  hdata :: "'a list"
  hoff :: nat

definition hist_new :: "nat \<Rightarrow> 'a::zero hist" where
  "hist_new n = \<lparr>hdata = replicate n 0, hoff = 0\<rparr>"

definition hist_add :: "'a \<Rightarrow> 'a hist \<Rightarrow> 'a hist" where
  "hist_add x h = \<lparr>hdata = (hdata h)[hoff h := x], hoff = (hoff h + 1) mod length (hdata h)\<rparr>"

text \<open>\<^verbatim>\<open>[0]\<close> is the most recent value; the difference is computed on \<^verbatim>\<open>ptrdiff_t\<close>.\<close>

definition hist_nth :: "'a hist \<Rightarrow> nat \<Rightarrow> exn + 'a" where
  "hist_nth h i = (if \<not> i < length (hdata h) then Inl AssertFail
     else let k = int (hoff h) - int i - 1 in
       Inr (hdata h ! nat (if k < 0 then int (length (hdata h)) + k else k)))"

definition hist_reset :: "'a::zero hist \<Rightarrow> 'a hist" where
  "hist_reset h = \<lparr>hdata = replicate (length (hdata h)) 0, hoff = 0\<rparr>"

definition hist_min :: "'a::linorder hist \<Rightarrow> 'a" where
  "hist_min h = fold min (tl (hdata h)) (hd (hdata h))"

definition hist_max :: "'a::linorder hist \<Rightarrow> 'a" where
  "hist_max h = fold max (tl (hdata h)) (hd (hdata h))"

definition hist_average :: "real hist \<Rightarrow> real" where
  "hist_average h = sum_list (hdata h) / real (length (hdata h))"

fun sum_first :: "real hist \<Rightarrow> nat \<Rightarrow> exn + real" where
  "sum_first h 0 = Inr 0"
| "sum_first h (Suc n) = bind_res (sum_first h n) (\<lambda>a. bind_res (hist_nth h n) (\<lambda>x. Inr (a + x)))"

definition hist_average_first :: "nat \<Rightarrow> real hist \<Rightarrow> exn + real" where
  "hist_average_first n h = bind_res (sum_first h n) (\<lambda>a. Inr (a / real n))"

definition hist_nonzero_average :: "real hist \<Rightarrow> real" where
  "hist_nonzero_average h = (let xs = filter (\<lambda>x. x \<noteq> 0) (hdata h) in
     if length xs = 0 then 0 else sum_list xs / real (length xs))"

subsection \<open>The ring as a list, most recent value first\<close>

definition hok :: "'a hist \<Rightarrow> bool" where
  "hok h \<longleftrightarrow> hoff h < length (hdata h)"

definition hlist :: "'a hist \<Rightarrow> 'a list" where
  "hlist h = rev (take (hoff h) (hdata h)) @ rev (drop (hoff h) (hdata h))"

lemma length_hlist [simp]: "length (hlist h) = length (hdata h)"
  by (simp add: hlist_def)

lemma hok_new: "0 < n \<Longrightarrow> hok (hist_new n)"
  by (simp add: hok_def hist_new_def)

lemma hok_add: "hok h \<Longrightarrow> hok (hist_add x h)"
  by (cases "hdata h = []") (simp_all add: hok_def hist_add_def)

lemma hlist_new: "hlist (hist_new n) = replicate n 0"
  by (simp add: hlist_def hist_new_def)

lemma hist_nth_hlist:
  assumes "hok h" "i < length (hdata h)"
  shows "hist_nth h i = Inr (hlist h ! i)"
proof (cases "i < hoff h")
  case True
  then have "nat (int (hoff h) - int i - 1) = hoff h - Suc i" by auto
  with True assms show ?thesis
    by (simp add: hist_nth_def Let_def hlist_def nth_append rev_nth hok_def)
next
  case False
  then have "nat (int (length (hdata h)) + (int (hoff h) - int i - 1)) = length (hdata h) + hoff h - Suc i"
    using assms by auto
  moreover have "hoff h + (length (hdata h) - hoff h - Suc (i - hoff h)) = length (hdata h) + hoff h - Suc i"
    using False assms by (auto simp: hok_def)
  ultimately show ?thesis
    using False assms by (auto simp: hist_nth_def Let_def hlist_def nth_append rev_nth hok_def)
qed

lemma hlist_add:
  assumes "hok h"
  shows "hlist (hist_add x h) = x # butlast (hlist h)"
proof -
  let ?d = "hdata h" and ?k = "hoff h"
  have k: "?k < length ?d" using assms by (simp add: hok_def)
  obtain a y b where d: "?d = a @ y # b" "length a = ?k"
    using id_take_nth_drop [OF k] k by (metis length_take min.absorb4)
  show ?thesis
  proof (cases b rule: rev_cases)
    case Nil
    with d show ?thesis
      by (auto simp: hlist_def hist_add_def list_update_append butlast_append simp flip: d(2))
  next
    case (snoc b' z)
    with d show ?thesis
      by (auto simp: hlist_def hist_add_def list_update_append butlast_append simp flip: d(2))
  qed
qed

lemma mset_hlist: "set (hlist h) = set (hdata h)"
  by (metis append_take_drop_id hlist_def set_append set_rev)

lemma sum_first_hlist: "hok h \<Longrightarrow> n \<le> length (hdata h) \<Longrightarrow> sum_first h n = Inr (sum_list (take n (hlist h)))"
  by (induction n) (simp_all add: hist_nth_hlist take_Suc_conv_app_nth)

text \<open>
  The ring is the list of the last \<open>size\<close> values: an element access reads the value
  added that many steps ago and asserts that it is still kept, and adding a value puts it in
  front and forgets the oldest.
\<close>

theorem historic_buffer_refines:
  assumes "hok h"
  shows "hok (hist_add x h) \<and> hlist (hist_add x h) = x # butlast (hlist h)
    \<and> hist_nth h i = (if i < length (hlist h) then Inr (hlist h ! i) else Inl AssertFail)"
  using hok_add [OF assms] hlist_add [OF assms] hist_nth_hlist [OF assms, of i]
  by (auto simp: hist_nth_def)

text \<open>
  The average over the first \<open>n\<close> entries is the mean of the \<open>n\<close> values added last, and
  fails the assertion exactly when more values are asked for than the ring holds.
\<close>

theorem historic_average_first:
  assumes "hok h"
  shows "hist_average_first n h = (if n \<le> length (hlist h)
           then Inr (sum_list (take n (hlist h)) / real n) else Inl AssertFail)"
proof -
  have "sum_first h m = Inl AssertFail" if "length (hdata h) < m" for m
    using that
  proof (induction m)
    case (Suc m)
    then show ?case
      by (cases "length (hdata h) < m") (auto simp: sum_first_hlist [OF assms] hist_nth_def)
  qed simp
  then show ?thesis by (auto simp: hist_average_first_def sum_first_hlist [OF assms])
qed

theorem historic_average_first_witness:
  "hist_average_first 2 (hist_add 7 (hist_add 5 (hist_new 3))) = Inr 6"
proof -
  have "hlist (hist_add 7 (hist_add 5 (hist_new 3))) = [7, 5, 0 :: real]"
    by (simp add: hlist_add hok_add hok_new hlist_new eval_nat_numeral)
  then show ?thesis
    using historic_average_first [OF hok_add [OF hok_add [OF hok_new]], of 3 2 7 5] by simp
qed

theorem historic_buffer_refines_witness:
  "hlist (hist_add 7 (hist_add 5 (hist_new 3))) = [7, 5, 0 :: int]"
proof -
  have "hlist (hist_add 5 (hist_new 3)) = [5, 0, 0 :: int]"
    using historic_buffer_refines [OF hok_new, of 3 "5 :: int"]
    by (simp add: hlist_new eval_nat_numeral)
  then show ?thesis
    using historic_buffer_refines [OF hok_add [OF hok_new], of 3 7 "5 :: int"]
    by simp
qed

end
