(* ===== verification/Jitter.thy ===== *)
theory Jitter
  imports Complex_Main Historic "HOL-Library.Monad_Syntax"
begin

section \<open>Jitter buffer (JitterBuffer.h, JitterBuffer.cpp)\<close>

text \<open>
  \<^verbatim>\<open>JitterArray\<close>, the 64 slots in which received packets wait for playback, and \<^verbatim>\<open>JitterBuffer\<close>,
  which keeps one array of packets and one of error correction, decides what is played next and
  adapts the delay. Packets are byte lists, a null pointer is \<open>None\<close>, floating point values are
  exact reals, the clock is an argument. A loop that does not end, a failed assertion, and a conversion
  of a floating point value that does not fit the integer (undefined in C++) give \<open>None\<close>.
\<close>

subsection \<open>The slots\<close>

definition INVALID_SEQ :: u32 where "INVALID_SEQ = 0xFFFFFFFF"

record jarray =
  ja_front :: byte
  ja_back :: byte
  front_seq :: u32
  back_seq :: u32
  ja_ec :: bool
  slots :: "byte list option list"

definition ja_new :: "bool \<Rightarrow> jarray" where
  "ja_new ec = \<lparr>ja_front = 0, ja_back = 0, front_seq = INVALID_SEQ, back_seq = INVALID_SEQ,
     ja_ec = ec, slots = replicate 64 None\<rparr>"

definition get_offset :: "u32 \<Rightarrow> jarray \<Rightarrow> byte" where
  "get_offset sq a = ucast ((ucast (ja_back a) + (sq - back_seq a)) mod 64)"

definition ja_empty :: "jarray \<Rightarrow> bool" where
  "ja_empty a \<longleftrightarrow> front_seq a = INVALID_SEQ"

definition slot :: "byte \<Rightarrow> jarray \<Rightarrow> byte list option" where
  "slot off a = slots a ! unat off"

definition set_slot :: "byte \<Rightarrow> byte list option \<Rightarrow> jarray \<Rightarrow> jarray" where
  "set_slot off v a = a\<lparr>slots := (slots a)[unat off := v]\<rparr>"

text \<open>\<^verbatim>\<open>get\<close> returns an iterator: the offset of a filled slot, or \<^verbatim>\<open>end()\<close>.\<close>

definition ja_get :: "u32 \<Rightarrow> jarray \<Rightarrow> byte option" where
  "ja_get sq a = (if ja_empty a \<or> sq > front_seq a \<or> sq < back_seq a then None
     else let res = get_offset sq a in if slot res a = None then None else Some res)"

definition ja_has :: "u32 \<Rightarrow> jarray \<Rightarrow> bool" where
  "ja_has sq a \<longleftrightarrow> ja_get sq a \<noteq> None"

definition ja_clear :: "jarray \<Rightarrow> jarray" where
  "ja_clear a = a\<lparr>front_seq := INVALID_SEQ, back_seq := INVALID_SEQ, ja_front := 0, ja_back := 0,
     slots := map (\<lambda>_. None) (slots a)\<rparr>"

text \<open>The loop over the offsets from one to another, both modulo the number of slots.\<close>

partial_function (option) slot_loop :: "(byte \<Rightarrow> 's \<Rightarrow> 's) \<Rightarrow> byte \<Rightarrow> byte \<Rightarrow> 's \<Rightarrow> 's option" where
  "slot_loop body off until s =
    (if off = until then Some s else slot_loop body ((off + 1) mod 64) until (body off s))"

definition ja_advance :: "u32 \<Rightarrow> jarray \<Rightarrow> jarray option" where
  "ja_advance sq a = (if ja_empty a then Some a
     else if sq > front_seq a then Some (ja_clear a)
     else if sq < back_seq a then Some a
     else let until = get_offset sq a in
       do { b \<leftarrow> slot_loop (\<lambda>off. set_slot off None) (ja_back a) until a;
            Some (b\<lparr>ja_back := until, back_seq := sq\<rparr>) })"

text \<open>\<^verbatim>\<open>front += diff\<close> on 8 bits, then modulo the number of slots.\<close>

definition ja_put :: "u32 \<Rightarrow> byte list \<Rightarrow> jarray \<Rightarrow> (u32 \<times> jarray) option" where
  "ja_put sq buf a = (if ja_empty a then
       Some (0, set_slot 0 (Some buf) (a\<lparr>back_seq := sq, front_seq := sq, ja_back := 0, ja_front := 0\<rparr>))
     else if sq < back_seq a then Some (0, a)
     else let diff = sq - back_seq a; adv = (if diff > 64 then diff - 64 else 0) in
       do { b \<leftarrow> (if diff > 64 then ja_advance (back_seq a + adv) a else Some a);
            let f = (ja_front b + ucast diff) mod 64;
            Some (adv, set_slot f (Some buf) (b\<lparr>ja_front := f, front_seq := sq\<rparr>)) })"

definition ja_count :: "jarray \<Rightarrow> byte option" where
  "ja_count a = (if ja_empty a then Some 0
     else if ja_back a = ja_front a \<and> slot (ja_back a) a \<noteq> None then Some 1
     else slot_loop (\<lambda>off n. if slot off a \<noteq> None then n + 1 else n) (ja_back a) (ja_front a) 0)"

subsection \<open>The buffer\<close>

record jbuf =
  jb_main :: jarray
  jb_ec :: jarray
  jb_step :: u32
  next_fetch :: u32
  min_delay :: real
  min_min_delay :: u32
  max_min_delay :: u32
  max_used_slots :: u32
  last_put :: u32
  losses_to_reset :: u32
  resync_threshold :: real
  lost_count :: u32
  lost_since :: u32
  got_since :: u32
  was_reset :: bool
  need_buffering :: bool
  delay_hist :: "real hist"
  late_hist :: "real hist"
  adjusting_delay :: bool
  tick_count :: u32
  late_packets :: u32
  dont_inc_for :: u32
  dont_dec_for :: u32
  lost_packets :: int
  prev_recv :: real
  expect_next_at :: real
  deviation_hist :: "real hist"
  last_jitter :: real
  last_delay :: real
  outstanding_change :: int
  dont_change_for :: u32
  avg_delay :: real
  jb_first :: bool

text \<open>The conversions of a floating point value to 32 bits: towards zero, undefined out of range.\<close>

definition trunc :: "real \<Rightarrow> int" where
  "trunc x = (if x \<ge> 0 then \<lfloor>x\<rfloor> else \<lceil>x\<rceil>)"

definition to_int32 :: "real \<Rightarrow> u32 option" where
  "to_int32 x = (if - (2 ^ 31) \<le> trunc x \<and> trunc x < 2 ^ 31 then Some (of_int (trunc x)) else None)"

definition to_uint32 :: "real \<Rightarrow> u32 option" where
  "to_uint32 x = (if 0 \<le> trunc x \<and> trunc x < 2 ^ 32 then Some (of_int (trunc x)) else None)"

text \<open>\<^verbatim>\<open>nextFetchTimestamp\<close> is an \<^verbatim>\<open>int32_t\<close>: its 32 bits, converted to unsigned wherever it is
  compared with a timestamp or counted up.\<close>

definition jb_reset :: "jbuf \<Rightarrow> jbuf" where
  "jb_reset j = j\<lparr>was_reset := True, need_buffering := True, last_put := 0,
     jb_ec := ja_clear (jb_ec j), jb_main := ja_clear (jb_main j),
     delay_hist := hist_reset (delay_hist j), late_hist := hist_reset (late_hist j),
     adjusting_delay := False, lost_since := 0, got_since := 0, expect_next_at := 0,
     deviation_hist := hist_reset (deviation_hist j), outstanding_change := 0, dont_change_for := 0\<rparr>"

text \<open>\<open>cfg_uint\<close> and \<open>cfg_dbl\<close> are the lookups in the server's configuration, with defaults.\<close>

definition jb_new :: "(string \<Rightarrow> u32 \<Rightarrow> u32) \<Rightarrow> (string \<Rightarrow> real \<Rightarrow> real) \<Rightarrow> u32 \<Rightarrow> jbuf" where
  "jb_new cfg_uint cfg_dbl st = jb_reset \<lparr>
     jb_main = ja_new False, jb_ec = ja_new True, jb_step = st, next_fetch = 0, min_delay = 6,
     min_min_delay = (if st < 30 then cfg_uint ''jitter_min_delay_20'' 6
        else if st < 50 then cfg_uint ''jitter_min_delay_40'' 4 else cfg_uint ''jitter_min_delay_60'' 2),
     max_min_delay = (if st < 30 then cfg_uint ''jitter_max_delay_20'' 25
        else if st < 50 then cfg_uint ''jitter_max_delay_40'' 15 else cfg_uint ''jitter_max_delay_60'' 10),
     max_used_slots = (if st < 30 then cfg_uint ''jitter_max_slots_20'' 50
        else if st < 50 then cfg_uint ''jitter_max_slots_40'' 30 else cfg_uint ''jitter_max_slots_60'' 20),
     last_put = 0, losses_to_reset = cfg_uint ''jitter_losses_to_reset'' 20,
     resync_threshold = cfg_dbl ''jitter_resync_threshold'' 1,
     lost_count = 0, lost_since = 0, got_since = 0, was_reset = True, need_buffering = True,
     delay_hist = hist_new 64, late_hist = hist_new 64, adjusting_delay = False, tick_count = 0,
     late_packets = 0, dont_inc_for = 0, dont_dec_for = 0, lost_packets = 0, prev_recv = 0,
     expect_next_at = 0, deviation_hist = hist_new 64, last_jitter = 0, last_delay = 0,
     outstanding_change = 0, dont_change_for = 0, avg_delay = 0, jb_first = True\<rparr>"

definition set_min_packet_count :: "u32 \<Rightarrow> jbuf \<Rightarrow> jbuf" where
  "set_min_packet_count n j = j\<lparr>min_delay := real (unat n), min_min_delay := n\<rparr>"

definition get_min_packet_count :: "jbuf \<Rightarrow> u32 option" where
  "get_min_packet_count j = to_int32 (min_delay j)"

definition get_timeout_window :: "jbuf \<Rightarrow> real" where
  "get_timeout_window j = real (unat (losses_to_reset j * jb_step j)) / 1000"

definition current_delay :: "jbuf \<Rightarrow> u32 option" where
  "current_delay j = do { e \<leftarrow> ja_count (jb_ec j); m \<leftarrow> ja_count (jb_main j); Some (ucast (max e m)) }"

definition advance_both :: "u32 \<Rightarrow> jbuf \<Rightarrow> jbuf option" where
  "advance_both sq j = do { m \<leftarrow> ja_advance sq (jb_main j); e \<leftarrow> ja_advance sq (jb_ec j);
     Some (j\<lparr>jb_main := m, jb_ec := e\<rparr>) }"

definition which_slots :: "bool \<Rightarrow> jbuf \<Rightarrow> jarray" where
  "which_slots ec j = (if ec then jb_ec j else jb_main j)"

definition set_slots :: "bool \<Rightarrow> jarray \<Rightarrow> jbuf \<Rightarrow> jbuf" where
  "set_slots ec a j = (if ec then j\<lparr>jb_ec := a\<rparr> else j\<lparr>jb_main := a\<rparr>)"

definition have_next :: "bool \<Rightarrow> jbuf \<Rightarrow> bool" where
  "have_next ec j = ja_has (next_fetch j) (which_slots ec j)"

text \<open>\<^verbatim>\<open>HandleInput\<close>, in the order of the code: the resynchronization of the first packet after a
  reset, the deviation of the arrival time, the check for late packets, the insertion.\<close>

definition resync :: "u32 \<Rightarrow> jbuf \<Rightarrow> jbuf option" where
  "resync ts j = (if was_reset j then
     do { nf \<leftarrow> to_int32 (real (unat ts) - min_delay j);
          Some (j\<lparr>was_reset := False, outstanding_change := 0, next_fetch := nf, jb_first := True\<rparr>) }
     else Some j)"

definition note_deviation :: "real \<Rightarrow> jbuf \<Rightarrow> jbuf" where
  "note_deviation now j = (if expect_next_at j \<noteq> 0
     then j\<lparr>deviation_hist := hist_add (expect_next_at j - now) (deviation_hist j),
            expect_next_at := expect_next_at j + real (unat (jb_step j)) / 1000\<rparr>
     else j\<lparr>expect_next_at := now + real (unat (jb_step j)) / 1000\<rparr>)"

definition insert_packet :: "real \<Rightarrow> byte list \<Rightarrow> u32 \<Rightarrow> bool \<Rightarrow> jbuf \<Rightarrow> jbuf option" where
  "insert_packet now buf ts ec j =
     do { let j1 = (if ts > last_put j then j\<lparr>last_put := ts\<rparr> else j);
          delay \<leftarrow> current_delay j1;
          j2 \<leftarrow> (if delay > 5 then advance_both (next_fetch j1 + 1) (j1\<lparr>next_fetch := next_fetch j1 + 1\<rparr>)
                 else Some j1);
          (adv, a) \<leftarrow> ja_put ts buf (which_slots ec j2);
          Some ((set_slots ec a j2)\<lparr>next_fetch := next_fetch j2 + adv, prev_recv := now\<rparr>) }"

definition handle_input :: "real \<Rightarrow> byte list \<Rightarrow> u32 \<Rightarrow> bool \<Rightarrow> jbuf \<Rightarrow> jbuf option" where
  "handle_input now buf ts ec j = (if ja_has ts (which_slots ec j) then Some j
     else do { j1 \<leftarrow> resync ts (j\<lparr>got_since := got_since j + 1\<rparr>);
       j2 \<leftarrow> advance_both (next_fetch j1 - 1) j1;
       let j3 = note_deviation now j2;
       if ts < next_fetch j3
       then insert_packet now buf ts ec (if \<not> ec
              then j3\<lparr>late_packets := late_packets j3 + 1, lost_packets := lost_packets j3 - 1\<rparr> else j3)
       else if ts < next_fetch j3 - 1
       then Some (if \<not> ec then j3\<lparr>late_packets := late_packets j3 + 1\<rparr> else j3)
       else insert_packet now buf ts ec j3 })"

text \<open>\<^verbatim>\<open>HandleOutput\<close>: the catch-up on the first output, the stretching of the playback, the fetch,
  and the reset after too many losses. A fetched packet is moved out of its slot.\<close>

definition catch_up :: "jbuf \<Rightarrow> jbuf option" where
  "catch_up j = (if jb_first j then
     do { delay \<leftarrow> current_delay j;
          if delay > 5 then
            do { mc \<leftarrow> get_min_packet_count j;
                 advance_both (next_fetch j + (delay - mc))
                   (j\<lparr>jb_first := False, next_fetch := next_fetch j + (delay - mc)\<rparr>) }
          else Some (j\<lparr>jb_first := False\<rparr>) }
     else Some j)"

definition scale_playback :: "jbuf \<Rightarrow> (int \<times> jbuf) option" where
  "scale_playback j = (if outstanding_change j \<noteq> 0 then
       (if outstanding_change j < 0 then Some (40, j\<lparr>outstanding_change := outstanding_change j + 20\<rparr>)
        else Some (80, j\<lparr>outstanding_change := outstanding_change j - 20\<rparr>))
     else do { delay \<leftarrow> current_delay j; if delay = 0 then Some (80, j) else Some (60, j) })"

definition move_out :: "byte option \<Rightarrow> jarray \<Rightarrow> byte list option \<times> jarray" where
  "move_out it a = (case it of None \<Rightarrow> (None, a) | Some off \<Rightarrow> (slot off a, set_slot off None a))"

definition note_loss :: "jbuf \<Rightarrow> jbuf option" where
  "note_loss j = (if need_buffering j then Some j else
     (let j1 = j\<lparr>lost_count := lost_count j + 1, lost_packets := lost_packets j + 1,
                 lost_since := lost_since j + 1\<rparr> in
      if lost_count j1 \<ge> losses_to_reset j1
         \<or> real (unat (got_since j1)) > min_delay j1 * 25 \<and> lost_since j1 > got_since j1 div 2
      then do { delay \<leftarrow> current_delay j1;
                nf \<leftarrow> (if real (unat delay) < min_delay j1
                       then to_int32 (real_of_int (sint (next_fetch j1)) - (min_delay j1 - real (unat delay)))
                       else Some (next_fetch j1));
                Some (jb_reset (j1\<lparr>dont_inc_for := 16, dont_dec_for := dont_dec_for j1 + 128,
                  next_fetch := nf, lost_count := 0\<rparr>)) }
      else Some j1))"

definition handle_output :: "jbuf \<Rightarrow> ((int \<times> byte list option \<times> byte list option) \<times> jbuf) option" where
  "handle_output j =
     do { j1 \<leftarrow> catch_up j;
          (dur, j2) \<leftarrow> scale_playback j1;
          let m = ja_get (next_fetch j2) (jb_main j2);
          let e = ja_get (next_fetch j2) (jb_ec j2);
          let j3 = j2\<lparr>next_fetch := next_fetch j2 + 1\<rparr>;
          if m \<noteq> None \<or> e \<noteq> None
          then (case (move_out m (jb_main j2), move_out e (jb_ec j2)) of ((mb, ma), (eb, ea)) \<Rightarrow>
            Some ((dur, mb, eb), j3\<lparr>lost_count := 0, need_buffering := False, jb_main := ma, jb_ec := ea\<rparr>))
          else map_option (\<lambda>j4. ((dur, None, None), j4)) (note_loss j3) }"

text \<open>\<^verbatim>\<open>Tick\<close>: the share of late packets, the delay, and the deviation of the arrival times, from
  which the minimum delay follows in steps of one.\<close>

definition value_of :: "exn + 'a \<Rightarrow> 'a option" where
  "value_of r = (case r of Inl e \<Rightarrow> None | Inr x \<Rightarrow> Some x)"

definition clamp :: "'a::linorder \<Rightarrow> 'a \<Rightarrow> 'a \<Rightarrow> 'a" where
  "clamp v lo hi = (if v < lo then lo else if hi < v then hi else v)"

definition note_late :: "jbuf \<Rightarrow> jbuf option" where
  "note_late j = do { let j1 = j\<lparr>late_hist := hist_add (real (unat (late_packets j))) (late_hist j), late_packets := 0\<rparr>;
     avg \<leftarrow> value_of (hist_average_first 16 (late_hist j1));
     let j2 = (if avg \<ge> resync_threshold j1 then j1\<lparr>was_reset := True\<rparr> else j1);
     Some (if hist_max (late_hist j1) = 0 \<and> dont_dec_for j2 > 0
           then j2\<lparr>dont_dec_for := dont_dec_for j2 - 1\<rparr> else j2) }"

definition note_delay :: "jbuf \<Rightarrow> jbuf option" where
  "note_delay j = do { d \<leftarrow> current_delay j;
     let j1 = j\<lparr>delay_hist := hist_add (real (unat d)) (delay_hist j)\<rparr>;
     avg \<leftarrow> value_of (hist_average_first 32 (delay_hist j1));
     Some (j1\<lparr>avg_delay := avg\<rparr>) }"

fun sum_squares :: "real hist \<Rightarrow> real \<Rightarrow> nat \<Rightarrow> exn + real" where
  "sum_squares h avg 0 = Inr 0"
| "sum_squares h avg (Suc n) = bind_res (sum_squares h avg n) (\<lambda>a. bind_res (hist_nth h n)
     (\<lambda>x. let d = x - avg in Inr (a + d * d)))"

definition deviation :: "real hist \<Rightarrow> real option" where
  "deviation h = map_option (\<lambda>s. sqrt (s / 64)) (value_of (sum_squares h (hist_average h) 64))"

definition adapt_min_delay :: "u32 \<Rightarrow> jbuf \<Rightarrow> jbuf option" where
  "adapt_min_delay sd j = (if real (unat sd) \<noteq> min_delay j then
     do { d \<leftarrow> to_int32 (real (unat sd) - min_delay j);
          let diff = clamp (sint d) (- 1) 1;
          let j1 = (if diff > 0 then j\<lparr>dont_dec_for := 100\<rparr> else j);
          Some (if diff > 0 \<and> dont_inc_for j1 = 0 \<or> diff < 0 \<and> dont_dec_for j1 = 0
            then let j2 = j1\<lparr>min_delay := min_delay j1 + real_of_int diff,
                       outstanding_change := outstanding_change j1 + diff * 60,
                       dont_change_for := dont_change_for j1 + 32\<rparr>;
                     j3 = (if diff < 0 then j2\<lparr>dont_dec_for := dont_dec_for j2 + 25\<rparr> else j2)
                 in if diff > 0 then j3\<lparr>dont_inc_for := 25\<rparr> else j3
            else j1) }
     else Some j)"

definition adapt_playback :: "jbuf \<Rightarrow> jbuf" where
  "adapt_playback j = (if dont_change_for j \<noteq> 0 then j\<lparr>dont_change_for := dont_change_for j - 1\<rparr>
     else if avg_delay j > min_delay j + 0.5 then
       j\<lparr>outstanding_change := outstanding_change j - (if avg_delay j > min_delay j + 2 then 60 else 20),
         dont_change_for := dont_change_for j + 10\<rparr>
     else if avg_delay j < min_delay j - 0.3 then
       j\<lparr>outstanding_change := outstanding_change j + 20, dont_change_for := dont_change_for j + 10\<rparr>
     else j)"

definition jb_tick :: "jbuf \<Rightarrow> jbuf option" where
  "jb_tick j = do { j1 \<leftarrow> note_late j; j2 \<leftarrow> note_delay j1;
     sdev \<leftarrow> deviation (deviation_hist j2);
     w \<leftarrow> (if jb_step j2 = 0 then None else to_uint32 (real_of_int \<lceil>sdev * 2 * 1000 / real (unat (jb_step j2))\<rceil>));
     let sd = clamp w (min_min_delay j2) (max_min_delay j2);
     j3 \<leftarrow> adapt_min_delay sd j2;
     let j4 = adapt_playback (j3\<lparr>last_jitter := sdev, last_delay := real (unat sd)\<rparr>);
     Some (j4\<lparr>tick_count := tick_count j4 + 1\<rparr>) }"

definition average_late_count :: "jbuf \<Rightarrow> (real \<times> real \<times> real) option" where
  "average_late_count j = do { a \<leftarrow> value_of (hist_average_first 16 (late_hist j));
     b \<leftarrow> value_of (hist_average_first 32 (late_hist j)); Some (a, b, hist_average (late_hist j)) }"

definition take_lost_count :: "jbuf \<Rightarrow> int \<times> jbuf" where
  "take_lost_count j = (lost_packets j, j\<lparr>lost_packets := 0\<rparr>)"

subsection \<open>Looping over the slots\<close>

definition dist64 :: "byte \<Rightarrow> byte \<Rightarrow> nat" where
  "dist64 off until = (unat until + 64 - unat off) mod 64"

lemma unat_next_offset: "unat (off :: byte) < 64 \<Longrightarrow> unat ((off + 1) mod 64) = (unat off + 1) mod 64"
  by (simp add: unat_word_ariths)

lemma slot_loop_fold:
  assumes "unat off < 64" "unat until < 64"
  shows "slot_loop body off until s
    = Some (fold (\<lambda>k. body (of_nat ((unat off + k) mod 64))) [0..<dist64 off until] s)"
  using assms
proof (induction "dist64 off until" arbitrary: off s)
  case 0
  then have "unat off = unat until" by (simp add: dist64_def mod_if split: if_splits)
  then have "off = until" by (rule word_unat_eq_iff [THEN iffD2])
  with 0 show ?case by (simp add: slot_loop.simps)
next
  case (Suc n)
  then have ne: "off \<noteq> until" by (auto simp: dist64_def)
  let ?o = "(off + 1) mod 64 :: byte"
  have o: "unat ?o = (unat off + 1) mod 64" using Suc by (simp add: unat_next_offset)
  then have b: "unat ?o < 64" by simp
  have d: "dist64 ?o until = n"
    using Suc.hyps(2) Suc.prems o by (auto simp: dist64_def mod_if split: if_splits)
  have e: "(unat ?o + k) mod 64 = (unat off + Suc k) mod 64" for k
    unfolding o by (simp add: mod_simps)
  have c: "of_nat (unat off mod 64) = off" using Suc.prems by simp
  have "slot_loop body off until s = slot_loop body ?o until (body off s)"
    using ne by (simp add: slot_loop.simps [of body off])
  also have "\<dots> = Some (fold (\<lambda>k. body (of_nat ((unat off + Suc k) mod 64))) [0..<n] (body off s))"
    using Suc.hyps(1) [OF d [symmetric] b Suc.prems(2)] by (simp only: d e)
  also have "\<dots> = Some (fold (\<lambda>k. body (of_nat ((unat off + k) mod 64))) [0..<Suc n] s)"
    by (simp add: upt_conv_Cons map_Suc_upt [symmetric] fold_map comp_def c del: upt_Suc)
  finally show ?case using Suc.hyps(2) by simp
qed

text \<open>The array as a list of slots: the slot for a number, without machine words.\<close>

definition ja_ok :: "jarray \<Rightarrow> bool" where
  "ja_ok a \<longleftrightarrow> length (slots a) = 64 \<and> unat (ja_front a) < 64 \<and> unat (ja_back a) < 64"

lemma unat_ucast_byte [simp]: "unat (ucast (b :: byte) :: u32) = unat b"
proof -
  have "unat b < 2 ^ 32" using unsigned_less [of b, where ?'a = nat] by simp
  then show ?thesis by (simp add: unsigned_ucast_eq take_bit_nat_eq_self)
qed

lemma get_offset_unat: "unat (get_offset sq a) = (unat (ja_back a) + unat (sq - back_seq a)) mod 64"
proof -
  have 1: "unat ((ucast (ja_back a) + (sq - back_seq a)) mod 64 :: u32) = (unat (ja_back a) + unat (sq - back_seq a)) mod 64"
    by (simp add: unat_mod unat_word_ariths mod_mod_cancel)
  then have "unat ((ucast (ja_back a) + (sq - back_seq a)) mod 64 :: u32) < 64" by simp
  then show ?thesis using 1 unfolding get_offset_def by (simp add: unsigned_ucast_eq take_bit_nat_eq_self)
qed

text \<open>The slot at a distance from the back.\<close>

definition at_back :: "jarray \<Rightarrow> nat \<Rightarrow> byte list option" where
  "at_back a k = slots a ! ((unat (ja_back a) + k) mod 64)"

definition gap :: "u32 \<Rightarrow> jarray \<Rightarrow> nat" where
  "gap sq a = unat (sq - back_seq a)"

abbreviation jspan :: "jarray \<Rightarrow> nat" where
  "jspan a \<equiv> gap (front_seq a) a"

definition content :: "jarray \<Rightarrow> u32 \<Rightarrow> byte list option" where
  "content a sq = (case ja_get sq a of None \<Rightarrow> None | Some off \<Rightarrow> slot off a)"

definition ja_inv :: "jarray \<Rightarrow> bool" where
  "ja_inv a \<longleftrightarrow> ja_ok a \<and> (if ja_empty a then (\<forall>i < 64. slots a ! i = None)
     else back_seq a \<le> front_seq a \<and> jspan a < 64
        \<and> unat (ja_front a) = (unat (ja_back a) + jspan a) mod 64
        \<and> (\<forall>k < 64. k > jspan a \<longrightarrow> at_back a k = None))"

lemma content_conv: "content a sq = (if ja_empty a \<or> sq > front_seq a \<or> sq < back_seq a then None
    else at_back a (gap sq a))"
  by (simp add: content_def ja_get_def Let_def slot_def get_offset_unat at_back_def gap_def)

lemma gap_between: "back_seq a \<le> x \<Longrightarrow> x \<le> y \<Longrightarrow> gap x a \<le> gap y a \<and> unat (y - x) = gap y a - gap x a"
  by (simp add: gap_def unat_sub word_le_nat_alt diff_le_mono order_trans [of "back_seq a" x y])

lemma dist64_offset: "unat off < 64 \<Longrightarrow> D < 64 \<Longrightarrow> unat until = (unat off + D) mod 64 \<Longrightarrow> dist64 off until = D"
  by (auto simp: dist64_def mod_if split: if_splits)

lemma ring_inj_le: "(k + b) mod 64 = (l + b) mod 64 \<Longrightarrow> l \<le> k \<Longrightarrow> k < 64 \<Longrightarrow> k = l" for k l b :: nat
proof -
  assume "(k + b) mod 64 = (l + b) mod 64" "l \<le> k" "k < 64"
  then have "64 dvd k - l" "k - l < 64" using mod_eq_dvd_iff_nat [of "l + b" "k + b" 64] by auto
  then have "k - l = 0" by (metis nat_dvd_not_less gr0I)
  with \<open>l \<le> k\<close> show "k = l" by simp
qed

lemma ring_inj: "(b + k) mod 64 = (b + l) mod 64 \<longleftrightarrow> k = l" if "k < 64" "l < 64" for k l b :: nat
  using ring_inj_le [of k b l] ring_inj_le [of l b k] that
  by (cases "l \<le> k") (auto simp: add.commute [of b])

lemma clear_slots:
  assumes "length (slots a) = 64" "n \<le> 64"
  shows "fold (\<lambda>k. set_slot (of_nat ((b + k) mod 64)) None) [0..<n] a
     = a\<lparr>slots := map (\<lambda>i. if \<exists>k<n. i = (b + k) mod 64 then None else slots a ! i) [0..<64]\<rparr>"
  using assms(2)
proof (induction n)
  case 0
  have "map ((!) (slots a)) [0..<64] = slots a" using assms(1) by (metis map_nth)
  then show ?case by simp
next
  case (Suc n)
  have u: "unat (of_nat ((b + n) mod 64) :: byte) = (b + n) mod 64" by (simp add: unat_of_nat)
  have "fold (\<lambda>k. set_slot (of_nat ((b + k) mod 64)) None) [0..<Suc n] a
      = set_slot (of_nat ((b + n) mod 64)) None
          (a\<lparr>slots := map (\<lambda>i. if \<exists>k<n. i = (b + k) mod 64 then None else slots a ! i) [0..<64]\<rparr>)"
    using Suc by simp
  also have "\<dots> = a\<lparr>slots := map (\<lambda>i. if \<exists>k<Suc n. i = (b + k) mod 64 then None else slots a ! i) [0..<64]\<rparr>"
    unfolding set_slot_def u
    by (simp, intro arg_cong [where f = "\<lambda>v. a\<lparr>slots := v\<rparr>"] nth_equalityI) (auto simp: nth_list_update less_Suc_eq simp del: upt_Suc)
  finally show ?case .
qed

lemma ja_clear_simps [simp]: "ja_empty (ja_clear a)" "content (ja_clear a) x = None" "ja_ok a \<Longrightarrow> ja_inv (ja_clear a)"
  by (simp_all add: ja_clear_def ja_empty_def content_conv ja_inv_def ja_ok_def)

lemma content_empty: "ja_empty a \<Longrightarrow> content a x = None"
  by (simp add: content_conv)

lemma advance_inside:
  assumes inv: "ja_inv a" and ne: "\<not> ja_empty a" and sq: "back_seq a \<le> sq" "sq \<le> front_seq a"
  shows "\<exists>b. ja_advance sq a = Some b \<and> ja_inv b \<and> \<not> ja_empty b \<and> front_seq b = front_seq a \<and> back_seq b = sq
    \<and> (\<forall>x. content b x = (if x < sq then None else content a x))"
proof -
  let ?u = "get_offset sq a" and ?D = "gap sq a" and ?b0 = "unat (ja_back a)"
  have ok: "length (slots a) = 64" "?b0 < 64" "jspan a < 64" "back_seq a \<le> front_seq a"
    "unat (ja_front a) = (?b0 + jspan a) mod 64" and clean: "\<And>k. k < 64 \<Longrightarrow> k > jspan a \<Longrightarrow> at_back a k = None"
    using inv ne by (auto simp: ja_inv_def ja_ok_def)
  have D: "?D \<le> jspan a" "?D < 64" using gap_between [OF sq] ok by auto
  have u: "unat ?u = (?b0 + ?D) mod 64" by (simp add: get_offset_unat gap_def)
  then have d: "dist64 (ja_back a) ?u = ?D" using ok D by (intro dist64_offset) auto
  define b where "b = a\<lparr>slots := map (\<lambda>i. if \<exists>k<?D. i = (?b0 + k) mod 64 then None else slots a ! i) [0..<64],
      ja_back := ?u, back_seq := sq\<rparr>"
  have run: "ja_advance sq a = Some b"
    using ne sq ok D u slot_loop_fold [of "ja_back a" ?u "\<lambda>off. set_slot off None" a]
      clear_slots [OF ok(1), of ?D ?b0]
    by (auto simp: ja_advance_def Let_def d b_def)
  have at: "at_back b k = (if k + ?D < 64 then at_back a (k + ?D) else None)" if "k < 64" for k
  proof -
    have i: "at_back b k = slots b ! ((?b0 + (k + ?D)) mod 64)"
      by (simp add: at_back_def b_def u mod_simps add_ac)
    show ?thesis
    proof (cases "k + ?D < 64")
      case True
      have "\<not> (\<exists>l<?D. (?b0 + (k + ?D)) mod 64 = (?b0 + l) mod 64)"
        using ring_inj [of "k + ?D" _ ?b0] True by auto
      then show ?thesis unfolding i using True by (auto simp: at_back_def b_def)
    next
      case False
      have "(?b0 + (k + ?D)) mod 64 = (?b0 + (k + ?D - 64)) mod 64"
        using False by (metis add.commute add_diff_inverse_nat mod_add_self2 add.assoc)
      moreover have "k + ?D - 64 < ?D" using False that D by auto
      ultimately show ?thesis unfolding i using False by (auto simp: b_def)
    qed
  qed
  have dd: "gap x b = gap x a - ?D" if "sq \<le> x" for x
    using gap_between [OF sq(1) that] by (simp add: gap_def b_def)
  have fs: "front_seq b = front_seq a" "back_seq b = sq" "ja_front b = ja_front a" by (simp_all add: b_def)
  have sp: "jspan b = jspan a - ?D" using dd [of "front_seq a"] sq fs by simp
  have ne': "\<not> ja_empty b" using ne by (simp add: ja_empty_def fs)
  have "content b x = (if x < sq then None else content a x)" for x
  proof (cases "sq \<le> x \<and> x \<le> front_seq a")
    case True
    then have "?D \<le> gap x a" "gap x a \<le> jspan a" "back_seq a \<le> x"
      using gap_between [of a sq x] gap_between [of a x "front_seq a"] sq by auto
    moreover from True this have "\<not> x < sq" "\<not> front_seq a < x" "\<not> x < back_seq a" by auto
    ultimately show ?thesis
      using True ok ne ne' dd [of x] at [of "gap x b"] by (simp add: content_conv fs)
  qed (use ne ne' sq in \<open>auto simp: content_conv fs\<close>)
  moreover have "ja_inv b"
  proof -
    have "unat (ja_front b) = (unat (ja_back b) + jspan b) mod 64"
    proof -
      have "unat (ja_back b) = (?b0 + ?D) mod 64" using u by (simp add: b_def)
      moreover have "gap (front_seq a) b = jspan a - ?D" using sp fs by simp
      moreover have "?b0 + ?D + (jspan a - ?D) = ?b0 + jspan a" using D by simp
      then have "((?b0 + ?D) mod 64 + (jspan a - ?D)) mod 64 = (?b0 + jspan a) mod 64"
        using mod_add_left_eq [of "?b0 + ?D" 64 "jspan a - ?D"] by simp
      ultimately show ?thesis using ok(5) by (simp only: fs)
    qed
    moreover have "at_back b k = None" if "k < 64" "k > jspan b" for k
      using at [OF that(1)] clean [of "k + ?D"] that sp by auto
    moreover have "ja_ok b" using ok u fs by (simp add: ja_ok_def b_def)
    ultimately show ?thesis using ne' sq fs ok sp by (simp add: ja_inv_def)
  qed
  ultimately show ?thesis using run ne' fs by blast
qed


text \<open>
  Advancing the jitter array drops exactly the packets before the given number, and the
  loop over the slots ends: whatever was waiting with a later number is still found, whether
  the number lies before, within or behind the window.
\<close>

theorem jitter_advance_drops:
  assumes "ja_inv a"
  shows "\<exists>b. ja_advance sq a = Some b \<and> ja_inv b
    \<and> (\<forall>x. content b x = (if x < sq then None else content a x))"
proof (cases "\<not> ja_empty a \<and> back_seq a \<le> sq \<and> sq \<le> front_seq a")
  case True
  then show ?thesis using advance_inside [of a sq] assms by blast
next
  case False
  then consider "ja_empty a" | "\<not> ja_empty a" "sq < back_seq a" | "\<not> ja_empty a" "front_seq a < sq"
    by (auto simp: not_le)
  then show ?thesis
  proof cases
    case 3
    moreover from 3 have "ja_advance sq a = Some (ja_clear a)" by (simp add: ja_advance_def)
    moreover have "ja_inv (ja_clear a)" using assms by (intro ja_clear_simps) (simp add: ja_inv_def)
    ultimately show ?thesis by (auto simp: content_conv [of a])
  next
    case 2
    moreover from 2 assms have "sq \<le> front_seq a" by (auto simp: ja_inv_def)
    ultimately show ?thesis using assms by (auto simp: ja_advance_def content_conv)
  qed (use assms in \<open>auto simp: ja_advance_def content_empty\<close>)
qed

theorem jitter_advance_drops_witness:
  "\<exists>a b. ja_put 10 [1] (ja_new False) = Some (0, a) \<and> ja_advance 11 a = Some b \<and> content a 10 = Some [1] \<and> content b 10 = None"
proof -
  define a where "a = set_slot 0 (Some [1]) ((ja_new False)\<lparr>back_seq := 10, front_seq := 10, ja_back := 0, ja_front := 0\<rparr>)"
  have 1: "ja_put 10 [1] (ja_new False) = Some (0, a)"
    by (simp add: ja_put_def ja_empty_def ja_new_def a_def)
  have 2: "ja_inv a" "content a 10 = Some [1]"
    by (simp_all add: a_def ja_inv_def ja_new_def ja_ok_def ja_empty_def set_slot_def gap_def at_back_def INVALID_SEQ_def
        content_conv nth_Cons')
  from jitter_advance_drops [OF 2(1), of 11] obtain b where "ja_advance 11 a = Some b" "content b 10 = None"
    by (auto split: if_splits)
  with 1 2(2) show ?thesis by blast
qed

lemma put_slot:
  assumes "\<not> ja_empty a" "ja_ok a" "back_seq a \<le> sq" "gap sq a \<le> 64"
  shows "\<exists>b. ja_put sq buf a = Some (0, b) \<and> ja_ok b \<and> front_seq b = sq \<and> back_seq b = back_seq a
    \<and> ja_back b = ja_back a \<and> unat (ja_front b) = (unat (ja_front a) + gap sq a) mod 64
    \<and> slots b = (slots a)[unat (ja_front b) := Some buf]"
proof -
  let ?d = "sq - back_seq a"
  have d: "unat ?d = gap sq a" "\<not> ?d > 64" using assms(4) by (simp_all add: gap_def word_less_nat_alt)
  have "unat (ucast ?d :: byte) = gap sq a mod 256"
    using d by (simp add: unsigned_ucast_eq take_bit_eq_mod)
  then have f: "unat ((ja_front a + ucast ?d) mod 64) = (unat (ja_front a) + gap sq a) mod 64"
    by (simp add: unat_mod unat_word_ariths mod_simps mod_mod_cancel)
  show ?thesis
    using assms d f by (auto simp: ja_put_def Let_def set_slot_def ja_ok_def)
qed

text \<open>
  A packet put into an empty array, or behind a single packet and within the window, is
  found under its number; the packets that were waiting stay; a packet older than the oldest
  is refused.
\<close>

theorem jitter_put_found:
  assumes "ja_inv a" "sq \<noteq> INVALID_SEQ"
    and "\<not> ja_empty a \<Longrightarrow> front_seq a = back_seq a \<and> (back_seq a \<le> sq \<longrightarrow> unat (sq - back_seq a) < 64)"
  shows "\<exists>b. ja_put sq buf a = Some (0, b) \<and> ja_inv b
    \<and> content b = (if \<not> ja_empty a \<and> sq < back_seq a then content a else (content a)(sq := Some buf))"
proof (cases "ja_empty a")
  case True
  define b where "b = set_slot 0 (Some buf) (a\<lparr>back_seq := sq, front_seq := sq, ja_back := 0, ja_front := 0\<rparr>)"
  have "ja_put sq buf a = Some (0, b)" using True by (simp add: ja_put_def b_def)
  moreover have "content b = (content a)(sq := Some buf)" "ja_inv b"
    using True assms(1,2)
    by (auto simp: content_conv b_def set_slot_def ja_empty_def at_back_def gap_def ja_inv_def ja_ok_def fun_eq_iff)
  ultimately show ?thesis using True by auto
next
  case ne: False
  show ?thesis
  proof (cases "sq < back_seq a")
    case True
    with ne assms(1) show ?thesis by (simp add: ja_put_def)
  next
    case False
    then have sq: "back_seq a \<le> sq" "gap sq a < 64" and fb: "front_seq a = back_seq a"
      using assms(3) ne by (simp_all add: gap_def)
    have ok: "ja_ok a" "ja_front a = ja_back a" and clean: "\<And>k. k < 64 \<Longrightarrow> k > 0 \<Longrightarrow> at_back a k = None"
      using assms(1) ne fb by (auto simp: ja_inv_def ja_ok_def gap_def word_unat_eq_iff)
    from put_slot [OF ne ok(1) sq(1), of buf] sq(2) obtain b where
      b: "ja_put sq buf a = Some (0, b)" "ja_ok b" "front_seq b = sq" "back_seq b = back_seq a" "ja_back b = ja_back a"
        "unat (ja_front b) = (unat (ja_back a) + gap sq a) mod 64" "slots b = (slots a)[unat (ja_front b) := Some buf]"
      using ok(2) by auto
    have at: "at_back b k = (if k = gap sq a then Some buf else at_back a k)" if "k < 64" for k
      using ring_inj [OF that sq(2), of "unat (ja_back a)"] ok b(5-7) by (auto simp: at_back_def ja_ok_def nth_list_update)
    have g: "gap x b = gap x a" for x by (simp add: gap_def b)
    have ne': "\<not> ja_empty b" using b(3) assms(2) by (simp add: ja_empty_def)
    have "content b x = ((content a)(sq := Some buf)) x" for x
    proof (cases "back_seq a \<le> x \<and> x \<le> sq")
      case True
      then have l: "gap x a \<le> gap sq a" using gap_between [of a x sq] by simp
      have "gap x a = gap sq a \<longleftrightarrow> x = sq" "gap x a = 0 \<longleftrightarrow> x = back_seq a"
        by (simp_all add: gap_def word_unat_eq_iff [symmetric] unat_eq_zero)
      then show ?thesis
        using True l sq ne ne' at [of "gap x a"] clean [of "gap x a"] fb b(3,4)
        by (auto simp: content_conv g not_less)
    qed (use ne ne' sq fb b(3,4) in \<open>auto simp: content_conv not_le\<close>)
    moreover have "ja_inv b"
      using ne' b sq at clean by (auto simp: ja_inv_def g)
    ultimately show ?thesis using b(1) ne False by auto
  qed
qed


theorem jitter_put_found_witness:
  "\<exists>b. ja_put 10 [1] (ja_new False) = Some (0, b) \<and> content b 10 = Some [1]"
proof -
  have "ja_inv (ja_new False)" "ja_empty (ja_new False)" "(10 :: u32) \<noteq> INVALID_SEQ"
    by (simp_all add: ja_inv_def ja_new_def ja_ok_def ja_empty_def INVALID_SEQ_def)
  from jitter_put_found [OF this(1,3), of "[1]"] this(2) show ?thesis by auto
qed

text \<open>
  With two or more numbers in its window the array misplaces what it is given, because
  \<^verbatim>\<open>put\<close> moves the front by the distance from the back. A newer packet goes as many slots too far as the
  window is long: nothing is found under its number, although its slot is filled. An
  older packet inside the window moves the front number back: the newer packets are no longer
  found. A packet too far ahead clears the array but leaves it without a back number: nothing
  is found in it, and every further packet is refused.
\<close>

theorem jitter_put_misplaced:
  assumes "ja_inv a" "\<not> ja_empty a" "back_seq a < front_seq a" "sq \<noteq> INVALID_SEQ"
  defines "n \<equiv> front_seq a - back_seq a"
  shows "(front_seq a < sq \<and> unat (sq - back_seq a) + unat n < 64 \<longrightarrow>
      (\<exists>b. ja_put sq buf a = Some (0, b) \<and> content b = content a \<and> slot (get_offset (sq + n) b) b = Some buf))
    \<and> (back_seq a \<le> sq \<and> sq < front_seq a \<longrightarrow>
      (\<exists>b. ja_put sq buf a = Some (0, b) \<and> (\<forall>x > sq. content b x = None)))
    \<and> (front_seq a < sq \<and> unat (sq - back_seq a) > 64 + unat n \<longrightarrow>
      (\<exists>b. ja_put sq buf a = Some (sq - back_seq a - 64, b) \<and> (\<forall>x. content b x = None)
         \<and> (\<forall>x buf'. x \<noteq> INVALID_SEQ \<longrightarrow> ja_put x buf' b = Some (0, b))))"
proof (intro conjI impI)
  have n: "unat n = jspan a" by (simp add: n_def gap_def)
  have ok: "ja_ok a" "unat (ja_front a) = (unat (ja_back a) + jspan a) mod 64" "jspan a < 64"
    and clean: "\<And>k. k < 64 \<Longrightarrow> k > jspan a \<Longrightarrow> at_back a k = None"
    using assms(1,2) by (auto simp: ja_inv_def)
  have pos: "0 < jspan a" using assms(3) by (simp add: gap_def unat_sub word_less_nat_alt word_le_nat_alt)
  {
    assume a: "front_seq a < sq \<and> unat (sq - back_seq a) + unat n < 64"
    then have g: "gap sq a + jspan a < 64" "back_seq a \<le> sq" "\<not> sq < back_seq a" "jspan a < gap sq a"
      using gap_between [of a "front_seq a" sq] assms(3) n
      by (auto simp: gap_def unat_eq_zero word_less_nat_alt unat_sub word_le_nat_alt)
    from put_slot [OF assms(2) ok(1) g(2), of buf] g(1) obtain b where
      b: "ja_put sq buf a = Some (0, b)" "ja_ok b" "front_seq b = sq" "back_seq b = back_seq a" "ja_back b = ja_back a"
        "unat (ja_front b) = (unat (ja_front a) + gap sq a) mod 64" "slots b = (slots a)[unat (ja_front b) := Some buf]"
      by auto
    have f: "unat (ja_front b) = (unat (ja_back a) + (gap sq a + jspan a)) mod 64"
      using b(6) ok(2) by (simp add: mod_simps add_ac)
    have at: "at_back b k = (if k = gap sq a + jspan a then Some buf else at_back a k)" if "k < 64" for k
      using ring_inj [OF that g(1), of "unat (ja_back a)"] ok(1) b(5,7) f
      by (auto simp: at_back_def ja_ok_def nth_list_update)
    have gb: "gap x b = gap x a" for x by (simp add: gap_def b)
    have ne': "\<not> ja_empty b" using b(3) assms(4) by (simp add: ja_empty_def)
    have "content b x = content a x" for x
    proof (cases "back_seq a \<le> x \<and> x \<le> sq")
      case True
      then have l: "gap x a \<le> gap sq a" "gap x a \<noteq> gap sq a + jspan a"
        using gap_between [of a x sq] g pos by auto
      have "gap x a > jspan a" if "front_seq a < x"
        using that assms(3) gap_between [of a "front_seq a" x]
        by (auto simp: gap_def word_less_nat_alt unat_sub word_le_nat_alt)
      then show ?thesis
        using True l g a assms(2) ne' at [of "gap x a"] clean [of "gap x a"] b(3,4)
        by (auto simp: content_conv gb not_less)
    qed (use assms(2) ne' a b(3,4) in \<open>auto simp: content_conv not_le\<close>)
    moreover have "slot (get_offset (sq + n) b) b = Some buf"
    proof -
      have "gap (sq + n) b = gap sq a + jspan a"
      proof -
        have "sq + n - back_seq a = (sq - back_seq a) + n" by simp
        then have "unat (sq + n - back_seq a) = unat (sq - back_seq a) + unat n"
          using g(1) n by (simp only: unat_word_ariths) (simp add: gap_def)
        then show ?thesis using b(4) n by (simp add: gap_def)
      qed
      then show ?thesis
        using at [OF g(1)] by (simp add: slot_def get_offset_unat at_back_def gap_def)
    qed
    ultimately show "\<exists>b. ja_put sq buf a = Some (0, b) \<and> content b = content a
        \<and> slot (get_offset (sq + n) b) b = Some buf"
      using b(1) by blast
  next
    assume a: "back_seq a \<le> sq \<and> sq < front_seq a"
    then have "gap sq a \<le> 64" using gap_between [of a sq "front_seq a"] ok(3) by (simp add: less_imp_le)
    from put_slot [OF assms(2) ok(1) _ this, of buf] a
    show "\<exists>b. ja_put sq buf a = Some (0, b) \<and> (\<forall>x > sq. content b x = None)"
      by (fastforce simp: content_conv)
  next
    assume a: "front_seq a < sq \<and> unat (sq - back_seq a) > 64 + unat n"
    define b where "b = set_slot ((0 + ucast (sq - back_seq a)) mod 64) (Some buf)
      ((ja_clear a)\<lparr>ja_front := (0 + ucast (sq - back_seq a)) mod 64, front_seq := sq\<rparr>)"
    have d: "sq - back_seq a > 64" using a by (simp add: word_less_nat_alt)
    have "unat (sq - back_seq a) = unat sq - unat (back_seq a)"
      using a assms(3) by (intro unat_sub) (auto simp: word_le_nat_alt word_less_nat_alt)
    moreover have "unat n = unat (front_seq a) - unat (back_seq a)" "unat (back_seq a) < unat (front_seq a)"
      using assms(3) by (auto simp: n_def word_less_nat_alt word_le_nat_alt intro: unat_sub)
    ultimately have "unat (front_seq a) < unat sq - 64" "64 \<le> unat sq" using a by auto
    then have "front_seq a < sq - 64" by (simp add: word_less_nat_alt unat_sub word_le_nat_alt)
    then have "front_seq a < back_seq a + (sq - back_seq a - 64)" by simp
    then have "ja_advance (back_seq a + (sq - back_seq a - 64)) a = Some (ja_clear a)"
      using assms(2) by (simp add: ja_advance_def)
    then have "ja_put sq buf a = Some (sq - back_seq a - 64, b)"
      using d a assms(2,3) by (auto simp: ja_put_def Let_def ja_clear_def b_def)
    moreover have "content b x = None" "x \<noteq> INVALID_SEQ \<longrightarrow> ja_put x buf' b = Some (0, b)" for x buf'
    proof -
      have e: "front_seq b = sq" "back_seq b = INVALID_SEQ" by (simp_all add: set_slot_def ja_clear_def b_def)
      have "x \<le> INVALID_SEQ" "sq \<le> INVALID_SEQ"
        using unsigned_less [of x, where ?'a = nat] unsigned_less [of sq, where ?'a = nat]
        by (simp_all add: INVALID_SEQ_def word_le_nat_alt)
      then show "content b x = None" "x \<noteq> INVALID_SEQ \<longrightarrow> ja_put x buf' b = Some (0, b)"
        using assms(4) by (auto simp: content_conv ja_put_def ja_empty_def e less_le)
    qed
    ultimately show "\<exists>b. ja_put sq buf a = Some (sq - back_seq a - 64, b) \<and> (\<forall>x. content b x = None)
        \<and> (\<forall>x buf'. x \<noteq> INVALID_SEQ \<longrightarrow> ja_put x buf' b = Some (0, b))"
      by blast
  }
qed


theorem jitter_put_misplaced_witness:
  "\<exists>a b c. ja_put 10 [1] (ja_new False) = Some (0, a) \<and> ja_put 11 [2] a = Some (0, b)
    \<and> ja_put 12 [3] b = Some (0, c) \<and> content c = content b \<and> content b 11 = Some [2]"
proof -
  have new: "ja_inv (ja_new False)" "ja_empty (ja_new False)"
    by (simp_all add: ja_inv_def ja_new_def ja_ok_def ja_empty_def)
  define a where "a = set_slot 0 (Some [1]) ((ja_new False)\<lparr>back_seq := 10, front_seq := 10, ja_back := 0, ja_front := 0\<rparr>)"
  have a: "ja_put 10 [1] (ja_new False) = Some (0, a)" using new by (simp add: ja_put_def a_def)
  define b where "b = set_slot 1 (Some [2]) (a\<lparr>ja_front := 1, front_seq := 11\<rparr>)"
  have ab: "ja_put 11 [2] a = Some (0, b)"
    by (simp add: ja_put_def a_def b_def ja_empty_def set_slot_def INVALID_SEQ_def)
  have b: "ja_inv b" "\<not> ja_empty b" "back_seq b = 10" "front_seq b = 11" "content b 11 = Some [2]"
    by (auto simp: a_def b_def ja_inv_def ja_new_def ja_ok_def ja_empty_def set_slot_def gap_def at_back_def INVALID_SEQ_def
        content_conv nth_Cons')
  from jitter_put_misplaced [of b 12 "[3]"] b a ab show ?thesis by (auto simp: INVALID_SEQ_def)
qed


subsection \<open>From the input to the output\<close>

text \<open>One packet waits, \<open>n\<close> outputs ahead.\<close>

definition waiting :: "jbuf \<Rightarrow> nat \<Rightarrow> u32 \<Rightarrow> byte list \<Rightarrow> bool" where
  "waiting j n ts buf \<longleftrightarrow> (let a = jb_main j in
     \<not> ja_empty a \<and> front_seq a = ts \<and> back_seq a = ts \<and> ja_front a = 0 \<and> ja_back a = 0
     \<and> length (slots a) = 64 \<and> slot 0 a = Some buf)
   \<and> ja_empty (jb_ec j) \<and> need_buffering j \<and> next_fetch j = ts - of_nat n \<and> n \<le> unat ts"

fun outputs :: "nat \<Rightarrow> jbuf \<Rightarrow> ((byte list option \<times> byte list option) list \<times> jbuf) option" where
  "outputs 0 j = Some ([], j)"
| "outputs (Suc n) j = do { ((dur, fr), j1) \<leftarrow> handle_output j; (frs, j2) \<leftarrow> outputs n j1; Some (fr # frs, j2) }"

lemma waiting_delay: "waiting j n ts buf \<Longrightarrow> current_delay j = Some 1"
  by (simp add: waiting_def current_delay_def ja_count_def Let_def slot_def)

lemma waiting_catch_up: "waiting j n ts buf \<Longrightarrow> catch_up j = Some (j\<lparr>jb_first := False\<rparr>)"
  by (auto simp: catch_up_def waiting_delay)

lemma waiting_scale:
  assumes "waiting j n ts buf"
  shows "\<exists>dur c. scale_playback j = Some (dur, j\<lparr>outstanding_change := c\<rparr>)"
proof (cases "outstanding_change j = 0")
  case True
  then have "scale_playback j = Some (60, j\<lparr>outstanding_change := outstanding_change j\<rparr>)"
    by (simp add: scale_playback_def waiting_delay [OF assms])
  then show ?thesis by blast
qed (auto simp: scale_playback_def)

lemma waiting_upd: "waiting (j\<lparr>jb_first := f\<rparr>) n ts buf = waiting j n ts buf"
  "waiting (j\<lparr>outstanding_change := c\<rparr>) n ts buf = waiting j n ts buf"
  by (simp_all add: waiting_def)

lemma unat_of_nat_le: "n \<le> unat (w :: u32) \<Longrightarrow> unat (of_nat n :: u32) = n"
  using unsigned_less [of w, where ?'a = nat] by (simp add: unat_of_nat)

lemma unat_sub_of_nat: "n \<le> unat (w :: u32) \<Longrightarrow> unat (w - of_nat n) = unat w - n"
  using unat_of_nat_le [of n w] by (simp add: unat_sub word_le_nat_alt)

lemma waiting_before: "waiting j (Suc n) ts buf \<Longrightarrow> next_fetch j < ts"
  using unat_sub_of_nat [of "Suc n" ts] by (auto simp: waiting_def word_less_nat_alt simp del: of_nat_Suc)

lemma waiting_step:
  assumes "waiting j (Suc n) ts buf"
  shows "\<exists>dur j'. handle_output j = Some ((dur, None, None), j') \<and> waiting j' n ts buf"
proof -
  let ?j1 = "j\<lparr>jb_first := False\<rparr>"
  have w1: "waiting ?j1 (Suc n) ts buf" using assms by (simp add: waiting_upd)
  obtain dur c where s: "scale_playback ?j1 = Some (dur, ?j1\<lparr>outstanding_change := c\<rparr>)"
    using waiting_scale [OF w1] by auto
  let ?j2 = "?j1\<lparr>outstanding_change := c\<rparr>"
  have w2: "waiting ?j2 (Suc n) ts buf" using w1 by (simp add: waiting_upd)
  have g: "ja_get (next_fetch ?j2) (jb_main ?j2) = None" "ja_get (next_fetch ?j2) (jb_ec ?j2) = None" "need_buffering ?j2"
    using w2 waiting_before [OF w2] by (auto simp: ja_get_def waiting_def Let_def)
  have "handle_output j = Some ((dur, None, None), ?j2\<lparr>next_fetch := next_fetch ?j2 + 1\<rparr>)"
    using g by (simp add: handle_output_def waiting_catch_up [OF assms] s note_loss_def)
  moreover have "waiting (?j2\<lparr>next_fetch := next_fetch ?j2 + 1\<rparr>) n ts buf"
    using w2 by (auto simp: waiting_def)
  ultimately show ?thesis by blast
qed

lemma waiting_out:
  assumes "waiting j 0 ts buf"
  shows "\<exists>dur j'. handle_output j = Some ((dur, Some buf, None), j') \<and> next_fetch j' = ts + 1
    \<and> (\<forall>x. content (jb_main j') x = None)"
proof -
  let ?j1 = "j\<lparr>jb_first := False\<rparr>"
  have w1: "waiting ?j1 0 ts buf" using assms by (simp add: waiting_upd)
  obtain dur c where s: "scale_playback ?j1 = Some (dur, ?j1\<lparr>outstanding_change := c\<rparr>)"
    using waiting_scale [OF w1] by auto
  let ?j2 = "?j1\<lparr>outstanding_change := c\<rparr>"
  have g: "ja_get (next_fetch ?j2) (jb_main ?j2) = Some 0" "ja_get (next_fetch ?j2) (jb_ec ?j2) = None" "next_fetch ?j2 = ts"
    "slot 0 (jb_main ?j2) = Some buf"
    using w1 by (auto simp: ja_get_def waiting_def Let_def get_offset_def)
  have "handle_output j = Some ((dur, Some buf, None), ?j2\<lparr>next_fetch := next_fetch ?j2 + 1, lost_count := 0,
      need_buffering := False, jb_main := set_slot 0 None (jb_main ?j2), jb_ec := jb_ec ?j2\<rparr>)"
    using g by (simp add: handle_output_def waiting_catch_up [OF assms] s move_out_def)
  moreover have "content (set_slot 0 None (jb_main ?j2)) x = None" for x
    using w1 by (auto simp: content_conv waiting_def Let_def set_slot_def ja_empty_def at_back_def gap_def)
  ultimately show ?thesis using g(3) by auto
qed

lemma waiting_outputs: "waiting j n ts buf \<Longrightarrow>
    \<exists>j'. outputs n j = Some (replicate n (None, None), j') \<and> waiting j' 0 ts buf"
proof (induction n arbitrary: j)
  case (Suc n)
  from waiting_step [OF Suc.prems] Suc.IH show ?case by fastforce
qed auto


abbreviation single :: "u32 \<Rightarrow> byte list \<Rightarrow> jarray \<Rightarrow> jarray" where
  "single ts buf a \<equiv> set_slot 0 (Some buf) (a\<lparr>back_seq := ts, front_seq := ts, ja_back := 0, ja_front := 0\<rparr>)"

lemma advance_both_empty: "ja_empty (jb_main j) \<Longrightarrow> ja_empty (jb_ec j) \<Longrightarrow> advance_both sq j = Some j"
  by (simp add: advance_both_def ja_advance_def)

lemma current_delay_empty: "ja_empty (jb_main j) \<Longrightarrow> ja_empty (jb_ec j) \<Longrightarrow> current_delay j = Some 0"
  by (simp add: current_delay_def ja_count_def)

lemma insert_empty:
  assumes "ja_empty (jb_main j)" "ja_empty (jb_ec j)"
  shows "\<exists>lp. insert_packet now buf ts ec j
    = Some ((set_slots ec (single ts buf (which_slots ec j)) (j\<lparr>last_put := lp\<rparr>))\<lparr>next_fetch := next_fetch j, prev_recv := now\<rparr>)"
proof -
  obtain lp where j: "(if ts > last_put j then j\<lparr>last_put := ts\<rparr> else j) = j\<lparr>last_put := lp\<rparr>"
    by (cases "ts > last_put j") (fastforce intro: that [of "last_put j"])+
  let ?j = "j\<lparr>last_put := lp\<rparr>"
  have e: "current_delay ?j = Some 0" "which_slots ec ?j = which_slots ec j" "ja_empty (which_slots ec j)"
    using assms by (auto simp: which_slots_def intro: current_delay_empty)
  have "insert_packet now buf ts ec j
    = Some ((set_slots ec (single ts buf (which_slots ec j)) ?j)\<lparr>next_fetch := next_fetch j, prev_recv := now\<rparr>)"
    by (simp add: insert_packet_def Let_def j e(1) e(2) ja_put_def e(3) set_slots_def)
  then show ?thesis by blast
qed

lemma to_int32_diff: "n \<le> 2 ^ 31 \<Longrightarrow> unat ts < 2 ^ 31 \<Longrightarrow>
    to_int32 (real (unat ts) - real n) = Some (ts - of_nat n)"
proof -
  assume n: "n \<le> 2 ^ 31" "unat ts < 2 ^ 31"
  have "trunc (real m - real n) = int m - int n" for m
  proof -
    have r: "real m - real n = real_of_int (int m - int n)" by simp
    show ?thesis unfolding r trunc_def by (simp only: floor_of_int ceiling_of_int) simp
  qed
  moreover have "- (2 ^ 31) \<le> int m - int n \<and> int m - int n < 2 ^ 31" if "m < 2 ^ 31" for m
    using n that by auto
  moreover have "of_int (int (unat ts) - int n) = ts - of_nat n" by simp
  ultimately show ?thesis using n(2) by (simp only: to_int32_def if_P)
qed

lemma reset_simps [simp]:
  "was_reset (jb_reset j)" "ja_empty (jb_main (jb_reset j))" "ja_empty (jb_ec (jb_reset j))"
  "need_buffering (jb_reset j)" "min_delay (jb_reset j) = min_delay j" "which_slots ec (jb_reset j) = ja_clear (which_slots ec j)"
  by (simp_all add: jb_reset_def which_slots_def)

text \<open>The first input after a reset, up to the check for late packets.\<close>

lemma first_input:
  assumes "min_delay j = real d" "d \<le> 2 ^ 31" "unat ts < 2 ^ 31"
  shows "\<exists>j3. handle_input now buf ts ec (jb_reset j) =
      (if ts < ts - of_nat d
       then insert_packet now buf ts ec (if \<not> ec
              then j3\<lparr>late_packets := late_packets j3 + 1, lost_packets := lost_packets j3 - 1\<rparr> else j3)
       else if ts < ts - of_nat d - 1
       then Some (if \<not> ec then j3\<lparr>late_packets := late_packets j3 + 1\<rparr> else j3)
       else insert_packet now buf ts ec j3)
    \<and> jb_main j3 = ja_clear (jb_main j) \<and> jb_ec j3 = ja_clear (jb_ec j) \<and> need_buffering j3
    \<and> next_fetch j3 = ts - of_nat d \<and> \<not> was_reset j3"
proof -
  let ?r = "jb_reset j"
  define j1 where "j1 = ?r\<lparr>got_since := got_since ?r + 1, was_reset := False, outstanding_change := 0,
      next_fetch := ts - of_nat d, jb_first := True\<rparr>"
  have r: "resync ts (?r\<lparr>got_since := got_since ?r + 1\<rparr>) = Some j1"
    using to_int32_diff [of d ts] assms by (simp add: resync_def j1_def)
  have e: "jb_main j1 = ja_clear (jb_main j)" "jb_ec j1 = ja_clear (jb_ec j)" "need_buffering j1"
    "next_fetch j1 = ts - of_nat d" "\<not> was_reset j1"
    by (simp_all add: j1_def jb_reset_def)
  have h: "\<not> ja_has ts (which_slots ec ?r)" by (simp add: ja_has_def ja_get_def)
  have n: "jb_main (note_deviation now j1) = jb_main j1" "jb_ec (note_deviation now j1) = jb_ec j1"
    "need_buffering (note_deviation now j1) = need_buffering j1" "next_fetch (note_deviation now j1) = next_fetch j1"
    "was_reset (note_deviation now j1) = was_reset j1"
    by (simp_all add: note_deviation_def)
  show ?thesis
    by (rule exI [of _ "note_deviation now j1"])
      (simp add: handle_input_def h r advance_both_empty e n Let_def del: reset_simps(6))
qed


lemma second_input:
  assumes "\<not> was_reset j" "\<not> ja_empty (jb_main j)" "front_seq (jb_main j) = ts" "back_seq (jb_main j) = ts"
    and "ja_empty (jb_ec j)" "ts' \<noteq> ts" "ts < next_fetch j - 1"
  shows "\<exists>j2. handle_input now buf ts' ec j = Some j2 \<and> content (jb_main j2) ts = None"
proof -
  have h: "\<not> ja_has ts' (which_slots ec j)"
    using assms by (auto simp: ja_has_def ja_get_def which_slots_def Let_def)
  let ?j1 = "j\<lparr>got_since := got_since j + 1\<rparr>"
  define j2 where "j2 = note_deviation now (?j1\<lparr>jb_main := ja_clear (jb_main j)\<rparr>)"
  have adv: "advance_both (next_fetch ?j1 - 1) ?j1 = Some (?j1\<lparr>jb_main := ja_clear (jb_main j), jb_ec := jb_ec j\<rparr>)"
    using assms by (simp add: advance_both_def ja_advance_def)
  have e: "jb_main j2 = ja_clear (jb_main j)" "jb_ec j2 = jb_ec j"
    by (simp_all add: j2_def note_deviation_def)
  have run: "handle_input now buf ts' ec j = (if ts' < next_fetch j2
       then insert_packet now buf ts' ec (if \<not> ec
              then j2\<lparr>late_packets := late_packets j2 + 1, lost_packets := lost_packets j2 - 1\<rparr> else j2)
       else if ts' < next_fetch j2 - 1
       then Some (if \<not> ec then j2\<lparr>late_packets := late_packets j2 + 1\<rparr> else j2)
       else insert_packet now buf ts' ec j2)"
    using assms(1) h adv by (simp add: handle_input_def resync_def Let_def j2_def)
  have ins: "\<exists>j3. insert_packet now buf ts' ec k = Some j3 \<and> content (jb_main j3) ts = None"
    if "jb_main k = ja_clear (jb_main j)" "jb_ec k = jb_ec j" for k
  proof -
    have "ja_empty (jb_main k)" "ja_empty (jb_ec k)" using that assms(5) by simp_all
    from insert_empty [OF this, of now buf ts' ec] obtain lp where i: "insert_packet now buf ts' ec k
        = Some ((set_slots ec (single ts' buf (which_slots ec k)) (k\<lparr>last_put := lp\<rparr>))\<lparr>next_fetch := next_fetch k, prev_recv := now\<rparr>)"
      by blast
    have "content (single ts' buf a) ts = None" for a
      using assms(6) by (auto simp: content_conv set_slot_def)
    with i that show ?thesis by (cases ec) (simp_all add: set_slots_def which_slots_def)
  qed
  show ?thesis unfolding run using ins [of j2] ins e by (auto simp: content_empty)
qed




lemma clamp_unit: "- 1 \<le> clamp i (- 1) 1" "clamp i (- 1) 1 \<le> 1" for i :: int
  by (simp_all add: clamp_def)

lemma adapt_bounds:
  assumes "adapt_min_delay sd j = Some j'"
  shows "min_delay j - 1 \<le> min_delay j' \<and> min_delay j' \<le> min_delay j + 1
    \<and> (min_delay j < min_delay j' \<longrightarrow> dont_inc_for j' = 25)
    \<and> (dont_inc_for j \<noteq> 0 \<longrightarrow> dont_inc_for j' = dont_inc_for j \<and> min_delay j' \<le> min_delay j)"
proof (cases "real (unat sd) = min_delay j")
  case False
  then obtain d where "to_int32 (real (unat sd) - min_delay j) = Some d"
    using assms by (auto simp: adapt_min_delay_def split: bind_splits)
  moreover obtain e where e: "e = clamp (sint d) (- 1) 1" "- 1 \<le> e" "e \<le> 1"
    using clamp_unit [of "sint d"] by blast
  then have "- 1 \<le> real_of_int e" "real_of_int e \<le> 1" by simp_all
  ultimately show ?thesis
    using assms False e(2,3) unfolding adapt_min_delay_def e(1) [symmetric]
    by (auto simp: Let_def e(1) [symmetric] split: if_splits)
qed (use assms in \<open>simp add: adapt_min_delay_def\<close>)

text \<open>
  Once the minimum delay has been raised, or a run of losses has reset the buffer, no tick
  raises it again: the counter that delays the next increase is set but never counted down.
  A tick moves the minimum delay by at most one.
\<close>

theorem jitter_delay_never_again:
  assumes "jb_tick j = Some j'"
  shows "min_delay j - 1 \<le> min_delay j' \<and> min_delay j' \<le> min_delay j + 1
    \<and> (min_delay j < min_delay j' \<longrightarrow> dont_inc_for j' = 25)
    \<and> (dont_inc_for j \<noteq> 0 \<longrightarrow> dont_inc_for j' = dont_inc_for j \<and> min_delay j' \<le> min_delay j)"
proof -
  obtain j1 j2 j3 sd where s: "note_late j = Some j1" "note_delay j1 = Some j2" "adapt_min_delay sd j2 = Some j3"
    "min_delay j' = min_delay j3" "dont_inc_for j' = dont_inc_for j3"
    using assms by (auto simp: jb_tick_def Let_def adapt_playback_def split: bind_splits if_splits)
  have 1: "min_delay j1 = min_delay j" "dont_inc_for j1 = dont_inc_for j"
    using s(1) by (auto simp: note_late_def Let_def split: bind_splits)
  have 2: "min_delay j2 = min_delay j1" "dont_inc_for j2 = dont_inc_for j1"
    using s(2) by (auto simp: note_delay_def Let_def split: bind_splits)
  show ?thesis using s(3) unfolding s(4,5) 1 [symmetric] 2 [symmetric] by (rule adapt_bounds)
qed


lemma nth_zero_ring: "i < 64 \<Longrightarrow> hist_nth (hist_new 64) i = Inr (0 :: real)"
  using hist_nth_hlist [of "hist_new 64 :: real hist" i] hok_new [of 64, where ?'a = real]
  by (simp only: hlist_new) (simp add: hist_new_def)

lemma sum_squares_zero: "n \<le> 64 \<Longrightarrow> sum_squares (hist_new 64) 0 n = Inr 0"
  by (induction n) (simp_all add: nth_zero_ring)

lemma average_zero: "n \<le> 64 \<Longrightarrow> value_of (hist_average_first n (hist_add 0 (hist_new 64))) = Some 0"
proof -
  assume n: "n \<le> 64"
  let ?h = "hist_add 0 (hist_new 64 :: real hist)"
  have "hlist ?h = replicate 64 0" by (simp only: hlist_add hok_new hlist_new) (simp add: eval_nat_numeral)
  moreover have "length (hdata ?h) = 64" by (simp add: hist_add_def hist_new_def)
  moreover have "hok ?h" by (intro hok_add hok_new) simp
  ultimately have "sum_first ?h n = Inr 0" using n sum_first_hlist [of ?h n] by (simp add: sum_list_replicate)
  then show ?thesis by (simp only: hist_average_first_def) (simp add: value_of_def)
qed

theorem jitter_delay_never_again_witness:
  "\<exists>j'. jb_tick (jb_new (\<lambda>_ d. d) (\<lambda>_ d. d) 60\<lparr>dont_inc_for := 25\<rparr>) = Some j' \<and> min_delay j' \<le> 6"
proof -
  let ?j = "jb_new (\<lambda>_ d. d) (\<lambda>_ d. d) 60\<lparr>dont_inc_for := 25\<rparr>"
  have h: "late_hist ?j = hist_new 64" "delay_hist ?j = hist_new 64" "deviation_hist ?j = hist_new 64"
    "late_packets ?j = 0" "jb_step ?j = 60" "min_delay ?j = 6" "dont_inc_for ?j = 25"
    "min_min_delay ?j = 2" "max_min_delay ?j = 10"
    and e: "ja_empty (jb_main ?j)" "ja_empty (jb_ec ?j)"
    by (simp_all add: jb_new_def jb_reset_def hist_reset_def hist_new_def)
  obtain j1 where 1: "note_late ?j = Some j1" "delay_hist j1 = hist_new 64" "deviation_hist j1 = hist_new 64"
    "jb_main j1 = jb_main ?j" "jb_ec j1 = jb_ec ?j" "jb_step j1 = 60" "min_delay j1 = 6"
    "min_min_delay j1 = 2" "max_min_delay j1 = 10"
    using h average_zero [of 16] by (simp add: note_late_def Let_def)
  obtain j2 where 2: "note_delay j1 = Some j2" "deviation_hist j2 = hist_new 64" "jb_step j2 = 60" "min_delay j2 = 6"
    "min_min_delay j2 = 2" "max_min_delay j2 = 10"
    using 1 e average_zero [of 32] by (simp add: note_delay_def Let_def current_delay_empty)
  have 3: "deviation (hist_new 64) = Some 0"
    using sum_squares_zero [of 64] by (simp add: deviation_def hist_average_def value_of_def hist_new_def sum_list_replicate)
  have 4: "to_uint32 0 = Some 0" by (simp add: to_uint32_def trunc_def)
  have "to_int32 (real (unat (2 :: u32)) - real 6) = Some (2 - of_nat 6)" by (rule to_int32_diff) simp_all
  then obtain j3 where "adapt_min_delay 2 j2 = Some j3" by (simp add: adapt_min_delay_def 2 Let_def)
  then have "\<exists>j'. jb_tick ?j = Some j'"
    using 1(1) 2 3 4 by (simp add: jb_tick_def Let_def clamp_def)
  with jitter_delay_never_again [of ?j] h show ?thesis by auto
qed

end
