(* ===== verification/Messages.thy ===== *)
theory Messages
  imports Complex_Main Prelude
begin

section \<open>Message thread (tools/MessageThread.h, tools/MessageThread.cpp)\<close>

text \<open>
  The thread on which the controller runs everything: a queue of functions with delivery times,
  kept in the order of these times. The functions are opaque (\<open>'f\<close>, \<open>None\<close> for a null
  function); what they do to the thread is the argument \<open>exec\<close>. Times are exact reals, and the
  clock is an argument of every operation that reads it.
\<close>

record 'f message =
  msg_id :: u32
  deliver_at :: real
  interval :: real
  func :: "'f option"

record 'f mthread =
  mt_queue :: "'f message list"
  last_message_id :: u32
  cancel_current :: bool

definition mt_new :: "'f mthread" where
  "mt_new = \<lparr>mt_queue = [], last_message_id = 1, cancel_current = False\<rparr>"

text \<open>The search for the place behind \<open>insertAfter\<close>, which starts at a first element.\<close>

fun insert_behind :: "'f message \<Rightarrow> 'f message list \<Rightarrow> 'f message list" where
  "insert_behind m [] = []"
| "insert_behind m [x] = [x, m]"
| "insert_behind m (x # y # ys) =
    (if deliver_at y > deliver_at m \<and> deliver_at x \<le> deliver_at m then x # m # y # ys
     else x # insert_behind m (y # ys))"

definition insert_message :: "'f message \<Rightarrow> 'f message list \<Rightarrow> 'f message list" where
  "insert_message m q = (if q = [] then [m]
     else if deliver_at (hd q) > deliver_at m then m # q
     else insert_behind m q)"

definition mt_insert :: "'f message \<Rightarrow> ('f, 'z) mthread_scheme \<Rightarrow> ('f, 'z) mthread_scheme" where
  "mt_insert m s = s\<lparr>mt_queue := insert_message m (mt_queue s)\<rparr>"

text \<open>\<^verbatim>\<open>Post\<close> asserts that the delay is not negative.\<close>

definition mt_post :: "real \<Rightarrow> 'f option \<Rightarrow> real \<Rightarrow> real \<Rightarrow> ('f, 'z) mthread_scheme
    \<Rightarrow> (u32 \<times> ('f, 'z) mthread_scheme) option" where
  "mt_post now f delay ivl s = (if delay < 0 then None
     else let m = \<lparr>msg_id = last_message_id s, deliver_at = (if delay = 0 then 0 else now + delay),
                   interval = ivl, func = f\<rparr> in
       Some (msg_id m, mt_insert m (s\<lparr>last_message_id := last_message_id s + 1\<rparr>)))"

definition mt_cancel :: "u32 \<Rightarrow> ('f, 'z) mthread_scheme \<Rightarrow> ('f, 'z) mthread_scheme" where
  "mt_cancel i s = s\<lparr>mt_queue := filter (\<lambda>m. msg_id m \<noteq> i) (mt_queue s)\<rparr>"

definition mt_cancel_self :: "('f, 'z) mthread_scheme \<Rightarrow> ('f, 'z) mthread_scheme" where
  "mt_cancel_self s = s\<lparr>cancel_current := True\<rparr>"

text \<open>One pass of \<^verbatim>\<open>Run\<close> after the wait: the due messages are taken out of the queue, then
  delivered one by one; one with an interval is inserted again unless it cancelled itself. The time until which
  the thread waits before the pass; \<open>None\<close> stands for an unlimited wait.\<close>

definition wait_timeout :: "real \<Rightarrow> ('f, 'z) mthread_scheme \<Rightarrow> real option" where
  "wait_timeout now s = (case mt_queue s of [] \<Rightarrow> None | m # q \<Rightarrow> Some (deliver_at m - now))"

definition due :: "real \<Rightarrow> 'f message \<Rightarrow> bool" where
  "due now m \<longleftrightarrow> deliver_at m = 0 \<or> now \<ge> deliver_at m"

definition deliver :: "('f \<Rightarrow> ('f, 'z) mthread_scheme \<Rightarrow> ('f, 'z) mthread_scheme) \<Rightarrow> (u32 \<Rightarrow> real)
    \<Rightarrow> 'f message \<Rightarrow> ('f, 'z) mthread_scheme \<Rightarrow> ('f, 'z) mthread_scheme" where
  "deliver exec clk m s =
    (let s1 = s\<lparr>cancel_current := False\<rparr>;
         m1 = (if deliver_at m = 0 then m\<lparr>deliver_at := clk (msg_id m)\<rparr> else m);
         s2 = (case func m1 of None \<Rightarrow> s1 | Some f \<Rightarrow> exec f s1)
     in if \<not> cancel_current s2 \<and> interval m1 > 0
        then mt_insert (m1\<lparr>deliver_at := deliver_at m1 + interval m1\<rparr>) s2 else s2)"

definition run_pass :: "('f \<Rightarrow> ('f, 'z) mthread_scheme \<Rightarrow> ('f, 'z) mthread_scheme) \<Rightarrow> real \<Rightarrow> (u32 \<Rightarrow> real)
    \<Rightarrow> ('f, 'z) mthread_scheme \<Rightarrow> ('f, 'z) mthread_scheme" where
  "run_pass exec now clk s =
    fold (deliver exec clk) (filter (due now) (mt_queue s))
      (s\<lparr>mt_queue := filter (\<lambda>m. \<not> due now m) (mt_queue s)\<rparr>)"

subsection \<open>The order of the queue\<close>

abbreviation by_time :: "'f message list \<Rightarrow> bool" where
  "by_time q \<equiv> sorted (map deliver_at q)"

lemma insert_behind_sorted:
  assumes "by_time q" "q \<noteq> []" "deliver_at (hd q) \<le> deliver_at m"
  shows "insert_behind m q = takeWhile (\<lambda>x. deliver_at x \<le> deliver_at m) q @ m
      # dropWhile (\<lambda>x. deliver_at x \<le> deliver_at m) q"
  using assms
proof (induction m q rule: insert_behind.induct)
  case (3 m x y ys)
  then show ?case by (cases "deliver_at y \<le> deliver_at m") auto
qed auto

lemma insert_message_sorted:
  "by_time q \<Longrightarrow> insert_message m q = takeWhile (\<lambda>x. deliver_at x \<le> deliver_at m) q @ m
      # dropWhile (\<lambda>x. deliver_at x \<le> deliver_at m) q"
  by (cases q) (auto simp: insert_message_def insert_behind_sorted not_le)

lemma later_behind:
  assumes "by_time q" "x \<in> set (dropWhile (\<lambda>x. deliver_at x \<le> deliver_at m) q)"
  shows "deliver_at m < deliver_at x"
proof -
  let ?P = "\<lambda>x. deliver_at x \<le> deliver_at m"
  obtain y ys where d: "dropWhile ?P q = y # ys" using assms(2) by (metis empty_iff list.exhaust list.set(1))
  then have "\<not> ?P y" by (metis hd_dropWhile list.discI list.sel(1))
  moreover have "by_time (y # ys)"
    using assms(1) unfolding d [symmetric] by (metis sorted_wrt_append map_append takeWhile_dropWhile_id)
  ultimately show ?thesis using assms(2) unfolding d by auto
qed

lemma by_time_insert: "by_time q \<Longrightarrow> by_time (insert_message m q)"
proof -
  assume q: "by_time q"
  let ?P = "\<lambda>x. deliver_at x \<le> deliver_at m"
  have "by_time (takeWhile ?P q)" "by_time (dropWhile ?P q)"
    using q by (metis sorted_wrt_append map_append takeWhile_dropWhile_id)+
  then show ?thesis
    unfolding insert_message_sorted [OF q]
    by (force simp: sorted_wrt_append dest: set_takeWhileD later_behind [OF q] intro: order_trans)
qed

lemma by_time_filter: "by_time q \<Longrightarrow> by_time (filter P q)"
  by (induction q) auto

text \<open>
  Inserting a message keeps the queue ordered by delivery time: the message goes behind
  everything that is due earlier or at the same time and before everything due later, and
  nothing else moves. So messages with equal times are delivered in the order in which they were posted.
\<close>

theorem mt_insert_in_order:
  assumes "by_time q"
  shows "by_time (insert_message m q)
    \<and> (\<exists>a b. q = a @ b \<and> insert_message m q = a @ m # b
         \<and> (\<forall>x \<in> set a. deliver_at x \<le> deliver_at m) \<and> (\<forall>x \<in> set b. deliver_at m < deliver_at x))"
proof (intro conjI exI)
  let ?P = "\<lambda>x. deliver_at x \<le> deliver_at m"
  show "by_time (insert_message m q)" by (rule by_time_insert [OF assms])
  show "q = takeWhile ?P q @ dropWhile ?P q" by simp
  show "insert_message m q = takeWhile ?P q @ m # dropWhile ?P q" by (rule insert_message_sorted [OF assms])
  show "\<forall>x \<in> set (takeWhile ?P q). deliver_at x \<le> deliver_at m" by (auto dest: set_takeWhileD)
  show "\<forall>x \<in> set (dropWhile ?P q). deliver_at m < deliver_at x" by (auto dest: later_behind [OF assms])
qed

theorem mt_insert_in_order_witness:
  "by_time (insert_message \<lparr>msg_id = 3, deliver_at = 2, interval = 0, func = Some ()\<rparr>
     [\<lparr>msg_id = 1, deliver_at = 2, interval = 0, func = None\<rparr>, \<lparr>msg_id = 2, deliver_at = 5, interval = 0, func = None\<rparr>])"
  using mt_insert_in_order [of "[\<lparr>msg_id = 1, deliver_at = 2, interval = 0, func = None\<rparr>,
      \<lparr>msg_id = 2, deliver_at = 5, interval = 0, func = None\<rparr>]"
      "\<lparr>msg_id = 3, deliver_at = 2, interval = 0, func = Some ()\<rparr>"]
  by simp

subsection \<open>A pass\<close>

lemma deliver_log:
  assumes "\<And>f t. logged (exec f t) = logged t @ [f]"
    and "\<And>t q c. logged (t\<lparr>mt_queue := q\<rparr>) = logged t \<and> logged (t\<lparr>cancel_current := c\<rparr>) = logged t"
  shows "logged (deliver exec clk m s) = logged s @ (case func m of None \<Rightarrow> [] | Some f \<Rightarrow> [f])"
  using assms by (auto simp: deliver_def Let_def mt_insert_def split: option.splits)

lemma deliver_by_time:
  assumes "\<And>f t. by_time (mt_queue t) \<Longrightarrow> by_time (mt_queue (exec f t))" "by_time (mt_queue s)"
  shows "by_time (mt_queue (deliver exec clk m s))"
  using assms by (auto simp: deliver_def Let_def mt_insert_def intro!: by_time_insert split: option.splits)

text \<open>
  C14: a pass runs exactly the messages that were due when it began, once each and in the order
  of their delivery times, whatever they do: a message that another one of the
  same pass cancels still runs. Afterwards the queue is in order again. \<open>logged\<close> is any record of
  the functions run that the thread's own bookkeeping leaves alone.
\<close>

theorem mt_pass_runs_due:
  fixes logged :: "('f, 'z) mthread_scheme \<Rightarrow> 'f list"
  assumes "\<And>f t. logged (exec f t) = logged t @ [f]"
    and "\<And>t q c. logged (t\<lparr>mt_queue := q\<rparr>) = logged t \<and> logged (t\<lparr>cancel_current := c\<rparr>) = logged t"
    and "\<And>f t. by_time (mt_queue t) \<Longrightarrow> by_time (mt_queue (exec f t))"
    and "by_time (mt_queue s)"
  shows "logged (run_pass exec now clk s) = logged s @ List.map_filter func (filter (due now) (mt_queue s))
    \<and> by_time (filter (due now) (mt_queue s)) \<and> by_time (mt_queue (run_pass exec now clk s))"
proof -
  have l: "logged (fold (deliver exec clk) ms t) = logged t @ List.map_filter func ms" for ms t
    by (induction ms arbitrary: t) (auto simp: deliver_log [where exec = exec and logged = logged, OF assms(1,2)]
        List.map_filter_simps split: option.splits)
  have q: "by_time (mt_queue t) \<Longrightarrow> by_time (mt_queue (fold (deliver exec clk) ms t))" for ms t
    using deliver_by_time [of exec, OF assms(3)] by (induction ms arbitrary: t) auto
  show ?thesis
    using assms(2,4) by (auto simp: run_pass_def l intro!: q by_time_filter)
qed

text \<open>A message that cancels another one, and keeps a record.\<close>

record cancelling = "u32 mthread" + mt_log :: "u32 list"

definition cancel_and_log :: "u32 \<Rightarrow> cancelling \<Rightarrow> cancelling" where
  "cancel_and_log i s = (mt_cancel i s)\<lparr>mt_log := mt_log s @ [i]\<rparr>"

theorem mt_pass_runs_due_witness:
  "mt_log (run_pass cancel_and_log 9 (\<lambda>_. 9)
     \<lparr>mt_queue = [\<lparr>msg_id = 1, deliver_at = 3, interval = 0, func = Some 2\<rparr>,
        \<lparr>msg_id = 2, deliver_at = 5, interval = 0, func = Some 1\<rparr>],
      last_message_id = 3, cancel_current = False, mt_log = []\<rparr>) = [2, 1]"
proof -
  let ?s = "\<lparr>mt_queue = [\<lparr>msg_id = 1, deliver_at = 3, interval = 0, func = Some 2\<rparr>,
        \<lparr>msg_id = 2, deliver_at = 5, interval = 0, func = Some 1\<rparr>],
      last_message_id = 3, cancel_current = False, mt_log = []\<rparr>"
  have "mt_log (run_pass cancel_and_log 9 (\<lambda>_. 9) ?s)
      = mt_log ?s @ List.map_filter func (filter (due 9) (mt_queue ?s))"
    by (rule mt_pass_runs_due [THEN conjunct1])
      (simp_all add: cancel_and_log_def mt_cancel_def by_time_filter)
  then show ?thesis by (simp add: due_def List.map_filter_simps)
qed

text \<open>
  A repeating message that cancels itself by its number is not cancelled: while it runs it
  is not in the queue, and it is inserted again afterwards, one interval later. Only
  \<^verbatim>\<open>CancelSelf\<close> ends it.
\<close>

theorem mt_cancel_own_number:
  assumes "func m = Some f" "interval m > 0"
  shows "(exec f = mt_cancel (msg_id m) \<longrightarrow>
       (\<exists>x \<in> set (mt_queue (deliver exec clk m s)). msg_id x = msg_id m \<and> func x = Some f
          \<and> deliver_at x = (if deliver_at m = 0 then clk (msg_id m) else deliver_at m) + interval m))
    \<and> (exec f = mt_cancel_self \<longrightarrow> mt_queue (deliver exec clk m s) = mt_queue s)"
proof -
  have "x \<in> set (insert_message x q)" for x and q :: "'a message list"
  proof -
    have "x \<in> set (insert_behind x q)" if "q \<noteq> []"
      using that by (induction x q rule: insert_behind.induct) auto
    then show ?thesis by (auto simp: insert_message_def)
  qed
  then show ?thesis
    using assms by (auto simp: deliver_def Let_def mt_insert_def mt_cancel_def mt_cancel_self_def
        intro!: bexI [of _ "m\<lparr>deliver_at := (if deliver_at m = 0 then clk (msg_id m) else deliver_at m) + interval m\<rparr>"])
qed

theorem mt_cancel_own_number_witness:
  "\<exists>x \<in> set (mt_queue (deliver (\<lambda>_. mt_cancel 7) (\<lambda>_. 4)
      \<lparr>msg_id = 7, deliver_at = 0, interval = 1, func = Some ()\<rparr> mt_new)). msg_id x = 7 \<and> deliver_at x = 5"
  using mt_cancel_own_number [of "\<lparr>msg_id = 7, deliver_at = 0, interval = 1, func = Some ()\<rparr>" "()"
      "\<lambda>_. mt_cancel 7" "\<lambda>_. 4" mt_new]
  by auto

end
