(* ===== verification/Video_FEC.thy ===== *)
theory Video_FEC
  imports Prelude
begin

section \<open>Parity error correction of video packets (video/VideoFEC.cpp)\<close>

text \<open>
  \<^verbatim>\<open>ParityFEC\<close>: the bytewise exclusive or of the packets of a group, followed by the exclusive
  or of their lengths. Buffers are byte lists; the empty buffer is the empty list.
\<close>

definition xor_at :: "nat \<Rightarrow> byte \<Rightarrow> byte list \<Rightarrow> byte list" where
  "xor_at i b r = r[i := r ! i XOR b]"

definition max_size :: "byte list list \<Rightarrow> nat" where
  "max_size ps = fold (\<lambda>p m. max m (length p)) ps 0"

text \<open>One packet: its bytes, then the two bytes of its length, which is cut to 16 bits.\<close>

definition xor_bytes :: "byte list \<Rightarrow> byte list \<Rightarrow> byte list" where
  "xor_bytes p r = fold (\<lambda>i. xor_at i (p ! i)) [0..<length p] r"

definition xor_packet :: "nat \<Rightarrow> byte list \<Rightarrow> byte list \<Rightarrow> byte list" where
  "xor_packet n p r = (let len = of_nat (length p) :: u16 in
     xor_at (n + 1) (ucast (drop_bit 8 len)) (xor_at n (ucast len) (xor_bytes p r)))"

definition fec_encode :: "byte list list \<Rightarrow> byte list" where
  "fec_encode ps = (let n = max_size ps in fold (xor_packet n) ps (replicate (n + 2) 0))"

text \<open>Decoding: the lost packet is empty, and there must be exactly one.\<close>

definition fec_decode :: "byte list list \<Rightarrow> byte list \<Rightarrow> byte list" where
  "fec_decode ps fec = (let n = max_size ps in
     if length fec < n + 2 then []
     else let r = fold (\<lambda>p r. if length p = 0 then r else xor_packet n p r) ps fec;
              empty_count = length (filter (\<lambda>p. length p = 0) ps) in
       if empty_count \<noteq> 1 then []
       else let len = ucast (r ! n) OR push_bit 8 (ucast (r ! (n + 1))) :: u16 in
         if unat len > n then [] else take (unat len) r)"

subsection \<open>Exclusive or at a position\<close>

text \<open>What a packet contributes at each position of the parity.\<close>

definition contrib :: "nat \<Rightarrow> byte list \<Rightarrow> nat \<Rightarrow> byte" where
  "contrib n p i = (if i < length p then p ! i
     else if i = n then ucast (of_nat (length p) :: u16)
     else if i = n + 1 then ucast (drop_bit 8 (of_nat (length p) :: u16)) else 0)"

lemma length_xor [simp]: "length (xor_at i b r) = length r" "length (xor_bytes p r) = length r"
  "length (xor_packet n p r) = length r"
proof -
  have 1: "length (fold (\<lambda>i. xor_at i (f i)) is r) = length r" for f "is" r
    by (induction "is" arbitrary: r) (simp_all add: xor_at_def)
  show "length (xor_at i b r) = length r" by (simp add: xor_at_def)
  then show "length (xor_bytes p r) = length r" "length (xor_packet n p r) = length r"
    by (simp_all add: xor_packet_def xor_bytes_def xor_at_def 1 Let_def)
qed

lemma nth_xor_bytes: "i < length r \<Longrightarrow> xor_bytes p r ! i = (if i < length p then r ! i XOR p ! i else r ! i)"
proof -
  have "fold (\<lambda>i. xor_at i (p ! i)) [0..<k] r ! i = (if i < k then r ! i XOR p ! i else r ! i)"
    if "i < length r" for k
  proof (induction k)
    case (Suc k)
    define g where "g = fold (\<lambda>i. xor_at i (p ! i)) [0..<k] r"
    have "length g = length r" unfolding g_def by (induction k) (simp_all add: xor_at_def)
    then have "xor_at k (p ! k) g ! i = (if i < Suc k then r ! i XOR p ! i else r ! i)"
      using Suc.IH that unfolding g_def [symmetric] by (cases "i = k") (auto simp: xor_at_def)
    then show ?case by (simp add: g_def)
  qed simp
  then show "i < length r \<Longrightarrow> ?thesis" by (simp add: xor_bytes_def)
qed

lemma nth_xor_packet:
  assumes "length p \<le> n" "i < length r" "n + 2 \<le> length r"
  shows "xor_packet n p r ! i = r ! i XOR contrib n p i"
  using assms by (auto simp: xor_packet_def Let_def xor_at_def nth_list_update nth_xor_bytes contrib_def)

lemma nth_parity:
  "(\<forall>p \<in> set ps. length p \<le> n) \<Longrightarrow> i < length r \<Longrightarrow> n + 2 \<le> length r \<Longrightarrow>
     fold (xor_packet n) ps r ! i = fold (\<lambda>p b. b XOR contrib n p i) ps (r ! i)"
  by (induction ps arbitrary: r) (simp_all add: nth_xor_packet)

lemma length_parity [simp]: "length (fold (xor_packet n) ps r) = length r"
  by (induction ps arbitrary: r) simp_all

lemma fold_xor: "fold (\<lambda>p b. b XOR f p) ps (a XOR c) = fold (\<lambda>p b. b XOR f p) ps a XOR (c :: byte)"
proof (induction ps arbitrary: a)
  case (Cons p ps)
  have "(a XOR c) XOR f p = (a XOR f p) XOR c" by (simp only: ac_simps)
  then show ?case using Cons [of "a XOR f p"] by simp
qed simp

lemma fold_xor_twice: "fold (\<lambda>p b. b XOR f p) ps (fold (\<lambda>p b. b XOR f p) ps a) = (a :: byte)"
proof (induction ps arbitrary: a)
  case (Cons p ps)
  have "fold (\<lambda>p b. b XOR f p) ps (fold (\<lambda>p b. b XOR f p) ps (a XOR f p) XOR f p)
      = fold (\<lambda>p b. b XOR f p) ps (fold (\<lambda>p b. b XOR f p) ps (a XOR f p)) XOR f p"
    by (rule fold_xor)
  also have "\<dots> = a" by (simp add: Cons.IH xor.assoc)
  finally show ?case by simp
qed simp

lemma max_size_fold: "fold (\<lambda>p m. max m (length p)) ps k = max k (max_size ps)"
proof (induction ps arbitrary: k)
  case (Cons p ps)
  show ?case using Cons [of "max k (length p)"] Cons [of "length p"] by (simp add: max_size_def)
qed (simp add: max_size_def)

lemma max_size_simps [simp]: "max_size [] = 0" "max_size (p # ps) = max (length p) (max_size ps)"
  "max_size (ps @ qs) = max (max_size ps) (max_size qs)"
proof -
  show 1: "max_size [] = 0" by (simp add: max_size_def)
  show 2: "max_size (p # ps) = max (length p) (max_size ps)" for p ps
    using max_size_fold [of ps "length p"] by (simp add: max_size_def)
  show "max_size (ps @ qs) = max (max_size ps) (max_size qs)"
    by (induction ps) (simp_all add: 1 2)
qed

lemma length_le_max_size: "p \<in> set ps \<Longrightarrow> length p \<le> max_size ps"
  by (induction ps) auto

lemma length_fec_encode: "length (fec_encode ps) = max_size ps + 2"
  by (simp add: fec_encode_def Let_def)

text \<open>The received packets, folded into the parity, leave the contribution of the lost one.\<close>

lemma parity_of_rest:
  assumes "n = max_size (ps @ l # qs)" "i < n + 2"
  shows "fold (xor_packet n) (ps @ qs) (fec_encode (ps @ l # qs)) ! i = contrib n l i"
proof -
  let ?g = "\<lambda>p b. b XOR contrib n p i"
  have le: "\<forall>p \<in> set (ps @ l # qs). length p \<le> n" using length_le_max_size assms(1) by blast
  have e: "fec_encode (ps @ l # qs) ! i = fold ?g qs (fold ?g ps 0 XOR contrib n l i)"
    using nth_parity [OF le, of i "replicate (n + 2) 0"] assms(2)
    unfolding fec_encode_def Let_def assms(1) [symmetric] by (simp del: replicate_Suc)
  have "fold (xor_packet n) (ps @ qs) (fec_encode (ps @ l # qs)) ! i
      = fold ?g (ps @ qs) (fec_encode (ps @ l # qs) ! i)"
    using le assms by (intro nth_parity) (auto simp: length_fec_encode)
  also have "\<dots> = fold ?g qs (fold ?g ps (fold ?g qs (fold ?g ps 0 XOR contrib n l i)))"
    by (simp add: e)
  also have "\<dots> = fold ?g (ps @ qs) (fold ?g (ps @ qs) 0) XOR contrib n l i"
    by (simp add: fold_xor [where f = "\<lambda>p. contrib n p i"])
  finally show ?thesis by (simp only: fold_xor_twice) simp
qed


lemma fec_decode_encode:
  assumes "l \<noteq> []" "\<forall>p \<in> set (ps @ qs). p \<noteq> [] \<and> length p < 2 ^ 16"
    and "length l \<le> max_size (ps @ qs)"
  shows "fec_decode (ps @ [] # qs) (fec_encode (ps @ l # qs)) = l"
proof -
  define n where "n = max_size (ps @ l # qs)"
  have n: "max_size (ps @ [] # qs) = n" "length l \<le> n" "max_size (ps @ qs) = n" using assms(3) by (auto simp: n_def)
  have "n < 2 ^ 16"
  proof -
    have "max_size xs < 2 ^ 16" if "\<forall>p \<in> set xs. length p < 2 ^ 16" for xs :: "byte list list"
      using that by (induction xs) auto
    from this [of "ps @ qs"] show ?thesis using assms(2) by (simp add: n(3) del: max_size_simps)
  qed
  then have l16: "length l < 2 ^ 16" using n by simp
  let ?r = "fold (xor_packet n) (ps @ qs) (fec_encode (ps @ l # qs))"
  have r: "fold (\<lambda>p r. if length p = 0 then r else xor_packet n p r) (ps @ [] # qs) s
      = fold (xor_packet n) (ps @ qs) s" for s
  proof -
    have "fold (\<lambda>p r. if length p = 0 then r else xor_packet n p r) xs s = fold (xor_packet n) xs s"
      if "\<forall>p \<in> set xs. p \<noteq> []" for xs s
      using that by (induction xs arbitrary: s) auto
    then show ?thesis using assms(2) by simp
  qed
  have e: "length (filter (\<lambda>p. length p = 0) (ps @ [] # qs)) = 1"
    using assms(2) by (auto simp: filter_empty_conv)
  have nth: "?r ! i = contrib n l i" if "i < n + 2" for i
    using parity_of_rest [OF n_def that] .
  have "contrib n l n = ucast (of_nat (length l) :: u16)" "contrib n l (n + 1) = ucast (drop_bit 8 (of_nat (length l) :: u16))"
    using n(2) by (simp_all add: contrib_def)
  then have len: "ucast (?r ! n) OR push_bit 8 (ucast (?r ! (n + 1))) = (of_nat (length l) :: u16)"
    using nth [of n] nth [of "n + 1"] un16_le16 [of "of_nat (length l)"] by (simp add: un16_def)
  have u: "unat (of_nat (length l) :: u16) = length l" using l16 by (simp add: unat_of_nat_u16)
  have k: "length (fec_encode (ps @ l # qs)) = n + 2" unfolding n_def by (rule length_fec_encode)
  have "take (length l) ?r = l"
    using nth n(2) k by (intro nth_equalityI) (simp_all add: contrib_def)
  then show ?thesis
    unfolding fec_decode_def Let_def n(1) r e k len u using n(2) by simp
qed

text \<open>
  C36: a lost packet is recovered from the parity and the other packets of its group, provided
  that no packet is empty, that the lengths fit 16 bits, and that one of the packets received is as
  long as the lost one.
\<close>

theorem fec_recovers:
  assumes "l \<noteq> []" "\<forall>p \<in> set (ps @ qs). p \<noteq> [] \<and> length p < 2 ^ 16"
    and "length l \<le> max_size (ps @ qs)"
  shows "fec_decode (ps @ [] # qs) (fec_encode (ps @ l # qs)) = l"
  using assms by (rule fec_decode_encode)

theorem fec_recovers_witness: "fec_decode [[1, 2, 3], [], [7]] (fec_encode [[1, 2, 3], [5, 6], [7]]) = [5, 6]"
  using fec_recovers [of "[5, 6]" "[[1, 2, 3]]" "[[7]]"] by simp

text \<open>
  A packet longer than all the others of its group is never recovered, whatever the error
  correction holds: the decoder takes the length of the group from the packets
  it has. In particular a packet that is alone in its group is not.
\<close>

theorem fec_longest_not_recovered:
  assumes "max_size (ps @ qs) < length l"
  shows "fec_decode (ps @ [] # qs) fec \<noteq> l"
proof -
  have "length (fec_decode xs fec) \<le> max_size xs" for xs
    by (auto simp: fec_decode_def Let_def not_less intro: min.coboundedI2)
  from this [of "ps @ [] # qs"] assms show ?thesis by auto
qed

theorem fec_longest_not_recovered_witness: "fec_decode [[]] (fec_encode [[5, 6]]) \<noteq> [5, 6]"
  using fec_longest_not_recovered [of "[]" "[]" "[5, 6]"] by simp

end
