(* ===== verification/Reassembler.thy ===== *)
theory Reassembler
  imports Video_FEC
begin

section \<open>Reassembling video frames (PacketReassembler.h, PacketReassembler.cpp)\<close>

text \<open>
  A video frame arrives in fragments; up to three frames wait for their fragments, and a frame
  that lacks one fragment may be completed from an error correction packet. What the callback is
  given is the list of outputs of an operation. A failed assertion is \<open>Inl AssertFail\<close>, the first element of
  an empty vector \<open>Inl Undefined\<close>.
\<close>

definition NUM_OLD_PACKETS :: nat where "NUM_OLD_PACKETS = 3"
definition NUM_FEC_PACKETS :: nat where "NUM_FEC_PACKETS = 10"
definition FEC_SCHEME_XOR :: u32 where "FEC_SCHEME_XOR = 1"

record frame =
  fr_seq :: u32
  fr_timestamp :: u32
  part_count :: u32
  received_count :: u32
  is_keyframe :: bool
  fr_rotation :: u16
  parts :: "byte list list"

record fec_packet =
  fec_seq :: u32
  prev_frame_count :: u32
  fec_scheme :: u32
  fec_data :: "byte list"

record reassembler =
  frames :: "frame list"
  old_frames :: "frame list"
  fec_packets :: "fec_packet list"
  max_timestamp :: u32
  last_frame_seq :: u32
  waiting_for_fec :: bool

type_synonym frame_output = "byte list \<times> u32 \<times> bool \<times> u16"

definition reassembler_new :: reassembler where
  "reassembler_new = \<lparr>frames = [], old_frames = [], fec_packets = [], max_timestamp = 0,
     last_frame_seq = 0, waiting_for_fec = False\<rparr>"

definition frame_new :: "u32 \<Rightarrow> u32 \<Rightarrow> u32 \<Rightarrow> bool \<Rightarrow> u16 \<Rightarrow> frame" where
  "frame_new sq ts n key rot = \<lparr>fr_seq = sq, fr_timestamp = ts, part_count = n, received_count = 0,
     is_keyframe = key, fr_rotation = rot, parts = []\<rparr>"

definition frame_add :: "byte list \<Rightarrow> u32 \<Rightarrow> frame \<Rightarrow> exn + frame" where
  "frame_add pkt idx fr = (let k = unat idx; ps = parts fr in
     bind_res (if length ps = k then Inr (ps @ [pkt])
               else if length ps > k then (if ps ! k \<noteq> [] then Inl AssertFail else Inr (ps[k := pkt]))
               else Inr (ps @ replicate (k - length ps) [] @ [pkt]))
       (\<lambda>qs. Inr (fr\<lparr>parts := qs, received_count := received_count fr + 1\<rparr>)))"

definition reassemble :: "frame \<Rightarrow> exn + byte list" where
  "reassemble fr = (if part_count fr \<noteq> received_count fr then Inl AssertFail
     else if length (parts fr) \<noteq> unat (part_count fr) then Inl AssertFail
     else if part_count fr = 1 then Inr (parts fr ! 0)
     else Inr (concat (parts fr)))"

text \<open>Erasing from the front of a vector while it is too long.\<close>

definition trim_to :: "nat \<Rightarrow> 'a list \<Rightarrow> 'a list" where
  "trim_to n xs = drop (length xs - n) xs"

definition fec_covers :: "fec_packet \<Rightarrow> frame \<Rightarrow> bool" where
  "fec_covers fec fr \<longleftrightarrow> fr_seq fr \<le> fec_seq fec \<and> fr_seq fr > fec_seq fec - prev_frame_count fec"

definition recovery_parts :: "frame \<Rightarrow> byte list list" where
  "recovery_parts fr = map (\<lambda>i. if i < length (parts fr) then parts fr ! i else []) [0..<unat (part_count fr)]"

definition packets_for_recovery :: "fec_packet \<Rightarrow> reassembler \<Rightarrow> byte list list" where
  "packets_for_recovery fec s = concat (map recovery_parts (filter (fec_covers fec) (old_frames s)))
     @ concat (map recovery_parts (filter (fec_covers fec) (frames s)))"

fun fill_empty :: "byte list \<Rightarrow> byte list list \<Rightarrow> byte list list" where
  "fill_empty b [] = []"
| "fill_empty b (p # ps) = (if p = [] then b # ps else p # fill_empty b ps)"

definition try_decode_fec :: "fec_packet \<Rightarrow> reassembler \<Rightarrow> exn + frame_output list \<times> reassembler" where
  "try_decode_fec fec s = (if fec_scheme fec = FEC_SCHEME_XOR then
     (let recovered = fec_decode (packets_for_recovery fec s) (fec_data fec) in
      if recovered \<noteq> [] then
        (case frames s of [] \<Rightarrow> Inl Undefined
         | fr # rest \<Rightarrow>
           (let fr' = fr\<lparr>parts := (if length (parts fr) < unat (part_count fr) then parts fr @ [recovered]
                               else fill_empty recovered (parts fr)),
                       received_count := received_count fr + 1\<rparr> in
            bind_res (reassemble fr') (\<lambda>b.
              Inr ([(b, fr_seq fr', is_keyframe fr', fr_rotation fr')], s\<lparr>frames := fr' # rest\<rparr>))))
      else Inr ([], s))
     else Inr ([], s))"

definition emit :: "frame_output list \<Rightarrow> exn + frame_output list \<times> 'a \<Rightarrow> exn + frame_output list \<times> 'a" where
  "emit o1 r = bind_res r (\<lambda>(o2, s). Inr (o1 @ o2, s))"

lemma emit_cong [fundef_cong]: "o1 = o2 \<Longrightarrow> r = r' \<Longrightarrow> emit o1 r = emit o2 r'"
  by simp

lemma try_decode_frames: "try_decode_fec fec s = Inr (out, t) \<Longrightarrow> length (frames t) = length (frames s)"
  by (auto simp: try_decode_fec_def Let_def bind_res_Inr_conv split: if_splits list.splits)

text \<open>The loop that sends complete frames on and gives up incomplete ones while more than three wait.\<close>

definition retire :: "frame \<Rightarrow> reassembler \<Rightarrow> reassembler" where
  "retire fr s = s\<lparr>old_frames := trim_to NUM_OLD_PACKETS (old_frames s @ [fr])\<rparr>"

function flush :: "reassembler \<Rightarrow> exn + frame_output list \<times> reassembler" where
  "flush s = (if length (frames s) > 3 then
     (let old = hd (frames s); s1 = s\<lparr>frames := tl (frames s)\<rparr> in
      if received_count old = part_count old then
        bind_res (reassemble old) (\<lambda>b.
          emit [(b, fr_seq old, is_keyframe old, fr_rotation old)] (flush (retire old s1)))
      else if part_count old - received_count old = 1 \<and> \<not> waiting_for_fec s then
        (case find (\<lambda>fec. fec_covers fec old) (fec_packets s) of
           None \<Rightarrow> Inr ([], s\<lparr>waiting_for_fec := True\<rparr>)
         | Some fec \<Rightarrow> bind_res (try_decode_fec fec s) (\<lambda>(out, t).
             emit out (flush (t\<lparr>frames := tl (frames t)\<rparr>))))
      else flush ((retire old s1)\<lparr>waiting_for_fec := False\<rparr>))
     else Inr ([], s))"
  by pat_completeness auto
termination
  by (relation "measure (\<lambda>s. length (frames s))")
    (auto simp: retire_def dest: try_decode_frames)

declare flush.simps [simp del]

definition frame_seq :: "byte \<Rightarrow> reassembler \<Rightarrow> u32" where
  "frame_seq fs s = (let f = (last_frame_seq s AND 0xFFFFFF00) OR ucast fs in
     if ucast (last_frame_seq s) > fs then f + 256 else f)"

text \<open>The first waiting frame with the timestamp takes the fragment.\<close>

fun add_to_first :: "byte list \<Rightarrow> u32 \<Rightarrow> u32 \<Rightarrow> frame list \<Rightarrow> exn + frame list" where
  "add_to_first pkt idx pts [] = Inr []"
| "add_to_first pkt idx pts (fr # frs) = (if fr_timestamp fr = pts
     then bind_res (frame_add pkt idx fr) (\<lambda>fr'. Inr (fr' # frs))
     else bind_res (add_to_first pkt idx pts frs) (\<lambda>frs'. Inr (fr # frs')))"

definition add_fragment :: "byte list \<Rightarrow> u32 \<Rightarrow> u32 \<Rightarrow> u32 \<Rightarrow> byte \<Rightarrow> bool \<Rightarrow> u16 \<Rightarrow> reassembler
    \<Rightarrow> exn + frame_output list \<times> reassembler" where
  "add_fragment pkt idx n pts fs key rot s =
    (case find (\<lambda>fr. fr_timestamp fr = pts) (frames s) of
       Some fr \<Rightarrow> if n \<noteq> part_count fr then Inr ([], s)
         else if idx \<ge> part_count fr then Inr ([], s)
         else bind_res (add_to_first pkt idx pts (frames s)) (\<lambda>frs. Inr ([], s\<lparr>frames := frs\<rparr>))
     | None \<Rightarrow> (let fseq = frame_seq fs s in
         if last_frame_seq s > 3 \<and> fseq < last_frame_seq s - 3 then Inr ([], s)
         else if idx \<ge> n then Inr ([], s)
         else if n > 255 then Inr ([], s)
         else bind_res (frame_add pkt idx (frame_new fseq pts n key rot)) (\<lambda>fr.
           bind_res (flush (s\<lparr>max_timestamp := max (max_timestamp s) pts, frames := frames s @ [fr]\<rparr>)) (\<lambda>(out, t).
             Inr (out, t\<lparr>last_frame_seq := fseq\<rparr>)))))"

definition add_fec :: "byte list \<Rightarrow> byte \<Rightarrow> u32 \<Rightarrow> u32 \<Rightarrow> reassembler \<Rightarrow> exn + frame_output list \<times> reassembler" where
  "add_fec dat fs n scheme s =
    (let fec = \<lparr>fec_seq = (last_frame_seq s AND 0xFFFFFF00) OR ucast fs, prev_frame_count = n,
                fec_scheme = scheme, fec_data = dat\<rparr> in
     bind_res (if waiting_for_fec s then
         (case frames s of [] \<Rightarrow> Inl Undefined
          | fr # rest \<Rightarrow> if fec_covers fec fr
              then bind_res (try_decode_fec fec s) (\<lambda>(out, t).
                Inr (out, t\<lparr>frames := tl (frames t), waiting_for_fec := False\<rparr>))
              else Inr ([], s))
         else Inr ([], s))
       (\<lambda>(out, t). Inr (out, t\<lparr>fec_packets := trim_to NUM_FEC_PACKETS (fec_packets t @ [fec])\<rparr>)))"

subsection \<open>One frame\<close>

text \<open>The fragments with the indices \<open>S\<close> of a frame \<open>xs\<close> have arrived.\<close>

definition arrived :: "byte list list \<Rightarrow> nat set \<Rightarrow> frame \<Rightarrow> bool" where
  "arrived xs S fr \<longleftrightarrow> S \<subseteq> {..<length xs} \<and> received_count fr = of_nat (card S)
     \<and> (\<forall>i < length (parts fr). parts fr ! i = (if i \<in> S then xs ! i else []))
     \<and> (\<forall>i \<in> S. i < length (parts fr)) \<and> (parts fr \<noteq> [] \<longrightarrow> length (parts fr) - 1 \<in> S)"

lemma unat_index: "i < 2 ^ 32 \<Longrightarrow> unat (of_nat i :: u32) = i"
  by (simp add: unat_of_nat)

lemma arrived_add:
  assumes "arrived xs S fr" "i < length xs" "i \<notin> S" "length xs < 2 ^ 32"
  shows "\<exists>fr'. frame_add (xs ! i) (of_nat i) fr = Inr fr' \<and> arrived xs (insert i S) fr' \<and> part_count fr' = part_count fr
    \<and> (fr_seq fr', is_keyframe fr', fr_rotation fr') = (fr_seq fr, is_keyframe fr, fr_rotation fr)"
proof -
  note a = assms(1) [unfolded arrived_def]
  have i: "unat (of_nat i :: u32) = i" using assms(2,4) by (intro unat_index) simp
  have c: "card (insert i S) = Suc (card S)"
    using assms(3) finite_subset [of S "{..<length xs}"] a by simp
  define ps where "ps = (if length (parts fr) = i then parts fr @ [xs ! i]
     else if length (parts fr) > i then (parts fr)[i := xs ! i]
     else parts fr @ replicate (i - length (parts fr)) [] @ [xs ! i])"
  have "length (parts fr) > i \<longrightarrow> parts fr ! i = []" using a assms(3) by auto
  then have run: "frame_add (xs ! i) (of_nat i) fr = Inr (fr\<lparr>parts := ps, received_count := received_count fr + 1\<rparr>)"
    by (auto simp: frame_add_def Let_def i ps_def)
  have "ps ! k = (if k \<in> insert i S then xs ! k else [])" if "k < length ps" for k
    using a that by (auto simp: ps_def nth_append nth_list_update nth_Cons' split: if_splits)
  moreover have "\<forall>k \<in> insert i S. k < length ps" "length ps - 1 \<in> insert i S"
    using a by (auto simp: ps_def split: if_splits)
  ultimately have "arrived xs (insert i S) (fr\<lparr>parts := ps, received_count := received_count fr + 1\<rparr>)"
    using a assms(2) c by (simp add: arrived_def)
  with run show ?thesis by simp
qed

lemma arrived_all:
  assumes "arrived xs {..<length xs} fr" "part_count fr = of_nat (length xs)" "length xs < 2 ^ 32" "xs \<noteq> []"
  shows "reassemble fr = Inr (concat xs)"
proof -
  note a = assms(1) [unfolded arrived_def]
  have "length xs - 1 < length (parts fr)" using a assms(4) by auto
  moreover from this have "length (parts fr) - 1 < length xs" using a by fastforce
  ultimately have l: "length (parts fr) = length xs" by simp
  then have p: "parts fr = xs" using a by (intro nth_equalityI) auto
  have n: "unat (of_nat (length xs) :: u32) = length xs" by (rule unat_index [OF assms(3)])
  have "of_nat (length xs) = (1 :: u32) \<longrightarrow> length xs = 1" using n by (metis unat_1)
  then have "of_nat (length xs) = (1 :: u32) \<longrightarrow> xs ! 0 = concat xs" by (auto simp: length_Suc_conv)
  then show ?thesis using a assms(2) p n by (simp add: reassemble_def)
qed

fun add_all :: "byte list list \<Rightarrow> nat list \<Rightarrow> frame \<Rightarrow> exn + frame" where
  "add_all xs [] fr = Inr fr"
| "add_all xs (i # is) fr = bind_res (frame_add (xs ! i) (of_nat i) fr) (add_all xs is)"

lemma arrived_add_all:
  assumes "length xs < 2 ^ 32" "distinct is" "set is \<subseteq> {..<length xs}" "arrived xs S fr" "S \<inter> set is = {}"
  shows "\<exists>fr'. add_all xs is fr = Inr fr' \<and> arrived xs (S \<union> set is) fr' \<and> part_count fr' = part_count fr"
  using assms(2-)
proof (induction "is" arbitrary: S fr)
  case (Cons i js)
  then have i: "arrived xs S fr" "i < length xs" "i \<notin> S" by auto
  from arrived_add [OF this assms(1)] obtain fr1 where 1: "frame_add (xs ! i) (of_nat i) fr = Inr fr1"
    "arrived xs (insert i S) fr1" "part_count fr1 = part_count fr" by blast
  then obtain fr' where "add_all xs js fr1 = Inr fr'" "arrived xs (insert i S \<union> set js) fr'" "part_count fr' = part_count fr1"
    using Cons.IH [of "insert i S" fr1] Cons.prems by auto
  with 1 show ?case by auto
qed auto

lemma arrived_none: "arrived xs {} (frame_new sq ts n key rot)"
  by (simp add: arrived_def frame_new_def)

text \<open>
  The fragments of a frame may arrive in any order: once each of them has arrived, the
  frame is the concatenation of its fragments in the order of their indices. A fragment that
  arrives a second time, and is not empty, fails an assertion, however many have arrived.
\<close>

theorem fragments_in_any_order:
  assumes "distinct is" "set is \<subseteq> {..<length xs}" "0 < length xs" "length xs < 2 ^ 32"
  shows "\<exists>fr. add_all xs is (frame_new sq ts (of_nat (length xs)) key rot) = Inr fr
    \<and> (set is = {..<length xs} \<longrightarrow> reassemble fr = Inr (concat xs))
    \<and> (\<forall>i \<in> set is. xs ! i \<noteq> [] \<longrightarrow> (\<forall>pkt. frame_add pkt (of_nat i) fr = Inl AssertFail))"
proof -
  obtain fr where fr: "add_all xs is (frame_new sq ts (of_nat (length xs)) key rot) = Inr fr"
    "arrived xs (set is) fr" "part_count fr = of_nat (length xs)"
    using arrived_add_all [OF assms(4,1,2) arrived_none, of sq ts "of_nat (length xs)" key rot]
    by (auto simp del: frame_new_def) (simp add: frame_new_def)
  have "frame_add pkt (of_nat i) fr = Inl AssertFail" if "i \<in> set is" "xs ! i \<noteq> []" for i pkt
    using fr(2) that assms(2,4) unat_index [of i]
    by (auto simp: frame_add_def Let_def arrived_def)
  with fr arrived_all [of xs fr] assms(3,4) show ?thesis by auto
qed

theorem fragments_in_any_order_witness:
  "\<exists>fr. add_all [[1], [2], [3]] [2, 0, 1] (frame_new 5 5 3 True 0) = Inr fr \<and> reassemble fr = Inr [1, 2, 3]"
proof -
  have "{..<3} = {2, 0, Suc 0}" by auto
  then show ?thesis
    using fragments_in_any_order [of "[2, 0, 1]" "[[1], [2], [3]]" 5 5 True 0] by (auto simp: numeral_3_eq_3)
qed

subsection \<open>How much waits\<close>

definition reassembler_inv :: "reassembler \<Rightarrow> bool" where
  "reassembler_inv s \<longleftrightarrow> length (frames s) \<le> 4 \<and> (length (frames s) = 4 \<longrightarrow> waiting_for_fec s)
     \<and> (waiting_for_fec s \<longrightarrow> frames s \<noteq> [])
     \<and> length (old_frames s) \<le> NUM_OLD_PACKETS \<and> length (fec_packets s) \<le> NUM_FEC_PACKETS"

lemma length_trim_to [simp]: "length (trim_to n xs) \<le> n"
  by (simp add: trim_to_def)

lemma try_decode_rest: "try_decode_fec fec s = Inr (out, t) \<Longrightarrow> length (frames t) = length (frames s)
    \<and> waiting_for_fec t = waiting_for_fec s \<and> old_frames t = old_frames s \<and> fec_packets t = fec_packets s"
  by (auto simp: try_decode_fec_def Let_def bind_res_Inr_conv split: if_splits list.splits)

lemma emit_Inr: "emit o1 r = Inr (out, t) \<longleftrightarrow> (\<exists>o2. r = Inr (o2, t) \<and> out = o1 @ o2)"
  by (auto simp: emit_def bind_res_Inr_conv)

lemma flush_inv:
  assumes "flush s = Inr (out, t)" "length (frames s) \<le> 5" "length (frames s) = 5 \<longrightarrow> waiting_for_fec s"
    and "waiting_for_fec s \<longrightarrow> frames s \<noteq> []" "length (old_frames s) \<le> NUM_OLD_PACKETS" "length (fec_packets s) \<le> NUM_FEC_PACKETS"
  shows "reassembler_inv t"
  using assms
proof (induction s arbitrary: out t rule: flush.induct)
  case (1 s)
  show ?case
  proof (cases "length (frames s) > 3")
    case False
    then show ?thesis using "1.prems" by (auto simp: flush.simps [of s] reassembler_inv_def)
  next
    case big: True
    let ?old = "hd (frames s)" and ?s1 = "s\<lparr>frames := tl (frames s)\<rparr>"
    have tl: "tl (frames s) \<noteq> []" using big by (cases "frames s") auto
    consider "received_count ?old = part_count ?old"
      | "received_count ?old \<noteq> part_count ?old" "part_count ?old - received_count ?old = 1 \<and> \<not> waiting_for_fec s"
      | "received_count ?old \<noteq> part_count ?old" "\<not> (part_count ?old - received_count ?old = 1 \<and> \<not> waiting_for_fec s)"
      by blast
    then show ?thesis
    proof cases
      case a: 1
      then obtain b o2 where b: "reassemble ?old = Inr b" and f: "flush (retire ?old ?s1) = Inr (o2, t)"
        using "1.prems"(1) big by (auto simp: flush.simps [of s] Let_def bind_res_Inr_conv emit_Inr)
      show ?thesis
        using "1.prems"(2-) tl by (intro "1.IH"(1) [OF big refl refl a b f]) (auto simp: retire_def)
    next
      case a: 3
      then have f: "flush ((retire ?old ?s1)\<lparr>waiting_for_fec := False\<rparr>) = Inr (out, t)"
        using "1.prems"(1) big by (auto simp: flush.simps [of s] Let_def)
      show ?thesis
        using "1.prems"(2-) tl by (intro "1.IH"(3) [OF big refl refl a f]) (auto simp: retire_def)
    next
      case a: 2
      show ?thesis
      proof (cases "find (\<lambda>fec. fec_covers fec ?old) (fec_packets s)")
        case None
        then have "t = s\<lparr>waiting_for_fec := True\<rparr>"
          using "1.prems"(1) big a by (auto simp: flush.simps [of s] Let_def)
        then show ?thesis using "1.prems"(2-) a big by (auto simp: reassembler_inv_def)
      next
        case (Some fec)
        then obtain o1 u o2 where d: "try_decode_fec fec s = Inr (o1, u)" and f: "flush (u\<lparr>frames := tl (frames u)\<rparr>) = Inr (o2, t)"
          using "1.prems"(1) big a by (auto simp: flush.simps [of s] Let_def bind_res_Inr_conv emit_Inr)
        show ?thesis
          using "1.prems"(2-) a try_decode_frames [OF d] try_decode_rest [OF d]
          by (intro "1.IH"(2) [OF big refl refl a Some d refl f]) auto
      qed
    qed
  qed
qed


lemma add_to_first_length: "add_to_first pkt idx pts frs = Inr frs' \<Longrightarrow> length frs' = length frs"
  by (induction frs arbitrary: frs') (auto simp: bind_res_Inr_conv split: if_splits)

lemma add_fragment_inv:
  assumes "reassembler_inv s" "add_fragment pkt idx n pts fs key rot s = Inr (out, t)"
  shows "reassembler_inv t"
proof (cases "find (\<lambda>fr. fr_timestamp fr = pts) (frames s)")
  case (Some fr)
  then show ?thesis
    using assms by (auto simp: add_fragment_def bind_res_Inr_conv reassembler_inv_def
        dest!: add_to_first_length split: if_splits)
next
  case None
  have "\<exists>fr. bind_res (flush (s\<lparr>max_timestamp := max (max_timestamp s) pts, frames := frames s @ [fr]\<rparr>))
      (\<lambda>(out, t). Inr (out, t\<lparr>last_frame_seq := frame_seq fs s\<rparr>)) = Inr (out, t)" if "t \<noteq> s"
    using assms(2) that unfolding add_fragment_def None option.case Let_def
    by (simp only: bind_res_Inr_conv split: if_splits) auto
  then consider "t = s" | fr u where "flush (s\<lparr>max_timestamp := max (max_timestamp s) pts, frames := frames s @ [fr]\<rparr>) = Inr (out, u)"
      "t = u\<lparr>last_frame_seq := frame_seq fs s\<rparr>"
    by (auto simp only: bind_res_Inr_conv split_paired_Ex prod.case Inr_inject prod.inject)
  then show ?thesis
  proof cases
    case 2
    then have "reassembler_inv u"
      using assms(1) by (intro flush_inv [OF 2(1)]) (auto simp: reassembler_inv_def)
    then show ?thesis using 2(2) by (simp add: reassembler_inv_def)
  qed (simp add: assms(1))
qed

lemma add_fec_inv:
  assumes "reassembler_inv s" "add_fec dat fs n scheme s = Inr (out, t)"
  shows "reassembler_inv t"
  using assms
  by (auto simp: add_fec_def Let_def bind_res_Inr_conv reassembler_inv_def split: if_splits list.splits
      dest!: try_decode_rest)

lemma try_decode_defined: "frames s \<noteq> [] \<Longrightarrow> try_decode_fec fec s \<noteq> Inl Undefined"
  by (cases "frames s") (auto simp: try_decode_fec_def Let_def reassemble_def)

lemma add_fec_defined: "reassembler_inv s \<Longrightarrow> add_fec dat fs n scheme s \<noteq> Inl Undefined"
  using try_decode_defined [of s]
  by (auto simp: add_fec_def Let_def reassembler_inv_def split: list.splits sum.splits elim!: bind_res.elims)

text \<open>
  Whatever fragments and error correction packets arrive, no more than four frames wait
  (the fourth only while the first waits for error correction), three old ones and ten error
  correction packets are kept, and an error correction packet never finds the list of waiting
  frames empty.
\<close>

theorem reassembler_bounded:
  assumes "reassembler_inv s"
  shows "(add_fragment pkt idx n pts fs key rot s = Inr (out, t) \<longrightarrow> reassembler_inv t)
    \<and> (add_fec dat fs n scheme s = Inr (out, t) \<longrightarrow> reassembler_inv t)
    \<and> add_fec dat fs n scheme s \<noteq> Inl Undefined"
  using add_fragment_inv [OF assms] add_fec_inv [OF assms] add_fec_defined [OF assms] by blast

theorem reassembler_bounded_witness: "add_fec [1, 2] 0 1 1 reassembler_new \<noteq> Inl Undefined"
  using reassembler_bounded [of reassembler_new] by (simp add: reassembler_inv_def reassembler_new_def)

text \<open>
  An error correction packet completes the frame that waits for it. If the first waiting frame
  lacks one fragment, the packets of the group that are still there are all of it but that
  fragment, and the conditions of the recovery hold, the callback is given the whole frame, with its
  number where the timestamp is announced, and the frame leaves the queue.
\<close>

theorem fec_completes_frame:
  assumes "waiting_for_fec s" "frames s = fr # rest"
    and "fec = \<lparr>fec_seq = (last_frame_seq s AND 0xFFFFFF00) OR ucast fs, prev_frame_count = n, fec_scheme = FEC_SCHEME_XOR,
           fec_data = fec_encode (ps @ l # qs)\<rparr>"
    and "fec_covers fec fr" "packets_for_recovery fec s = ps @ [] # qs"
    and "parts fr = as @ [] # bs \<or> parts fr = as \<and> bs = []" "[] \<notin> set as"
    and "unat (part_count fr) = length (as @ l # bs)" "received_count fr + 1 = part_count fr"
    and "l \<noteq> []" "\<forall>p \<in> set (ps @ qs). p \<noteq> [] \<and> length p < 2 ^ 16" "length l \<le> max_size (ps @ qs)"
  shows "\<exists>t. add_fec (fec_encode (ps @ l # qs)) fs n FEC_SCHEME_XOR s
      = Inr ([(concat (as @ l # bs), fr_seq fr, is_keyframe fr, fr_rotation fr)], t)
    \<and> frames t = rest \<and> \<not> waiting_for_fec t"
proof -
  have d: "fec_decode (packets_for_recovery fec s) (fec_data fec) = l"
    unfolding assms(5) using fec_decode_encode [OF assms(10-12)] assms(3) by simp
  have fill: "fill_empty l (as @ [] # bs) = as @ l # bs"
    using assms(7) by (induction as) auto
  define fr' where "fr' = fr\<lparr>parts := as @ l # bs, received_count := received_count fr + 1\<rparr>"
  have p: "(if length (parts fr) < unat (part_count fr) then parts fr @ [l] else fill_empty l (parts fr)) = as @ l # bs"
    using assms(6,8) fill by auto
  have one: "part_count fr = 1 \<longrightarrow> (as @ l # bs) ! 0 = concat (as @ l # bs)"
    using assms(8) by (auto simp: add_is_1)
  have "reassemble fr' = Inr (concat (as @ l # bs))"
    using one assms(8,9) by (auto simp: reassemble_def fr'_def)
  then have "try_decode_fec fec s = Inr ([(concat (as @ l # bs), fr_seq fr, is_keyframe fr, fr_rotation fr)], s\<lparr>frames := fr' # rest\<rparr>)"
    using d p assms(2,3,10) unfolding fr'_def by (simp add: try_decode_fec_def Let_def)
  then show ?thesis
    using assms(1-4) by (auto simp: add_fec_def Let_def)
qed

theorem fec_completes_frame_witness:
  "\<exists>t. add_fec (fec_encode [[1, 2], [3]]) 5 1 1
      \<lparr>frames = [\<lparr>fr_seq = 5, fr_timestamp = 5, part_count = 2, received_count = 1, is_keyframe = True,
                   fr_rotation = 90, parts = [[1, 2]]\<rparr>],
        old_frames = [], fec_packets = [], max_timestamp = 5, last_frame_seq = 5, waiting_for_fec = True\<rparr>
      = Inr ([([1, 2, 3], 5, True, 90)], t)"
proof -
  let ?fr = "\<lparr>fr_seq = 5, fr_timestamp = 5, part_count = 2, received_count = 1, is_keyframe = True,
      fr_rotation = 90, parts = [[1, 2]]\<rparr>"
  let ?s = "\<lparr>frames = [?fr], old_frames = [], fec_packets = [], max_timestamp = 5, last_frame_seq = 5,
      waiting_for_fec = True\<rparr>"
  let ?fec = "\<lparr>fec_seq = 5, prev_frame_count = 1, fec_scheme = FEC_SCHEME_XOR, fec_data = fec_encode ([[1, 2]] @ [3] # [])\<rparr>"
  have cov: "fec_covers ?fec ?fr" by (simp add: fec_covers_def)
  have "[0..<2] = [0, Suc 0]" by (simp add: upt_rec)
  with cov have pk: "packets_for_recovery ?fec ?s = [[1, 2]] @ [] # []"
    by (simp add: packets_for_recovery_def recovery_parts_def)
  have fec: "?fec = \<lparr>fec_seq = (last_frame_seq ?s AND 0xFFFFFF00) OR ucast (5 :: byte), prev_frame_count = 1,
      fec_scheme = FEC_SCHEME_XOR, fec_data = fec_encode ([[1, 2]] @ [3] # [])\<rparr>" by simp
  have "\<exists>t. add_fec (fec_encode ([[1, 2]] @ [3] # [])) 5 1 FEC_SCHEME_XOR ?s
      = Inr ([(concat ([[1, 2]] @ [3] # []), fr_seq ?fr, is_keyframe ?fr, fr_rotation ?fr)], t)
    \<and> frames t = [] \<and> \<not> waiting_for_fec t"
    by (rule fec_completes_frame [OF _ _ fec cov pk]) simp_all
  then show ?thesis by (auto simp only: FEC_SCHEME_XOR_def append.simps concat.simps frame.simps)
qed

end
