(* ===== verification/Packet_Manager.thy ===== *)
theory Packet_Manager
  imports Complex_Main Prelude
begin

section \<open>Sequence numbers and acknowledgments (PacketManager.h, PacketManager.cpp)\<close>

text \<open>
  The comparison of sequence numbers, and the history that each stream keeps of the local
  packets (last acknowledged number and mask, recent packets) and of the remote packets (last
  number and mask). A shift of a 32-bit value by 32 or more is undefined in C++: the
  operations with such shifts return \<open>None\<close> there.
\<close>

definition seqgt :: "u32 \<Rightarrow> u32 \<Rightarrow> bool" where
  "seqgt s1 s2 \<longleftrightarrow> (s1 > s2 \<and> s1 - s2 \<le> 0xFFFFFFFF div 2) \<or> (s1 < s2 \<and> s2 - s1 > 0xFFFFFFFF div 2)"

definition seqgte :: "u32 \<Rightarrow> u32 \<Rightarrow> bool" where
  "seqgte s1 s2 \<longleftrightarrow> s1 = s2 \<or> seqgt s1 s2"

definition MAX_RECENT_PACKETS :: nat where
  "MAX_RECENT_PACKETS = 128"

text \<open>The packets handed to the network (PacketStructs.h); times are exact reals.\<close>

record cc_packet =
  ccp_seq :: u32
  ccp_stream_id :: byte

record pending_packet =
  pp_packet :: "byte list"
  pp_info :: cc_packet
  pp_endpoint :: int

record recent_packet =
  rp_pkt :: cc_packet
  rp_size :: nat
  rp_endpoint :: int
  rp_send_time :: real
  rp_ack_time :: real
  rp_rtt_time :: real
  rp_lost :: bool

definition recent_packet_new :: "pending_packet \<Rightarrow> real \<Rightarrow> recent_packet" where
  "recent_packet_new p now = \<lparr>rp_pkt = pp_info p, rp_size = length (pp_packet p),
     rp_endpoint = pp_endpoint p, rp_send_time = now, rp_ack_time = 0, rp_rtt_time = 0, rp_lost = False\<rparr>"

record packet_manager =
  transport_id :: byte
  last_sent_seq :: u32
  local_seq :: u32
  last_acked_seq :: u32
  last_acked_mask :: u32
  last_remote_seq :: u32
  last_remote_mask :: u32
  recent_outgoing :: "recent_packet list"

text \<open>The constructor does not initialize the mask of the remote packets: \<open>mask0\<close>.\<close>

definition pm_new :: "u32 \<Rightarrow> byte \<Rightarrow> packet_manager" where
  "pm_new mask0 i = \<lparr>transport_id = i, last_sent_seq = 0, local_seq = 1, last_acked_seq = 0,
     last_acked_mask = 0, last_remote_seq = 0, last_remote_mask = mask0, recent_outgoing = []\<rparr>"

definition pm_eq :: "packet_manager \<Rightarrow> packet_manager \<Rightarrow> bool" where
  "pm_eq a b \<longleftrightarrow> transport_id a = transport_id b"

definition next_local_seq :: "packet_manager \<Rightarrow> u32 \<times> packet_manager" where
  "next_local_seq pm = (local_seq pm, pm\<lparr>local_seq := local_seq pm + 1\<rparr>)"

definition set_local_seq :: "u32 \<Rightarrow> packet_manager \<Rightarrow> packet_manager" where
  "set_local_seq sq pm = pm\<lparr>local_seq := sq\<rparr>"

definition set_last_sent_seq :: "u32 \<Rightarrow> packet_manager \<Rightarrow> packet_manager" where
  "set_last_sent_seq sq pm = pm\<lparr>last_sent_seq := sq\<rparr>"

definition ack_local :: "u32 \<Rightarrow> u32 \<Rightarrow> packet_manager \<Rightarrow> packet_manager" where
  "ack_local ack_id mk pm = pm\<lparr>last_acked_seq := ack_id, last_acked_mask := mk\<rparr>"

definition was_local_acked :: "u32 \<Rightarrow> packet_manager \<Rightarrow> bool" where
  "was_local_acked sq pm = (if sq = last_acked_seq pm then True
     else if sq > last_acked_seq pm then False
     else let distance = unat (last_acked_seq pm - sq) in
       if distance > 0 \<and> distance \<le> 32
       then drop_bit (32 - distance) (last_acked_mask pm) AND 1 \<noteq> 0
       else False)"

text \<open>\<^verbatim>\<open>x << n\<close> on 32 bits.\<close>

definition shl :: "u32 \<Rightarrow> u32 \<Rightarrow> u32 option" where
  "shl x n = (if n < 32 then Some (push_bit (unat n) x) else None)"

definition ack_remote_seq :: "u32 \<Rightarrow> packet_manager \<Rightarrow> (bool \<times> packet_manager) option" where
  "ack_remote_seq ack_id pm =
    (if seqgt ack_id (last_remote_seq pm - of_nat MAX_RECENT_PACKETS) then
       if ack_id = last_remote_seq pm then Some (False, pm)
       else if ack_id > last_remote_seq pm then
         (case shl (push_bit 1 (last_remote_mask pm) OR 1) (ack_id - last_remote_seq pm - 1) of
            None \<Rightarrow> None
          | Some mk \<Rightarrow> Some (True, pm\<lparr>last_remote_mask := mk, last_remote_seq := ack_id\<rparr>))
       else (case shl 1 (last_remote_seq pm - ack_id - 1) of
            None \<Rightarrow> None
          | Some pos \<Rightarrow> if last_remote_mask pm AND pos \<noteq> 0 then Some (False, pm)
              else Some (True, pm\<lparr>last_remote_mask := last_remote_mask pm OR pos\<rparr>))
     else Some (False, pm))"

definition ack_remote_older_than :: "u32 \<Rightarrow> packet_manager \<Rightarrow> packet_manager option" where
  "ack_remote_older_than sq pm = (case shl 0xFFFFFFFF (last_remote_seq pm - sq) of
     None \<Rightarrow> None
   | Some mk \<Rightarrow> Some (pm\<lparr>last_remote_mask := last_remote_mask pm OR mk\<rparr>))"

text \<open>Append, then drop from the front while the list is too long.\<close>

function trim_front :: "'a list \<Rightarrow> 'a list" where
  "trim_front xs = (if length xs > MAX_RECENT_PACKETS then trim_front (drop 1 xs) else xs)"
  by auto
termination by (relation "measure length") (auto simp: MAX_RECENT_PACKETS_def)

declare trim_front.simps [simp del]

definition add_recent :: "recent_packet \<Rightarrow> packet_manager \<Rightarrow> packet_manager" where
  "add_recent p pm = pm\<lparr>recent_outgoing := trim_front (recent_outgoing pm @ [p]),
     last_sent_seq := ccp_seq (rp_pkt p)\<rparr>"

definition add_recent_outgoing :: "real \<Rightarrow> pending_packet \<Rightarrow> packet_manager \<Rightarrow> packet_manager" where
  "add_recent_outgoing now p pm = add_recent (recent_packet_new p now) pm"

subsection \<open>Serial number order\<close>

lemma u32_bound: "unat (a :: u32) < 4294967296"
  using unsigned_less [of a, where ?'a = nat] by simp

lemma unat_diff_ge: "b \<le> a \<Longrightarrow> unat (a - b) = unat a - unat b" for a b :: u32
  by (rule unat_sub)

lemma unat_diff_lt: "a < b \<Longrightarrow> unat (a - b) = 2 ^ 32 + unat a - unat b" for a b :: u32
  by (simp add: unat_sub_if' word_less_nat_alt)

lemma half_u32: "unat (0xFFFFFFFF div 2 :: u32) = 2147483647"
  by simp

lemma seqgt_unat:
  "seqgt a b \<longleftrightarrow> a \<noteq> b \<and> (unat (a - b) < 2147483648 \<or> unat (a - b) = 2147483648 \<and> a < b)"
proof (cases a b rule: linorder_cases)
  case less
  have "unat (b - a) = unat b - unat a" using less by (intro unat_diff_ge) simp
  with less unat_diff_lt [OF less] show ?thesis
    using u32_bound [of b] by (auto simp: seqgt_def word_less_nat_alt)
next
  case equal
  then show ?thesis by (simp add: seqgt_def)
next
  case greater
  then show ?thesis by (auto simp: seqgt_def word_le_nat_alt word_less_nat_alt)
qed


lemma seqgt_asym: "seqgt a b \<Longrightarrow> \<not> seqgt b a"
  by (cases a b rule: linorder_cases) (auto simp: seqgt_def)

lemma seqgt_total: "a \<noteq> b \<Longrightarrow> seqgt a b \<or> seqgt b a"
  by (cases a b rule: linorder_cases) (auto simp: seqgt_def not_le)

text \<open>
  The comparison of sequence numbers is serial number arithmetic: \<open>a\<close> is newer than
  \<open>b\<close> when it lies less than half the number space ahead, wrapping around, and exactly
  half way the larger one counts as newer. So of two different numbers exactly one is newer,
  and a number is newer than all of its \<open>2 ^ 31 - 1\<close> predecessors.
\<close>

theorem seqgt_serial:
  "(seqgt a b \<longleftrightarrow> a \<noteq> b \<and> (unat (a - b) < 2 ^ 31 \<or> unat (a - b) = 2 ^ 31 \<and> a < b))
   \<and> (a \<noteq> b \<longrightarrow> (seqgt a b \<longleftrightarrow> \<not> seqgt b a))
   \<and> (seqgte a b \<longleftrightarrow> \<not> seqgt b a)
   \<and> (0 < n \<and> n < 2 ^ 31 \<longrightarrow> seqgt (a + of_nat n) a)"
proof -
  have "seqgt (a + of_nat n) a" if "0 < n" "n < 2 ^ 31"
  proof -
    have "unat (of_nat n :: u32) = n" using that by (simp add: unat_of_nat)
    moreover from this have "of_nat n \<noteq> (0 :: u32)" using that by (metis unat_0 less_irrefl)
    ultimately show ?thesis using that by (simp add: seqgt_unat)
  qed
  moreover have "seqgte a b \<longleftrightarrow> \<not> seqgt b a"
    using seqgt_asym [of a b] seqgt_asym [of b a] seqgt_total [of a b] by (auto simp: seqgte_def)
  ultimately show ?thesis
    using seqgt_asym seqgt_total [of a b] by (auto simp: seqgt_unat [of a b])
qed

theorem seqgt_serial_witness: "seqgt (0xFFFFFFFF + of_nat 3) 0xFFFFFFFF"
  using seqgt_serial [of "0xFFFFFFFF" 0 3] by simp

subsection \<open>The window of received packets\<close>

text \<open>What the pair of last number and mask says about a number: bit \<open>i\<close> stands for the
  number \<open>i + 1\<close> before the last one.\<close>

definition seen :: "packet_manager \<Rightarrow> u32 \<Rightarrow> bool" where
  "seen pm sq \<longleftrightarrow> sq = last_remote_seq pm
     \<or> (let d = unat (last_remote_seq pm - sq) in 1 \<le> d \<and> d \<le> 32 \<and> bit (last_remote_mask pm) (d - 1))"

lemma unat_shift_base: "unat (a - x :: u32) = (if unat (b - a) \<le> unat (b - x)
    then unat (b - x) - unat (b - a) else unat (b - x) + 2 ^ 32 - unat (b - a))"
proof -
  have "a - x = (b - x) - (b - a)" by simp
  then show ?thesis by (simp only: unat_sub_if') simp
qed

lemma in_window: "seqgt a (l - of_nat MAX_RECENT_PACKETS)" if "unat (a - l) \<le> 32 \<or> unat (l - a) < 128"
proof -
  have w: "a - (l - 128) = (a - l) + 128" by simp
  have u: "unat (a - (l - 128)) = (unat (a - l) + 128) mod 2 ^ 32"
    unfolding w by (simp add: unat_word_ariths)
  have v: "unat (a - l) = (if l = a then 0 else 2 ^ 32 - unat (l - a))"
    using unat_sub_if' [of a l] unat_sub_if' [of l a] u32_bound [of a] u32_bound [of l]
    by (auto simp: word_unat_eq_iff)
  have m: "(4294967424 - x) mod 4294967296 = 128 - x" if "x < 128" for x :: nat
  proof -
    have "4294967424 - x = 4294967296 + (128 - x)" using that by simp
    then show ?thesis by (simp only: mod_add_self1) simp
  qed
  have "0 < unat (a - (l - 128)) \<and> unat (a - (l - 128)) < 2 ^ 31"
    using that u v m [of "unat (l - a)"] by (auto split: if_splits)
  then have "a \<noteq> l - 128" "unat (a - (l - 128)) < 2 ^ 31" by auto
  then show ?thesis by (simp add: seqgt_unat MAX_RECENT_PACKETS_def)
qed

lemma shl_unat: "shl x n = (if unat n < 32 then Some (push_bit (unat n) x) else None)"
  by (simp add: shl_def word_less_nat_alt)

lemma unat_diff_1: "a \<noteq> b \<Longrightarrow> unat (a - b - 1) = unat (a - b) - 1" for a b :: u32
  by (subst unat_sub) (auto simp: word_le_nat_alt unat_eq_zero Suc_le_eq intro: gr0I)

lemma pos_diff: "a \<noteq> b \<Longrightarrow> 0 < unat (a - b)" for a b :: u32
  by (metis eq_iff_diff_eq_0 gr0I unat_eq_zero)

lemma bit_shift_in: "bit (push_bit 1 m OR 1) k \<longleftrightarrow> k = 0 \<or> k < 32 \<and> bit m (k - 1)" for m :: u32
  by (cases k) (auto simp: bit_or_iff bit_push_bit_iff bit_1_iff simp del: push_bit_Suc)

lemma ack_ahead:
  assumes "ack_id > last_remote_seq pm" "unat (ack_id - last_remote_seq pm) \<le> 32"
  shows "\<exists>q. ack_remote_seq ack_id pm = Some (True, q) \<and> last_remote_seq q = ack_id
    \<and> (\<forall>sq. seen q sq \<longleftrightarrow> sq = ack_id \<or> unat (ack_id - sq) \<le> 32 \<and> seen pm sq)"
proof -
  let ?l = "last_remote_seq pm" and ?m = "last_remote_mask pm"
  let ?d = "unat (ack_id - ?l)"
  have d: "0 < ?d" "?d \<le> 32" using assms pos_diff [of ack_id ?l] by auto
  let ?q = "pm\<lparr>last_remote_mask := push_bit (?d - 1) (push_bit 1 ?m OR 1), last_remote_seq := ack_id\<rparr>"
  have run: "ack_remote_seq ack_id pm = Some (True, ?q)"
    using assms d in_window [of ack_id ?l] unat_diff_1 [of ack_id ?l] less_imp_neq [OF assms(1)]
    by (simp add: ack_remote_seq_def shl_unat)
  have "seen ?q sq \<longleftrightarrow> sq = ack_id \<or> unat (ack_id - sq) \<le> 32 \<and> seen pm sq" for sq
  proof (cases "sq = ack_id")
    case False
    let ?D = "unat (ack_id - sq)"
    have D: "0 < ?D" using False pos_diff [of ack_id sq] by simp
    have e: "unat (?l - sq) = (if ?d \<le> ?D then ?D - ?d else ?D + 2 ^ 32 - ?d)"
      by (rule unat_shift_base)
    have l: "sq = ?l \<longleftrightarrow> ?D = ?d" by (metis add_diff_cancel_left' diff_eq_diff_eq word_unat_eq_iff diff_add_cancel)
    have "bit (push_bit (?d - 1) (push_bit 1 ?m OR 1)) (?D - 1) \<longleftrightarrow> ?d \<le> ?D \<and> (?D = ?d \<or> bit ?m (?D - ?d - 1))"
      if "?D \<le> 32"
      using that d D unfolding bit_push_bit_iff [of "?d - 1"] bit_shift_in by auto
    then show ?thesis
      using False D d e l by (auto simp: seen_def Let_def)
  qed (simp add: seen_def)
  with run show ?thesis by (intro exI [of _ ?q]) simp
qed

lemma ack_behind:
  assumes "ack_id < last_remote_seq pm" "unat (last_remote_seq pm - ack_id) \<le> 32"
  shows "\<exists>q. ack_remote_seq ack_id pm = Some (\<not> seen pm ack_id, q) \<and> last_remote_seq q = last_remote_seq pm
    \<and> (\<forall>sq. seen q sq \<longleftrightarrow> sq = ack_id \<or> seen pm sq)"
proof -
  let ?l = "last_remote_seq pm" and ?m = "last_remote_mask pm"
  let ?d = "unat (?l - ack_id)"
  define p where "p = (push_bit (?d - 1) 1 :: u32)"
  have d: "0 < ?d" "?d \<le> 32" using assms pos_diff [of ?l ack_id] by auto
  have s: "shl 1 (?l - ack_id - 1) = Some p"
    using assms d unat_diff_1 [of ?l ack_id] by (simp add: shl_unat p_def)
  have b: "bit p j \<longleftrightarrow> j = ?d - 1" for j
    using d by (auto simp: bit_simps p_def)
  have t: "?m AND p \<noteq> 0 \<longleftrightarrow> bit ?m (?d - 1)"
    using bit_eq_iff [of "?m AND p" 0] d by (auto simp: bit_and_iff b)
  have seen: "seen pm ack_id \<longleftrightarrow> bit ?m (?d - 1)"
    using assms d by (auto simp: seen_def Let_def)
  have run: "ack_remote_seq ack_id pm = Some (\<not> seen pm ack_id,
      if seen pm ack_id then pm else pm\<lparr>last_remote_mask := ?m OR p\<rparr>)"
    using assms d s t in_window [of ack_id ?l] by (auto simp: ack_remote_seq_def seen)
  have "seen (pm\<lparr>last_remote_mask := ?m OR p\<rparr>) sq \<longleftrightarrow> sq = ack_id \<or> seen pm sq" for sq
  proof -
    have "unat (?l - sq) = ?d \<longleftrightarrow> sq = ack_id" by (metis diff_eq_diff_eq diff_left_imp_eq word_unat_eq_iff)
    with b d show ?thesis by (auto simp: seen_def Let_def bit_or_iff)
  qed
  with run show ?thesis by (cases "seen pm ack_id") auto
qed


subsection \<open>Properties\<close>

text \<open>
  C4: for numbers within 32 of the last one received, \<^verbatim>\<open>ackRemoteSeq\<close> implements the
  set of received numbers: it accepts a number exactly when it has not been accepted before,
  remembers it, keeps every number that is still within 32 of the newest one, and forgets
  the others.
\<close>

theorem ack_remote_seq_window:
  "(ack_id = last_remote_seq pm \<longrightarrow> ack_remote_seq ack_id pm = Some (False, pm))
   \<and> (ack_id < last_remote_seq pm \<and> unat (last_remote_seq pm - ack_id) \<le> 32 \<longrightarrow>
       (\<exists>q. ack_remote_seq ack_id pm = Some (\<not> seen pm ack_id, q)
          \<and> last_remote_seq q = last_remote_seq pm
          \<and> (\<forall>sq. seen q sq \<longleftrightarrow> sq = ack_id \<or> seen pm sq)))
   \<and> (ack_id > last_remote_seq pm \<and> unat (ack_id - last_remote_seq pm) \<le> 32 \<longrightarrow>
       (\<exists>q. ack_remote_seq ack_id pm = Some (True, q) \<and> last_remote_seq q = ack_id
          \<and> (\<forall>sq. seen q sq \<longleftrightarrow> sq = ack_id \<or> unat (ack_id - sq) \<le> 32 \<and> seen pm sq)))"
  using ack_behind [of ack_id pm] ack_ahead [of pm ack_id] in_window [of "last_remote_seq pm" "last_remote_seq pm"]
  by (simp add: ack_remote_seq_def)

theorem ack_remote_seq_window_witness:
  "\<exists>q. ack_remote_seq 3 (pm_new 0 1) = Some (True, q) \<and> seen q 3 \<and> \<not> seen q 2"
proof -
  have "last_remote_seq (pm_new 0 1) = 0" "\<not> seen (pm_new 0 1) 2"
    by (simp_all add: pm_new_def seen_def)
  with ack_remote_seq_window [of 3 "pm_new 0 1"] show ?thesis by auto
qed

text \<open>
  Outside the 32-bit mask the code is not covered. A number 128 or more behind the last
  one (and less than half the number space) is refused; but the check admits 128 numbers
  while the mask has 32 bits, so a number 33 to 127 behind, one more than 32 ahead, and the
  first number after the counter wraps all reach a shift by 32 or more, which is undefined.
\<close>

theorem ack_remote_seq_outside:
  "(128 \<le> d \<and> d < 2 ^ 31 \<longrightarrow> ack_remote_seq (last_remote_seq pm - of_nat d) pm = Some (False, pm))
   \<and> (33 \<le> d \<and> d < 128 \<and> d \<le> unat (last_remote_seq pm) \<longrightarrow>
        ack_remote_seq (last_remote_seq pm - of_nat d) pm = None)
   \<and> (33 \<le> d \<and> d < 2 ^ 31 - 128 \<and> unat (last_remote_seq pm) + d < 2 ^ 32 \<longrightarrow>
        ack_remote_seq (last_remote_seq pm + of_nat d) pm = None)
   \<and> (last_remote_seq pm = 0xFFFFFFFF \<longrightarrow> ack_remote_seq 0 pm = None)"
proof (intro conjI impI)
  let ?l = "last_remote_seq pm"
  {
    assume d: "128 \<le> d \<and> d < 2 ^ 31"
    then have "unat (128 - of_nat d :: u32) = (if d = 128 then 0 else 2 ^ 32 + 128 - d)"
      by (simp add: unat_sub_if' unat_of_nat)
    then have "\<not> seqgt (?l - of_nat d) (?l - of_nat MAX_RECENT_PACKETS)"
      using d by (auto simp: seqgt_unat MAX_RECENT_PACKETS_def algebra_simps split: if_splits)
    then show "ack_remote_seq (?l - of_nat d) pm = Some (False, pm)"
      by (simp add: ack_remote_seq_def)
  next
    assume d: "33 \<le> d \<and> d < 128 \<and> d \<le> unat ?l"
    then have u: "unat (of_nat d :: u32) = d" by (simp add: unat_of_nat)
    then have "?l - of_nat d < ?l"
      using d by (simp add: word_less_nat_alt unat_sub_if')
    moreover have "unat (of_nat d - 1 :: u32) = d - 1" using d u by (simp add: unat_sub_if')
    ultimately show "ack_remote_seq (?l - of_nat d) pm = None"
      using d u in_window [of "?l - of_nat d" ?l] by (auto simp: ack_remote_seq_def shl_unat)
  next
    assume d: "33 \<le> d \<and> d < 2 ^ 31 - 128 \<and> unat ?l + d < 2 ^ 32"
    then have u: "unat (of_nat d :: u32) = d" by (simp add: unat_of_nat)
    then have "?l < ?l + of_nat d"
      using d by (simp add: word_less_nat_alt unat_word_ariths)
    moreover have "unat (of_nat d - 1 :: u32) = d - 1" using d u by (simp add: unat_sub_if')
    moreover have "unat (of_nat d + 128 :: u32) = d + 128" using d u by (simp add: unat_word_ariths)
    then have "seqgt (?l + of_nat d) (?l - of_nat MAX_RECENT_PACKETS)"
      using d by (auto simp: seqgt_unat MAX_RECENT_PACKETS_def algebra_simps)
    ultimately show "ack_remote_seq (?l + of_nat d) pm = None"
      using d u by (auto simp: ack_remote_seq_def shl_unat)
  next
    assume "?l = 0xFFFFFFFF"
    then show "ack_remote_seq 0 pm = None"
      by (simp add: ack_remote_seq_def seqgt_def MAX_RECENT_PACKETS_def shl_def)
  }
qed

theorem ack_remote_seq_outside_witness:
  "ack_remote_seq 40 (pm_new 0 1\<lparr>last_remote_seq := 100\<rparr>) = None"
  using ack_remote_seq_outside [of 60 "pm_new 0 1\<lparr>last_remote_seq := 100\<rparr>"] by simp

text \<open>
  The two ends of an acknowledgment disagree about the mask. The receiver keeps the
  number \<open>d\<close> before the last one in bit \<open>d - 1\<close>; the sender that gets this mask looks for
  it in bit \<open>32 - d\<close>. So the sender takes a packet for acknowledged exactly when the
  receiver has seen the packet at the mirrored distance \<open>33 - d\<close>; only the last number
  itself is always judged right.
\<close>

theorem ack_mask_mirrored:
  assumes "1 \<le> d" "d \<le> 32" "d \<le> unat (last_remote_seq recv)"
    and "send' = ack_local (last_remote_seq recv) (last_remote_mask recv) send"
  shows "(was_local_acked (last_remote_seq recv - of_nat d) send'
            \<longleftrightarrow> seen recv (last_remote_seq recv - of_nat (33 - d)))
       \<and> (seen recv (last_remote_seq recv - of_nat d) \<longleftrightarrow> bit (last_remote_mask recv) (d - 1))
       \<and> was_local_acked (last_remote_seq recv) send'"
proof -
  let ?l = "last_remote_seq recv" and ?m = "last_remote_mask recv"
  have u: "unat (of_nat k :: u32) = k" if "k \<le> 32" for k
    using that by (simp add: unat_of_nat)
  have nz: "of_nat k \<noteq> (0 :: u32)" if "1 \<le> k" "k \<le> 32" for k
    using u [OF that(2)] that(1) by (metis not_one_le_zero unat_0)
  have seen: "seen recv (?l - of_nat k) \<longleftrightarrow> bit ?m (k - 1)" if "1 \<le> k" "k \<le> 32" for k
    using that u [OF that(2)] nz [OF that] by (auto simp: seen_def Let_def)
  have lt: "?l - of_nat d < ?l"
    using assms u [OF assms(2)] by (simp add: word_less_nat_alt unat_sub_if')
  have "was_local_acked (?l - of_nat d) send' \<longleftrightarrow> bit ?m (32 - d)"
    using lt assms u [OF assms(2)] nz [OF assms(1,2)]
    by (auto simp: was_local_acked_def ack_local_def Let_def and_one_eq bit_iff_odd_drop_bit
        odd_iff_mod_2_eq_one)
  moreover have "33 - d - 1 = 32 - d" "1 \<le> 33 - d" "33 - d \<le> 32" using assms by auto
  ultimately show ?thesis
    using seen [of "33 - d"] seen [OF assms(1,2)] assms(4) by (simp add: was_local_acked_def ack_local_def)
qed

theorem ack_mask_mirrored_witness:
  "\<not> was_local_acked (40 - of_nat 1) (ack_local 40 1 (pm_new 0 1))
   \<and> seen (pm_new 1 1\<lparr>last_remote_seq := 40\<rparr>) (40 - of_nat 1)"
  using ack_mask_mirrored [of 1 "pm_new 1 1\<lparr>last_remote_seq := 40\<rparr>" "ack_local 40 1 (pm_new 0 1)" "pm_new 0 1"]
  by (simp add: pm_new_def seen_def bit_1_iff)

lemma trim_front_drop: "trim_front xs = drop (length xs - MAX_RECENT_PACKETS) xs"
proof (induction xs rule: trim_front.induct)
  case (1 xs)
  show ?case
  proof (cases "MAX_RECENT_PACKETS < length xs")
    case True
    with 1 have "trim_front xs = drop (length (drop 1 xs) - MAX_RECENT_PACKETS) (drop 1 xs)"
      by (subst trim_front.simps) simp
    with True show ?thesis by (simp add: Suc_diff_Suc)
  qed (subst trim_front.simps, simp)
qed

lemma trim_front_append: "trim_front (trim_front xs @ ys) = trim_front (xs @ ys)"
  by (cases "length xs \<le> MAX_RECENT_PACKETS") (simp_all add: trim_front_drop add.commute)

lemma length_trim_front: "length (trim_front xs) \<le> 128"
  by (simp add: trim_front_drop MAX_RECENT_PACKETS_def)

lemma add_recent_fields:
  "recent_outgoing (add_recent p pm) = trim_front (recent_outgoing pm @ [p])"
  "last_sent_seq (add_recent p pm) = ccp_seq (rp_pkt p)"
  "last_acked_mask (add_recent p pm) = last_acked_mask pm"
  "last_remote_mask (add_recent p pm) = last_remote_mask pm"
  "local_seq (add_recent p pm) = local_seq pm"
  by (simp_all add: add_recent_def)

text \<open>
  The list of recent packets is the history of the packets sent: after any sequence of
  sends it holds the last 128 of them, oldest first, the number of the last one is kept, and
  the acknowledgment state is untouched.
\<close>

theorem recent_outgoing_history:
  "recent_outgoing (fold add_recent ps pm)
     = (if ps = [] then recent_outgoing pm else trim_front (recent_outgoing pm @ ps))
   \<and> (ps \<noteq> [] \<longrightarrow> length (recent_outgoing (fold add_recent ps pm)) \<le> 128
        \<and> last_sent_seq (fold add_recent ps pm) = ccp_seq (rp_pkt (last ps)))
   \<and> last_acked_mask (fold add_recent ps pm) = last_acked_mask pm
   \<and> last_remote_mask (fold add_recent ps pm) = last_remote_mask pm
   \<and> local_seq (fold add_recent ps pm) = local_seq pm"
proof (induction ps rule: rev_induct)
  case Nil
  then show ?case by simp
next
  case (snoc p ps)
  then show ?case
    using trim_front_append [of "recent_outgoing pm @ ps" "[p]"] length_trim_front
    by (cases "ps = []") (simp_all add: add_recent_fields)
qed

theorem recent_outgoing_history_witness:
  "length (recent_outgoing (fold add_recent
      (replicate 200 (recent_packet_new \<lparr>pp_packet = [], pp_info = \<lparr>ccp_seq = 9, ccp_stream_id = 1\<rparr>, pp_endpoint = 0\<rparr> 0))
      (pm_new 0 1))) \<le> 128"
  by (rule recent_outgoing_history [THEN conjunct2, THEN conjunct1, THEN mp, THEN conjunct1]) simp

text \<open>Acknowledging everything older than a number within the window.\<close>

lemma ack_remote_older_than_seen:
  assumes "unat (last_remote_seq pm - sq) < 32"
  shows "\<exists>q. ack_remote_older_than sq pm = Some q
    \<and> (\<forall>x. seen q x \<longleftrightarrow> seen pm x
          \<or> unat (last_remote_seq pm - sq) < unat (last_remote_seq pm - x) \<and> unat (last_remote_seq pm - x) \<le> 32)"
proof -
  let ?l = "last_remote_seq pm"
  have m: "(0xFFFFFFFF :: u32) = - 1" by simp
  let ?q = "pm\<lparr>last_remote_mask := last_remote_mask pm OR push_bit (unat (?l - sq)) (- 1)\<rparr>"
  have run: "ack_remote_older_than sq pm = Some ?q"
    using assms unfolding ack_remote_older_than_def m shl_unat by simp
  have "seen ?q x \<longleftrightarrow> seen pm x \<or> unat (?l - sq) < unat (?l - x) \<and> unat (?l - x) \<le> 32" for x
  proof (cases "x = ?l")
    case False
    then have "0 < unat (?l - x)" by (intro pos_diff) simp
    with False assms show ?thesis
      by (cases "unat (?l - x)") (auto simp: seen_def Let_def bit_or_iff bit_not_iff bit_mask_iff)
  qed (simp add: seen_def)
  with run show ?thesis by blast
qed

end
