(* ===== verification/Congestion.thy ===== *)
theory Congestion
  imports Packet_Manager Historic
begin

section \<open>Congestion control (CongestionControl.h, CongestionControl.cpp)\<close>

text \<open>
  The packets in flight, in 100 slots; what was acknowledged and what was lost; and the
  decision to raise or lower the bitrate. \<^verbatim>\<open>size_t\<close> is 64 bits wide; floating point values are exact
  reals and the clock is an argument. An infinite time is \<open>None\<close>.
\<close>

record cc_slot =
  cs_seq :: u32
  cs_stream :: byte
  cs_send_time :: real
  cs_size :: u64

datatype cc_action = NoAction | Increase | Decrease | MinAction

record congestion =
  rtt_history :: "real hist"
  inflight_history :: "u64 hist"
  inflight :: "cc_slot list"
  loss_count :: u32
  last_action :: cc_action
  last_action_count :: byte
  tmp_rtt :: real
  last_action_time :: real
  tmp_rtt_count :: u32
  last_sent :: "byte \<Rightarrow> u32 option"
  cc_ticks :: u32
  inflight_size :: u64
  cwnd :: u64

definition cc_new :: "(string \<Rightarrow> u64 \<Rightarrow> u64) \<Rightarrow> congestion" where
  "cc_new cfg_int = \<lparr>rtt_history = hist_new 100, inflight_history = hist_new 30,
     inflight = replicate 100 \<lparr>cs_seq = 0, cs_stream = 0, cs_send_time = 0, cs_size = 0\<rparr>,
     loss_count = 0, last_action = NoAction, last_action_count = 0, tmp_rtt = 0, last_action_time = 0,
     tmp_rtt_count = 0, last_sent = Map.empty, cc_ticks = 0, inflight_size = 0,
     cwnd = cfg_int ''audio_congestion_window'' 1024\<rparr>"

definition average_rtt :: "congestion \<Rightarrow> real" where
  "average_rtt c = hist_nonzero_average (rtt_history c)"

definition minimum_rtt :: "congestion \<Rightarrow> real" where
  "minimum_rtt c = hist_min (rtt_history c)"

text \<open>The average of a \<^verbatim>\<open>HistoricBuffer<size_t, 30>\<close> is computed on \<^verbatim>\<open>size_t\<close>.\<close>

definition inflight_data_size :: "congestion \<Rightarrow> u64" where
  "inflight_data_size c = sum_list (hdata (inflight_history c)) div of_nat (length (hdata (inflight_history c)))"

definition acknowledged_data_size :: "congestion \<Rightarrow> u64" where
  "acknowledged_data_size c = 0"

definition congestion_window :: "congestion \<Rightarrow> u64" where
  "congestion_window c = cwnd c"

definition send_loss_count :: "congestion \<Rightarrow> u32" where
  "send_loss_count c = loss_count c"

text \<open>The first free slot, or the one with the oldest packet.\<close>

fun find_slot :: "real option \<Rightarrow> nat option \<Rightarrow> nat \<Rightarrow> cc_slot list \<Rightarrow> nat option" where
  "find_slot smallest best i [] = best"
| "find_slot smallest best i (p # ps) =
    (if cs_send_time p = 0 then Some i
     else if (case smallest of None \<Rightarrow> True | Some t \<Rightarrow> t > cs_send_time p)
       then find_slot (Some (cs_send_time p)) (Some i) (i + 1) ps
     else find_slot smallest best (i + 1) ps)"

definition packet_sent :: "real \<Rightarrow> cc_packet \<Rightarrow> u64 \<Rightarrow> congestion \<Rightarrow> exn + congestion" where
  "packet_sent now pkt sz c =
    (let c0 = (if last_sent c (ccp_stream_id pkt) = None
               then c\<lparr>last_sent := (last_sent c)(ccp_stream_id pkt \<mapsto> 0)\<rparr> else c);
         last = the (last_sent c0 (ccp_stream_id pkt)) in
     if \<not> seqgt (ccp_seq pkt) last \<or> ccp_seq pkt = last then Inr c0
     else let c1 = c0\<lparr>last_sent := (last_sent c0)(ccp_stream_id pkt \<mapsto> ccp_seq pkt)\<rparr> in
       (case find_slot None None 0 (inflight c1) of
          None \<Rightarrow> Inl AssertFail
        | Some i \<Rightarrow>
           (let p = inflight c1 ! i;
                c2 = (if cs_send_time p > 0
                      then c1\<lparr>inflight_size := inflight_size c1 - cs_size p, loss_count := loss_count c1 + 1\<rparr>
                      else c1) in
            Inr (c2\<lparr>inflight := (inflight c2)[i := \<lparr>cs_seq = ccp_seq pkt, cs_stream = ccp_stream_id pkt,
                       cs_send_time = now, cs_size = sz\<rparr>],
                    inflight_size := inflight_size c2 + sz\<rparr>))))"

definition slot_of :: "cc_packet \<Rightarrow> cc_slot \<Rightarrow> bool" where
  "slot_of pkt p \<longleftrightarrow> cs_seq p = ccp_seq pkt \<and> cs_stream p = ccp_stream_id pkt \<and> cs_send_time p > 0"

fun free_first :: "(cc_slot \<Rightarrow> bool) \<Rightarrow> cc_slot list \<Rightarrow> cc_slot option \<times> cc_slot list" where
  "free_first P [] = (None, [])"
| "free_first P (p # ps) = (if P p then (Some p, p\<lparr>cs_send_time := 0\<rparr> # ps)
     else (case free_first P ps of (r, qs) \<Rightarrow> (r, p # qs)))"

definition packet_acknowledged :: "real \<Rightarrow> cc_packet \<Rightarrow> congestion \<Rightarrow> congestion" where
  "packet_acknowledged now pkt c = (case free_first (slot_of pkt) (inflight c) of
     (None, ps) \<Rightarrow> c
   | (Some p, ps) \<Rightarrow> c\<lparr>tmp_rtt := tmp_rtt c + (now - cs_send_time p), tmp_rtt_count := tmp_rtt_count c + 1,
        inflight := ps, inflight_size := inflight_size c - cs_size p\<rparr>)"

definition packet_lost :: "cc_packet \<Rightarrow> congestion \<Rightarrow> congestion" where
  "packet_lost pkt c = (case free_first (slot_of pkt) (inflight c) of
     (None, ps) \<Rightarrow> c
   | (Some p, ps) \<Rightarrow> c\<lparr>inflight := ps, inflight_size := inflight_size c - cs_size p, loss_count := loss_count c + 1\<rparr>)"

text \<open>The periodic check: packets that have been out for more than two seconds are lost.\<close>

definition slot_timed_out :: "real \<Rightarrow> cc_slot \<Rightarrow> bool" where
  "slot_timed_out now p \<longleftrightarrow> cs_send_time p \<noteq> 0 \<and> now - cs_send_time p > 2"

definition expire :: "real \<Rightarrow> congestion \<Rightarrow> congestion" where
  "expire now c = c\<lparr>inflight := map (\<lambda>p. if slot_timed_out now p then p\<lparr>cs_send_time := 0\<rparr> else p) (inflight c),
     inflight_size := inflight_size c - sum_list (map cs_size (filter (slot_timed_out now) (inflight c))),
     loss_count := loss_count c + of_nat (length (filter (slot_timed_out now) (inflight c)))\<rparr>"

definition cc_tick :: "real \<Rightarrow> congestion \<Rightarrow> congestion" where
  "cc_tick now c =
    (let c1 = c\<lparr>cc_ticks := cc_ticks c + 1\<rparr>;
         c2 = (if tmp_rtt_count c1 > 0
               then c1\<lparr>rtt_history := hist_add (tmp_rtt c1 / real (unat (tmp_rtt_count c1))) (rtt_history c1),
                       tmp_rtt := 0, tmp_rtt_count := 0\<rparr> else c1);
         c3 = expire now c2
     in c3\<lparr>inflight_history := hist_add (inflight_size c3) (inflight_history c3)\<rparr>)"

text \<open>The decision. The network types are \<^verbatim>\<open>NET_TYPE_GPRS = 1\<close>, \<^verbatim>\<open>EDGE = 2\<close> and \<^verbatim>\<open>LTE = 5\<close>; a product that does not fit
  \<^verbatim>\<open>size_t\<close> is undefined in C++.\<close>

definition NET_TYPE_GPRS :: int where "NET_TYPE_GPRS = 1"
definition NET_TYPE_EDGE :: int where "NET_TYPE_EDGE = 2"
definition NET_TYPE_LTE :: int where "NET_TYPE_LTE = 5"

definition to_size :: "real \<Rightarrow> u64 option" where
  "to_size x = (if -1 < x \<and> x < 2 ^ 64 then Some (of_nat (nat \<lfloor>x\<rfloor>)) else None)"

definition act_after :: "int \<Rightarrow> byte" where
  "act_after m = 3 - (if m < NET_TYPE_LTE then 1 else 0) - (if m \<le> NET_TYPE_GPRS then 1 else 0)
     - (if m \<le> NET_TYPE_EDGE then 1 else 0)"

definition wanted_action :: "real \<Rightarrow> congestion \<Rightarrow> cc_action option" where
  "wanted_action mult c =
    (case (to_size (real (unat (cwnd c)) * mult * 1.1), to_size (real (unat (cwnd c)) * mult * 0.9)) of
       (Some mx, Some mn) \<Rightarrow> Some (if inflight_data_size c < mn then Increase
          else if inflight_data_size c > mx then Decrease else NoAction)
     | _ \<Rightarrow> None)"

definition bandwidth_action :: "real \<Rightarrow> int \<Rightarrow> real \<Rightarrow> congestion \<Rightarrow> (cc_action \<times> congestion) option" where
  "bandwidth_action now m mult c = (if now - last_action_time c < 1 then Some (NoAction, c)
     else (case wanted_action mult c of None \<Rightarrow> None
      | Some act \<Rightarrow>
         (if act = last_action c then
            (let c1 = c\<lparr>last_action_count := last_action_count c + 1\<rparr> in
             if last_action_count c = act_after m
             then Some (act, c1\<lparr>last_action_time := now, last_action_count := 0\<rparr>)
             else Some (NoAction, c1\<lparr>last_action := act\<rparr>))
          else Some (NoAction, c\<lparr>last_action_count := 0, last_action := act\<rparr>))))"

subsection \<open>The amount of data in flight\<close>

definition weight :: "cc_slot \<Rightarrow> u64" where
  "weight p = (if cs_send_time p > 0 then cs_size p else 0)"

definition in_flight :: "cc_slot list \<Rightarrow> u64" where
  "in_flight ps = sum_list (map weight ps)"

definition cc_ok :: "congestion \<Rightarrow> bool" where
  "cc_ok c \<longleftrightarrow> (\<forall>p \<in> set (inflight c). cs_send_time p \<ge> 0) \<and> length (inflight c) = 100
     \<and> inflight_size c = in_flight (inflight c)"

lemma in_flight_simps [simp]: "in_flight [] = 0" "in_flight (p # ps) = weight p + in_flight ps"
  by (simp_all add: in_flight_def)

lemma in_flight_update: "i < length ps \<Longrightarrow> in_flight (ps[i := q]) = in_flight ps - weight (ps ! i) + weight q"
  by (induction ps arbitrary: i) (auto simp: nth_Cons' split: nat.splits)

lemma find_slot_range: "find_slot sm best i ps = Some k \<Longrightarrow> best = Some k \<or> i \<le> k \<and> k < i + length ps"
  by (induction sm best i ps rule: find_slot.induct) (fastforce split: if_splits)+

lemma find_slot_found: "best \<noteq> None \<or> (ps \<noteq> [] \<and> sm = None) \<Longrightarrow> find_slot sm best i ps \<noteq> None"
  by (induction sm best i ps rule: find_slot.induct) auto

lemma free_first_in_flight:
  assumes "\<And>p. P p \<Longrightarrow> cs_send_time p > 0"
  shows "(case free_first P ps of (None, qs) \<Rightarrow> qs = ps
    | (Some p, qs) \<Rightarrow> cs_send_time p > 0 \<and> in_flight qs = in_flight ps - cs_size p \<and> length qs = length ps
        \<and> ((\<forall>p \<in> set ps. cs_send_time p \<ge> 0) \<longrightarrow> (\<forall>p \<in> set qs. cs_send_time p \<ge> 0)))"
  by (induction ps) (auto simp: weight_def assms split: option.splits prod.splits)

lemma in_flight_expire:
  "(\<forall>p \<in> set ps. cs_send_time p \<ge> 0) \<Longrightarrow>
   in_flight (map (\<lambda>p. if slot_timed_out now p then p\<lparr>cs_send_time := 0\<rparr> else p) ps)
     = in_flight ps - sum_list (map cs_size (filter (slot_timed_out now) ps))"
  by (induction ps) (auto simp: weight_def slot_timed_out_def)

text \<open>
  C27: the count of the bytes in flight is exact: sending, acknowledgment, loss and the periodic
  check keep it equal to the sum of the sizes of the slots in use, modulo \<open>2 ^ 64\<close>. Sending always finds a
  slot.
\<close>

theorem cc_in_flight_exact:
  assumes "cc_ok c" "now > 0"
  shows "(\<exists>c'. packet_sent now pkt sz c = Inr c' \<and> cc_ok c')
    \<and> cc_ok (packet_acknowledged now pkt c) \<and> cc_ok (packet_lost pkt c) \<and> cc_ok (cc_tick now c)"
proof (intro conjI)
  let ?fl = "\<lambda>c. (inflight c, inflight_size c)"
  have ok: "cc_ok d" if "?fl d = ?fl e" "cc_ok e" for d e
    using that by (simp add: cc_ok_def)
  show "\<exists>c'. packet_sent now pkt sz c = Inr c' \<and> cc_ok c'"
  proof -
    let ?id = "ccp_stream_id pkt"
    define c0 where "c0 = (if last_sent c ?id = None then c\<lparr>last_sent := (last_sent c)(?id \<mapsto> 0)\<rparr> else c)"
    have c0: "inflight c0 = inflight c" "inflight_size c0 = inflight_size c" by (simp_all add: c0_def)
    obtain i where i: "find_slot None None 0 (inflight c) = Some i" "i < 100"
      using find_slot_found [of None "inflight c" None 0] find_slot_range [of None None 0 "inflight c"] assms(1)
      by (force simp: cc_ok_def)
    show ?thesis
    proof (cases "\<not> seqgt (ccp_seq pkt) (the (last_sent c0 ?id)) \<or> ccp_seq pkt = the (last_sent c0 ?id)")
      case True
      then have "packet_sent now pkt sz c = Inr c0" by (simp only: packet_sent_def Let_def c0_def if_True)
      then show ?thesis using ok [of c0 c] c0 assms(1) by simp
    next
      case False
      let ?p = "inflight c ! i"
      let ?q = "\<lparr>cs_seq = ccp_seq pkt, cs_stream = ?id, cs_send_time = now, cs_size = sz\<rparr>"
      define c1 where "c1 = c0\<lparr>last_sent := (last_sent c0)(?id \<mapsto> ccp_seq pkt)\<rparr>"
      define c2 where "c2 = (if cs_send_time ?p > 0 then c1\<lparr>inflight_size := inflight_size c1 - cs_size ?p,
          loss_count := loss_count c1 + 1\<rparr> else c1)"
      have "packet_sent now pkt sz c = Inr (c2\<lparr>inflight := (inflight c2)[i := ?q], inflight_size := inflight_size c2 + sz\<rparr>)"
        using False i c0 by (simp add: packet_sent_def Let_def c0_def [symmetric] c1_def c2_def)
      moreover have "inflight c2 = inflight c" "inflight_size c2 = in_flight (inflight c) - weight ?p"
        using assms(1) c0 by (auto simp: c2_def c1_def weight_def cc_ok_def)
      then have "cc_ok (c2\<lparr>inflight := (inflight c2)[i := ?q], inflight_size := inflight_size c2 + sz\<rparr>)"
        using assms i by (auto simp: cc_ok_def in_flight_update weight_def dest!: set_update_subset_insert [THEN subsetD])
      ultimately show ?thesis by blast
    qed
  qed
  have f: "case free_first (slot_of pkt) (inflight c) of (None, qs) \<Rightarrow> qs = inflight c
    | (Some p, qs) \<Rightarrow> cs_send_time p > 0 \<and> in_flight qs = in_flight (inflight c) - cs_size p \<and> length qs = length (inflight c)
        \<and> ((\<forall>p \<in> set (inflight c). cs_send_time p \<ge> 0) \<longrightarrow> (\<forall>p \<in> set qs. cs_send_time p \<ge> 0))"
    by (rule free_first_in_flight) (simp add: slot_of_def)
  then show "cc_ok (packet_acknowledged now pkt c)" "cc_ok (packet_lost pkt c)"
    using assms(1) by (auto simp: packet_acknowledged_def packet_lost_def cc_ok_def split: option.splits prod.splits)
  show "cc_ok (cc_tick now c)"
    using assms(1) in_flight_expire [of "inflight c" now]
    by (auto simp: cc_tick_def Let_def expire_def cc_ok_def)
qed

theorem cc_in_flight_exact_witness:
  "\<exists>c'. packet_sent 3 \<lparr>ccp_seq = 1, ccp_stream_id = 4\<rparr> 100 (cc_new (\<lambda>_ d. d)) = Inr c' \<and> cc_ok c'"
proof -
  have "in_flight (replicate n \<lparr>cs_seq = 0, cs_stream = 0, cs_send_time = 0, cs_size = 0\<rparr>) = 0" for n
    by (induction n) (simp_all add: weight_def)
  then have "cc_ok (cc_new (\<lambda>_ d. d))" by (simp add: cc_ok_def cc_new_def)
  from cc_in_flight_exact [OF this, of 3] show ?thesis by simp
qed

subsection \<open>The decision\<close>

fun decisions :: "real list \<Rightarrow> int \<Rightarrow> real \<Rightarrow> congestion \<Rightarrow> (cc_action list \<times> congestion) option" where
  "decisions [] m mult c = Some ([], c)"
| "decisions (now # ts) m mult c = (case bandwidth_action now m mult c of None \<Rightarrow> None
     | Some (a, c1) \<Rightarrow> map_option (\<lambda>(as, d). (a # as, d)) (decisions ts m mult c1))"

lemma bandwidth_action_again:
  assumes "wanted_action mult c = Some act" "last_action c = act" "now - last_action_time c \<ge> 1"
  shows "bandwidth_action now m mult c = (if last_action_count c = act_after m
    then Some (act, c\<lparr>last_action_time := now, last_action_count := 0\<rparr>)
    else Some (NoAction, c\<lparr>last_action_count := last_action_count c + 1\<rparr>))"
  using assms by (simp add: bandwidth_action_def Let_def)

lemma wanted_action_count [simp]: "wanted_action mult (c\<lparr>last_action_count := k\<rparr>) = wanted_action mult c"
proof -
  have "inflight_data_size (c\<lparr>last_action_count := k\<rparr>) = inflight_data_size c"
    "cwnd (c\<lparr>last_action_count := k\<rparr>) = cwnd c"
    by (simp_all add: inflight_data_size_def)
  then show ?thesis unfolding wanted_action_def by (simp only:)
qed

lemma decisions_wait:
  assumes "wanted_action mult c = Some act" "last_action c = act" "\<forall>t \<in> set ts. t - last_action_time c \<ge> 1"
    and "unat (last_action_count c) + length ts = unat (act_after m)"
  shows "decisions ts m mult c = Some (replicate (length ts) NoAction, c\<lparr>last_action_count := act_after m\<rparr>)"
  using assms
proof (induction ts arbitrary: c)
  case Nil
  then have "last_action_count c = act_after m" by (simp add: word_unat_eq_iff)
  then show ?case by simp
next
  case (Cons t ts)
  have n: "unat (last_action_count c + 1) = unat (last_action_count c) + 1"
    using Cons.prems(4) unsigned_less [of "act_after m", where ?'a = nat] by (simp add: unat_word_ariths)
  have "last_action_count c \<noteq> act_after m" using Cons.prems(4) by auto
  then have "bandwidth_action t m mult c = Some (NoAction, c\<lparr>last_action_count := last_action_count c + 1\<rparr>)"
    using bandwidth_action_again [OF Cons.prems(1,2)] Cons.prems(3) by simp
  moreover have "decisions ts m mult (c\<lparr>last_action_count := last_action_count c + 1\<rparr>)
    = Some (replicate (length ts) NoAction, c\<lparr>last_action_count := act_after m\<rparr>)"
    using Cons.prems n by (subst Cons.IH) auto
  ultimately show ?case by simp
qed

text \<open>
  An action is taken when it has been wanted long enough, and then once: when the same
  action is wanted as at the last evaluation, the counter is new and a second has passed since
  the last action, the next \<open>act_after\<close> evaluations answer that nothing is to be done and the one
  after them gives the action; within a second after it nothing more is decided. A
  different wish starts the count again.
\<close>

theorem cc_acts_after:
  assumes "wanted_action mult c = Some act" "last_action_count c = 0"
    and "\<forall>t \<in> set (ts @ [now]). t - last_action_time c \<ge> 1" "length ts = unat (act_after m)" "now' - now < 1"
  shows "(last_action c = act \<longrightarrow> (\<exists>d. decisions (ts @ [now, now']) m mult c
        = Some (replicate (length ts) NoAction @ [act, NoAction], d) \<and> last_action_time d = now))
    \<and> (last_action c \<noteq> act \<longrightarrow> bandwidth_action now m mult c = Some (NoAction, c\<lparr>last_action := act\<rparr>))"
proof (intro conjI impI)
  assume l: "last_action c = act"
  have split: "decisions (xs @ ys) m mult d = (case decisions xs m mult d of None \<Rightarrow> None
      | Some (as, e) \<Rightarrow> map_option (\<lambda>(bs, f). (as @ bs, f)) (decisions ys m mult e))" for xs ys d
    by (induction xs arbitrary: d) (auto simp: option.map_comp comp_def split_def option.map_ident split: option.splits)
  let ?c = "c\<lparr>last_action_count := act_after m\<rparr>"
  have w: "decisions ts m mult c = Some (replicate (length ts) NoAction, ?c)"
    using assms l by (intro decisions_wait) auto
  have "bandwidth_action now m mult ?c = Some (act, ?c\<lparr>last_action_time := now, last_action_count := 0\<rparr>)"
    using bandwidth_action_again [of mult ?c act now m] assms l by simp
  moreover have "bandwidth_action now' m mult (?c\<lparr>last_action_time := now, last_action_count := 0\<rparr>)
    = Some (NoAction, ?c\<lparr>last_action_time := now, last_action_count := 0\<rparr>)"
    using assms(5) by (simp add: bandwidth_action_def)
  ultimately show "\<exists>d. decisions (ts @ [now, now']) m mult c
        = Some (replicate (length ts) NoAction @ [act, NoAction], d) \<and> last_action_time d = now"
    by (simp add: split w)
next
  assume "last_action c \<noteq> act"
  then show "bandwidth_action now m mult c = Some (NoAction, c\<lparr>last_action := act\<rparr>)"
    using assms by (simp add: bandwidth_action_def)
qed


theorem cc_acts_after_witness:
  "\<exists>d. decisions [2, 2.5] 1 1 (cc_new (\<lambda>_ d. d)\<lparr>last_action := Increase\<rparr>) = Some ([Increase, NoAction], d)
     \<and> last_action_time d = 2"
proof -
  let ?c = "cc_new (\<lambda>_ d. d)\<lparr>last_action := Increase\<rparr>"
  have "hdata (inflight_history ?c) = replicate 30 0" by (simp add: cc_new_def hist_new_def)
  then have s: "inflight_data_size ?c = 0" by (simp only: inflight_data_size_def) (simp add: sum_list_replicate)
  have "to_size (real (unat (cwnd ?c)) * 1 * 1.1) = Some 1126" "to_size (real (unat (cwnd ?c)) * 1 * 0.9) = Some 921"
    by (simp_all add: cc_new_def to_size_def)
  then have w: "wanted_action 1 ?c = Some Increase"
    unfolding wanted_action_def s by simp
  have a: "act_after 1 = 0" by (simp add: act_after_def NET_TYPE_GPRS_def NET_TYPE_EDGE_def NET_TYPE_LTE_def)
  have "last_action_count ?c = 0" "last_action_time ?c = 0" by (simp_all add: cc_new_def)
  then show ?thesis using cc_acts_after [OF w, of "[]" 2 1 "2.5"] a by simp
qed

end
