(* ===== verification/Buffers.thy ===== *)
theory Buffers
  imports Prelude
begin

section \<open>Byte streams and buffers (tools/Buffers.h, tools/Buffers.cpp)\<close>

text \<open>
  The input stream over a byte array with its checked reads, the growing output stream,
  the owned byte buffer, and the pool of fixed-size buffers. A throwing operation returns
  an error value or the result; a \<^verbatim>\<open>TryRead\<close> returns \<open>None\<close> where the code returns
  false. Every read returns the stream it leaves behind, because the code moves the
  \<^verbatim>\<open>mutable\<close> offset even in const methods. Sizes are \<open>nat\<close>: the arithmetic of the code is
  on \<^verbatim>\<open>size_t\<close> and stays below the size of the address space.
\<close>

subsection \<open>BufferInputStream\<close>

record istream =
  ibuf :: "byte list"
  ioff :: nat

definition istream_of :: "byte list \<Rightarrow> istream" where
  "istream_of bs = \<lparr>ibuf = bs, ioff = 0\<rparr>"

definition iok :: "istream \<Rightarrow> bool" where
  "iok s \<longleftrightarrow> ioff s \<le> length (ibuf s)"

definition seek :: "nat \<Rightarrow> istream \<Rightarrow> exn + istream" where
  "seek off s = (if off > length (ibuf s) then Inl OutOfRange else Inr (s\<lparr>ioff := off\<rparr>))"

definition remaining :: "istream \<Rightarrow> nat" where
  "remaining s = length (ibuf s) - ioff s"

definition ensure_enough_remaining :: "nat \<Rightarrow> istream \<Rightarrow> exn + unit" where
  "ensure_enough_remaining need s =
     (if length (ibuf s) - ioff s < need then Inl OutOfRange else Inr ())"

definition read_byte :: "istream \<Rightarrow> exn + byte \<times> istream" where
  "read_byte s = bind_res (ensure_enough_remaining 1 s)
     (\<lambda>_. Inr (ibuf s ! ioff s, s\<lparr>ioff := ioff s + 1\<rparr>))"

definition read_int32 :: "istream \<Rightarrow> exn + u32 \<times> istream" where
  "read_int32 s = bind_res (ensure_enough_remaining 4 s)
     (\<lambda>_. let b = ibuf s; k = ioff s in
        Inr (un32 (b ! k) (b ! (k + 1)) (b ! (k + 2)) (b ! (k + 3)), s\<lparr>ioff := k + 4\<rparr>))"

definition read_int64 :: "istream \<Rightarrow> exn + u64 \<times> istream" where
  "read_int64 s = bind_res (ensure_enough_remaining 8 s)
     (\<lambda>_. let b = ibuf s; k = ioff s in
        Inr (un64 (b ! k) (b ! (k + 1)) (b ! (k + 2)) (b ! (k + 3))
               (b ! (k + 4)) (b ! (k + 5)) (b ! (k + 6)) (b ! (k + 7)), s\<lparr>ioff := k + 8\<rparr>))"

definition read_int16 :: "istream \<Rightarrow> exn + u16 \<times> istream" where
  "read_int16 s = bind_res (ensure_enough_remaining 2 s)
     (\<lambda>_. let b = ibuf s; k = ioff s in
        Inr (un16 (b ! k) (b ! (k + 1)), s\<lparr>ioff := k + 2\<rparr>))"

text \<open>
  A TL length: one byte below 254, or a marker byte and three bytes. The \<^verbatim>\<open>assert\<close> stands
  before the check that would throw, so a short input aborts a build with assertions.
\<close>

definition read_tl_length :: "istream \<Rightarrow> exn + u32 \<times> istream" where
  "read_tl_length s = bind_res (read_byte s) (\<lambda>(l, s1).
     if l < 254 then Inr (ucast l, s1)
     else if length (ibuf s1) - ioff s1 < 3 then Inl AssertFail
     else bind_res (ensure_enough_remaining 3 s1) (\<lambda>_.
       let b = ibuf s1; k = ioff s1 in
       Inr (un32 (b ! k) (b ! (k + 1)) (b ! (k + 2)) 0, s1\<lparr>ioff := k + 3\<rparr>)))"

definition read_bytes :: "nat \<Rightarrow> istream \<Rightarrow> exn + byte list \<times> istream" where
  "read_bytes n s = bind_res (ensure_enough_remaining n s)
     (\<lambda>_. Inr (take n (drop (ioff s) (ibuf s)), s\<lparr>ioff := ioff s + n\<rparr>))"

definition get_part_buffer :: "nat \<Rightarrow> bool \<Rightarrow> istream \<Rightarrow> exn + istream \<times> istream" where
  "get_part_buffer n advance s = bind_res (ensure_enough_remaining n s)
     (\<lambda>_. Inr (istream_of (take n (drop (ioff s) (ibuf s))),
               if advance then s\<lparr>ioff := ioff s + n\<rparr> else s))"

definition try_u8 :: "istream \<Rightarrow> byte option \<times> istream" where
  "try_u8 s = (if ioff s + 1 > length (ibuf s) then (None, s)
     else (Some (ibuf s ! ioff s), s\<lparr>ioff := ioff s + 1\<rparr>))"

definition try_u16 :: "istream \<Rightarrow> u16 option \<times> istream" where
  "try_u16 s = (if ioff s + 2 > length (ibuf s) then (None, s)
     else let b = ibuf s; k = ioff s in
       (Some (un16 (b ! k) (b ! (k + 1))), s\<lparr>ioff := k + 2\<rparr>))"

definition try_u32 :: "istream \<Rightarrow> u32 option \<times> istream" where
  "try_u32 s = (if ioff s + 4 > length (ibuf s) then (None, s)
     else let b = ibuf s; k = ioff s in
       (Some (un32 (b ! k) (b ! (k + 1)) (b ! (k + 2)) (b ! (k + 3))), s\<lparr>ioff := k + 4\<rparr>))"

definition try_u64 :: "istream \<Rightarrow> u64 option \<times> istream" where
  "try_u64 s = (if ioff s + 8 > length (ibuf s) then (None, s)
     else let b = ibuf s; k = ioff s in
       (Some (un64 (b ! k) (b ! (k + 1)) (b ! (k + 2)) (b ! (k + 3))
                (b ! (k + 4)) (b ! (k + 5)) (b ! (k + 6)) (b ! (k + 7))), s\<lparr>ioff := k + 8\<rparr>))"

definition try_bytes :: "nat \<Rightarrow> istream \<Rightarrow> byte list option \<times> istream" where
  "try_bytes n s = (if ioff s + n > length (ibuf s) then (None, s)
     else (Some (take n (drop (ioff s) (ibuf s))), s\<lparr>ioff := ioff s + n\<rparr>))"

text \<open>\<^verbatim>\<open>Has\<close> answers the opposite of what its name says; the code never calls it.\<close>

definition has_bytes :: "nat \<Rightarrow> istream \<Rightarrow> bool" where
  "has_bytes n s \<longleftrightarrow> ioff s + n > length (ibuf s)"

text \<open>Unlike the other reads, a failing \<^verbatim>\<open>TryReadTlLength\<close> may have consumed the marker.\<close>

definition try_read_tl_length :: "istream \<Rightarrow> u32 option \<times> istream" where
  "try_read_tl_length s = (case try_u8 s of
     (None, s1) \<Rightarrow> (None, s1)
   | (Some l, s1) \<Rightarrow>
       if l < 254 then (Some (ucast l), s1)
       else if length (ibuf s1) - ioff s1 < 3 then (None, s1)
       else let b = ibuf s1; k = ioff s1 in
         (Some (un32 (b ! k) (b ! (k + 1)) (b ! (k + 2)) 0), s1\<lparr>ioff := k + 3\<rparr>))"

text \<open>A network address: the tagged union of \<^verbatim>\<open>NetworkAddress\<close>.\<close>

datatype naddr = IPv4 u32 | IPv6 "byte list"

definition try_naddr :: "bool \<Rightarrow> istream \<Rightarrow> naddr option \<times> istream" where
  "try_naddr ipv6 s = (if ipv6
     then (case try_bytes 16 s of (r, s1) \<Rightarrow> (map_option IPv6 r, s1))
     else (case try_u32 s of (r, s1) \<Rightarrow> (map_option IPv4 r, s1)))"

subsubsection \<open>What is left to read\<close>

text \<open>
  The bytes still ahead of the offset determine every read; the component theories reason
  about \<open>rest\<close> and \<open>adv\<close> only.
\<close>

definition rest :: "istream \<Rightarrow> byte list" where
  "rest s = drop (ioff s) (ibuf s)"

definition adv :: "nat \<Rightarrow> istream \<Rightarrow> istream" where
  "adv n s = s\<lparr>ioff := ioff s + n\<rparr>"

lemma rest_adv [buf_simps]: "rest (adv n s) = drop n (rest s)"
  by (simp add: rest_def adv_def add.commute)

lemma adv_adv [buf_simps]: "adv m (adv n s) = adv (n + m) s"
  by (simp add: adv_def)

lemma adv_0 [buf_simps]: "adv 0 s = s"
  by (simp add: adv_def)

lemma rest_istream_of [buf_simps]: "rest (istream_of bs) = bs"
  by (simp add: rest_def istream_of_def)

lemma iok_istream_of [buf_simps]: "iok (istream_of bs)"
  by (simp add: iok_def istream_of_def)

lemma length_rest: "length (rest s) = remaining s"
  by (simp add: rest_def remaining_def)

lemma iok_adv: "iok s \<Longrightarrow> n \<le> length (rest s) \<Longrightarrow> iok (adv n s)"
  by (auto simp: iok_def adv_def rest_def)

lemma skip_prefix: "iok t \<Longrightarrow> rest t = bs @ ys \<Longrightarrow>
    iok (adv (length bs) t) \<and> rest (adv (length bs) t) = ys"
  by (auto intro!: iok_adv simp: rest_adv)

lemma rest_nonempty_iok: "rest s \<noteq> [] \<Longrightarrow> iok s"
  by (auto simp: iok_def rest_def)

lemma remaining_rest [buf_simps]: "remaining s = length (rest s)"
  by (simp add: length_rest)

lemma nth_ibuf: "n < length (rest s) \<Longrightarrow> ibuf s ! (ioff s + n) = rest s ! n"
  by (simp add: rest_def)

lemma enough_bytes: "0 < n \<Longrightarrow> length (ibuf s) < ioff s + n \<longleftrightarrow> length (rest s) < n"
  by (auto simp: rest_def)

lemma enough_bytes_iok: "iok s \<Longrightarrow> length (ibuf s) < ioff s + n \<longleftrightarrow> length (rest s) < n"
  by (auto simp: rest_def iok_def)

lemma try_u8_conv:
  "try_u8 s = (case rest s of [] \<Rightarrow> (None, s) | b # _ \<Rightarrow> (Some b, adv 1 s))"
proof (cases "rest s")
  case Nil
  then have "length (rest s) < 1" by simp
  with Nil show ?thesis using enough_bytes [of 1 s] by (simp add: try_u8_def)
next
  case (Cons b bs)
  then have "\<not> length (rest s) < 1" by simp
  moreover have "ibuf s ! ioff s = b" using nth_ibuf [of 0 s] Cons by simp
  ultimately show ?thesis using Cons enough_bytes [of 1 s]
    by (auto simp add: try_u8_def adv_def)
qed

lemma try_u16_conv:
  "try_u16 s = (if length (rest s) < 2 then (None, s)
     else (Some (un16 (rest s ! 0) (rest s ! 1)), adv 2 s))"
  using enough_bytes [of 2 s] nth_ibuf [of 0 s] nth_ibuf [of 1 s]
  by (cases "rest s = []") (auto simp: try_u16_def adv_def Let_def)

lemma try_u32_conv:
  "try_u32 s = (if length (rest s) < 4 then (None, s)
     else (Some (un32 (rest s ! 0) (rest s ! 1) (rest s ! 2) (rest s ! 3)), adv 4 s))"
  using enough_bytes [of 4 s] nth_ibuf [of 0 s] nth_ibuf [of 1 s] nth_ibuf [of 2 s] nth_ibuf [of 3 s]
  by (cases "rest s = []") (auto simp: try_u32_def adv_def Let_def)

lemma try_u64_conv:
  "try_u64 s = (if length (rest s) < 8 then (None, s)
     else (Some (un64 (rest s ! 0) (rest s ! 1) (rest s ! 2) (rest s ! 3)
                 (rest s ! 4) (rest s ! 5) (rest s ! 6) (rest s ! 7)), adv 8 s))"
  using enough_bytes [of 8 s] nth_ibuf [of 0 s] nth_ibuf [of 1 s] nth_ibuf [of 2 s] nth_ibuf [of 3 s]
    nth_ibuf [of 4 s] nth_ibuf [of 5 s] nth_ibuf [of 6 s] nth_ibuf [of 7 s]
  by (cases "rest s = []") (auto simp: try_u64_def adv_def Let_def)

lemma try_bytes_conv:
  "iok s \<Longrightarrow> try_bytes n s = (if length (rest s) < n then (None, s)
     else (Some (take n (rest s)), adv n s))"
  by (simp add: try_bytes_def enough_bytes_iok adv_def rest_def)

lemma try_u8_Cons [buf_simps]: "rest s = b # xs \<Longrightarrow> try_u8 s = (Some b, adv 1 s)"
  by (simp add: try_u8_conv)

lemma try_u16_le [buf_simps]: "rest s = le16 w @ xs \<Longrightarrow> try_u16 s = (Some w, adv 2 s)"
  by (simp add: try_u16_conv le16_def un16_le16)

lemma try_u32_le [buf_simps]: "rest s = le32 w @ xs \<Longrightarrow> try_u32 s = (Some w, adv 4 s)"
  by (simp add: try_u32_conv le32_def un32_le32)

lemma try_u64_le [buf_simps]: "rest s = le64 w @ xs \<Longrightarrow> try_u64 s = (Some w, adv 8 s)"
  by (simp add: try_u64_conv le64_def un64_le64)

lemma try_bytes_append [buf_simps]:
  "iok s \<Longrightarrow> rest s = bs @ xs \<Longrightarrow> n = length bs \<Longrightarrow> try_bytes n s = (Some bs, adv n s)"
  by (simp add: try_bytes_conv)

lemma try_naddr_ip4 [buf_simps]: "rest s = le32 w @ xs \<Longrightarrow> try_naddr False s = (Some (IPv4 w), adv 4 s)"
  by (simp add: try_naddr_def try_u32_le)

lemma try_naddr_ip6 [buf_simps]:
  "iok s \<Longrightarrow> rest s = bs @ xs \<Longrightarrow> length bs = 16 \<Longrightarrow> try_naddr True s = (Some (IPv6 bs), adv 16 s)"
  by (simp add: try_naddr_def try_bytes_append)

lemma ensure_conv: "ensure_enough_remaining n s = (if length (rest s) < n then Inl OutOfRange else Inr ())"
  by (simp add: ensure_enough_remaining_def rest_def)

lemma read_byte_conv:
  "read_byte s = (case rest s of [] \<Rightarrow> Inl OutOfRange | b # _ \<Rightarrow> Inr (b, adv 1 s))"
  using nth_ibuf [of 0 s] by (cases "rest s") (simp_all add: read_byte_def ensure_conv adv_def)

lemma read_int16_conv:
  "read_int16 s = (case try_u16 s of (None, _) \<Rightarrow> Inl OutOfRange | (Some w, s1) \<Rightarrow> Inr (w, s1))"
  using nth_ibuf [of 0 s] nth_ibuf [of 1 s]
  by (cases "rest s = []") (auto simp: read_int16_def try_u16_conv ensure_conv adv_def Let_def)

lemma read_int32_conv:
  "read_int32 s = (case try_u32 s of (None, _) \<Rightarrow> Inl OutOfRange | (Some w, s1) \<Rightarrow> Inr (w, s1))"
  using nth_ibuf [of 0 s] nth_ibuf [of 1 s] nth_ibuf [of 2 s] nth_ibuf [of 3 s]
  by (cases "rest s = []") (auto simp: read_int32_def try_u32_conv ensure_conv adv_def Let_def)

lemma read_int64_conv:
  "read_int64 s = (case try_u64 s of (None, _) \<Rightarrow> Inl OutOfRange | (Some w, s1) \<Rightarrow> Inr (w, s1))"
  using nth_ibuf [of 0 s] nth_ibuf [of 1 s] nth_ibuf [of 2 s] nth_ibuf [of 3 s]
    nth_ibuf [of 4 s] nth_ibuf [of 5 s] nth_ibuf [of 6 s] nth_ibuf [of 7 s]
  by (cases "rest s = []") (auto simp: read_int64_def try_u64_conv ensure_conv adv_def Let_def)

lemma read_bytes_conv:
  "read_bytes n s = (if length (rest s) < n then Inl OutOfRange else Inr (take n (rest s), adv n s))"
  by (simp add: read_bytes_def ensure_conv adv_def rest_def)

lemma get_part_buffer_conv:
  "get_part_buffer n a s = (if length (rest s) < n then Inl OutOfRange
     else Inr (istream_of (take n (rest s)), if a then adv n s else s))"
  by (simp add: get_part_buffer_def ensure_conv adv_def rest_def)

lemma read_byte_Cons [buf_simps]: "rest s = b # xs \<Longrightarrow> read_byte s = Inr (b, adv 1 s)"
  by (simp add: read_byte_conv)

lemma read_int16_le [buf_simps]: "rest s = le16 w @ xs \<Longrightarrow> read_int16 s = Inr (w, adv 2 s)"
  by (simp add: read_int16_conv try_u16_le)

lemma read_int32_le [buf_simps]: "rest s = le32 w @ xs \<Longrightarrow> read_int32 s = Inr (w, adv 4 s)"
  by (simp add: read_int32_conv try_u32_le)

lemma read_int64_le [buf_simps]: "rest s = le64 w @ xs \<Longrightarrow> read_int64 s = Inr (w, adv 8 s)"
  by (simp add: read_int64_conv try_u64_le)

lemma read_bytes_append [buf_simps]:
  "rest s = bs @ xs \<Longrightarrow> n = length bs \<Longrightarrow> read_bytes n s = Inr (bs, adv n s)"
  by (simp add: read_bytes_conv)

lemma get_part_buffer_append [buf_simps]:
  "rest s = bs @ xs \<Longrightarrow> n = length bs \<Longrightarrow> get_part_buffer n True s = Inr (istream_of bs, adv n s)"
  by (simp add: get_part_buffer_conv)

text \<open>Every read keeps the offset within the buffer and never changes the bytes.\<close>

definition stays :: "istream \<Rightarrow> istream \<Rightarrow> bool" where
  "stays s s' \<longleftrightarrow> ibuf s' = ibuf s \<and> ioff s \<le> ioff s' \<and> (iok s \<longrightarrow> iok s')"

lemma stays_refl [simp, intro]: "stays s s"
  by (simp add: stays_def)

lemma stays_trans: "stays s t \<Longrightarrow> stays t u \<Longrightarrow> stays s u"
  by (auto simp: stays_def)

lemma stays_adv: "n \<le> length (rest s) \<Longrightarrow> stays s (adv n s)"
  using iok_adv [of s n] by (auto simp: stays_def adv_def)

lemma stays_iok: "stays s t \<Longrightarrow> iok s \<Longrightarrow> iok t"
  by (simp add: stays_def)

lemma try_u8_stays: "try_u8 s = (r, s') \<Longrightarrow> stays s s'"
  by (auto simp: try_u8_conv intro!: stays_adv split: list.splits)

lemma try_u16_stays: "try_u16 s = (r, s') \<Longrightarrow> stays s s'"
  by (auto simp: try_u16_conv intro!: stays_adv split: if_splits)

lemma try_u32_stays: "try_u32 s = (r, s') \<Longrightarrow> stays s s'"
  by (auto simp: try_u32_conv intro!: stays_adv split: if_splits)

lemma try_u64_stays: "try_u64 s = (r, s') \<Longrightarrow> stays s s'"
  by (auto simp: try_u64_conv intro!: stays_adv split: if_splits)

lemma try_bytes_stays: "try_bytes n s = (r, s') \<Longrightarrow> stays s s'"
  by (auto simp: try_bytes_def stays_def iok_def split: if_splits)

lemma try_naddr_stays: "try_naddr v6 s = (r, s') \<Longrightarrow> stays s s'"
  by (auto simp: try_naddr_def dest: try_bytes_stays try_u32_stays split: if_splits prod.splits)

lemmas try_stays = try_u8_stays try_u16_stays try_u32_stays try_u64_stays try_bytes_stays try_naddr_stays

subsection \<open>BufferOutputStream\<close>

text \<open>
  The allocated array with its size, the write offset, and whether the array was provided by
  the caller. Fresh memory has arbitrary content, given by \<open>junk\<close>; allocation succeeds.
\<close>

record ostream =
  obuf :: "byte list"
  ooff :: nat
  oprovided :: bool

definition ostream_new :: "(nat \<Rightarrow> byte) \<Rightarrow> nat \<Rightarrow> ostream" where
  "ostream_new junk sz = \<lparr>obuf = map junk [0..<sz], ooff = 0, oprovided = False\<rparr>"

definition ostream_on :: "byte list \<Rightarrow> ostream" where
  "ostream_on buf = \<lparr>obuf = buf, ooff = 0, oprovided = True\<rparr>"

definition expand_buffer_if_needed :: "(nat \<Rightarrow> byte) \<Rightarrow> nat \<Rightarrow> ostream \<Rightarrow> exn + ostream" where
  "expand_buffer_if_needed junk need s =
     (if ooff s + need > length (obuf s)
      then if oprovided s then Inl OutOfRange
           else Inr (s\<lparr>obuf := obuf s @ map junk [length (obuf s)..<length (obuf s) + max need 1024]\<rparr>)
      else Inr s)"

definition write_byte :: "(nat \<Rightarrow> byte) \<Rightarrow> byte \<Rightarrow> ostream \<Rightarrow> exn + ostream" where
  "write_byte junk b s = bind_res (expand_buffer_if_needed junk 1 s)
     (\<lambda>t. Inr (t\<lparr>obuf := (obuf t)[ooff t := b], ooff := ooff t + 1\<rparr>))"

definition write_int16 :: "(nat \<Rightarrow> byte) \<Rightarrow> u16 \<Rightarrow> ostream \<Rightarrow> exn + ostream" where
  "write_int16 junk w s = bind_res (expand_buffer_if_needed junk 2 s)
     (\<lambda>t. let k = ooff t in
        Inr (t\<lparr>obuf := (obuf t)[k + 1 := ucast (drop_bit 8 w), k := ucast w], ooff := k + 2\<rparr>))"

definition write_int32 :: "(nat \<Rightarrow> byte) \<Rightarrow> u32 \<Rightarrow> ostream \<Rightarrow> exn + ostream" where
  "write_int32 junk w s = bind_res (expand_buffer_if_needed junk 4 s)
     (\<lambda>t. let k = ooff t in
        Inr (t\<lparr>obuf := (obuf t)[k + 3 := ucast (drop_bit 24 w), k + 2 := ucast (drop_bit 16 w),
                 k + 1 := ucast (drop_bit 8 w), k := ucast w], ooff := k + 4\<rparr>))"

definition write_int64 :: "(nat \<Rightarrow> byte) \<Rightarrow> u64 \<Rightarrow> ostream \<Rightarrow> exn + ostream" where
  "write_int64 junk w s = bind_res (expand_buffer_if_needed junk 8 s)
     (\<lambda>t. let k = ooff t in
        Inr (t\<lparr>obuf := (obuf t)[k + 7 := ucast (drop_bit 56 w), k + 6 := ucast (drop_bit 48 w),
                 k + 5 := ucast (drop_bit 40 w), k + 4 := ucast (drop_bit 32 w),
                 k + 3 := ucast (drop_bit 24 w), k + 2 := ucast (drop_bit 16 w),
                 k + 1 := ucast (drop_bit 8 w), k := ucast w], ooff := k + 8\<rparr>))"

text \<open>\<^verbatim>\<open>memcpy\<close> of a block into the array at an offset.\<close>

definition poke :: "nat \<Rightarrow> byte list \<Rightarrow> byte list \<Rightarrow> byte list" where
  "poke k bs buf = take k buf @ bs @ drop (k + length bs) buf"

definition write_bytes :: "(nat \<Rightarrow> byte) \<Rightarrow> byte list \<Rightarrow> ostream \<Rightarrow> exn + ostream" where
  "write_bytes junk bs s = bind_res (expand_buffer_if_needed junk (length bs) s)
     (\<lambda>t. Inr (t\<lparr>obuf := poke (ooff t) bs (obuf t), ooff := ooff t + length bs\<rparr>))"

definition write_bytes_part :: "(nat \<Rightarrow> byte) \<Rightarrow> byte list \<Rightarrow> nat \<Rightarrow> nat \<Rightarrow> ostream \<Rightarrow> exn + ostream" where
  "write_bytes_part junk bs off count s =
     (if off + count > length bs then Inl OutOfRange
      else write_bytes junk (take count (drop off bs)) s)"

definition ostream_reset :: "ostream \<Rightarrow> ostream" where
  "ostream_reset s = s\<lparr>ooff := 0\<rparr>"

definition ostream_rewind :: "nat \<Rightarrow> ostream \<Rightarrow> exn + ostream" where
  "ostream_rewind n s = (if n > ooff s then Inl OutOfRange else Inr (s\<lparr>ooff := ooff s - n\<rparr>))"

definition ostream_advance :: "(nat \<Rightarrow> byte) \<Rightarrow> nat \<Rightarrow> ostream \<Rightarrow> exn + ostream" where
  "ostream_advance junk n s = bind_res (expand_buffer_if_needed junk n s)
     (\<lambda>t. Inr (t\<lparr>ooff := ooff t + n\<rparr>))"

subsubsection \<open>What has been written\<close>

definition written :: "ostream \<Rightarrow> byte list" where
  "written s = take (ooff s) (obuf s)"

definition ook :: "ostream \<Rightarrow> bool" where
  "ook s \<longleftrightarrow> ooff s \<le> length (obuf s)"

definition growable :: "ostream \<Rightarrow> bool" where
  "growable s \<longleftrightarrow> ook s \<and> \<not> oprovided s"

lemma growable_new: "growable (ostream_new junk n)"
  by (simp add: growable_def ook_def ostream_new_def)

lemma written_new: "written (ostream_new junk n) = []"
  by (simp add: written_def ostream_new_def)

lemma expand_grows:
  assumes "growable s"
  obtains t where "expand_buffer_if_needed junk n s = Inr t" "growable t" "written t = written s"
    "ooff t = ooff s" "ooff s + n \<le> length (obuf t)"
proof (cases "ooff s + n > length (obuf s)")
  case True
  let ?t = "s\<lparr>obuf := obuf s @ map junk [length (obuf s)..<length (obuf s) + max n 1024]\<rparr>"
  have "expand_buffer_if_needed junk n s = Inr ?t"
    using True assms by (simp add: expand_buffer_if_needed_def growable_def)
  then show ?thesis
    by (rule that) (use assms in \<open>auto simp: growable_def ook_def written_def\<close>)
next
  case False
  then have "expand_buffer_if_needed junk n s = Inr s"
    by (simp add: expand_buffer_if_needed_def)
  then show ?thesis by (rule that) (use assms False in auto)
qed

lemma length_poke [simp]: "k + length bs \<le> length buf \<Longrightarrow> length (poke k bs buf) = length buf"
  by (cases bs) (auto simp: poke_def)

lemma poke_Nil [simp]: "poke k [] buf = buf"
  by (simp add: poke_def)

lemma take_poke: "k + length bs \<le> length buf \<Longrightarrow> take (k + length bs) (poke k bs buf) = take k buf @ bs"
  by (cases "k = length buf") (simp_all add: poke_def)

lemma poke_1: "k < length buf \<Longrightarrow> poke k [b] buf = buf[k := b]"
  by (simp add: poke_def upd_conv_take_nth_drop)

lemma poke_Cons: "k + length bs < length buf \<Longrightarrow> poke k (b # bs) buf = (poke (k + 1) bs buf)[k := b]"
  by (simp add: poke_def list_update_append take_Suc_conv_app_nth)

lemma write_bytes_grows:
  assumes "growable s"
  shows "\<exists>t. write_bytes junk bs s = Inr t \<and> growable t \<and> written t = written s @ bs"
proof -
  obtain t where t: "expand_buffer_if_needed junk (length bs) s = Inr t" "growable t"
    "written t = written s" "ooff t = ooff s" "ooff s + length bs \<le> length (obuf t)"
    using expand_grows [OF assms] by blast
  then have "take (ooff t + length bs) (poke (ooff t) bs (obuf t)) = written s @ bs"
    by (simp add: take_poke written_def)
  with t show ?thesis
    by (auto simp: write_bytes_def written_def growable_def ook_def)
qed

text \<open>
  The integer writes are \<^verbatim>\<open>memcpy\<close>s of the little-endian layout: the same effect on the same
  expanded array.
\<close>

lemma expand_room:
  "expand_buffer_if_needed junk n s = Inr t \<Longrightarrow> ook s \<Longrightarrow> ooff t + n \<le> length (obuf t)"
  by (auto simp: expand_buffer_if_needed_def ook_def split: if_splits)

lemma write_byte_eq: "ook s \<Longrightarrow> write_byte junk b s = write_bytes junk [b] s"
  using expand_room [of junk 1 s]
  by (cases "expand_buffer_if_needed junk 1 s") (auto simp: write_byte_def write_bytes_def poke_1)

lemma Suc_offsets: "Suc (Suc (Suc k)) = k + 3" "Suc (k + 3) = k + 4" "Suc (k + 4) = k + 5"
  "Suc (k + 5) = k + 6" "Suc (k + 6) = k + 7"
  by simp_all

lemma poke_le16: "k + 2 \<le> length buf \<Longrightarrow>
    poke k (le16 w) buf = buf[k + 1 := ucast (drop_bit 8 w), k := ucast w]"
  by (simp add: le16_def poke_Cons poke_1)

lemma poke_le32: "k + 4 \<le> length buf \<Longrightarrow>
    poke k (le32 w) buf = buf[k + 3 := ucast (drop_bit 24 w), k + 2 := ucast (drop_bit 16 w),
      k + 1 := ucast (drop_bit 8 w), k := ucast w]"
  by (simp add: le32_def poke_Cons poke_1 Suc_offsets)

lemma poke_le64: "k + 8 \<le> length buf \<Longrightarrow>
    poke k (le64 w) buf = buf[k + 7 := ucast (drop_bit 56 w), k + 6 := ucast (drop_bit 48 w),
      k + 5 := ucast (drop_bit 40 w), k + 4 := ucast (drop_bit 32 w),
      k + 3 := ucast (drop_bit 24 w), k + 2 := ucast (drop_bit 16 w),
      k + 1 := ucast (drop_bit 8 w), k := ucast w]"
  by (simp add: le64_def poke_Cons poke_1 Suc_offsets)

lemma write_int16_eq: "ook s \<Longrightarrow> write_int16 junk w s = write_bytes junk (le16 w) s"
  using expand_room [of junk 2 s] poke_le16
  by (cases "expand_buffer_if_needed junk 2 s")
    (auto simp: write_int16_def write_bytes_def Let_def simp del: add_2_eq_Suc')

lemma write_int32_eq: "ook s \<Longrightarrow> write_int32 junk w s = write_bytes junk (le32 w) s"
  using expand_room [of junk 4 s] poke_le32
  by (cases "expand_buffer_if_needed junk 4 s")
    (auto simp: write_int32_def write_bytes_def Let_def)

lemma write_int64_eq: "ook s \<Longrightarrow> write_int64 junk w s = write_bytes junk (le64 w) s"
  using expand_room [of junk 8 s] poke_le64
  by (cases "expand_buffer_if_needed junk 8 s")
    (auto simp: write_int64_def write_bytes_def Let_def)

subsubsection \<open>The interface the serializers use\<close>

text \<open>
  A serializer of the protocol is a sequence of writes. It relies on one law of the stream it
  is given: a write appends its bytes and leaves a stream that can be written again.
\<close>

locale byte_sink =
  fixes put :: "byte list \<Rightarrow> 's \<Rightarrow> exn + 's"
    and contents :: "'s \<Rightarrow> byte list"
    and open_sink :: "'s \<Rightarrow> bool"
  assumes put_appends: "open_sink s \<Longrightarrow>
    \<exists>t. put bs s = Inr t \<and> open_sink t \<and> contents t = contents s @ bs"
begin

fun put_all :: "byte list list \<Rightarrow> 's \<Rightarrow> exn + 's" where
  "put_all [] s = Inr s"
| "put_all (bs # bss) s = bind_res (put bs s) (put_all bss)"

lemma put_all_appends:
  "open_sink s \<Longrightarrow> \<exists>t. put_all bss s = Inr t \<and> open_sink t \<and> contents t = contents s @ concat bss"
proof (induction bss arbitrary: s)
  case Nil
  then show ?case by simp
next
  case (Cons bs bss)
  then obtain t where t: "put bs s = Inr t" "open_sink t" "contents t = contents s @ bs"
    using put_appends by blast
  with Cons.IH [of t] show ?case by auto
qed

lemma put_all_append: "put_all (xs @ ys) s = bind_res (put_all xs s) (put_all ys)"
proof (induction xs arbitrary: s)
  case (Cons bs xs)
  then show ?case by (cases "put bs s") auto
qed simp

end

interpretation out: byte_sink "write_bytes junk" written growable for junk
  by unfold_locales (rule write_bytes_grows)

subsection \<open>Buffer\<close>

text \<open>
  An owned byte array: a data pointer that may be null, and a length that the move
  constructor leaves behind in the object it empties. \<open>data_of\<close> is \<open>None\<close> for a null
  pointer. New memory has arbitrary content, as above.
\<close>

record buffer =
  data_of :: "byte list option"
  blen :: nat

definition buffer_empty :: buffer where
  "buffer_empty = \<lparr>data_of = None, blen = 0\<rparr>"

definition buffer_of :: "byte list \<Rightarrow> buffer" where
  "buffer_of bs = \<lparr>data_of = (if bs = [] then None else Some bs), blen = length bs\<rparr>"

definition buffer_new :: "(nat \<Rightarrow> byte) \<Rightarrow> nat \<Rightarrow> buffer" where
  "buffer_new junk n = \<lparr>data_of = (if n > 0 then Some (map junk [0..<n]) else None), blen = n\<rparr>"

text \<open>
  The move constructor and the move assignment: the new object and what is left of the old.
  Only the assignment clears the length of the source.
\<close>

definition buffer_move_new :: "buffer \<Rightarrow> buffer \<times> buffer" where
  "buffer_move_new other = (other, other\<lparr>data_of := None\<rparr>)"

definition buffer_move_assign :: "buffer \<Rightarrow> buffer \<times> buffer" where
  "buffer_move_assign other = (other, buffer_empty)"

text \<open>A stream is turned into the buffer of what was written, not of what was allocated.\<close>

definition buffer_of_stream :: "ostream \<Rightarrow> buffer" where
  "buffer_of_stream s = \<lparr>data_of = Some (obuf s), blen = ooff s\<rparr>"

definition buffer_nth :: "buffer \<Rightarrow> nat \<Rightarrow> exn + byte" where
  "buffer_nth b i = (if i \<ge> blen b then Inl OutOfRange else Inr (the (data_of b) ! i))"

definition buffer_bool :: "buffer \<Rightarrow> bool" where
  "buffer_bool b \<longleftrightarrow> blen b \<noteq> 0"

definition buffer_is_empty :: "buffer \<Rightarrow> bool" where
  "buffer_is_empty b \<longleftrightarrow> blen b = 0 \<or> data_of b = None"

definition copy_from_other_buffer :: "buffer \<Rightarrow> nat \<Rightarrow> nat \<Rightarrow> nat \<Rightarrow> buffer \<Rightarrow> exn + buffer" where
  "copy_from_other_buffer other count src dst b = (case data_of other of
     None \<Rightarrow> Inl InvalidArgument
   | Some bs \<Rightarrow>
       if blen other < src + count \<or> blen b < dst + count then Inl OutOfRange
       else Inr (b\<lparr>data_of := map_option (poke dst (take count (drop src bs))) (data_of b)\<rparr>))"

definition copy_from :: "byte list \<Rightarrow> nat \<Rightarrow> nat \<Rightarrow> buffer \<Rightarrow> exn + buffer" where
  "copy_from src dst count b = (if blen b < dst + count then Inl OutOfRange
     else Inr (b\<lparr>data_of := map_option (poke dst (take count src)) (data_of b)\<rparr>))"

definition buffer_resize :: "(nat \<Rightarrow> byte) \<Rightarrow> nat \<Rightarrow> buffer \<Rightarrow> buffer" where
  "buffer_resize junk n b = (let old = (case data_of b of None \<Rightarrow> [] | Some bs \<Rightarrow> bs) in
     \<lparr>data_of = Some (take n old @ map junk [length old..<n]), blen = n\<rparr>)"

definition copy_of :: "(nat \<Rightarrow> byte) \<Rightarrow> buffer \<Rightarrow> exn + buffer" where
  "copy_of junk other = (if buffer_is_empty other then Inr buffer_empty
     else copy_from_other_buffer other (blen other) 0 0 (buffer_new junk (blen other)))"

definition copy_of_part :: "(nat \<Rightarrow> byte) \<Rightarrow> buffer \<Rightarrow> nat \<Rightarrow> nat \<Rightarrow> exn + buffer" where
  "copy_of_part junk other off len = (if off + len > blen other then Inl OutOfRange
     else copy_from_other_buffer other len off 0 (buffer_new junk len))"

text \<open>The bytes a buffer stands for; well-formed when its allocation is at least its length.\<close>

definition bytes_of :: "buffer \<Rightarrow> byte list" where
  "bytes_of b = (case data_of b of None \<Rightarrow> [] | Some bs \<Rightarrow> take (blen b) bs)"

definition bok :: "buffer \<Rightarrow> bool" where
  "bok b \<longleftrightarrow> (case data_of b of None \<Rightarrow> blen b = 0 | Some bs \<Rightarrow> blen b \<le> length bs)"

lemma bytes_of_simps [buf_simps]:
  "bytes_of buffer_empty = []" "bytes_of (buffer_of bs) = bs" "bok buffer_empty" "bok (buffer_of bs)"
  "ook s \<Longrightarrow> bok (buffer_of_stream s)"
  by (simp_all add: bytes_of_def buffer_empty_def buffer_of_def bok_def buffer_of_stream_def ook_def)

lemma bytes_of_stream [buf_simps]: "bytes_of (buffer_of_stream s) = written s"
  by (simp add: bytes_of_def buffer_of_stream_def written_def)

lemma length_bytes_of: "bok b \<Longrightarrow> length (bytes_of b) = blen b"
  by (auto simp: bok_def bytes_of_def split: option.splits)

lemma copy_of_bytes:
  assumes "bok b"
  shows "\<exists>c. copy_of junk b = Inr c \<and> bok c \<and> bytes_of c = bytes_of b"
proof (cases "buffer_is_empty b")
  case True
  with assms show ?thesis
    by (auto simp: copy_of_def buffer_is_empty_def bytes_of_def bok_def buffer_empty_def
        split: option.splits)
next
  case False
  then obtain bs where "data_of b = Some bs" "0 < blen b"
    by (auto simp: buffer_is_empty_def)
  with False assms show ?thesis
    by (auto simp: copy_of_def copy_from_other_buffer_def buffer_new_def bok_def bytes_of_def poke_def)
qed

lemma copy_of_part_bytes:
  assumes "bok b" and "data_of b \<noteq> None" and "off + len \<le> blen b"
  shows "\<exists>c. copy_of_part junk b off len = Inr c \<and> bok c
           \<and> bytes_of c = take len (drop off (bytes_of b))"
  using assms
  by (auto simp: copy_of_part_def copy_from_other_buffer_def buffer_new_def bok_def bytes_of_def
      poke_def drop_take)

lemma buffer_nth_bytes:
  "bok b \<Longrightarrow> buffer_nth b i = (if i < length (bytes_of b) then Inr (bytes_of b ! i) else Inl OutOfRange)"
  by (auto simp: buffer_nth_def length_bytes_of) (auto simp: bok_def bytes_of_def split: option.splits)

subsection \<open>BufferPool\<close>

text \<open>
  The pool hands out the slots of one array. \<open>used\<close> has one flag per slot and \<open>poff\<close> is the
  slot to try next. The loop of \<^verbatim>\<open>Get\<close> runs once per slot, but it looks at the same slot
  every time: the offset moves only when a slot is handed out.
\<close>

record pool =
  used :: "bool list"
  poff :: nat

definition pool_new :: "nat \<Rightarrow> pool" where
  "pool_new n = \<lparr>used = replicate n False, poff = 0\<rparr>"

fun pool_get_loop :: "nat \<Rightarrow> pool \<Rightarrow> exn + nat \<times> pool" where
  "pool_get_loop 0 p = Inl BadAlloc"
| "pool_get_loop (Suc i) p =
     (if \<not> used p ! poff p
      then Inr (poff p, p\<lparr>used := (used p)[poff p := True],
                          poff := (poff p + 1) mod length (used p)\<rparr>)
      else pool_get_loop i p)"

definition pool_get :: "pool \<Rightarrow> exn + nat \<times> pool" where
  "pool_get p = pool_get_loop (length (used p)) p"

definition pool_free :: "nat \<Rightarrow> pool \<Rightarrow> pool" where
  "pool_free i p = p\<lparr>used := (used p)[i := False]\<rparr>"

text \<open>The resize hook of a pooled buffer: it keeps the slot and refuses to outgrow it.\<close>

definition pool_resize :: "nat \<Rightarrow> nat \<Rightarrow> buffer \<Rightarrow> exn + buffer" where
  "pool_resize buf_size n b = (if n > buf_size then Inl InvalidArgument else Inr (b\<lparr>blen := n\<rparr>))"

definition pool_ok :: "pool \<Rightarrow> bool" where
  "pool_ok p \<longleftrightarrow> poff p < length (used p)"

lemma pool_get_loop_eq:
  "pool_get_loop n p = (if n = 0 \<or> used p ! poff p then Inl BadAlloc
     else Inr (poff p, p\<lparr>used := (used p)[poff p := True], poff := (poff p + 1) mod length (used p)\<rparr>))"
  by (induction n p rule: pool_get_loop.induct) auto

lemma pool_ok_new: "0 < n \<Longrightarrow> pool_ok (pool_new n)"
  by (simp add: pool_ok_def pool_new_def)

lemma pool_get_ok: "pool_ok p \<Longrightarrow> pool_get p = Inr (i, q) \<Longrightarrow>
    pool_ok q \<and> i < length (used p) \<and> \<not> used p ! i \<and> used q = (used p)[i := True]"
  by (auto simp: pool_get_def pool_get_loop_eq pool_ok_def split: if_splits)

lemma pool_free_ok: "pool_ok p \<Longrightarrow> pool_ok (pool_free i p)"
  by (simp add: pool_ok_def pool_free_def)

subsection \<open>Properties\<close>

text \<open>
  What the output stream writes as a 16, 32 or 64 bit integer, the input stream reads
  back: after the write, a stream over the written bytes, positioned where the write began,
  returns the same word and stands right behind it. No write fails, whatever the size the
  stream was created with, because it grows.
\<close>

theorem int_write_read:
  assumes "growable s"
  shows "(\<exists>t r. write_int16 junk a s = Inr t \<and> seek (length (written s)) (istream_of (written t)) = Inr r
            \<and> read_int16 r = Inr (a, adv 2 r) \<and> rest (adv 2 r) = [])
       \<and> (\<exists>t r. write_int32 junk b s = Inr t \<and> seek (length (written s)) (istream_of (written t)) = Inr r
            \<and> read_int32 r = Inr (b, adv 4 r) \<and> rest (adv 4 r) = [])
       \<and> (\<exists>t r. write_int64 junk c s = Inr t \<and> seek (length (written s)) (istream_of (written t)) = Inr r
            \<and> read_int64 r = Inr (c, adv 8 r) \<and> rest (adv 8 r) = [])"
proof -
  have ok: "ook s" using assms by (simp add: growable_def)
  have again: "\<exists>r. seek (length (written s)) (istream_of (written s @ bs)) = Inr r \<and> rest r = bs" for bs
    by (auto simp: seek_def istream_of_def rest_def)
  have w: "\<exists>t r. write_bytes junk bs s = Inr t
      \<and> seek (length (written s)) (istream_of (written t)) = Inr r \<and> rest r = bs" for bs
    using write_bytes_grows [OF assms, of junk bs] again [of bs] by auto
  show ?thesis
    using w [of "le16 a"] w [of "le32 b"] w [of "le64 c"]
    unfolding write_int16_eq [OF ok] write_int32_eq [OF ok] write_int64_eq [OF ok]
    by (fastforce simp: buf_simps read_int16_le [where xs = "[]"] read_int32_le [where xs = "[]"]
        read_int64_le [where xs = "[]"])
qed

theorem int_write_read_witness:
  "\<exists>t r. write_int32 (\<lambda>_. 7) 305419896 (ostream_new (\<lambda>_. 7) 1) = Inr t
     \<and> seek (length (written (ostream_new (\<lambda>_. 7) 1))) (istream_of (written t)) = Inr r
     \<and> read_int32 r = Inr (305419896, adv 4 r) \<and> rest (adv 4 r) = []"
  using int_write_read [OF growable_new, of "\<lambda>_. 7" 0 "\<lambda>_. 7" 1 305419896 0] by blast

fun pool_gets :: "nat \<Rightarrow> pool \<Rightarrow> exn + pool" where
  "pool_gets 0 p = Inr p"
| "pool_gets (Suc n) p = bind_res (pool_get p) (\<lambda>(_, q). pool_gets n q)"

definition pool_filled :: "nat \<Rightarrow> nat \<Rightarrow> pool" where
  "pool_filled n k = \<lparr>used = replicate k True @ replicate (n - k) False, poff = k mod n\<rparr>"

lemma fill_next:
  "k < n \<Longrightarrow> (replicate k True @ replicate (n - k) False)[k := True]
     = replicate (Suc k) True @ replicate (n - Suc k) False"
  by (rule nth_equalityI) (auto simp: nth_append nth_list_update less_Suc_eq simp del: replicate_Suc)

lemma pool_get_filled: "k < n \<Longrightarrow> pool_get (pool_filled n k) = Inr (k, pool_filled n (Suc k))"
  using fill_next [of k n]
  by (simp add: pool_get_def pool_get_loop_eq pool_filled_def nth_append del: replicate_Suc)

lemma pool_gets_filled: "k + m \<le> n \<Longrightarrow> pool_gets m (pool_filled n k) = Inr (pool_filled n (k + m))"
  by (induction m arbitrary: k) (simp_all add: pool_get_filled)

text \<open>
  The pool never hands out a slot that is in use, and marks the slot it hands out; it
  refuses exactly when the slot at its offset is in use. So it can refuse while other slots
  are free: once all \<open>n\<close> slots are taken and any slot but the first is returned, the next
  request still fails, because the search loop never looks at another slot.
\<close>

theorem pool_get_behaviour:
  assumes "pool_ok p"
  shows "pool_get p = (if used p ! poff p then Inl BadAlloc
       else Inr (poff p, p\<lparr>used := (used p)[poff p := True], poff := (poff p + 1) mod length (used p)\<rparr>))
     \<and> (\<forall>i q. pool_get p = Inr (i, q) \<longrightarrow> \<not> used p ! i \<and> used q ! i \<and> pool_ok q)
     \<and> (0 < i \<and> i < n \<longrightarrow> (\<exists>q. pool_gets n (pool_new n) = Inr q \<and> \<not> used (pool_free i q) ! i
          \<and> pool_get (pool_free i q) = Inl BadAlloc))"
proof -
  have "pool_gets n (pool_new n) = Inr (pool_filled n n)"
    using pool_gets_filled [of 0 n n] by (simp add: pool_new_def pool_filled_def)
  moreover have "pool_get (pool_free i (pool_filled n n)) = Inl BadAlloc" if "0 < i" "i < n"
    using that by (simp add: pool_get_def pool_get_loop_eq pool_free_def pool_filled_def)
  moreover have "\<not> used (pool_free i (pool_filled n n)) ! i" if "i < n"
    using that by (simp add: pool_free_def pool_filled_def)
  ultimately have 1: "0 < i \<and> i < n \<longrightarrow> (\<exists>q. pool_gets n (pool_new n) = Inr q
      \<and> \<not> used (pool_free i q) ! i \<and> pool_get (pool_free i q) = Inl BadAlloc)"
    by auto
  have 2: "pool_get p = (if used p ! poff p then Inl BadAlloc
       else Inr (poff p, p\<lparr>used := (used p)[poff p := True], poff := (poff p + 1) mod length (used p)\<rparr>))"
    using assms by (auto simp: pool_get_def pool_get_loop_eq pool_ok_def)
  have 3: "\<not> used p ! j \<and> used q ! j \<and> pool_ok q" if "pool_get p = Inr (j, q)" for j q
    using pool_get_ok [OF assms that] by simp
  show ?thesis using 1 2 3 by blast
qed

theorem pool_get_behaviour_witness:
  "\<exists>q. pool_gets 3 (pool_new 3) = Inr q \<and> \<not> used (pool_free 2 q) ! 2
     \<and> pool_get (pool_free 2 q) = Inl BadAlloc"
  by (rule pool_get_behaviour [OF pool_ok_new [of 3], THEN conjunct2, THEN conjunct2, THEN mp])
    simp_all

end
