(* ===== verification/Version.thy ===== *)
theory Version
  imports Prelude
begin

section \<open>Protocol versions and constants (VersionInfo.h, Constants.h)\<close>

text \<open>
  The negotiated version that every wire format depends on, and the constants of the
  protocol. Version numbers are C \<^verbatim>\<open>int\<close>s that are only compared, so they are \<open>int\<close> here;
  the peer version is 0 until the peer has sent it.
\<close>

record version =
  peer_version :: int
  max_layer :: int

definition is_new :: "version \<Rightarrow> bool" where
  "is_new ver \<longleftrightarrow> peer_version ver \<ge> 10 \<or> max_layer ver \<ge> 110"

definition is_legacy :: "version \<Rightarrow> bool" where
  "is_legacy ver \<longleftrightarrow> \<not> is_new ver
     \<and> (peer_version ver \<ge> 8 \<or> peer_version ver = 0 \<and> max_layer ver \<ge> 92)"

definition is_legacy_legacy :: "version \<Rightarrow> bool" where
  "is_legacy_legacy ver \<longleftrightarrow> \<not> (peer_version ver \<ge> 8 \<or> peer_version ver = 0 \<and> max_layer ver \<ge> 92)"

text \<open>Packet types.\<close>

definition PKT_INIT :: byte where "PKT_INIT = 1"
definition PKT_INIT_ACK :: byte where "PKT_INIT_ACK = 2"
definition PKT_STREAM_STATE :: byte where "PKT_STREAM_STATE = 3"
definition PKT_STREAM_DATA :: byte where "PKT_STREAM_DATA = 4"
definition PKT_PING :: byte where "PKT_PING = 6"
definition PKT_PONG :: byte where "PKT_PONG = 7"
definition PKT_STREAM_DATA_X2 :: byte where "PKT_STREAM_DATA_X2 = 8"
definition PKT_STREAM_DATA_X3 :: byte where "PKT_STREAM_DATA_X3 = 9"
definition PKT_LAN_ENDPOINT :: byte where "PKT_LAN_ENDPOINT = 10"
definition PKT_NETWORK_CHANGED :: byte where "PKT_NETWORK_CHANGED = 11"
definition PKT_NOP :: byte where "PKT_NOP = 14"
definition PKT_STREAM_EC :: byte where "PKT_STREAM_EC = 17"

lemmas pkt_defs = PKT_INIT_def PKT_INIT_ACK_def PKT_STREAM_STATE_def PKT_STREAM_DATA_def
  PKT_PING_def PKT_PONG_def PKT_STREAM_DATA_X2_def PKT_STREAM_DATA_X3_def PKT_LAN_ENDPOINT_def
  PKT_NETWORK_CHANGED_def PKT_NOP_def PKT_STREAM_EC_def

text \<open>Codecs: the four characters of their names, most significant byte first.\<close>

definition fourcc :: "byte \<Rightarrow> byte \<Rightarrow> byte \<Rightarrow> byte \<Rightarrow> u32" where
  "fourcc a b c d = ucast d OR push_bit 8 (ucast c) OR push_bit 16 (ucast b) OR push_bit 24 (ucast a)"

definition Opus :: u32 where "Opus = fourcc 79 80 85 83"
definition CODEC_OPUS_OLD :: byte where "CODEC_OPUS_OLD = 1"

text \<open>The padding after a TL string of \<open>x\<close> bytes.\<close>

definition pad4 :: "nat \<Rightarrow> nat" where
  "pad4 x = (let r = 4 - (x + (if x \<le> 253 then 1 else 0)) mod 4 in if r = 4 then 0 else r)"

lemma pad4_aligns: "(x + (if x \<le> 253 then 1 else 4) + pad4 x) mod 4 = 0" "pad4 x < 4"
proof -
  let ?k = "x + (if x \<le> 253 then 1 else 0)"
  have "(?k + pad4 x) mod 4 = 0 \<and> pad4 x < 4"
    unfolding pad4_def Let_def by (split if_splits)+ presburger
  then show "(x + (if x \<le> 253 then 1 else 4) + pad4 x) mod 4 = 0" "pad4 x < 4"
    by (simp_all split: if_splits) presburger?
qed

text \<open>
  A version that is not new has exactly one of the two legacy formats; a new version can
  still count as \<^verbatim>\<open>isLegacyLegacy\<close>, because that test does not look at \<^verbatim>\<open>isNew\<close>.
\<close>

lemma legacy_kinds: "\<not> is_new ver \<Longrightarrow> is_legacy_legacy ver \<longleftrightarrow> \<not> is_legacy ver"
  by (auto simp: is_legacy_def is_legacy_legacy_def)

lemma legacy_legacy_new: "is_legacy_legacy ver \<and> is_new ver
    \<longleftrightarrow> max_layer ver \<ge> 110 \<and> peer_version ver < 8 \<and> peer_version ver \<noteq> 0"
  by (auto simp: is_new_def is_legacy_legacy_def)

end
