(* ===== verification/Crypto.thy ===== *)
theory Crypto
  imports Buffers Version
begin

section \<open>Encryption of packets (controller/Crypto.cpp)\<close>

text \<open>
  The key derivation and the two envelopes, MTProto 1 and MTProto 2, that carry every packet.
  The primitives are those of \<^verbatim>\<open>CryptoFunctions\<close>, which the application supplies: hashes, AES
  in IGE mode and random bytes are the fields of a record, and \<open>crypto_ok\<close> states what their
  documentation promises.
\<close>

record crypto_fns =
  cf_sha1 :: "byte list \<Rightarrow> byte list"
  cf_sha256 :: "byte list \<Rightarrow> byte list"
  cf_enc :: "byte list \<Rightarrow> byte list \<Rightarrow> byte list \<Rightarrow> byte list"
  cf_dec :: "byte list \<Rightarrow> byte list \<Rightarrow> byte list \<Rightarrow> byte list"
  cf_rand :: "nat \<Rightarrow> byte list"

definition crypto_ok :: "crypto_fns \<Rightarrow> bool" where
  "crypto_ok c \<longleftrightarrow> (\<forall>x. length (cf_sha1 c x) = 20) \<and> (\<forall>x. length (cf_sha256 c x) = 32)
     \<and> (\<forall>n. length (cf_rand c n) = n)
     \<and> (\<forall>d k v. length k = 32 \<longrightarrow> length v = 32 \<longrightarrow> length d mod 16 = 0 \<longrightarrow>
          length (cf_enc c d k v) = length d \<and> length (cf_dec c d k v) = length d
          \<and> cf_dec c (cf_enc c d k v) k v = d)"

record keys =
  enc_key :: "byte list"
  fingerprint :: "byte list"
  call_id :: "byte list"
  is_outgoing :: bool

text \<open>\<^verbatim>\<open>n\<close> bytes from an offset on.\<close>

definition piece :: "nat \<Rightarrow> nat \<Rightarrow> byte list \<Rightarrow> byte list" where
  "piece off n xs = take n (drop off xs)"

lemma length_piece [simp]: "off + n \<le> length xs \<Longrightarrow> length (piece off n xs) = n"
  by (simp add: piece_def)

text \<open>The key is copied from a vector without a look at its length.\<close>

definition set_encryption_key :: "crypto_fns \<Rightarrow> byte list \<Rightarrow> bool \<Rightarrow> exn + keys" where
  "set_encryption_key c key outgoing = (if length key < 256 then Inl Undefined
     else let k = take 256 key in
       Inr \<lparr>enc_key = k, fingerprint = piece 12 8 (cf_sha1 c k), call_id = piece 16 16 (cf_sha256 c k),
            is_outgoing = outgoing\<rparr>)"

definition kdf :: "crypto_fns \<Rightarrow> keys \<Rightarrow> byte list \<Rightarrow> nat \<Rightarrow> byte list \<times> byte list" where
  "kdf c k msg x =
    (let sa = cf_sha1 c (msg @ piece x 32 (enc_key k));
         sb = cf_sha1 c (piece (32 + x) 16 (enc_key k) @ msg @ piece (48 + x) 16 (enc_key k));
         sc = cf_sha1 c (piece (64 + x) 32 (enc_key k) @ msg);
         sd = cf_sha1 c (msg @ piece (96 + x) 32 (enc_key k))
     in (piece 0 8 sa @ piece 8 12 sb @ piece 4 12 sc,
         piece 8 12 sa @ piece 0 8 sb @ piece 16 4 sc @ piece 0 8 sd))"

definition kdf2 :: "crypto_fns \<Rightarrow> keys \<Rightarrow> byte list \<Rightarrow> nat \<Rightarrow> byte list \<times> byte list" where
  "kdf2 c k msg x =
    (let sa = cf_sha256 c (msg @ piece x 36 (enc_key k));
         sb = cf_sha256 c (piece (40 + x) 36 (enc_key k) @ msg)
     in (piece 0 8 sa @ piece 8 16 sb @ piece 24 8 sa,
         piece 0 8 sb @ piece 8 16 sa @ piece 24 8 sb))"

text \<open>The part of the key that a side hashes: 8 bytes further on for the called side.\<close>

definition sender_x :: "keys \<Rightarrow> nat" where
  "sender_x k = (if is_outgoing k then 0 else 8)"

definition receiver_x :: "keys \<Rightarrow> nat" where
  "receiver_x k = (if is_outgoing k then 8 else 0)"

definition pad_len2 :: "nat \<Rightarrow> nat" where
  "pad_len2 n = (let p = 16 - n mod 16 in if p < 16 then p + 16 else p)"

definition encrypt2 :: "crypto_fns \<Rightarrow> keys \<Rightarrow> version \<Rightarrow> byte list \<Rightarrow> byte list" where
  "encrypt2 c k ver data =
    (let short = \<not> is_legacy_legacy ver;
         size_size = (if short then 0 else 4);
         head = (if short then le16 (of_nat (length data)) else le32 (of_nat (length data))) @ data;
         inner = head @ cf_rand c (pad_len2 (length head));
         large = cf_sha256 c (piece (88 + sender_x k) 32 (enc_key k) @ drop size_size inner);
         msg_key = piece 8 16 large
     in case kdf2 c k msg_key (sender_x k) of (key, iv) \<Rightarrow>
       (if short then [] else fingerprint k) @ msg_key @ cf_enc c inner key iv)"

definition pad_len1 :: "nat \<Rightarrow> nat" where
  "pad_len1 n = (if n mod 16 \<noteq> 0 then 16 - n mod 16 else 0)"

definition encrypt1 :: "crypto_fns \<Rightarrow> keys \<Rightarrow> byte list \<Rightarrow> byte list" where
  "encrypt1 c k data =
    (let head = le32 (of_nat (length data)) @ data;
         inner = head @ (if length head mod 16 \<noteq> 0 then cf_rand c (pad_len1 (length head)) else []);
         h = piece 4 16 (cf_sha1 c (take (length data + 4) inner))
     in case kdf c k h (sender_x k) of (key, iv) \<Rightarrow>
       fingerprint k @ h @ cf_enc c inner key iv)"

definition encrypt_packet :: "crypto_fns \<Rightarrow> keys \<Rightarrow> version \<Rightarrow> bool \<Rightarrow> byte list \<Rightarrow> byte list" where
  "encrypt_packet c k ver use2 data = (if use2 then encrypt2 c k ver data else encrypt1 c k data)"

text \<open>
  Decryption returns the inner length, 0 for a packet that is refused, the stream from which
  the packet is parsed, and the flag \<^verbatim>\<open>useMTProto2\<close> afterwards. MTProto 1 answers \<open>Inr None\<close>
  when the hash is wrong but MTProto 2 has to be tried, as it has before the call is set up; it decrypts in place: the stream goes on in the decrypted bytes, padding included.
\<close>

definition decrypt1 :: "crypto_fns \<Rightarrow> keys \<Rightarrow> bool \<Rightarrow> istream \<Rightarrow> exn + (u64 \<times> istream) option" where
  "decrypt1 c k initial s =
    bind_res (read_bytes 8 s) (\<lambda>(_, s1).
    bind_res (read_bytes 16 s1) (\<lambda>(h, s2).
      case kdf c k h (receiver_x k) of (key, iv) \<Rightarrow>
      let plain = cf_dec c (rest s2) key iv in
      bind_res (read_int32 (istream_of plain)) (\<lambda>(l, t).
        let len = (if unat l > remaining t then remaining t else unat l) in
        if h \<noteq> piece 4 16 (cf_sha1 c (take (len + 4) plain))
        then (if initial then Inr None else Inr (Some (0, s2)))
        else bind_res (read_int32 (s2\<lparr>ibuf := take (ioff s2) (ibuf s2) @ plain\<rparr>))
               (\<lambda>(n, s3). Inr (Some (scast n, s3))))))"

definition decrypt2 :: "crypto_fns \<Rightarrow> keys \<Rightarrow> version \<Rightarrow> istream \<Rightarrow> exn + bool \<times> u64 \<times> istream" where
  "decrypt2 c k ver s =
    (let short = \<not> is_legacy_legacy ver; size_size = (if short then 0 else 4) in
     bind_res (if short then Inr (True, s)
               else bind_res (read_bytes 8 s) (\<lambda>(fp, s1). Inr (fp = fingerprint k, s1))) (\<lambda>(known, s1).
     if \<not> known then Inr (False, 0, s1)
     else bind_res (read_bytes 16 s1) (\<lambda>(msg_key, s2).
       case kdf2 c k msg_key (receiver_x k) of (key, iv) \<Rightarrow>
       let n = remaining s2 in
       if n > 1500 then Inr (False, 0, s2)
       else if n mod 16 \<noteq> 0 then Inr (False, 0, s2)
       else let plain = cf_dec c (rest s2) key iv; t = istream_of plain in
         if n < size_size then Inl Undefined
         else let large = cf_sha256 c (piece (88 + receiver_x k) 32 (enc_key k) @ drop size_size plain) in
           if msg_key \<noteq> piece 8 16 large then Inr (False, 0, t)
           else bind_res (if short then bind_res (read_int16 t) (\<lambda>(w, t1). Inr (scast w :: u32, t1))
                          else read_int32 t) (\<lambda>(w, t1).
             if unat w > n - size_size then Inr (False, 0, t1)
             else if n - unat w < (if short then 16 else 12) then Inr (False, 0, t1)
             else Inr (True, ucast w, istream_of (piece (if short then 2 else 4) (unat w) plain))))))"

definition decrypt_packet :: "crypto_fns \<Rightarrow> keys \<Rightarrow> version \<Rightarrow> bool \<Rightarrow> bool \<Rightarrow> istream
    \<Rightarrow> exn + u64 \<times> istream \<times> bool" where
  "decrypt_packet c k ver use2 initial s =
    (let v2 = (\<lambda>upgrade. bind_res (decrypt2 c k ver s)
                 (\<lambda>(finished, n, t). Inr (n, t, use2 \<or> (upgrade \<and> finished)))) in
     if use2 then v2 False
     else bind_res (decrypt1 c k initial s) (\<lambda>r. case r of
         None \<Rightarrow> v2 True
       | Some (n, t) \<Rightarrow> Inr (n, t, use2)))"

subsection \<open>Lengths\<close>

lemma crypto_okD:
  assumes "crypto_ok c"
  shows "length (cf_sha1 c x) = 20" "length (cf_sha256 c x) = 32" "length (cf_rand c n) = n"
  using assms by (simp_all add: crypto_ok_def)

lemma crypto_ok_aes:
  assumes "crypto_ok c" "length k = 32" "length v = 32" "length d mod 16 = 0"
  shows "length (cf_enc c d k v) = length d" "cf_dec c (cf_enc c d k v) k v = d"
  using assms by (simp_all add: crypto_ok_def)

lemma length_kdf:
  assumes "crypto_ok c" "kdf c k m x = (a, b)"
  shows "length a = 32" "length b = 32"
  using assms by (auto simp: kdf_def Let_def crypto_okD)

lemma length_kdf2:
  assumes "crypto_ok c" "kdf2 c k m x = (a, b)"
  shows "length a = 32" "length b = 32"
  using assms by (auto simp: kdf2_def Let_def crypto_okD)

lemma quotient16:
  fixes n :: nat
  obtains q r where "n = 16 * q + r" "r < 16" "n mod 16 = r"
  by (metis mod_less_divisor mult_div_mod_eq zero_less_numeral)

lemma pad_len2_aligns: "(n + pad_len2 n) mod 16 = 0" "16 \<le> pad_len2 n" "pad_len2 n < 32"
proof -
  obtain q r where d: "n = 16 * q + r" "r < 16" and m: "n mod 16 = r" by (rule quotient16)
  have "n + pad_len2 n = 16 * (q + (if r = 0 then 1 else 2))"
    unfolding pad_len2_def Let_def m using d by auto
  then show "(n + pad_len2 n) mod 16 = 0" by simp
  show "16 \<le> pad_len2 n" "pad_len2 n < 32" unfolding pad_len2_def Let_def m using d by auto
qed

lemma pad_len1_aligns: "(n + pad_len1 n) mod 16 = 0" "pad_len1 n < 16"
proof -
  obtain q r where d: "n = 16 * q + r" "r < 16" and m: "n mod 16 = r" by (rule quotient16)
  have "n + pad_len1 n = 16 * (q + (if r = 0 then 0 else 1))"
    unfolding pad_len1_def m using d by auto
  then show "(n + pad_len1 n) mod 16 = 0" by simp
  show "pad_len1 n < 16" unfolding pad_len1_def m using d by auto
qed

lemma flip_x: "receiver_x (k\<lparr>is_outgoing := \<not> is_outgoing k\<rparr>) = sender_x k"
  by (simp add: sender_x_def receiver_x_def)

lemma kdf_flip [simp]: "kdf c (k\<lparr>is_outgoing := b\<rparr>) = kdf c k" "kdf2 c (k\<lparr>is_outgoing := b\<rparr>) = kdf2 c k"
  by (simp_all add: kdf_def kdf2_def fun_eq_iff)

lemma keys_flip [simp]: "enc_key (k\<lparr>is_outgoing := b\<rparr>) = enc_key k"
  "fingerprint (k\<lparr>is_outgoing := b\<rparr>) = fingerprint k"
  by simp_all

lemma scast_of_nat16: "n < 32768 \<Longrightarrow> (scast (of_nat n :: u16) :: u32) = of_nat n"
proof -
  assume a: "n < 32768"
  have "sint (of_nat n :: u16) = int n" using a
    by (simp add: signed_of_nat signed_take_bit_int_eq_self)
  then show ?thesis by (simp add: scast_eq)
qed

lemma scast_of_nat32: "n < 2147483648 \<Longrightarrow> (scast (of_nat n :: u32) :: u64) = of_nat n"
proof -
  assume a: "n < 2147483648"
  have "sint (of_nat n :: u32) = int n" using a
    by (simp add: signed_of_nat signed_take_bit_int_eq_self)
  then show ?thesis by (simp add: scast_eq)
qed

lemma ucast_of_nat32: "n < 4294967296 \<Longrightarrow> (ucast (of_nat n :: u32) :: u64) = of_nat n"
proof -
  assume a: "n < 4294967296"
  have "uint (of_nat n :: u32) = int n" using a
    by (simp add: unsigned_of_nat take_bit_nat_eq_self)
  then show ?thesis by (simp add: ucast_eq)
qed

lemma unat_of_nat_u32: "n < 4294967296 \<Longrightarrow> unat (of_nat n :: u32) = n"
  by (simp add: unat_of_nat)

subsection \<open>What one side encrypts, the other decrypts\<close>

lemma decrypt2_encrypt2:
  assumes c: "crypto_ok c" and fp: "length (fingerprint k) = 8"
    and s: "rest s = encrypt2 c k ver data" and len: "length data \<le> 1400"
  shows "decrypt2 c (k\<lparr>is_outgoing := \<not> is_outgoing k\<rparr>) ver s
    = Inr (True, of_nat (length data), istream_of data)"
proof -
  let ?short = "\<not> is_legacy_legacy ver" and ?k = "k\<lparr>is_outgoing := \<not> is_outgoing k\<rparr>"
  define ss :: nat where "ss = (if ?short then 0 else 4)"
  define hd2 where "hd2 = (if ?short then le16 (of_nat (length data)) else le32 (of_nat (length data)))"
  define inner where "inner = (hd2 @ data) @ cf_rand c (pad_len2 (length (hd2 @ data)))"
  define large where "large = cf_sha256 c (piece (88 + sender_x k) 32 (enc_key k) @ drop ss inner)"
  define msg where "msg = piece 8 16 large"
  obtain key iv where kv: "kdf2 c k msg (sender_x k) = (key, iv)" by fastforce
  define body where "body = cf_enc c inner key iv"
  have enc: "encrypt2 c k ver data = (if ?short then [] else fingerprint k) @ msg @ body"
    using kv by (simp add: encrypt2_def Let_def ss_def hd2_def inner_def large_def msg_def body_def)
  have msg16: "length msg = 16" by (simp add: msg_def large_def crypto_okD [OF c])
  have inner_mod: "length inner mod 16 = 0"
    unfolding inner_def using pad_len2_aligns(1) [of "length (hd2 @ data)"] by (simp add: crypto_okD [OF c] add.assoc)
  have inner_len: "length inner = length hd2 + length data + pad_len2 (length (hd2 @ data))"
    by (simp add: inner_def crypto_okD [OF c])
  have hd2_len: "length hd2 = (if ?short then 2 else 4)" by (simp add: hd2_def)
  note pad = pad_len2_aligns(2,3) [of "length (hd2 @ data)"]
  have body_len: "length body = length inner" and dec: "cf_dec c body key iv = inner"
    using crypto_ok_aes [OF c length_kdf2 [OF c kv] inner_mod] by (simp_all add: body_def)
  obtain s1 where s1: "(if ?short then Inr (True, s)
      else bind_res (read_bytes 8 s) (\<lambda>(fp, s1). Inr (fp = fingerprint ?k, s1))) = (Inr (True, s1) :: exn + _)"
    and r1: "rest s1 = msg @ body"
    using s fp by (cases ?short) (auto simp: enc read_bytes_append buf_simps)
  define s2 where "s2 = adv 16 s1"
  have r2: "read_bytes 16 s1 = Inr (msg, s2)" and body: "rest s2 = body"
    using r1 msg16 by (simp_all add: buf_simps s2_def)
  have n: "remaining s2 = length inner" by (simp add: body buf_simps body_len)
  have lenword: "(if ?short then bind_res (read_int16 (istream_of inner)) (\<lambda>(w, t1). Inr (scast w :: u32, t1))
      else read_int32 (istream_of inner)) = (Inr (of_nat (length data), adv (length hd2) (istream_of inner)) :: exn + _)"
    using len read_int16_le [of "istream_of inner" "of_nat (length data)"]
      read_int32_le [of "istream_of inner" "of_nat (length data)"]
    by (simp add: buf_simps inner_def hd2_def scast_of_nat16)
  have mid: "piece (if ?short then 2 else 4) (length data) inner = data"
    using hd2_len by (simp add: piece_def inner_def)
  have small: "(1500 < length inner) = False" using len pad inner_len hd2_len by (simp split: if_splits)
  have u: "unat (of_nat (length data) :: u32) = length data"
    using len by (simp add: unat_of_nat_u32)
  have bnds: "(length data > length inner - (if ?short then 0 else 4)) = False"
    "(length inner - length data < (if ?short then 16 else 12)) = False"
    "(length inner < (if ?short then 0 else 4)) = False"
    using pad inner_len hd2_len by auto
  have msg_eq: "piece 8 16 (cf_sha256 c (piece (88 + sender_x k) 32 (enc_key k)
      @ drop (if ?short then 0 else 4) inner)) = msg"
    by (simp add: msg_def large_def ss_def)
  have out: "ucast (of_nat (length data) :: u32) = (of_nat (length data) :: u64)"
    using len by (simp add: ucast_of_nat32)
  show ?thesis
    unfolding decrypt2_def Let_def s1
    by (simp only: bind_res.simps prod.case simp_thms if_False if_True r2 kdf_flip keys_flip flip_x kv n small
        inner_mod body dec bnds msg_eq lenword u mid out)
qed

lemma decrypt1_encrypt1:
  assumes c: "crypto_ok c" and fp: "length (fingerprint k) = 8"
    and s: "rest s = encrypt1 c k data" and len: "length data < 2 ^ 31"
  shows "\<exists>t pad. decrypt1 c (k\<lparr>is_outgoing := \<not> is_outgoing k\<rparr>) initial s = Inr (Some (of_nat (length data), t))
    \<and> rest t = data @ pad \<and> length pad < 16"
proof -
  define hd1 where "hd1 = le32 (of_nat (length data)) @ data"
  define pad where "pad = (if length hd1 mod 16 \<noteq> 0 then cf_rand c (pad_len1 (length hd1)) else [])"
  define inner where "inner = hd1 @ pad"
  define h where "h = piece 4 16 (cf_sha1 c (take (length data + 4) inner))"
  obtain key iv where kv: "kdf c k h (sender_x k) = (key, iv)" by fastforce
  define body where "body = cf_enc c inner key iv"
  have enc: "encrypt1 c k data = fingerprint k @ h @ body"
    using kv by (simp add: encrypt1_def Let_def hd1_def pad_def inner_def h_def body_def)
  have h16: "length h = 16" by (simp add: h_def crypto_okD [OF c])
  have padlen: "length pad = pad_len1 (length hd1)"
    by (simp add: pad_def pad_len1_def crypto_okD [OF c])
  have inner_mod: "length inner mod 16 = 0"
    unfolding inner_def using pad_len1_aligns(1) [of "length hd1"] by (simp add: padlen)
  have body_len: "length body = length inner" and dec: "cf_dec c body key iv = inner"
    using crypto_ok_aes [OF c length_kdf [OF c kv] inner_mod] by (simp_all add: body_def)
  define s1 where "s1 = adv 8 s"
  define s2 where "s2 = adv 16 s1"
  have r: "read_bytes 8 s = Inr (fingerprint k, s1)" "read_bytes 16 s1 = Inr (h, s2)" "rest s2 = body"
    using s fp h16 by (simp_all add: enc buf_simps s1_def s2_def)
  have "rest s2 \<noteq> []" using r(3) body_len by (auto simp: inner_def hd1_def le32_def)
  then have ok: "iok s2" by (rule rest_nonempty_iok)
  define s3 where "s3 = s2\<lparr>ibuf := take (ioff s2) (ibuf s2) @ inner\<rparr>"
  have rest3: "rest s3 = inner" using ok by (simp add: s3_def rest_def iok_def)
  have lenword: "read_int32 t = Inr (of_nat (length data), adv 4 t)" if "rest t = inner" for t
    using that by (simp add: buf_simps inner_def hd1_def)
  have l: "unat (of_nat (length data) :: u32) = length data"
    using len by (simp add: unat_of_nat_u32)
  have rem: "remaining (adv 4 (istream_of inner)) \<ge> length data"
    by (simp add: buf_simps inner_def hd1_def)
  have size: "(if remaining (adv 4 (istream_of inner)) < length data
      then remaining (adv 4 (istream_of inner)) else length data) = length data"
    using rem by simp
  have "decrypt1 c (k\<lparr>is_outgoing := \<not> is_outgoing k\<rparr>) initial s
    = Inr (Some (scast (of_nat (length data) :: u32), adv 4 s3))"
    unfolding decrypt1_def Let_def
    by (simp only: bind_res.simps prod.case simp_thms if_False if_True r kdf_flip keys_flip flip_x kv dec
        lenword rest_istream_of l size h_def [symmetric] s3_def [symmetric] rest3)
  moreover have "rest (adv 4 s3) = data @ pad"
    using rest3 by (simp add: buf_simps inner_def hd1_def)
  ultimately show ?thesis using padlen pad_len1_aligns(2) [of "length hd1"] len
    by (simp add: scast_of_nat32)
qed

lemma set_encryption_key_sides:
  assumes "crypto_ok c" "set_encryption_key c key out = Inr k" "set_encryption_key c key (\<not> out) = Inr peer"
  shows "peer = k\<lparr>is_outgoing := \<not> is_outgoing k\<rparr>" "length (fingerprint k) = 8" "length (call_id k) = 16"
  using assms by (auto simp: set_encryption_key_def Let_def crypto_okD split: if_splits)

text \<open>
  C5: a packet that one side encrypts is the packet that the other side decrypts, when both
  were given the same key. Under MTProto 2 the receiver parses exactly the bytes that were
  sent; under MTProto 1 the stream goes on behind them with at most 15 bytes of padding. A
  receiver that is still set to MTProto 1 switches to MTProto 2 with the first such packet,
  when its own hash does not match and the call is not yet set up.
\<close>

theorem packet_encryption:
  assumes c: "crypto_ok c" and k: "set_encryption_key c key out = Inr k"
    and peer: "set_encryption_key c key (\<not> out) = Inr peer"
    and s: "rest s = encrypt_packet c k ver use2 data" "length data \<le> 1400"
  shows "let got = Inr (of_nat (length data), istream_of data, True)
    in if use2
      then decrypt_packet c peer ver True initial s = got
        \<and> (decrypt1 c peer initial s = Inr None \<longrightarrow> decrypt_packet c peer ver False initial s = got)
      else \<exists>t pad. decrypt_packet c peer ver False initial s = Inr (of_nat (length data), t, False)
        \<and> rest t = data @ pad \<and> length pad < 16"
proof (cases use2)
  case True
  then show ?thesis using s decrypt2_encrypt2 [OF c, of k s ver data] set_encryption_key_sides [OF c k peer]
    by (simp add: decrypt_packet_def encrypt_packet_def)
next
  case False
  then show ?thesis using s decrypt1_encrypt1 [OF c, of k s data initial] set_encryption_key_sides [OF c k peer]
    by (auto simp: decrypt_packet_def encrypt_packet_def Let_def)
qed

text \<open>Concrete primitives for the examples: hashes that only see the length, no encryption.\<close>

definition plain_crypto :: crypto_fns where
  "plain_crypto = \<lparr>cf_sha1 = (\<lambda>x. replicate 20 (of_nat (length x))),
     cf_sha256 = (\<lambda>x. replicate 32 (of_nat (length x))), cf_enc = (\<lambda>d k v. map (\<lambda>b. b XOR 85) d),
     cf_dec = (\<lambda>d k v. map (\<lambda>b. b XOR 85) d), cf_rand = (\<lambda>n. replicate n 0)\<rparr>"

definition plain_keys :: "bool \<Rightarrow> keys" where
  "plain_keys out = \<lparr>enc_key = replicate 256 7, fingerprint = replicate 8 0, call_id = replicate 16 0,
     is_outgoing = out\<rparr>"

lemma plain_crypto_ok: "crypto_ok plain_crypto"
  by (simp add: crypto_ok_def plain_crypto_def comp_def xor.assoc)

lemma plain_keys: "set_encryption_key plain_crypto (replicate 256 7) out = Inr (plain_keys out)"
  by (simp add: set_encryption_key_def plain_crypto_def plain_keys_def piece_def)

theorem packet_encryption_witness:
  "decrypt_packet plain_crypto (plain_keys False) \<lparr>peer_version = 9, max_layer = 92\<rparr> True True
     (istream_of (encrypt_packet plain_crypto (plain_keys True) \<lparr>peer_version = 9, max_layer = 92\<rparr> True [1, 2, 3]))
   = Inr (3, istream_of [1, 2, 3], True)"
  using packet_encryption [OF plain_crypto_ok plain_keys [of True], of "plain_keys False"
      "istream_of (encrypt_packet plain_crypto (plain_keys True) \<lparr>peer_version = 9, max_layer = 92\<rparr> True [1, 2, 3])"
      "\<lparr>peer_version = 9, max_layer = 92\<rparr>" True "[1, 2, 3]" True] plain_keys [of False]
  by (simp add: rest_istream_of Let_def)

subsection \<open>What is accepted\<close>

lemma unat_ucast_u64 [simp]: "unat (ucast (x :: u32) :: u64) = unat x"
  using unsigned_less [of x, where ?'a = nat] by (simp add: unsigned_ucast_eq take_bit_nat_eq_self)

definition authentic :: "crypto_fns \<Rightarrow> keys \<Rightarrow> version \<Rightarrow> istream \<Rightarrow> u64 \<Rightarrow> istream \<Rightarrow> bool" where
  "authentic c k ver s n t \<longleftrightarrow>
    (let head = (if is_legacy_legacy ver then 8 else 0); unhashed = (if is_legacy_legacy ver then 4 else 0);
         msg = piece head 16 (rest s) in
     case kdf2 c k msg (receiver_x k) of (key, iv) \<Rightarrow>
     let plain = cf_dec c (drop (head + 16) (rest s)) key iv in
       msg = piece 8 16 (cf_sha256 c (piece (88 + receiver_x k) 32 (enc_key k) @ drop unhashed plain))
       \<and> rest t = piece (if is_legacy_legacy ver then 4 else 2) (unat n) plain
       \<and> length (rest t) = unat n \<and> unat n + 12 \<le> length plain)"

lemma decrypt2_tail:
  assumes c: "crypto_ok c" and kv: "kdf2 c k (piece head 16 (rest s)) (receiver_x k) = (key, iv)"
    and head: "head = (if is_legacy_legacy ver then 8 else 0)"
    and s2: "rest s2 = drop (head + 16) (rest s)" and big: "16 \<le> length (rest s2)"
    and s1: "(if \<not> is_legacy_legacy ver then Inr (True, s)
      else bind_res (read_bytes 8 s) (\<lambda>(fp, s1). Inr (fp = fingerprint k, s1))) = (Inr (True, s1) :: exn + _)"
    and r: "read_bytes 16 s1 = Inr (piece head 16 (rest s), s2)"
  shows "\<exists>b n t. decrypt2 c k ver s = Inr (b, n, t) \<and> (n \<noteq> 0 \<longrightarrow> authentic c k ver s n t)"
proof (cases "remaining s2 > 1500 \<or> remaining s2 mod 16 \<noteq> 0")
  case True
  then show ?thesis
    unfolding decrypt2_def Let_def s1 bind_res.simps prod.case r kv
    by (cases "remaining s2 > 1500") auto
next
  case False
  define plain where "plain = cf_dec c (rest s2) key iv"
  define ss :: nat where "ss = (if \<not> is_legacy_legacy ver then 0 else 4)"
  have len: "length plain = length (rest s2)"
    using False c length_kdf2 [OF c kv] by (simp add: plain_def crypto_ok_def buf_simps)
  obtain w t1 where w: "(if \<not> is_legacy_legacy ver
      then bind_res (read_int16 (istream_of plain)) (\<lambda>(w, t1). Inr (scast w :: u32, t1))
      else read_int32 (istream_of plain)) = (Inr (w, t1) :: exn + _)"
    using len big by (cases "is_legacy_legacy ver")
      (auto simp: read_int16_conv read_int32_conv try_u16_conv try_u32_conv buf_simps)
  let ?hd = "if \<not> is_legacy_legacy ver then 2 else 4" and ?pad = "if \<not> is_legacy_legacy ver then 16 else 12"
  have rem: "remaining s2 = length plain" by (simp add: len buf_simps)
  have big3: "16 \<le> length plain" using big len by simp
  have conds: "(length plain > 1500) = False" "(length plain mod 16 \<noteq> 0) = False"
    using False rem by auto
  have fits: "(length plain < ss) = False" using big3 by (simp add: ss_def)
  have eq: "decrypt2 c k ver s = (if piece head 16 (rest s) \<noteq> piece 8 16 (cf_sha256 c
        (piece (88 + receiver_x k) 32 (enc_key k) @ drop ss plain)) then Inr (False, 0, istream_of plain)
      else if unat w > length plain - ss then Inr (False, 0, t1)
      else if length plain - unat w < ?pad then Inr (False, 0, t1)
      else Inr (True, ucast w, istream_of (piece ?hd (unat w) plain)))"
    unfolding decrypt2_def Let_def s1 ss_def [symmetric] bind_res.simps prod.case r kv plain_def [symmetric]
      rem if_False simp_thms
    by (simp only: conds fits if_False w bind_res.simps prod.case)
  have ok: "authentic c k ver s (ucast w) (istream_of (piece ?hd (unat w) plain))"
    if "piece head 16 (rest s) = piece 8 16 (cf_sha256 c (piece (88 + receiver_x k) 32 (enc_key k) @ drop ss plain))"
      "unat w \<le> length plain - ss" "?pad \<le> length plain - unat w"
  proof -
    have "?hd + unat w \<le> length plain" "unat w + 12 \<le> length plain"
      using that(2,3) big3 by (auto simp: ss_def split: if_splits)
    then show ?thesis using that(1) kv
      unfolding authentic_def Let_def rest_istream_of head [symmetric] ss_def [symmetric] s2 [symmetric] unat_ucast_u64
      by (cases "is_legacy_legacy ver") (simp_all add: plain_def [symmetric] head ss_def)
  qed
  let ?good = "piece head 16 (rest s) = piece 8 16 (cf_sha256 c (piece (88 + receiver_x k) 32 (enc_key k) @ drop ss plain))
    \<and> unat w \<le> length plain - ss \<and> ?pad \<le> length plain - unat w"
  show ?thesis
  proof (cases ?good)
    case True
    then have "decrypt2 c k ver s = Inr (True, ucast w, istream_of (piece ?hd (unat w) plain))"
      by (simp add: eq not_less)
    then show ?thesis using ok True by blast
  next
    case bad: False
    then have "\<exists>t. decrypt2 c k ver s = Inr (False, 0, t)"
      unfolding eq by (metis not_less)
    then show ?thesis by blast
  qed
qed

lemma decrypt2_accepts:
  assumes c: "crypto_ok c" and big: "40 \<le> length (rest s)"
  shows "\<exists>b n t. decrypt2 c k ver s = Inr (b, n, t) \<and> (n \<noteq> 0 \<longrightarrow> authentic c k ver s n t)"
proof -
  define head where "head = (if is_legacy_legacy ver then 8 else 0 :: nat)"
  obtain key iv where kv: "kdf2 c k (piece head 16 (rest s)) (receiver_x k) = (key, iv)" by fastforce
  define s1 where "s1 = adv head s"
  define s2 where "s2 = adv 16 s1"
  have r: "read_bytes 16 s1 = Inr (piece head 16 (rest s), s2)" and s2: "rest s2 = drop (head + 16) (rest s)"
    using big by (auto simp: read_bytes_conv s1_def s2_def head_def buf_simps piece_def add.commute)
  have big2: "16 \<le> length (rest s2)" using big by (auto simp: s2 head_def)
  show ?thesis
  proof (cases "is_legacy_legacy ver \<and> take 8 (rest s) \<noteq> fingerprint k")
    case True
    then have "decrypt2 c k ver s = Inr (False, 0, s1)"
      using big by (simp add: decrypt2_def Let_def read_bytes_conv s1_def head_def)
    then show ?thesis by blast
  next
    case False
    then have "(if \<not> is_legacy_legacy ver then Inr (True, s)
      else bind_res (read_bytes 8 s) (\<lambda>(fp, s1). Inr (fp = fingerprint k, s1))) = (Inr (True, s1) :: exn + _)"
      using big by (auto simp: read_bytes_conv s1_def head_def buf_simps)
    from decrypt2_tail [OF c kv head_def s2 big2 this r] show ?thesis .
  qed
qed

text \<open>
  C8: under MTProto 2, every packet of at least 40 bytes is decrypted without an exception,
  and one that is accepted is authentic: it carries a hash of the shared key and of the
  decrypted bytes, and what the parser gets are exactly the announced bytes, inside the
  decrypted ones and with at least 12 bytes of padding behind them.
\<close>

theorem decrypt_authentic:
  assumes "crypto_ok c" "40 \<le> length (rest s)"
  shows "\<exists>n t. decrypt_packet c k ver True initial s = Inr (n, t, True)
    \<and> (n \<noteq> 0 \<longrightarrow> authentic c k ver s n t)"
proof -
  obtain b n t where "decrypt2 c k ver s = Inr (b, n, t)" "n \<noteq> 0 \<longrightarrow> authentic c k ver s n t"
    using decrypt2_accepts [OF assms] by blast
  then show ?thesis by (simp add: decrypt_packet_def)
qed

theorem decrypt_authentic_witness:
  "\<exists>n t. decrypt_packet plain_crypto (plain_keys True) \<lparr>peer_version = 10, max_layer = 110\<rparr> True True
     (istream_of (replicate 48 3)) = Inr (n, t, True)"
  using decrypt_authentic [of plain_crypto "istream_of (replicate 48 3)" "plain_keys True"
      "\<lparr>peer_version = 10, max_layer = 110\<rparr>" True]
  by (auto simp: plain_crypto_ok rest_istream_of)

end
