(* ===== verification/Wire.thy ===== *)
theory Wire
  imports Buffers
begin

section \<open>Polymorphic wire objects (controller/protocol/protocol/Interface.h)\<close>

text \<open>
  The templates from which the protocol objects are built: counted arrays, masked arrays of
  eight slots, length-prefixed wrappers, byte strings and 32-bit integers. A template takes
  the operations of its element type as arguments.

  A \<^verbatim>\<open>parse\<close> method assigns the fields of its object while it reads, so its model maps the
  object and the stream to the outcome, the object as far as it was assigned, and the stream
  left behind. A \<^verbatim>\<open>serialize\<close> method only appends to the output stream; its model is the
  list of the bytes it appends (the interface \<open>byte_sink\<close> of the output stream).
\<close>

subsection \<open>Parse methods\<close>

text \<open>The outcome of a parse method: it returned true, it returned false, or it threw.\<close>

datatype outcome = Done | Refused | Raised exn

type_synonym 's parser = "'s \<times> istream \<Rightarrow> outcome \<times> 's \<times> istream"

text \<open>\<^verbatim>\<open>p1 && p2 && ...\<close>: stop at the first read that does not return true.\<close>

fun chain :: "'s parser list \<Rightarrow> 's parser" where
  "chain [] x = (Done, x)"
| "chain (p # ps) x = (case p x of (Done, y) \<Rightarrow> chain ps y | (r, y) \<Rightarrow> (r, y))"

text \<open>\<^verbatim>\<open>in.TryRead(field)\<close>: assign the field when the read succeeds.\<close>

fun rd :: "(istream \<Rightarrow> 'v option \<times> istream) \<Rightarrow> ('v \<Rightarrow> 's \<Rightarrow> 's) \<Rightarrow> 's parser" where
  "rd try f (x, s) = (case try s of (None, t) \<Rightarrow> (Refused, x, t) | (Some v, t) \<Rightarrow> (Done, f v x, t))"

definition rd8 :: "(byte \<Rightarrow> 's \<Rightarrow> 's) \<Rightarrow> 's parser" where "rd8 = rd try_u8"
definition rd16 :: "(u16 \<Rightarrow> 's \<Rightarrow> 's) \<Rightarrow> 's parser" where "rd16 = rd try_u16"
definition rd32 :: "(u32 \<Rightarrow> 's \<Rightarrow> 's) \<Rightarrow> 's parser" where "rd32 = rd try_u32"
definition rd_bytes :: "nat \<Rightarrow> (byte list \<Rightarrow> 's \<Rightarrow> 's) \<Rightarrow> 's parser" where "rd_bytes n = rd (try_bytes n)"
definition rd_naddr :: "bool \<Rightarrow> (naddr \<Rightarrow> 's \<Rightarrow> 's) \<Rightarrow> 's parser" where "rd_naddr v6 = rd (try_naddr v6)"

text \<open>\<^verbatim>\<open>in.TryRead(field, ver)\<close> of a nested object: run its parse method on the field.\<close>

definition rd_obj :: "('s \<Rightarrow> 'a) \<Rightarrow> ('a \<Rightarrow> 's \<Rightarrow> 's) \<Rightarrow> 'a parser \<Rightarrow> 's parser" where
  "rd_obj get put p = (\<lambda>(x, s). case p (get x, s) of (r, y, t) \<Rightarrow> (r, put y x, t))"

text \<open>
  The steps between the reads: a local variable, an assignment, an early \<^verbatim>\<open>return false\<close>,
  an optional step, and a step that depends on the fields read so far.
\<close>

fun rd_let :: "(istream \<Rightarrow> 'v option \<times> istream) \<Rightarrow> ('v \<Rightarrow> 's parser) \<Rightarrow> 's parser" where
  "rd_let try k (x, s) = (case try s of (None, t) \<Rightarrow> (Refused, x, t) | (Some v, t) \<Rightarrow> k v (x, t))"

fun assign :: "('s \<Rightarrow> 's) \<Rightarrow> 's parser" where
  "assign f (x, s) = (Done, f x, s)"

fun guard :: "bool \<Rightarrow> 's parser" where
  "guard b (x, s) = (if b then Done else Refused, x, s)"

definition optional :: "bool \<Rightarrow> 's parser \<Rightarrow> 's parser" where
  "optional b p = (if b then p else chain [])"

fun depend :: "('s \<Rightarrow> 's parser) \<Rightarrow> 's parser" where
  "depend k (x, s) = k x (x, s)"

lemma chain_append:
  "chain (ps @ qs) x = (case chain ps x of (Done, y) \<Rightarrow> chain qs y | (r, y) \<Rightarrow> (r, y))"
  by (induction ps arbitrary: x) (auto split: prod.splits outcome.splits)

lemma rd8_Cons [wire_simps]: "rest s = b # xs \<Longrightarrow> rd8 f (x, s) = (Done, f b x, adv 1 s)"
  by (simp add: rd8_def try_u8_Cons)

lemma rd16_le [wire_simps]: "rest s = le16 w @ xs \<Longrightarrow> rd16 f (x, s) = (Done, f w x, adv 2 s)"
  by (simp add: rd16_def try_u16_le)

lemma rd32_le [wire_simps]: "rest s = le32 w @ xs \<Longrightarrow> rd32 f (x, s) = (Done, f w x, adv 4 s)"
  by (simp add: rd32_def try_u32_le)

lemma rd_bytes_append [wire_simps]:
  "iok s \<Longrightarrow> rest s = bs @ xs \<Longrightarrow> n = length bs \<Longrightarrow> rd_bytes n f (x, s) = (Done, f bs x, adv n s)"
  by (simp add: rd_bytes_def try_bytes_append)

lemma rd_naddr_ip4 [wire_simps]:
  "rest s = le32 w @ xs \<Longrightarrow> rd_naddr False f (x, s) = (Done, f (IPv4 w) x, adv 4 s)"
  by (simp add: rd_naddr_def try_naddr_ip4)

lemma rd_naddr_ip6 [wire_simps]:
  "iok s \<Longrightarrow> rest s = bs @ xs \<Longrightarrow> length bs = 16 \<Longrightarrow>
     rd_naddr True f (x, s) = (Done, f (IPv6 bs) x, adv 16 s)"
  by (simp add: rd_naddr_def try_naddr_ip6)

lemma rd_obj_Done [wire_simps]:
  "p (get x, s) = (Done, y, t) \<Longrightarrow> rd_obj get put p (x, s) = (Done, put y x, t)"
  by (simp add: rd_obj_def)

text \<open>
  The law of a round trip: on a stream that goes on with the bytes \<open>bs\<close>, the parse method
  turns the object \<open>x\<close> into \<open>y\<close> and consumes exactly \<open>bs\<close>.
\<close>

definition reads :: "'s parser \<Rightarrow> 's \<Rightarrow> byte list \<Rightarrow> 's \<Rightarrow> bool" where
  "reads p x bs y \<longleftrightarrow>
     (\<forall>s xs. iok s \<longrightarrow> rest s = bs @ xs \<longrightarrow> p (x, s) = (Done, y, adv (length bs) s))"

lemma readsI: "(\<And>s xs. iok s \<Longrightarrow> rest s = bs @ xs \<Longrightarrow> p (x, s) = (Done, y, adv (length bs) s)) \<Longrightarrow>
    reads p x bs y"
  by (simp add: reads_def)

lemma readsD: "reads p x bs y \<Longrightarrow> iok s \<Longrightarrow> rest s = bs @ xs \<Longrightarrow>
    p (x, s) = (Done, y, adv (length bs) s)"
  by (simp add: reads_def)

lemma reads_all: "reads p x bs y \<Longrightarrow> p (x, istream_of bs) = (Done, y, adv (length bs) (istream_of bs))"
  by (rule readsD [where xs = "[]"]) (simp_all add: buf_simps)

lemma reads_eq: "reads p x bs y \<Longrightarrow> y = z \<Longrightarrow> reads p x bs z"
  by simp

lemma reads_prim [wire_simps]:
  "reads (rd8 f) x [b] (f b x)"
  "reads (rd16 g) x (le16 w) (g w x)"
  "reads (rd32 h) x (le32 v) (h v x)"
  "length bs = n \<Longrightarrow> reads (rd_bytes n k) x bs (k bs x)"
  "reads (rd_naddr False l) x (le32 v) (l (IPv4 v) x)"
  "length bs = 16 \<Longrightarrow> reads (rd_naddr True l) x bs (l (IPv6 bs) x)"
  by (auto intro!: readsI simp: wire_simps)

lemma reads_obj: "reads p (get x) bs y \<Longrightarrow> reads (rd_obj get put p) x bs (put y x)"
  by (auto intro!: readsI simp: rd_obj_def reads_def)

text \<open>A chain reads the concatenation of what its parts read.\<close>

lemma reads_Nil: "x = y \<Longrightarrow> reads (chain []) x [] y"
  by (auto intro!: readsI simp: buf_simps)

lemma reads_step:
  assumes "reads p x bs y" "reads (chain ps) y cs z"
  shows "reads (chain (p # ps)) x (bs @ cs) z"
proof (rule readsI)
  fix s xs
  assume s: "iok s" "rest s = (bs @ cs) @ xs"
  then have 1: "p (x, s) = (Done, y, adv (length bs) s)"
    using readsD [OF assms(1), of s "cs @ xs"] by simp
  have "iok (adv (length bs) s)" "rest (adv (length bs) s) = cs @ xs"
    using s by (auto intro!: iok_adv simp: buf_simps)
  from readsD [OF assms(2) this] 1 show "chain (p # ps) (x, s) = (Done, z, adv (length (bs @ cs)) s)"
    by (simp add: buf_simps)
qed

lemma reads_last: "reads p x bs y \<Longrightarrow> reads (chain [p]) x bs y"
  using reads_step [OF _ reads_Nil [OF refl]] by fastforce

lemma reads8: "reads (chain ps) (f b x) cs z \<Longrightarrow> reads (chain (rd8 f # ps)) x (b # cs) z"
  using reads_step [of "rd8 f" x "[b]"] reads_prim(1) [of f x b] by auto

lemma reads16: "reads (chain ps) (f w x) cs z \<Longrightarrow> reads (chain (rd16 f # ps)) x (le16 w @ cs) z"
  by (rule reads_step [OF reads_prim(2)])

lemma reads32: "reads (chain ps) (f w x) cs z \<Longrightarrow> reads (chain (rd32 f # ps)) x (le32 w @ cs) z"
  by (rule reads_step [OF reads_prim(3)])

lemma reads_sub: "reads p (get x) bs y \<Longrightarrow> reads (chain ps) (put y x) cs z \<Longrightarrow>
    reads (chain (rd_obj get put p # ps)) x (bs @ cs) z"
  by (rule reads_step [OF reads_obj])

lemma reads_let8: "reads (k b) x cs z \<Longrightarrow> reads (rd_let try_u8 k) x (b # cs) z"
proof (rule readsI)
  fix s xs
  assume k: "reads (k b) x cs z" and s: "iok s" "rest s = (b # cs) @ xs"
  have "iok (adv 1 s)" "rest (adv 1 s) = cs @ xs" using s by (auto intro!: iok_adv simp: buf_simps)
  from readsD [OF k this] s show "rd_let try_u8 k (x, s) = (Done, z, adv (length (b # cs)) s)"
    by (simp add: try_u8_Cons buf_simps)
qed

lemma reads_let16: "reads (k w) x cs z \<Longrightarrow> reads (rd_let try_u16 k) x (le16 w @ cs) z"
proof (rule readsI)
  fix s xs
  assume k: "reads (k w) x cs z" and s: "iok s" "rest s = (le16 w @ cs) @ xs"
  have "iok (adv 2 s)" "rest (adv 2 s) = cs @ xs" using s by (auto intro!: iok_adv simp: buf_simps)
  from readsD [OF k this] s show "rd_let try_u16 k (x, s) = (Done, z, adv (length (le16 w @ cs)) s)"
    by (simp add: try_u16_le buf_simps)
qed

lemma reads_let32: "reads (k w) x cs z \<Longrightarrow> reads (rd_let try_u32 k) x (le32 w @ cs) z"
proof (rule readsI)
  fix s xs
  assume k: "reads (k w) x cs z" and s: "iok s" "rest s = (le32 w @ cs) @ xs"
  have "iok (adv 4 s)" "rest (adv 4 s) = cs @ xs" using s by (auto intro!: iok_adv simp: buf_simps)
  from readsD [OF k this] s show "rd_let try_u32 k (x, s) = (Done, z, adv (length (le32 w @ cs)) s)"
    by (simp add: try_u32_le buf_simps)
qed

lemma reads_assign: "reads (chain ps) (f x) cs z \<Longrightarrow> reads (chain (assign f # ps)) x cs z"
  by (auto simp: reads_def)

lemma reads_guard: "b \<Longrightarrow> reads (chain ps) x cs z \<Longrightarrow> reads (chain (guard b # ps)) x cs z"
  by (auto simp: reads_def)

lemma reads_depend: "reads (chain (k x # ps)) x cs z \<Longrightarrow> reads (chain (depend k # ps)) x cs z"
  by (auto simp: reads_def)

lemma reads_optional:
  "reads (if b then p else chain []) x bs y \<Longrightarrow> reads (chain ps) y cs z \<Longrightarrow>
     reads (chain (optional b p # ps)) x (bs @ cs) z"
  by (rule reads_step) (simp add: optional_def)

lemma reads_opt:
  assumes "b \<Longrightarrow> reads p x bs y" "\<not> b \<Longrightarrow> y = x" "reads (chain ps) y cs z"
  shows "reads (chain (optional b p # ps)) x ((if b then bs else []) @ cs) z"
  by (rule reads_optional [OF _ assms(3)]) (use assms(1,2) reads_Nil in auto)

lemma reads_opt_last:
  assumes "b \<Longrightarrow> reads p x bs y" "\<not> b \<Longrightarrow> y = x"
  shows "reads (chain [optional b p]) x (if b then bs else []) y"
  using reads_opt [OF assms reads_Nil [OF refl]] by simp

lemmas reads_chain = reads8 reads16 reads32 reads_sub

text \<open>
  A parse method is tame when it only moves the offset forward, within the buffer, and does
  not throw. Chains of tame reads are tame, so every parse method built from the reads above
  stays inside the packet, whatever bytes it is given.
\<close>

definition tame :: "'s parser \<Rightarrow> bool" where
  "tame p \<longleftrightarrow> (\<forall>x s r y t. iok s \<longrightarrow> p (x, s) = (r, y, t) \<longrightarrow> stays s t \<and> (\<forall>e. r \<noteq> Raised e))"

lemma tameI:
  "(\<And>x s r y t. iok s \<Longrightarrow> p (x, s) = (r, y, t) \<Longrightarrow> stays s t \<and> (\<forall>e. r \<noteq> Raised e)) \<Longrightarrow> tame p"
  by (auto simp: tame_def)

lemma tameD: "tame p \<Longrightarrow> iok s \<Longrightarrow> p (x, s) = (r, y, t) \<Longrightarrow> stays s t \<and> (\<forall>e. r \<noteq> Raised e)"
  by (auto simp: tame_def)

lemma tame_rd: "(\<And>s r t. try s = (r, t) \<Longrightarrow> stays s t) \<Longrightarrow> tame (rd try f)"
  by (rule tameI) (auto split: prod.splits option.splits)

lemma tame_reads [intro]:
  "tame (rd8 f)" "tame (rd16 g)" "tame (rd32 h)" "tame (rd_bytes n k)" "tame (rd_naddr v6 l)"
  unfolding rd8_def rd16_def rd32_def rd_bytes_def rd_naddr_def
  by (auto intro!: tame_rd dest: try_stays)

lemma tame_Nil: "tame (chain [])"
  by (auto simp: tame_def)

lemma tame_Cons:
  assumes p: "tame p" and ps: "tame (chain ps)"
  shows "tame (chain (p # ps))"
proof (rule tameI)
  fix x s r y t
  assume ok: "iok s" and run: "chain (p # ps) (x, s) = (r, y, t)"
  obtain r1 y1 t1 where 1: "p (x, s) = (r1, y1, t1)" by (cases "p (x, s)") auto
  from tameD [OF p ok 1] have s1: "stays s t1" "\<forall>e. r1 \<noteq> Raised e" by auto
  show "stays s t \<and> (\<forall>e. r \<noteq> Raised e)"
  proof (cases r1)
    case Done
    with 1 run have "chain ps (y1, t1) = (r, y, t)" by simp
    from tameD [OF ps stays_iok [OF s1(1) ok] this] s1(1) show ?thesis
      by (auto intro: stays_trans)
  qed (use 1 run s1 in auto)
qed

lemma tame_obj [intro]: "tame p \<Longrightarrow> tame (rd_obj get put p)"
  unfolding rd_obj_def tame_def by (fastforce split: prod.splits)

lemma tame_if [intro]: "tame p \<Longrightarrow> tame q \<Longrightarrow> tame (if b then p else q)"
  by simp

subsection \<open>Array\<close>

text \<open>
  The elements are created by \<^verbatim>\<open>T::choose\<close>, which for the element types of this protocol
  makes a new object (\<open>new\<close>) and reads nothing. An element that does not parse is dropped;
  the elements before it stay in the vector.
\<close>

fun array_items :: "'a parser \<Rightarrow> 'a \<Rightarrow> nat \<Rightarrow> 'a list parser" where
  "array_items p new 0 (v, s) = (Done, v, s)"
| "array_items p new (Suc n) (v, s) = (case p (new, s) of
     (Done, x, t) \<Rightarrow> array_items p new n (v @ [x], t)
   | (r, _, t) \<Rightarrow> (r, v, t))"

fun array_parse :: "'a parser \<Rightarrow> 'a \<Rightarrow> 'a list parser" where
  "array_parse p new (v, s) = (case try_u8 s of
     (None, t) \<Rightarrow> (Refused, v, t)
   | (Some n, t) \<Rightarrow> array_items p new (unat n) (v, t))"

definition array_ser :: "('a \<Rightarrow> byte list) \<Rightarrow> 'a list \<Rightarrow> byte list" where
  "array_ser ser v = of_nat (length v) # concat (map ser v)"

definition array_bool :: "'a list \<Rightarrow> bool" where
  "array_bool v \<longleftrightarrow> v \<noteq> []"

definition array_size :: "('a \<Rightarrow> nat) \<Rightarrow> 'a list \<Rightarrow> nat" where
  "array_size sz v = 1 + sum_list (map sz v)"

subsection \<open>Mask\<close>

text \<open>Eight slots; one byte says which of them follow.\<close>

fun mask_items :: "'a parser \<Rightarrow> byte \<Rightarrow> nat list \<Rightarrow> 'a list parser" where
  "mask_items p mk [] (v, s) = (Done, v, s)"
| "mask_items p mk (i # is) (v, s) =
     (if \<not> bit mk i then mask_items p mk is (v, s)
      else case p (v ! i, s) of
        (Done, x, t) \<Rightarrow> mask_items p mk is (v[i := x], t)
      | (r, x, t) \<Rightarrow> (r, v[i := x], t))"

fun mask_parse :: "'a parser \<Rightarrow> 'a list parser" where
  "mask_parse p (v, s) = (case try_u8 s of
     (None, t) \<Rightarrow> (Refused, v, t)
   | (Some mk, t) \<Rightarrow> mask_items p mk [0..<8] (v, t))"

fun mask_byte :: "('a \<Rightarrow> bool) \<Rightarrow> 'a list \<Rightarrow> nat list \<Rightarrow> byte \<Rightarrow> byte" where
  "mask_byte present v [] m = m"
| "mask_byte present v (i # is) m =
     mask_byte present v is (if present (v ! i) then m OR push_bit i 1 else m)"

definition mask_ser :: "('a \<Rightarrow> bool) \<Rightarrow> ('a \<Rightarrow> byte list) \<Rightarrow> 'a list \<Rightarrow> byte list" where
  "mask_ser present ser v = mask_byte present v [0..<8] 0 # concat (map ser (filter present v))"

definition mask_bool :: "('a \<Rightarrow> bool) \<Rightarrow> 'a list \<Rightarrow> bool" where
  "mask_bool present v \<longleftrightarrow> list_ex present v"

definition mask_size :: "('a \<Rightarrow> bool) \<Rightarrow> ('a \<Rightarrow> nat) \<Rightarrow> 'a list \<Rightarrow> nat" where
  "mask_size present sz v = 1 + sum_list (map sz (filter present v))"

subsection \<open>Wrapped\<close>

text \<open>
  A shared pointer to an object, \<open>None\<close> when null, sent behind its length. Parsing chooses
  the object from the bytes of the wrapped part alone.
\<close>

fun wrapped_parse :: "(istream \<Rightarrow> 'a option \<times> istream) \<Rightarrow> 'a parser \<Rightarrow> 'a option parser" where
  "wrapped_parse pick p (w, s) = (case try_u8 s of
     (None, t) \<Rightarrow> (Refused, w, t)
   | (Some len, t) \<Rightarrow>
       if remaining t < unat len then (Refused, w, t)
       else (case get_part_buffer (unat len) True t of
         Inl e \<Rightarrow> (Raised e, w, t)
       | Inr (part, u) \<Rightarrow> (case pick part of
           (None, _) \<Rightarrow> (Refused, None, u)
         | (Some d, part1) \<Rightarrow> (case p (d, part1) of (r, d1, _) \<Rightarrow> (r, Some d1, u)))))"

definition wrapped_ser :: "('a \<Rightarrow> byte list) \<Rightarrow> 'a option \<Rightarrow> byte list" where
  "wrapped_ser ser w = (let body = (case w of None \<Rightarrow> [] | Some d \<Rightarrow> ser d)
     in of_nat (length body) # body)"

definition wrapped_bool :: "('a \<Rightarrow> bool) \<Rightarrow> 'a option \<Rightarrow> bool" where
  "wrapped_bool present w \<longleftrightarrow> (case w of None \<Rightarrow> False | Some d \<Rightarrow> present d)"

text \<open>
  The length is not known before the object is written: the code leaves a gap of one byte,
  writes the object behind it, steps back to fill the gap in, and steps forward again.
\<close>

definition wrapped_write :: "(nat \<Rightarrow> byte) \<Rightarrow> (ostream \<Rightarrow> exn + ostream) \<Rightarrow> ostream \<Rightarrow> exn + ostream" where
  "wrapped_write junk body s =
     bind_res (ostream_advance junk 1 s) (\<lambda>s1.
     bind_res (body s1) (\<lambda>s2.
       let len = ooff s2 - ooff s1 in
       bind_res (ostream_rewind (len + 1) s2) (\<lambda>s3.
       bind_res (write_byte junk (of_nat len) s3) (\<lambda>s4.
         ostream_advance junk len s4))))"

subsection \<open>Bytes and UInt32\<close>

text \<open>
  A byte string: the pointer to its buffer, \<open>None\<close> when null. It takes a buffer of the length of the
  whole stream and fills it from the current offset, so it is only good for a stream of its
  own, as \<^verbatim>\<open>Wrapped\<close> gives it. (When the read fails, the content of the fresh buffer is
  indeterminate in the code; it is zero here.) Serializing a null pointer is undefined in the code;
  here it appends nothing, and the round trips of the users exclude it.
\<close>

fun bytes_parse :: "byte list option parser" where
  "bytes_parse (d, s) = (let n = length (ibuf s) in
     case try_bytes n s of
       (None, t) \<Rightarrow> (Refused, Some (replicate n 0), t)
     | (Some bs, t) \<Rightarrow> (Done, Some bs, t))"

fun bytes_choose :: "istream \<Rightarrow> byte list option option \<times> istream" where
  "bytes_choose s = (Some None, s)"

definition bytes_ser :: "byte list option \<Rightarrow> byte list" where
  "bytes_ser d = (case d of None \<Rightarrow> [] | Some bs \<Rightarrow> bs)"

definition bytes_bool :: "byte list option \<Rightarrow> bool" where
  "bytes_bool d \<longleftrightarrow> (case d of None \<Rightarrow> False | Some bs \<Rightarrow> bs \<noteq> [])"

definition uint32_parse :: "u32 parser" where
  "uint32_parse = rd32 (\<lambda>v _. v)"

definition uint32_ser :: "u32 \<Rightarrow> byte list" where
  "uint32_ser v = le32 v"

type_synonym wbytes = "byte list option option"

abbreviation wbytes_parse :: "wbytes parser" where
  "wbytes_parse \<equiv> wrapped_parse bytes_choose bytes_parse"

abbreviation wbytes_ser :: "wbytes \<Rightarrow> byte list" where
  "wbytes_ser \<equiv> wrapped_ser bytes_ser"

abbreviation wbytes_bool :: "wbytes \<Rightarrow> bool" where
  "wbytes_bool \<equiv> wrapped_bool bytes_bool"

subsection \<open>Tameness of the templates\<close>

lemma tame_array_items: "tame p \<Longrightarrow> tame (array_items p new n)"
proof (induction n)
  case 0
  then show ?case by (auto simp: tame_def)
next
  case (Suc n)
  note IH = Suc.IH [OF Suc.prems]
  show ?case
  proof (rule tameI)
    fix v s r y t
    assume ok: "iok s" and run: "array_items p new (Suc n) (v, s) = (r, y, t)"
    obtain r1 x1 t1 where 1: "p (new, s) = (r1, x1, t1)" by (cases "p (new, s)") auto
    from tameD [OF Suc.prems ok 1] have s1: "stays s t1" "\<forall>e. r1 \<noteq> Raised e" by auto
    show "stays s t \<and> (\<forall>e. r \<noteq> Raised e)"
    proof (cases r1)
      case Done
      with 1 run have "array_items p new n (v @ [x1], t1) = (r, y, t)" by simp
      from tameD [OF IH stays_iok [OF s1(1) ok] this] s1(1) show ?thesis
        by (auto intro: stays_trans)
    qed (use 1 run s1 in auto)
  qed
qed

lemma tame_array [intro]: "tame p \<Longrightarrow> tame (array_parse p new)"
proof (rule tameI)
  fix v s r y t
  assume p: "tame p" and ok: "iok s" and run: "array_parse p new (v, s) = (r, y, t)"
  obtain n t1 where 1: "try_u8 s = (n, t1)" by (cases "try_u8 s")
  then have s1: "stays s t1" by (rule try_u8_stays)
  show "stays s t \<and> (\<forall>e. r \<noteq> Raised e)"
  proof (cases n)
    case (Some k)
    with 1 run have "array_items p new (unat k) (v, t1) = (r, y, t)" by simp
    from tameD [OF tame_array_items [OF p] stays_iok [OF s1 ok] this] s1 show ?thesis
      by (auto intro: stays_trans)
  qed (use 1 run s1 in auto)
qed

lemma tame_mask_items: "tame p \<Longrightarrow> tame (mask_items p mk is)"
proof (induction "is")
  case Nil
  then show ?case by (auto simp: tame_def)
next
  case (Cons i "is")
  note IH = Cons.IH [OF Cons.prems]
  show ?case
  proof (rule tameI)
    fix v s r y t
    assume ok: "iok s" and run: "mask_items p mk (i # is) (v, s) = (r, y, t)"
    obtain r1 x1 t1 where 1: "p (v ! i, s) = (r1, x1, t1)" by (cases "p (v ! i, s)") auto
    from tameD [OF Cons.prems ok 1] have s1: "stays s t1" "\<forall>e. r1 \<noteq> Raised e" by auto
    show "stays s t \<and> (\<forall>e. r \<noteq> Raised e)"
    proof (cases "bit mk i")
      case True
      show ?thesis
      proof (cases r1)
        case Done
        with True 1 run have "mask_items p mk is (v[i := x1], t1) = (r, y, t)" by simp
        from tameD [OF IH stays_iok [OF s1(1) ok] this] s1(1) show ?thesis
          by (auto intro: stays_trans)
      qed (use True 1 run s1 in auto)
    next
      case False
      with run have "mask_items p mk is (v, s) = (r, y, t)" by simp
      from tameD [OF IH ok this] show ?thesis .
    qed
  qed
qed

lemma tame_mask [intro]: "tame p \<Longrightarrow> tame (mask_parse p)"
proof (rule tameI)
  fix v s r y t
  assume p: "tame p" and ok: "iok s" and run: "mask_parse p (v, s) = (r, y, t)"
  obtain n t1 where 1: "try_u8 s = (n, t1)" by (cases "try_u8 s")
  then have s1: "stays s t1" by (rule try_u8_stays)
  show "stays s t \<and> (\<forall>e. r \<noteq> Raised e)"
  proof (cases n)
    case (Some k)
    with 1 run have "mask_items p k [0..<8] (v, t1) = (r, y, t)" by simp
    from tameD [OF tame_mask_items [OF p] stays_iok [OF s1 ok] this] s1 show ?thesis
      by (auto intro: stays_trans)
  qed (use 1 run s1 in auto)
qed

lemma tame_wrapped [intro]:
  assumes p: "tame p" and c: "\<And>b d b1. iok b \<Longrightarrow> pick b = (Some d, b1) \<Longrightarrow> iok b1"
  shows "tame (wrapped_parse pick p)"
proof (rule tameI)
  fix w s r y t
  assume ok: "iok s" and run: "wrapped_parse pick p (w, s) = (r, y, t)"
  obtain n t1 where 1: "try_u8 s = (n, t1)" by (cases "try_u8 s")
  then have s1: "stays s t1" by (rule try_u8_stays)
  show "stays s t \<and> (\<forall>e. r \<noteq> Raised e)"
  proof (cases "n = None \<or> length (rest t1) < unat (the n)")
    case True
    with 1 run s1 show ?thesis by (auto simp: remaining_rest split: option.splits)
  next
    case False
    then obtain k where k: "n = Some k" "unat k \<le> length (rest t1)" by auto
    let ?part = "istream_of (take (unat k) (rest t1))"
    have s2: "stays s (adv (unat k) t1)"
      using s1 stays_adv [OF k(2)] by (rule stays_trans)
    have g: "get_part_buffer (unat k) True t1 = Inr (?part, adv (unat k) t1)"
      using k(2) by (simp add: get_part_buffer_conv)
    obtain d b1 where ch: "pick ?part = (d, b1)" by (cases "pick ?part")
    show ?thesis
    proof (cases d)
      case None
      with k 1 g ch run s2 show ?thesis by (auto simp: remaining_rest)
    next
      case (Some d1)
      obtain r2 d2 t2 where 2: "p (d1, b1) = (r2, d2, t2)" by (cases "p (d1, b1)") auto
      have "iok b1" using c [OF iok_istream_of] ch Some by simp
      from tameD [OF p this 2] have "\<forall>e. r2 \<noteq> Raised e" by simp
      with Some k 1 g ch 2 run s2 show ?thesis by (auto simp: remaining_rest)
    qed
  qed
qed

lemma tame_bytes [intro]: "tame bytes_parse"
  by (rule tameI) (auto simp: Let_def split: prod.splits option.splits dest: try_bytes_stays)

lemma tame_wbytes [intro]: "tame wbytes_parse"
  by (rule tame_wrapped) auto

lemma tame_uint32 [intro]: "tame uint32_parse"
  by (auto simp: uint32_parse_def)

lemma tame_let: "(\<And>s r t. try s = (r, t) \<Longrightarrow> stays s t) \<Longrightarrow> (\<And>v. tame (k v)) \<Longrightarrow> tame (rd_let try k)"
proof (rule tameI)
  fix x s r y t
  assume rds: "\<And>s r t. try s = (r, t) \<Longrightarrow> stays s t" and k: "\<And>v. tame (k v)"
    and ok: "iok s" and run: "rd_let try k (x, s) = (r, y, t)"
  obtain n t1 where 1: "try s = (n, t1)" by (cases "try s")
  then have s1: "stays s t1" by (rule rds)
  show "stays s t \<and> (\<forall>e. r \<noteq> Raised e)"
  proof (cases n)
    case (Some v)
    with 1 run have "k v (x, t1) = (r, y, t)" by simp
    from tameD [OF k stays_iok [OF s1 ok] this] s1 show ?thesis by (auto intro: stays_trans)
  qed (use 1 run s1 in auto)
qed

lemma tame_let_u8: "(\<And>v. tame (k v)) \<Longrightarrow> tame (rd_let try_u8 k)"
  by (rule tame_let) (rule try_u8_stays)

lemma tame_let_u16: "(\<And>v. tame (k v)) \<Longrightarrow> tame (rd_let try_u16 k)"
  by (rule tame_let) (rule try_u16_stays)

lemma tame_assign: "tame (assign f)" "tame (guard b)"
  by (auto simp: tame_def)

lemma tame_depend: "(\<And>x. tame (k x)) \<Longrightarrow> tame (depend k)"
  by (auto simp: tame_def)

lemma tame_optional: "tame p \<Longrightarrow> tame (optional b p)"
  by (auto simp: optional_def intro: tame_Nil)

lemmas tame_intros = tame_let_u8 tame_let_u16 tame_assign tame_depend tame_optional
  tame_reads tame_Nil tame_Cons tame_obj tame_if tame_array tame_mask
  tame_bytes tame_wbytes tame_uint32

declare array_parse.simps [simp del] mask_parse.simps [simp del] wrapped_parse.simps [simp del]
  bytes_parse.simps [simp del] bytes_choose.simps [simp del]

subsection \<open>Round trips of the templates\<close>

text \<open>
  What an array or a mask relies on: its element can be written and read back. \<open>canon\<close> is
  what the reader makes of a written element, because some encodings do not keep every field.
\<close>

locale wire_codec =
  fixes parse :: "'a parser"
    and ser :: "'a \<Rightarrow> byte list"
    and new :: 'a
    and canon :: "'a \<Rightarrow> 'a"
    and valid :: "'a \<Rightarrow> bool"
  assumes codec_reads: "valid x \<Longrightarrow> reads parse new (ser x) (canon x)"
begin

lemmas codec_round = readsD [OF codec_reads]

lemma array_items_round:
  "list_all valid v \<Longrightarrow> iok s \<Longrightarrow> rest s = concat (map ser v) @ xs \<Longrightarrow>
   array_items parse new (length v) (pre, s)
     = (Done, pre @ map canon v, adv (length (concat (map ser v))) s)"
proof (induction v arbitrary: pre s)
  case Nil
  then show ?case by (simp add: buf_simps)
next
  case (Cons x v)
  let ?t = "adv (length (ser x)) s"
  have 1: "parse (new, s) = (Done, canon x, ?t)"
    using Cons.prems by (intro codec_round [where xs = "concat (map ser v) @ xs"]) auto
  have 2: "iok ?t" "rest ?t = concat (map ser v) @ xs"
    using Cons.prems by (auto intro!: iok_adv simp: buf_simps)
  from Cons.prems(1) have "list_all valid v" by simp
  from Cons.IH [OF this 2, of "pre @ [canon x]"] 1 show ?case by (simp add: buf_simps)
qed

lemma array_round:
  assumes "list_all valid v" "length v < 256" "iok s" "rest s = array_ser ser v @ xs"
  shows "array_parse parse new (pre, s)
    = (Done, pre @ map canon v, adv (length (array_ser ser v)) s)"
proof -
  from assms(4) have r: "rest s = of_nat (length v) # concat (map ser v) @ xs"
    by (simp add: array_ser_def)
  then have "rest (adv 1 s) = concat (map ser v) @ xs" "iok (adv 1 s)"
    using assms(3) by (auto intro!: iok_adv simp: buf_simps)
  from array_items_round [OF assms(1) this(2,1), of pre] r assms(2) show ?thesis
    by (simp add: array_parse.simps try_u8_Cons buf_simps array_ser_def unat_of_nat_byte)
qed

lemma mask_items_round:
  "\<lbrakk>\<forall>x \<in> set vs. present x \<longrightarrow> valid x; iok s; rest s = concat (map ser (filter present vs)) @ xs;
    \<forall>j < length vs. bit mk (length pre + j) = present (vs ! j)\<rbrakk> \<Longrightarrow>
   mask_items parse mk [length pre..<length pre + length vs] (pre @ replicate (length vs) new, s)
     = (Done, pre @ map (\<lambda>x. if present x then canon x else new) vs,
        adv (length (concat (map ser (filter present vs)))) s)"
proof (induction vs arbitrary: pre s)
  case Nil
  then show ?case by (simp add: buf_simps)
next
  case (Cons x vs)
  have up: "[length pre..<length pre + length (x # vs)]
      = length pre # [Suc (length pre)..<Suc (length pre) + length vs]"
    by (simp add: upt_conv_Cons del: upt_Suc)
  have b0: "bit mk (length pre) = present x"
    using Cons.prems(4) by (metis add.right_neutral length_Cons nth_Cons_0 zero_less_Suc)
  have bs: "\<forall>j < length vs. bit mk (Suc (length pre) + j) = present (vs ! j)"
    using Cons.prems(4) by (metis add_Suc add_Suc_right length_Cons not_less_eq nth_Cons_Suc)
  have vs: "\<forall>x \<in> set vs. present x \<longrightarrow> valid x" using Cons.prems(1) by simp
  show ?case
  proof (cases "present x")
    case True
    let ?t = "adv (length (ser x)) s"
    have 1: "parse (new, s) = (Done, canon x, ?t)"
      using Cons.prems True
      by (intro codec_round [where xs = "concat (map ser (filter present vs)) @ xs"]) auto
    have 2: "iok ?t" "rest ?t = concat (map ser (filter present vs)) @ xs"
      using Cons.prems True by (auto intro!: iok_adv simp: buf_simps)
    from Cons.IH [OF vs 2, of "pre @ [canon x]"] 1 b0 bs True show ?thesis
      unfolding up by (simp add: nth_append list_update_append buf_simps del: upt_Suc)
  next
    case False
    have 2: "rest s = concat (map ser (filter present vs)) @ xs" using Cons.prems False by simp
    from Cons.IH [OF vs Cons.prems(2) 2, of "pre @ [new]"] b0 bs False show ?thesis
      unfolding up by (simp del: upt_Suc)
  qed
qed

end

lemma bit_mask_byte:
  "bit (mask_byte present v is m) j \<longleftrightarrow> bit m j \<or> (j < 8 \<and> j \<in> set is \<and> present (v ! j))"
  by (induction present v "is" m rule: mask_byte.induct) (auto simp: bit_simps)

context wire_codec
begin

lemma mask_round:
  assumes "length v = 8" "\<forall>x \<in> set v. present x \<longrightarrow> valid x" "iok s" "rest s = mask_ser present ser v @ xs"
  shows "mask_parse parse (replicate 8 new, s)
    = (Done, map (\<lambda>x. if present x then canon x else new) v, adv (length (mask_ser present ser v)) s)"
proof -
  let ?mk = "mask_byte present v [0..<8] 0"
  from assms(4) have r: "rest s = ?mk # concat (map ser (filter present v)) @ xs"
    by (simp add: mask_ser_def)
  then have 1: "rest (adv 1 s) = concat (map ser (filter present v)) @ xs" "iok (adv 1 s)"
    using assms(3) by (auto intro!: iok_adv simp: buf_simps)
  have 2: "\<forall>j < length v. bit ?mk (length ([] :: 'a list) + j) = present (v ! j)"
    using assms(1) by (simp add: bit_mask_byte)
  from mask_items_round [OF assms(2) 1(2,1) 2] r assms(1) show ?thesis
    by (simp add: mask_parse.simps try_u8_Cons buf_simps mask_ser_def del: upt_Suc)
qed

end

context wire_codec
begin

lemma array_reads:
  "list_all valid v \<Longrightarrow> length v < 256 \<Longrightarrow>
     reads (array_parse parse new) pre (array_ser ser v) (pre @ map canon v)"
  by (rule readsI) (rule array_round)

lemma mask_reads:
  "length v = 8 \<Longrightarrow> (\<forall>x \<in> set v. present x \<longrightarrow> valid x) \<Longrightarrow>
     reads (mask_parse parse) (replicate 8 new) (mask_ser present ser v)
       (map (\<lambda>x. if present x then canon x else new) v)"
  by (rule readsI) (rule mask_round)

end

text \<open>
  What \<^verbatim>\<open>Wrapped\<close> relies on: the object is chosen and parsed from exactly the bytes it
  serialized to, and these are few enough for a length of one byte.
\<close>

locale wire_body =
  fixes pick :: "istream \<Rightarrow> 'a option \<times> istream"
    and bparse :: "'a parser"
    and bser :: "'a \<Rightarrow> byte list"
    and bcanon :: "'a \<Rightarrow> 'a"
    and bvalid :: "'a \<Rightarrow> bool"
  assumes body_round: "bvalid x \<Longrightarrow> \<exists>d b t. pick (istream_of (bser x)) = (Some d, b)
      \<and> bparse (d, b) = (Done, bcanon x, t)"
    and body_short: "bvalid x \<Longrightarrow> length (bser x) < 256"
begin

lemma wrapped_round:
  assumes "bvalid x" "rest s = wrapped_ser bser (Some x) @ xs"
  shows "wrapped_parse pick bparse (w, s)
    = (Done, Some (bcanon x), adv (length (wrapped_ser bser (Some x))) s)"
proof -
  obtain d b t where b: "pick (istream_of (bser x)) = (Some d, b)" "bparse (d, b) = (Done, bcanon x, t)"
    using body_round [OF assms(1)] by blast
  have r: "rest s = of_nat (length (bser x)) # bser x @ xs"
    using assms(2) by (simp add: wrapped_ser_def Let_def)
  have u: "unat (of_nat (length (bser x)) :: byte) = length (bser x)"
    using body_short [OF assms(1)] by (simp add: unat_of_nat_byte)
  have "get_part_buffer (length (bser x)) True (adv 1 s)
      = Inr (istream_of (bser x), adv (length (bser x)) (adv 1 s))"
    using r by (intro get_part_buffer_append [where xs = xs]) (simp_all add: buf_simps)
  with r u b show ?thesis
    by (simp add: wrapped_parse.simps try_u8_Cons buf_simps wrapped_ser_def Let_def)
qed

end

sublocale wire_body \<subseteq> wrapped: wire_codec "wrapped_parse pick bparse" "wrapped_ser bser" None
    "map_option bcanon" "\<lambda>w. case w of None \<Rightarrow> False | Some x \<Rightarrow> bvalid x"
  by unfold_locales (auto split: option.splits intro!: readsI wrapped_round)

text \<open>The byte string and the 32-bit integer provide these laws.\<close>

lemma bytes_parse_all: "bytes_parse (d, istream_of bs) = (Done, Some bs, adv (length bs) (istream_of bs))"
proof -
  have "try_bytes (length bs) (istream_of bs) = (Some bs, adv (length bs) (istream_of bs))"
    by (rule try_bytes_append [where xs = "[]"]) (simp_all add: buf_simps)
  then show ?thesis by (simp add: bytes_parse.simps istream_of_def)
qed

interpretation bytes: wire_body bytes_choose bytes_parse bytes_ser "\<lambda>d. Some (bytes_ser d)"
    "\<lambda>d. length (bytes_ser d) < 256"
  by unfold_locales (simp_all add: bytes_choose.simps bytes_parse_all)

interpretation uint32: wire_codec uint32_parse uint32_ser new id "\<lambda>_. True" for new
  using reads_prim(3) [of "\<lambda>v _. v"]
  by unfold_locales (simp add: uint32_parse_def uint32_ser_def)

text \<open>A null wrapper is sent as an empty string, and comes back as one.\<close>

lemma wbytes_round:
  assumes "case w of None \<Rightarrow> True | Some d \<Rightarrow> length (bytes_ser d) < 256"
    and "rest s = wbytes_ser w @ xs"
  shows "wbytes_parse (v, s)
    = (Done, Some (Some (case w of None \<Rightarrow> [] | Some d \<Rightarrow> bytes_ser d)), adv (length (wbytes_ser w)) s)"
proof (cases w)
  case None
  have "rest s = wrapped_ser bytes_ser (Some None) @ xs"
    using assms(2) None by (simp add: wrapped_ser_def bytes_ser_def)
  then have "wbytes_parse (v, s)
      = (Done, Some (Some (bytes_ser None)), adv (length (wrapped_ser bytes_ser (Some None))) s)"
    by (intro bytes.wrapped_round) (simp_all add: bytes_ser_def)
  with None show ?thesis by (simp add: wrapped_ser_def bytes_ser_def)
next
  case (Some d)
  with assms show ?thesis by (simp add: bytes.wrapped_round)
qed

definition wbytes_valid :: "wbytes \<Rightarrow> bool" where
  "wbytes_valid w \<longleftrightarrow> (case w of None \<Rightarrow> True | Some None \<Rightarrow> False | Some (Some bs) \<Rightarrow> length bs < 256)"

definition wbytes_canon :: "wbytes \<Rightarrow> wbytes" where
  "wbytes_canon w = Some (Some (case w of None \<Rightarrow> [] | Some d \<Rightarrow> bytes_ser d))"

lemma wbytes_reads: "wbytes_valid w \<Longrightarrow> reads wbytes_parse v (wbytes_ser w) (wbytes_canon w)"
  unfolding wbytes_canon_def
  by (rule readsI, rule wbytes_round)
    (simp_all add: wbytes_valid_def bytes_ser_def split: option.splits)

interpretation wb: wire_codec wbytes_parse wbytes_ser new wbytes_canon wbytes_valid for new
  by unfold_locales (rule wbytes_reads)

subsection \<open>The gap of \<^verbatim>\<open>Wrapped\<close>\<close>

lemma ook_length_written: "ook s \<Longrightarrow> length (written s) = ooff s"
  by (simp add: ook_def written_def)

lemma advance_grows:
  assumes "growable s"
  obtains t bs where "ostream_advance junk n s = Inr t" "growable t" "ooff t = ooff s + n"
    "written t = written s @ bs" "length bs = n"
proof -
  obtain u where u: "expand_buffer_if_needed junk n s = Inr u" "growable u" "written u = written s"
    "ooff u = ooff s" "ooff s + n \<le> length (obuf u)"
    using expand_grows [OF assms] by blast
  show ?thesis
  proof (rule that [of "u\<lparr>ooff := ooff u + n\<rparr>" "take n (drop (ooff u) (obuf u))"])
    show "written (u\<lparr>ooff := ooff u + n\<rparr>) = written s @ take n (drop (ooff u) (obuf u))"
      using u by (simp add: written_def take_add)
  qed (use u in \<open>auto simp: ostream_advance_def growable_def ook_def\<close>)
qed

lemma wrapped_write_appends:
  assumes s: "growable s"
    and body: "\<And>t. growable t \<Longrightarrow> \<exists>u. body t = Inr u \<and> growable u \<and> written u = written t @ bs"
  shows "\<exists>t. wrapped_write junk body s = Inr t \<and> growable t
           \<and> written t = written s @ of_nat (length bs) # bs"
proof -
  obtain s1 g where s1: "ostream_advance junk 1 s = Inr s1" "growable s1" "ooff s1 = ooff s + 1"
    "written s1 = written s @ g" "length g = 1"
    by (rule advance_grows [OF s, where junk = junk and n = 1])
  obtain s2 where s2: "body s1 = Inr s2" "growable s2" "written s2 = written s1 @ bs"
    using body [OF s1(2)] by blast
  let ?n = "length bs"
  have o: "ooff s2 = ooff s1 + ?n" "ooff s2 \<le> length (obuf s2)" "ooff s = length (written s)"
    using s s1 s2 ook_length_written [of s2] ook_length_written [of s1] ook_length_written [of s]
    by (auto simp: growable_def ook_def)
  let ?s3 = "s2\<lparr>ooff := ooff s\<rparr>"
  let ?s4 = "s2\<lparr>obuf := (obuf s2)[ooff s := of_nat ?n], ooff := ooff s + 1\<rparr>"
  let ?s5 = "s2\<lparr>obuf := (obuf s2)[ooff s := of_nat ?n], ooff := ooff s2\<rparr>"
  have 3: "ostream_rewind (?n + 1) s2 = Inr ?s3"
    using o s1(3) by (simp add: ostream_rewind_def)
  have 4: "write_byte junk (of_nat ?n) ?s3 = Inr ?s4"
    using o s1(3) by (simp add: write_byte_def expand_buffer_if_needed_def)
  have 5: "ostream_advance junk ?n ?s4 = Inr ?s5"
    using o s1(3) by (simp add: ostream_advance_def expand_buffer_if_needed_def)
  have "written ?s5 = (written s2)[ooff s := of_nat ?n]"
    by (simp add: written_def take_update_swap)
  also have "\<dots> = written s @ of_nat ?n # bs"
    using s1 s2 o by (cases g) (auto simp: list_update_append)
  finally have w: "written ?s5 = written s @ of_nat ?n # bs" .
  have "growable ?s5" using s2(2) by (simp add: growable_def ook_def)
  moreover have "wrapped_write junk body s = Inr ?s5"
    using s1 s2 3 4 5 o by (simp add: wrapped_write_def Let_def)
  ultimately show ?thesis using w by blast
qed

subsection \<open>Sizes\<close>

lemma array_size_ser:
  "(\<forall>x \<in> set v. sz x = length (ser x)) \<Longrightarrow> array_size sz v = length (array_ser ser v)"
  by (induction v) (simp_all add: array_size_def array_ser_def)

lemma mask_size_ser:
  "(\<forall>x \<in> set v. present x \<longrightarrow> sz x = length (ser x)) \<Longrightarrow>
     mask_size present sz v = length (mask_ser present ser v)"
  by (induction v) (auto simp add: mask_size_def mask_ser_def)

end
