(* ===== verification/Extras.thy ===== *)
theory Extras
  imports Wire Version
begin

section \<open>Signaling objects (controller/protocol/protocol/Extra.h, Extra.cpp)\<close>

text \<open>
  The codec, the stream description, and the eleven kinds of extra: one record per C++
  struct, one parse and one serialize per struct, and the dispatch on the constructor id.
  The result of a parse is read from the object, whatever the outcome, as in the code.
  Members without initializer are 0 in a new object, as the value-initialization of
  \<^verbatim>\<open>make_shared\<close> leaves them.
\<close>

subsection \<open>Codec\<close>

definition codec_parse :: "version \<Rightarrow> u32 parser" where
  "codec_parse ver = (if peer_version ver \<ge> 5 \<or> is_new ver then rd32 (\<lambda>v _. v)
     else rd8 (\<lambda>v _. if v = CODEC_OPUS_OLD then Opus else 0))"

definition codec_ser :: "version \<Rightarrow> u32 \<Rightarrow> byte list" where
  "codec_ser ver c = (if peer_version ver \<ge> 5 \<or> is_new ver then le32 c
     else [if c = Opus then 1 else 0])"

definition codec_size :: "version \<Rightarrow> u32 \<Rightarrow> nat" where
  "codec_size ver c = (if peer_version ver \<ge> 5 then 4 else 1)"

text \<open>What is left of a codec after a transfer: the old format only knows Opus.\<close>

definition codec_canon :: "version \<Rightarrow> u32 \<Rightarrow> u32" where
  "codec_canon ver c = (if peer_version ver \<ge> 5 \<or> is_new ver \<or> c = Opus then c else 0)"

subsection \<open>ExtraStreamInfo\<close>

record stream_info =
  si_stream_id :: byte
  si_type :: byte
  si_codec :: u32
  si_frame_duration :: u16
  si_enabled :: bool

definition stream_info_new :: stream_info where
  "stream_info_new = \<lparr>si_stream_id = 0, si_type = 1, si_codec = 0, si_frame_duration = 60,
     si_enabled = False\<rparr>"

definition stream_info_parse :: "version \<Rightarrow> stream_info parser" where
  "stream_info_parse ver = chain
     [rd8 (\<lambda>v. si_stream_id_update (\<lambda>_. v)),
      rd8 (\<lambda>v. si_type_update (\<lambda>_. v)),
      rd_obj si_codec (\<lambda>v. si_codec_update (\<lambda>_. v)) (codec_parse ver),
      rd16 (\<lambda>v. si_frame_duration_update (\<lambda>_. v)),
      rd8 (\<lambda>v. si_enabled_update (\<lambda>_. v \<noteq> 0))]"

definition stream_info_ser :: "version \<Rightarrow> stream_info \<Rightarrow> byte list" where
  "stream_info_ser ver x = si_stream_id x # si_type x # codec_ser ver (si_codec x)
     @ le16 (si_frame_duration x) @ [if si_enabled x then 1 else 0]"

definition stream_info_size :: "version \<Rightarrow> stream_info \<Rightarrow> nat" where
  "stream_info_size ver x = 1 + 1 + codec_size ver (si_codec x) + 2 + 1"

definition stream_info_canon :: "version \<Rightarrow> stream_info \<Rightarrow> stream_info" where
  "stream_info_canon ver x = x\<lparr>si_codec := codec_canon ver (si_codec x)\<rparr>"

lemma codec_reads: "reads (codec_parse ver) c0 (codec_ser ver c) (codec_canon ver c)"
  by (auto intro!: readsI simp: codec_parse_def codec_ser_def codec_canon_def wire_simps
      CODEC_OPUS_OLD_def split: if_splits)

lemma codec_size_ser: "\<not> (is_new ver \<and> peer_version ver < 5) \<Longrightarrow> codec_size ver c = length (codec_ser ver c)"
  by (auto simp: codec_size_def codec_ser_def)

interpretation codec: wire_codec "codec_parse ver" "codec_ser ver" new "codec_canon ver" "\<lambda>_. True"
  for ver new
  by unfold_locales (rule codec_reads)

lemma stream_info_reads:
  "reads (stream_info_parse ver) x0 (stream_info_ser ver x) (stream_info_canon ver x)"
  unfolding stream_info_parse_def stream_info_ser_def append_Cons append_Nil
  by (rule reads_eq, (rule reads_chain codec_reads reads_Nil refl)+)
    (simp add: stream_info_canon_def)

interpretation stream_info: wire_codec "stream_info_parse ver" "stream_info_ser ver" new
    "stream_info_canon ver" "\<lambda>_. True" for ver new
  by unfold_locales (rule stream_info_reads)


subsection \<open>The eleven extras\<close>

record stream_flags =
  sf_stream_id :: byte
  sf_flags :: byte

definition stream_flags_new :: stream_flags where
  "stream_flags_new = \<lparr>sf_stream_id = 0, sf_flags = 0\<rparr>"

text \<open>A peer before version 6 only tells whether the stream is enabled.\<close>

definition stream_flags_parse :: "version \<Rightarrow> stream_flags parser" where
  "stream_flags_parse ver = (if peer_version ver < 6
     then chain [rd8 (\<lambda>v. sf_stream_id_update (\<lambda>_. v)),
                 rd8 (\<lambda>v. sf_flags_update (\<lambda>_. if v \<noteq> 0 then 1 else 0))]
     else chain [rd8 (\<lambda>v. sf_stream_id_update (\<lambda>_. v)),
                 if is_new ver then rd8 (\<lambda>v. sf_flags_update (\<lambda>_. v))
                 else rd32 (\<lambda>v. sf_flags_update (\<lambda>_. ucast v))])"

definition stream_flags_ser :: "version \<Rightarrow> stream_flags \<Rightarrow> byte list" where
  "stream_flags_ser ver x = sf_stream_id x #
     (if is_new ver then [sf_flags x]
      else if peer_version ver \<ge> 6 then le32 (ucast (sf_flags x))
      else [sf_flags x AND 1])"

definition stream_flags_size :: "version \<Rightarrow> nat" where
  "stream_flags_size ver = (if is_new ver then 1 + 1 else if peer_version ver \<ge> 6 then 1 + 4 else 1 + 1)"

record stream_csd =
  csd_stream_id :: byte
  csd_width :: u16
  csd_height :: u16
  csd_data :: "wbytes list"

definition stream_csd_new :: stream_csd where
  "stream_csd_new = \<lparr>csd_stream_id = 0, csd_width = 0, csd_height = 0, csd_data = []\<rparr>"

definition stream_csd_parse :: "stream_csd parser" where
  "stream_csd_parse = chain
     [rd8 (\<lambda>v. csd_stream_id_update (\<lambda>_. v)),
      rd16 (\<lambda>v. csd_width_update (\<lambda>_. v)),
      rd16 (\<lambda>v. csd_height_update (\<lambda>_. v)),
      rd_obj csd_data (\<lambda>v. csd_data_update (\<lambda>_. v)) (array_parse wbytes_parse None)]"

definition stream_csd_ser :: "stream_csd \<Rightarrow> byte list" where
  "stream_csd_ser x = csd_stream_id x # le16 (csd_width x) @ le16 (csd_height x)
     @ array_ser wbytes_ser (csd_data x)"

text \<open>The size of a null wrapper is undefined in the code (a call through a null pointer).\<close>

definition wbytes_size :: "wbytes \<Rightarrow> nat" where
  "wbytes_size w = 1 + (case w of None \<Rightarrow> 0 | Some d \<Rightarrow> length (bytes_ser d))"

definition stream_csd_size :: "stream_csd \<Rightarrow> nat" where
  "stream_csd_size x = 1 + 2 + 2 + array_size wbytes_size (csd_data x)"

record network_changed =
  nc_flags :: byte

definition network_changed_parse :: "version \<Rightarrow> network_changed parser" where
  "network_changed_parse ver = (if is_new ver then rd8 (\<lambda>v. nc_flags_update (\<lambda>_. v))
     else rd32 (\<lambda>v. nc_flags_update (\<lambda>_. ucast v)))"

definition network_changed_ser :: "version \<Rightarrow> network_changed \<Rightarrow> byte list" where
  "network_changed_ser ver x = (if is_new ver then [nc_flags x] else le32 (ucast (nc_flags x)))"

text \<open>
  The two members of the address union share their memory: an address of one kind can be
  serialized as the other (the bytes behind an IPv4 address are indeterminate; 0 here).
\<close>

fun ip4_raw :: "naddr \<Rightarrow> u32" where
  "ip4_raw (IPv4 w) = w"
| "ip4_raw (IPv6 bs) = un32 (bs ! 0) (bs ! 1) (bs ! 2) (bs ! 3)"

fun ip6_raw :: "naddr \<Rightarrow> byte list" where
  "ip6_raw (IPv4 w) = le32 w @ replicate 12 0"
| "ip6_raw (IPv6 bs) = bs"

record lan_endpoint =
  lan_address :: naddr
  lan_port :: u16

definition lan_endpoint_new :: lan_endpoint where
  "lan_endpoint_new = \<lparr>lan_address = IPv4 0, lan_port = 0\<rparr>"

definition lan_endpoint_parse :: "version \<Rightarrow> lan_endpoint parser" where
  "lan_endpoint_parse ver = chain
     [rd_naddr False (\<lambda>v. lan_address_update (\<lambda>_. v)),
      if is_new ver then rd16 (\<lambda>v. lan_port_update (\<lambda>_. v))
      else rd32 (\<lambda>v. lan_port_update (\<lambda>_. ucast v))]"

definition lan_endpoint_ser :: "version \<Rightarrow> lan_endpoint \<Rightarrow> byte list" where
  "lan_endpoint_ser ver x = le32 (ip4_raw (lan_address x))
     @ (if is_new ver then le16 (lan_port x) else le32 (ucast (lan_port x)))"

record ipv6_endpoint =
  ip6_address :: naddr
  ip6_port :: u16

definition ipv6_endpoint_new :: ipv6_endpoint where
  "ipv6_endpoint_new = \<lparr>ip6_address = IPv4 0, ip6_port = 0\<rparr>"

definition ipv6_endpoint_parse :: "ipv6_endpoint parser" where
  "ipv6_endpoint_parse = chain
     [rd_naddr True (\<lambda>v. ip6_address_update (\<lambda>_. v)),
      rd16 (\<lambda>v. ip6_port_update (\<lambda>_. v))]"

definition ipv6_endpoint_ser :: "ipv6_endpoint \<Rightarrow> byte list" where
  "ipv6_endpoint_ser x = ip6_raw (ip6_address x) @ le16 (ip6_port x)"

text \<open>
  The group key reads as many bytes as its buffer already holds, and in a fresh object the
  buffer is empty: it reads nothing.
\<close>

definition group_key_parse :: "byte list parser" where
  "group_key_parse = (\<lambda>(key, s). rd_bytes (length key) (\<lambda>v _. v) (key, s))"

record init =
  init_peer_version :: u32
  init_min_version :: u32
  init_flags :: byte
  init_audio_codecs :: "u32 list"
  init_decoders :: "u32 list"
  init_max_resolution :: byte

definition init_new :: init where
  "init_new = \<lparr>init_peer_version = 0, init_min_version = 0, init_flags = 0,
     init_audio_codecs = [], init_decoders = [], init_max_resolution = 0\<rparr>"

definition init_parse :: "version \<Rightarrow> init parser" where
  "init_parse ver = chain
     [rd32 (\<lambda>v. init_peer_version_update (\<lambda>_. v)),
      rd32 (\<lambda>v. init_min_version_update (\<lambda>_. v)),
      if is_new ver then rd8 (\<lambda>v. init_flags_update (\<lambda>_. v))
      else rd32 (\<lambda>v. init_flags_update (\<lambda>_. ucast v)),
      rd_obj init_audio_codecs (\<lambda>v. init_audio_codecs_update (\<lambda>_. v)) (array_parse (codec_parse ver) 0),
      rd_obj init_decoders (\<lambda>v. init_decoders_update (\<lambda>_. v)) (array_parse uint32_parse 0),
      rd8 (\<lambda>v. init_max_resolution_update (\<lambda>_. v))]"

definition init_ser :: "version \<Rightarrow> init \<Rightarrow> byte list" where
  "init_ser ver x = le32 (init_peer_version x) @ le32 (init_min_version x)
     @ (if is_new ver then [init_flags x] else le32 (ucast (init_flags x)))
     @ (if max_layer ver < 74
        then [2, CODEC_OPUS_OLD, 0, 0, 0] @ le32 Opus @ [0, 0]
        else array_ser (codec_ser ver) (init_audio_codecs x)
          @ array_ser uint32_ser (init_decoders x) @ [init_max_resolution x])"

definition init_size :: "version \<Rightarrow> init \<Rightarrow> nat" where
  "init_size ver x = 4 + 4 + (if is_new ver then 1 else 4)
     + (if max_layer ver < 74 then 11
        else array_size (codec_size ver) (init_audio_codecs x)
          + array_size (\<lambda>_. 4) (init_decoders x) + 1)"

record init_ack =
  ack_peer_version :: u32
  ack_min_version :: u32
  ack_streams :: "stream_info list"

definition init_ack_new :: init_ack where
  "init_ack_new = \<lparr>ack_peer_version = 0, ack_min_version = 0, ack_streams = []\<rparr>"

definition init_ack_parse :: "version \<Rightarrow> init_ack parser" where
  "init_ack_parse ver = chain
     [rd32 (\<lambda>v. ack_peer_version_update (\<lambda>_. v)),
      rd32 (\<lambda>v. ack_min_version_update (\<lambda>_. v)),
      rd_obj ack_streams (\<lambda>v. ack_streams_update (\<lambda>_. v))
        (array_parse (stream_info_parse ver) stream_info_new)]"

definition init_ack_ser :: "version \<Rightarrow> init_ack \<Rightarrow> byte list" where
  "init_ack_ser ver x = le32 (ack_peer_version x) @ le32 (ack_min_version x)
     @ array_ser (stream_info_ser ver) (ack_streams x)"

definition init_ack_size :: "version \<Rightarrow> init_ack \<Rightarrow> nat" where
  "init_ack_size ver x = 4 + 4 + array_size (stream_info_size ver) (ack_streams x)"

text \<open>A pong may come without the sequence number.\<close>

definition pong_parse :: "u32 parser" where
  "pong_parse = (\<lambda>(sq, s). if remaining s \<ge> 4 then rd32 (\<lambda>v _. v) (sq, s) else (Done, sq, s))"


subsection \<open>Extra: the choice between them\<close>

datatype extra_body =
    ExtraStreamFlags stream_flags
  | ExtraStreamCsd stream_csd
  | ExtraLanEndpoint lan_endpoint
  | ExtraNetworkChanged network_changed
  | ExtraGroupCallKey "byte list"
  | ExtraGroupCallUpgrade
  | ExtraIpv6Endpoint ipv6_endpoint
  | ExtraInit init
  | ExtraInitAck init_ack
  | ExtraPing
  | ExtraPong u32

text \<open>The hash identifies the object towards the peer; only \<^verbatim>\<open>choose\<close> sets it.\<close>

record extra =
  ehash :: u64
  ebody :: extra_body

fun get_id :: "extra_body \<Rightarrow> byte" where
  "get_id (ExtraStreamFlags _) = 1"
| "get_id (ExtraStreamCsd _) = 2"
| "get_id (ExtraLanEndpoint _) = 3"
| "get_id (ExtraNetworkChanged _) = 4"
| "get_id (ExtraGroupCallKey _) = 5"
| "get_id ExtraGroupCallUpgrade = 6"
| "get_id (ExtraIpv6Endpoint _) = 7"
| "get_id (ExtraInit _) = 8"
| "get_id (ExtraInitAck _) = 9"
| "get_id ExtraPing = 10"
| "get_id (ExtraPong _) = 11"

definition extra_new :: "byte \<Rightarrow> extra_body option" where
  "extra_new i =
    (if i = 1 then Some (ExtraStreamFlags stream_flags_new)
     else if i = 2 then Some (ExtraStreamCsd stream_csd_new)
     else if i = 3 then Some (ExtraLanEndpoint lan_endpoint_new)
     else if i = 7 then Some (ExtraIpv6Endpoint ipv6_endpoint_new)
     else if i = 4 then Some (ExtraNetworkChanged \<lparr>nc_flags = 0\<rparr>)
     else if i = 5 then Some (ExtraGroupCallKey [])
     else if i = 6 then Some ExtraGroupCallUpgrade
     else if i = 8 then Some (ExtraInit init_new)
     else if i = 9 then Some (ExtraInitAck init_ack_new)
     else if i = 10 then Some ExtraPing
     else if i = 11 then Some (ExtraPong 0)
     else None)"

text \<open>
  \<^verbatim>\<open>choose\<close> hashes the whole stream, the id included: the first eight bytes of the SHA-1
  digest, which is a parameter here (the host provides it).
\<close>

definition hash_of :: "(byte list \<Rightarrow> byte list) \<Rightarrow> byte list \<Rightarrow> u64" where
  "hash_of sha1 bs = (let d = sha1 bs in
     un64 (d ! 0) (d ! 1) (d ! 2) (d ! 3) (d ! 4) (d ! 5) (d ! 6) (d ! 7))"

definition extra_choose :: "(byte list \<Rightarrow> byte list) \<Rightarrow> istream \<Rightarrow> extra option \<times> istream" where
  "extra_choose sha1 s = (case try_u8 s of
     (None, t) \<Rightarrow> (None, t)
   | (Some i, t) \<Rightarrow>
       (map_option (\<lambda>b. \<lparr>ehash = hash_of sha1 (ibuf s), ebody = b\<rparr>) (extra_new i), t))"

definition choose_from_type :: "byte \<Rightarrow> extra_body option" where
  "choose_from_type ty =
    (if ty = PKT_INIT then Some (ExtraInit init_new)
     else if ty = PKT_INIT_ACK then Some (ExtraInitAck init_ack_new)
     else if ty = PKT_LAN_ENDPOINT then Some (ExtraLanEndpoint lan_endpoint_new)
     else if ty = PKT_NETWORK_CHANGED then Some (ExtraNetworkChanged \<lparr>nc_flags = 0\<rparr>)
     else if ty = PKT_PING then Some ExtraPing
     else if ty = PKT_PONG then Some (ExtraPong 0)
     else if ty = PKT_STREAM_STATE then Some (ExtraStreamFlags stream_flags_new)
     else None)"

text \<open>The packet type an extra travels as towards an old peer, or NOP to ride in a header.\<close>

definition choose_type :: "int \<Rightarrow> extra_body \<Rightarrow> byte" where
  "choose_type pv b =
    (if get_id b = 8 then PKT_INIT
     else if get_id b = 9 then PKT_INIT_ACK
     else if get_id b = 10 then PKT_PING
     else if get_id b = 11 then PKT_PONG
     else if pv < 6 then
       (if get_id b = 3 then PKT_LAN_ENDPOINT
        else if get_id b = 4 then PKT_NETWORK_CHANGED
        else if get_id b = 1 then PKT_STREAM_STATE
        else PKT_NOP)
     else PKT_NOP)"

text \<open>The virtual methods.\<close>

definition as_variant :: "('a \<Rightarrow> 'b) \<Rightarrow> 'a parser \<Rightarrow> 'a \<times> istream \<Rightarrow> outcome \<times> 'b \<times> istream" where
  "as_variant C p x = (case p x of (r, y, t) \<Rightarrow> (r, C y, t))"

fun body_parse :: "version \<Rightarrow> extra_body parser" where
  "body_parse ver (ExtraStreamFlags x, s) = as_variant ExtraStreamFlags (stream_flags_parse ver) (x, s)"
| "body_parse ver (ExtraStreamCsd x, s) = as_variant ExtraStreamCsd stream_csd_parse (x, s)"
| "body_parse ver (ExtraLanEndpoint x, s) = as_variant ExtraLanEndpoint (lan_endpoint_parse ver) (x, s)"
| "body_parse ver (ExtraNetworkChanged x, s) = as_variant ExtraNetworkChanged (network_changed_parse ver) (x, s)"
| "body_parse ver (ExtraGroupCallKey x, s) = as_variant ExtraGroupCallKey group_key_parse (x, s)"
| "body_parse ver (ExtraGroupCallUpgrade, s) = (Done, ExtraGroupCallUpgrade, s)"
| "body_parse ver (ExtraIpv6Endpoint x, s) = as_variant ExtraIpv6Endpoint ipv6_endpoint_parse (x, s)"
| "body_parse ver (ExtraInit x, s) = as_variant ExtraInit (init_parse ver) (x, s)"
| "body_parse ver (ExtraInitAck x, s) = as_variant ExtraInitAck (init_ack_parse ver) (x, s)"
| "body_parse ver (ExtraPing, s) = (Done, ExtraPing, s)"
| "body_parse ver (ExtraPong x, s) = as_variant ExtraPong pong_parse (x, s)"

fun body_ser :: "version \<Rightarrow> extra_body \<Rightarrow> byte list" where
  "body_ser ver (ExtraStreamFlags x) = stream_flags_ser ver x"
| "body_ser ver (ExtraStreamCsd x) = stream_csd_ser x"
| "body_ser ver (ExtraLanEndpoint x) = lan_endpoint_ser ver x"
| "body_ser ver (ExtraNetworkChanged x) = network_changed_ser ver x"
| "body_ser ver (ExtraGroupCallKey x) = x"
| "body_ser ver ExtraGroupCallUpgrade = []"
| "body_ser ver (ExtraIpv6Endpoint x) = ipv6_endpoint_ser x"
| "body_ser ver (ExtraInit x) = init_ser ver x"
| "body_ser ver (ExtraInitAck x) = init_ack_ser ver x"
| "body_ser ver ExtraPing = []"
| "body_ser ver (ExtraPong x) = le32 x"

fun constructor_size :: "version \<Rightarrow> extra_body \<Rightarrow> nat" where
  "constructor_size ver (ExtraStreamFlags x) = stream_flags_size ver"
| "constructor_size ver (ExtraStreamCsd x) = stream_csd_size x"
| "constructor_size ver (ExtraLanEndpoint x) = 4 + (if is_new ver then 2 else 4)"
| "constructor_size ver (ExtraNetworkChanged x) = (if is_new ver then 1 else 4)"
| "constructor_size ver (ExtraGroupCallKey x) = length x"
| "constructor_size ver ExtraGroupCallUpgrade = 0"
| "constructor_size ver (ExtraIpv6Endpoint x) = 16 + 2"
| "constructor_size ver (ExtraInit x) = init_size ver x"
| "constructor_size ver (ExtraInitAck x) = init_ack_size ver x"
| "constructor_size ver ExtraPing = 0"
| "constructor_size ver (ExtraPong x) = 4"

definition extra_parse :: "version \<Rightarrow> extra parser" where
  "extra_parse ver = rd_obj ebody (\<lambda>v. ebody_update (\<lambda>_. v)) (body_parse ver)"

text \<open>What a wrapper writes of an extra: the id by \<^verbatim>\<open>choose\<close>, then the object.\<close>

definition extra_ser :: "version \<Rightarrow> extra \<Rightarrow> byte list" where
  "extra_ser ver e = get_id (ebody e) # body_ser ver (ebody e)"

definition extra_size :: "version \<Rightarrow> extra \<Rightarrow> nat" where
  "extra_size ver e = 1 + constructor_size ver (ebody e)"

type_synonym wextra = "extra option"

abbreviation wextra_parse :: "(byte list \<Rightarrow> byte list) \<Rightarrow> version \<Rightarrow> wextra parser" where
  "wextra_parse sha1 ver \<equiv> wrapped_parse (extra_choose sha1) (extra_parse ver)"

abbreviation wextra_ser :: "version \<Rightarrow> wextra \<Rightarrow> byte list" where
  "wextra_ser ver \<equiv> wrapped_ser (extra_ser ver)"

subsection \<open>Round trips of the extras\<close>

text \<open>What the peer makes of an extra: \<open>body_canon\<close> names exactly what gets lost.\<close>

fun body_canon :: "version \<Rightarrow> extra_body \<Rightarrow> extra_body" where
  "body_canon ver (ExtraStreamFlags x) = ExtraStreamFlags (x\<lparr>sf_flags :=
     (if 6 \<le> peer_version ver then sf_flags x
      else if is_new ver then (if sf_flags x \<noteq> 0 then 1 else 0) else sf_flags x AND 1)\<rparr>)"
| "body_canon ver (ExtraStreamCsd x) = ExtraStreamCsd (x\<lparr>csd_data := map wbytes_canon (csd_data x)\<rparr>)"
| "body_canon ver (ExtraGroupCallKey x) = ExtraGroupCallKey []"
| "body_canon ver (ExtraInit x) = ExtraInit
     (if max_layer ver < 74
      then x\<lparr>init_audio_codecs := (if peer_version ver \<ge> 5 \<or> is_new ver then [1, Opus] else [Opus, 0]),
             init_decoders := [], init_max_resolution := 0\<rparr>
      else x\<lparr>init_audio_codecs := map (codec_canon ver) (init_audio_codecs x)\<rparr>)"
| "body_canon ver (ExtraInitAck x) = ExtraInitAck
     (x\<lparr>ack_streams := map (stream_info_canon ver) (ack_streams x)\<rparr>)"
| "body_canon ver b = b"

text \<open>What fits the format: counts of one byte, addresses of the right kind.\<close>

fun body_valid :: "extra_body \<Rightarrow> bool" where
  "body_valid (ExtraStreamCsd x) \<longleftrightarrow> list_all wbytes_valid (csd_data x) \<and> length (csd_data x) < 256"
| "body_valid (ExtraLanEndpoint x) \<longleftrightarrow> (case lan_address x of IPv4 _ \<Rightarrow> True | IPv6 _ \<Rightarrow> False)"
| "body_valid (ExtraIpv6Endpoint x) \<longleftrightarrow>
     (case ip6_address x of IPv4 _ \<Rightarrow> False | IPv6 bs \<Rightarrow> length bs = 16)"
| "body_valid (ExtraInit x) \<longleftrightarrow> length (init_audio_codecs x) < 256 \<and> length (init_decoders x) < 256"
| "body_valid (ExtraInitAck x) \<longleftrightarrow> length (ack_streams x) < 256"
| "body_valid _ \<longleftrightarrow> True"


lemma ucast_byte_u32 [simp]: "ucast (ucast b :: u32) = (b :: byte)"
  by (rule bit_word_eqI) (auto simp: bit_simps)

lemma ucast_u16_u32 [simp]: "ucast (ucast p :: u32) = (p :: u16)"
  by (rule bit_word_eqI) (auto simp: bit_simps)

lemma and_one_bool: "b AND 1 = (if b AND 1 \<noteq> 0 then 1 else 0 :: byte)"
  by (simp add: and_one_eq)

lemma stream_flags_reads:
  "\<exists>y. reads (stream_flags_parse ver) n (stream_flags_ser ver x) y
     \<and> body_canon ver (ExtraStreamFlags x) = ExtraStreamFlags y"
proof (cases "is_new ver"; cases "6 \<le> peer_version ver")
  assume "is_new ver" "6 \<le> peer_version ver"
  then show ?thesis
    by (auto simp: stream_flags_parse_def stream_flags_ser_def
        intro!: reads_eq [OF reads8 [OF reads_last [OF reads_prim(1)]]])
next
  assume "is_new ver" "\<not> 6 \<le> peer_version ver"
  then show ?thesis
    by (auto simp: stream_flags_parse_def stream_flags_ser_def
        intro!: reads_eq [OF reads8 [OF reads_last [OF reads_prim(1)]]])
next
  assume "\<not> is_new ver" "6 \<le> peer_version ver"
  then show ?thesis
    by (auto simp: stream_flags_parse_def stream_flags_ser_def
        intro!: reads_eq [OF reads8 [OF reads_last [OF reads_prim(3)]]])
next
  assume "\<not> is_new ver" "\<not> 6 \<le> peer_version ver"
  then show ?thesis
    by (auto simp: stream_flags_parse_def stream_flags_ser_def and_one_eq
        intro!: reads_eq [OF reads8 [OF reads_last [OF reads_prim(1)]]])
qed

lemma stream_csd_reads:
  assumes "list_all wbytes_valid (csd_data x)" "length (csd_data x) < 256"
  shows "reads stream_csd_parse stream_csd_new (stream_csd_ser x) (x\<lparr>csd_data := map wbytes_canon (csd_data x)\<rparr>)"
proof -
  have "reads (array_parse wbytes_parse None) [] (array_ser wbytes_ser (csd_data x))
      (map wbytes_canon (csd_data x))"
    using wb.array_reads [OF assms, where new = None and pre = "[]"] by simp
  then show ?thesis
    unfolding stream_csd_parse_def stream_csd_ser_def append_Cons append_Nil
    by - (rule reads_eq, (rule reads8 reads16 reads_last reads_obj)+, auto simp: stream_csd_new_def)
qed

lemma network_changed_reads: "reads (network_changed_parse ver) n (network_changed_ser ver x) x"
  by (auto simp: network_changed_parse_def network_changed_ser_def
      intro: reads_eq [OF reads_prim(1)] reads_eq [OF reads_prim(3)])

lemma lan_endpoint_reads:
  "lan_address x = IPv4 w \<Longrightarrow> reads (lan_endpoint_parse ver) n (lan_endpoint_ser ver x) x"
  by (cases x) (auto simp: lan_endpoint_parse_def lan_endpoint_ser_def
      intro!: reads_eq [OF reads_step [OF reads_prim(5) reads_last [OF reads_prim(2)]]]
        reads_eq [OF reads_step [OF reads_prim(5) reads_last [OF reads_prim(3)]]])

lemma ipv6_endpoint_reads:
  "ip6_address x = IPv6 bs \<Longrightarrow> length bs = 16 \<Longrightarrow> reads ipv6_endpoint_parse n (ipv6_endpoint_ser x) x"
  by (cases x) (auto simp: ipv6_endpoint_parse_def ipv6_endpoint_ser_def
      intro!: reads_eq [OF reads_step [OF reads_prim(6) reads_last [OF reads_prim(2)]]])

lemma init_reads_lists:
  assumes "length cs < 256" "length ds < 256"
  shows "reads (init_parse ver) init_new (le32 a @ le32 b @ (if is_new ver then [f] else le32 (ucast f))
      @ array_ser (codec_ser ver) cs @ array_ser uint32_ser ds @ [m])
    \<lparr>init_peer_version = a, init_min_version = b, init_flags = f,
     init_audio_codecs = map (codec_canon ver) cs, init_decoders = ds, init_max_resolution = m\<rparr>"
proof -
  have 1: "reads (array_parse (codec_parse ver) 0) [] (array_ser (codec_ser ver) cs) (map (codec_canon ver) cs)"
    using codec.array_reads [where v = cs and new = 0 and ver = ver and pre = "[]"] assms by (simp add: list_all_iff)
  have 2: "reads (array_parse uint32_parse 0) [] (array_ser uint32_ser ds) ds"
    using uint32.array_reads [where v = ds and new = 0 and pre = "[]"] assms by (simp add: list_all_iff)
  have "reads (chain [rd_obj init_audio_codecs (\<lambda>v. init_audio_codecs_update (\<lambda>_. v)) (array_parse (codec_parse ver) 0),
      rd_obj init_decoders (\<lambda>v. init_decoders_update (\<lambda>_. v)) (array_parse uint32_parse 0),
      rd8 (\<lambda>v. init_max_resolution_update (\<lambda>_. v))])
     (init_new\<lparr>init_peer_version := a, init_min_version := b, init_flags := f\<rparr>)
     (array_ser (codec_ser ver) cs @ array_ser uint32_ser ds @ [m])
     \<lparr>init_peer_version = a, init_min_version = b, init_flags = f,
      init_audio_codecs = map (codec_canon ver) cs, init_decoders = ds, init_max_resolution = m\<rparr>"
    by (rule reads_sub [where y = "map (codec_canon ver) cs"], simp add: init_new_def 1,
        rule reads_sub [where y = ds], simp add: init_new_def 2,
        rule reads_eq [OF reads_last [OF reads_prim(1)]], simp add: init_new_def)
  then show ?thesis
    unfolding init_parse_def
    by (cases "is_new ver") (auto intro!: reads32 reads8 simp: init_new_def)
qed

lemma le32_1: "le32 1 = [1, 0, 0, 0]"
  by (simp add: le32_def)

lemma Opus_nonzero [simp]: "Opus \<noteq> 0" "0 \<noteq> Opus"
  by (simp_all add: Opus_def fourcc_def)

lemma init_reads:
  assumes "body_valid (ExtraInit x)"
  shows "\<exists>bs more y. init_ser ver x = bs @ more \<and> reads (init_parse ver) init_new bs y
           \<and> body_canon ver (ExtraInit x) = ExtraInit y"
proof (cases "max_layer ver < 74")
  case True
  let ?hd = "le32 (init_peer_version x) @ le32 (init_min_version x)
      @ (if is_new ver then [init_flags x] else le32 (ucast (init_flags x)))"
  let ?cs = "if peer_version ver \<ge> 5 \<or> is_new ver then [1, Opus] else [Opus, 0]"
  let ?bs = "?hd @ array_ser (codec_ser ver) ?cs @ array_ser uint32_ser [] @ [0]"
  have "\<exists>more. [2, CODEC_OPUS_OLD, 0, 0, 0] @ le32 Opus @ [0, 0]
      = (array_ser (codec_ser ver) ?cs @ array_ser uint32_ser [] @ [0]) @ more"
    by (auto simp: array_ser_def codec_ser_def le32_1 CODEC_OPUS_OLD_def)
  then obtain more where "init_ser ver x = ?bs @ more"
    using True by (auto simp: init_ser_def)
  moreover have "map (codec_canon ver) ?cs = ?cs" by (auto simp: codec_canon_def)
  then have "reads (init_parse ver) init_new ?bs (x\<lparr>init_audio_codecs := ?cs, init_decoders := [],
      init_max_resolution := 0\<rparr>)"
    using init_reads_lists [of ?cs "[]" ver "init_peer_version x" "init_min_version x" "init_flags x" 0]
    by (cases x) simp
  ultimately show ?thesis using True by (intro exI conjI) simp_all
next
  case False
  have "reads (init_parse ver) init_new (init_ser ver x)
      \<lparr>init_peer_version = init_peer_version x, init_min_version = init_min_version x,
       init_flags = init_flags x, init_audio_codecs = map (codec_canon ver) (init_audio_codecs x),
       init_decoders = init_decoders x, init_max_resolution = init_max_resolution x\<rparr>"
    using False assms init_reads_lists [of "init_audio_codecs x" "init_decoders x" ver]
    by (simp add: init_ser_def)
  then have "reads (init_parse ver) init_new (init_ser ver x)
      (x\<lparr>init_audio_codecs := map (codec_canon ver) (init_audio_codecs x)\<rparr>)"
    by (rule reads_eq) (simp_all add: init_ser_def)
  with False show ?thesis by (intro exI [of _ "init_ser ver x"] exI [of _ "[]"]) simp
qed

lemma init_ack_reads:
  assumes "length (ack_streams x) < 256"
  shows "reads (init_ack_parse ver) init_ack_new (init_ack_ser ver x)
    (x\<lparr>ack_streams := map (stream_info_canon ver) (ack_streams x)\<rparr>)"
proof -
  have "reads (array_parse (stream_info_parse ver) stream_info_new) []
      (array_ser (stream_info_ser ver) (ack_streams x)) (map (stream_info_canon ver) (ack_streams x))"
    using stream_info.array_reads [where v = "ack_streams x" and new = stream_info_new
      and ver = ver and pre = "[]"] assms
    by (simp add: list_all_iff)
  then show ?thesis
    unfolding init_ack_parse_def init_ack_ser_def
    by - (rule reads_eq, (rule reads32 reads_last reads_obj)+, auto simp: init_ack_new_def)
qed

lemma pong_reads: "reads pong_parse n (le32 v) v"
  by (auto intro!: readsI simp: pong_parse_def buf_simps wire_simps)


text \<open>
  Every valid extra is read back from the object \<^verbatim>\<open>choose\<close> makes for its id. The key reads
  nothing, and the layer below 74 writes bytes behind the ones that are read: so a prefix of
  the serialized bytes is consumed.
\<close>

lemma as_variant_reads: "reads p n bs y \<Longrightarrow> (\<And>s. q (C n, s) = as_variant C p (n, s)) \<Longrightarrow>
    reads q (C n) bs (C y)"
  by (auto simp: reads_def as_variant_def)

lemma body_reads_by:
  assumes "reads p n bs y" "\<And>s. body_parse ver (C n, s) = as_variant C p (n, s)"
    and "extra_new (get_id b) = Some (C n)" "body_ser ver b = bs @ ys" "body_canon ver b = C y"
  shows "\<exists>n bs ys. extra_new (get_id b) = Some n \<and> body_ser ver b = bs @ ys
           \<and> reads (body_parse ver) n bs (body_canon ver b)"
proof (intro exI conjI)
  show "extra_new (get_id b) = Some (C n)" "body_ser ver b = bs @ ys" by fact+
  show "reads (body_parse ver) (C n) bs (body_canon ver b)"
    unfolding assms(5) by (rule as_variant_reads [OF assms(1,2)])
qed

lemma body_reads:
  assumes "body_valid b"
  shows "\<exists>n bs ys. extra_new (get_id b) = Some n \<and> body_ser ver b = bs @ ys
           \<and> reads (body_parse ver) n bs (body_canon ver b)"
proof (cases b)
  case (ExtraStreamFlags x)
  obtain y where 1: "reads (stream_flags_parse ver) stream_flags_new (stream_flags_ser ver x) y"
    "body_canon ver b = ExtraStreamFlags y"
    using stream_flags_reads ExtraStreamFlags by blast
  show ?thesis
    by (rule body_reads_by [where C = ExtraStreamFlags and ys = "[]", OF 1(1) _ _ _ 1(2)])
      (simp_all add: ExtraStreamFlags extra_new_def)
next
  case (ExtraInit x)
  obtain bs ys y where 1: "init_ser ver x = bs @ ys" "reads (init_parse ver) init_new bs y"
    "body_canon ver b = ExtraInit y"
    using init_reads [of x ver] assms ExtraInit by blast
  show ?thesis
    by (rule body_reads_by [where C = ExtraInit and ys = ys, OF 1(2) _ _ _ 1(3)])
      (simp_all add: 1(1) ExtraInit extra_new_def)
next
  case (ExtraGroupCallKey x)
  have "reads group_key_parse [] [] []"
    by (auto intro!: readsI simp: group_key_parse_def buf_simps rd_bytes_append [where bs = "[]"])
  then show ?thesis
    by (rule body_reads_by [where C = ExtraGroupCallKey and ys = x]) (simp_all add: ExtraGroupCallKey extra_new_def)
next
  case (ExtraLanEndpoint x)
  then obtain w where "lan_address x = IPv4 w" using assms by (auto split: naddr.splits)
  then show ?thesis
    by (intro body_reads_by [where C = ExtraLanEndpoint and ys = "[]", OF lan_endpoint_reads])
      (simp_all add: ExtraLanEndpoint extra_new_def)
next
  case (ExtraIpv6Endpoint x)
  then obtain w where "ip6_address x = IPv6 w" "length w = 16" using assms by (auto split: naddr.splits)
  then show ?thesis
    by (intro body_reads_by [where C = ExtraIpv6Endpoint and ys = "[]", OF ipv6_endpoint_reads])
      (simp_all add: ExtraIpv6Endpoint extra_new_def)
next
  case (ExtraStreamCsd x)
  with assms show ?thesis
    by (intro body_reads_by [where C = ExtraStreamCsd and ys = "[]", OF stream_csd_reads]) (auto simp: extra_new_def)
next
  case (ExtraInitAck x)
  with assms show ?thesis
    by (intro body_reads_by [where C = ExtraInitAck and ys = "[]", OF init_ack_reads]) (auto simp: extra_new_def)
next
  case (ExtraNetworkChanged x)
  then show ?thesis
    by (intro body_reads_by [where C = ExtraNetworkChanged and ys = "[]", OF network_changed_reads]) (auto simp: extra_new_def)
next
  case (ExtraPong x)
  then show ?thesis
    by (intro body_reads_by [where C = ExtraPong and ys = "[]", OF pong_reads]) (auto simp: extra_new_def)
next
  case ExtraPing
  have "reads (body_parse ver) ExtraPing [] ExtraPing" by (auto intro!: readsI simp: buf_simps)
  with ExtraPing show ?thesis by (auto simp: extra_new_def)
next
  case ExtraGroupCallUpgrade
  have "reads (body_parse ver) ExtraGroupCallUpgrade [] ExtraGroupCallUpgrade"
    by (auto intro!: readsI simp: buf_simps)
  with ExtraGroupCallUpgrade show ?thesis by (auto simp: extra_new_def)
qed


definition extra_canon :: "(byte list \<Rightarrow> byte list) \<Rightarrow> version \<Rightarrow> extra \<Rightarrow> extra" where
  "extra_canon sha1 ver e =
     \<lparr>ehash = hash_of sha1 (extra_ser ver e), ebody = body_canon ver (ebody e)\<rparr>"

definition extra_valid :: "version \<Rightarrow> extra \<Rightarrow> bool" where
  "extra_valid ver e \<longleftrightarrow> body_valid (ebody e) \<and> length (extra_ser ver e) < 256"

lemma extra_round:
  assumes "extra_valid ver e"
  shows "\<exists>d b t. extra_choose sha1 (istream_of (extra_ser ver e)) = (Some d, b)
           \<and> extra_parse ver (d, b) = (Done, extra_canon sha1 ver e, t)"
proof -
  let ?h = "hash_of sha1 (extra_ser ver e)"
  let ?s = "istream_of (extra_ser ver e)"
  obtain n bs ys where n: "extra_new (get_id (ebody e)) = Some n" "body_ser ver (ebody e) = bs @ ys"
    "reads (body_parse ver) n bs (body_canon ver (ebody e))"
    using body_reads assms unfolding extra_valid_def by blast
  have r: "rest ?s = get_id (ebody e) # bs @ ys" "iok (adv 1 ?s)" "rest (adv 1 ?s) = bs @ ys"
    using n(2) by (auto intro!: iok_adv simp: buf_simps extra_ser_def)
  have "extra_choose sha1 ?s = (Some \<lparr>ehash = ?h, ebody = n\<rparr>, adv 1 ?s)"
    using r(1) n(1) by (simp add: extra_choose_def try_u8_Cons istream_of_def)
  moreover have "extra_parse ver (\<lparr>ehash = ?h, ebody = n\<rparr>, adv 1 ?s)
      = (Done, extra_canon sha1 ver e, adv (length bs) (adv 1 ?s))"
    using readsD [OF n(3) r(2,3)] by (simp add: extra_parse_def rd_obj_def extra_canon_def)
  ultimately show ?thesis by blast
qed

interpretation wextra: wire_body "extra_choose sha1" "extra_parse ver" "extra_ser ver"
    "extra_canon sha1 ver" "extra_valid ver" for sha1 ver
  using extra_round by unfold_locales (blast, simp add: extra_valid_def)

lemma wextra_reads: "extra_valid ver e \<Longrightarrow>
    reads (wextra_parse sha1 ver) w (wextra_ser ver (Some e)) (Some (extra_canon sha1 ver e))"
  by (auto intro!: readsI wextra.wrapped_round)

subsection \<open>Parsing arbitrary bytes\<close>

lemma tame_codec [intro]: "tame (codec_parse ver)"
  by (auto simp: codec_parse_def)

lemma tame_stream_info [intro]: "tame (stream_info_parse ver)"
  by (auto simp: stream_info_parse_def intro!: tame_intros)

lemma tame_extras [intro]:
  "tame (stream_flags_parse ver)" "tame stream_csd_parse" "tame (network_changed_parse ver)"
  "tame (lan_endpoint_parse ver)" "tame ipv6_endpoint_parse" "tame (init_parse ver)"
  "tame (init_ack_parse ver)"
  by (auto simp: stream_flags_parse_def stream_csd_parse_def network_changed_parse_def
      lan_endpoint_parse_def ipv6_endpoint_parse_def init_parse_def init_ack_parse_def
      intro!: tame_intros)

lemma tame_group_key [intro]: "tame group_key_parse"
  using tame_reads(4) by (force simp: group_key_parse_def tame_def)

lemma tame_pong [intro]: "tame pong_parse"
proof (rule tameI)
  fix x s r y t
  assume "iok s" "pong_parse (x, s) = (r, y, t)"
  then show "stays s t \<and> (\<forall>e. r \<noteq> Raised e)"
    using tameD [OF tame_reads(3) [of "\<lambda>v _. v"], of s x] by (auto simp: pong_parse_def split: if_splits)
qed

lemma as_variant_tame:
  "tame p \<Longrightarrow> iok s \<Longrightarrow> as_variant C p (x, s) = (r, y, t) \<Longrightarrow> stays s t \<and> (\<forall>e. r \<noteq> Raised e)"
  using tameD [of p s x] by (auto simp: as_variant_def split: prod.splits)

lemma tame_body [intro]: "tame (body_parse ver)"
proof (rule tameI)
  fix b s r y t
  assume "iok s" "body_parse ver (b, s) = (r, y, t)"
  then show "stays s t \<and> (\<forall>e. r \<noteq> Raised e)"
    by (cases b) (auto dest: as_variant_tame [rotated 2] simp: stays_refl)
qed

lemma tame_wextra [intro]: "tame (wextra_parse sha1 ver)"
proof (rule tame_wrapped)
  show "tame (extra_parse ver)" by (auto simp: extra_parse_def)
  show "iok b1" if "iok b" "extra_choose sha1 b = (Some d, b1)" for b d b1
    using that stays_iok try_u8_stays by (fastforce simp: extra_choose_def split: prod.splits option.splits)
qed

subsection \<open>Sizes\<close>

lemma stream_info_size_ser:
  "\<not> (is_new ver \<and> peer_version ver < 5) \<Longrightarrow> stream_info_size ver x = length (stream_info_ser ver x)"
  by (simp add: stream_info_size_def stream_info_ser_def codec_size_ser)

lemma wbytes_size_ser: "wbytes_size w = length (wbytes_ser w)"
  by (auto simp: wbytes_size_def wrapped_ser_def Let_def split: option.splits)

lemma constructor_size_ser:
  assumes "\<not> (is_new ver \<and> peer_version ver < 5)" "body_valid b"
  shows "constructor_size ver b = length (body_ser ver b)"
proof (cases b)
  case (ExtraInit x)
  then show ?thesis
    using array_size_ser [of "init_audio_codecs x" "codec_size ver" "codec_ser ver"]
      array_size_ser [of "init_decoders x" "\<lambda>_. 4" uint32_ser] codec_size_ser [OF assms(1)]
    by (simp add: init_size_def init_ser_def uint32_ser_def)
next
  case (ExtraInitAck x)
  then show ?thesis
    using array_size_ser [of "ack_streams x" "stream_info_size ver" "stream_info_ser ver"]
      stream_info_size_ser [OF assms(1)]
    by (simp add: init_ack_size_def init_ack_ser_def)
next
  case (ExtraStreamCsd x)
  then show ?thesis
    using array_size_ser [of "csd_data x" wbytes_size wbytes_ser] wbytes_size_ser
    by (simp add: stream_csd_size_def stream_csd_ser_def)
qed (use assms in \<open>auto simp: stream_flags_size_def stream_flags_ser_def network_changed_ser_def
   lan_endpoint_ser_def ipv6_endpoint_ser_def split: naddr.splits\<close>)


subsection \<open>Properties\<close>

text \<open>
  C9: an extra written behind its length is read back, whatever follows it in the packet:
  the peer obtains the same constructor with the hash of the bytes on the wire. Nothing of
  the object is lost when the peer has at least version 6 and the layer is at least 74, with
  two exceptions: a null entry of the codec data becomes an empty one, and a group call key
  always arrives empty, because it is read into a buffer of length 0.
\<close>

theorem extra_transfer:
  assumes "extra_valid ver e" "iok s" "rest s = wextra_ser ver (Some e) @ xs"
  shows "wextra_parse sha1 ver (w, s)
      = (Done, Some (extra_canon sha1 ver e), adv (length (wextra_ser ver (Some e))) s)
    \<and> get_id (ebody (extra_canon sha1 ver e)) = get_id (ebody e)
    \<and> (6 \<le> peer_version ver \<and> 74 \<le> max_layer ver \<and> (\<forall>k. ebody e \<noteq> ExtraGroupCallKey k)
        \<and> (\<forall>x. ebody e = ExtraStreamCsd x \<longrightarrow> None \<notin> set (csd_data x))
       \<longrightarrow> ebody (extra_canon sha1 ver e) = ebody e)
    \<and> (\<forall>k. ebody e = ExtraGroupCallKey k \<longrightarrow> ebody (extra_canon sha1 ver e) = ExtraGroupCallKey [])"
proof -
  have codecs: "6 \<le> peer_version ver \<Longrightarrow> codec_canon ver = id"
    by (auto simp: codec_canon_def)
  have streams: "6 \<le> peer_version ver \<Longrightarrow> stream_info_canon ver = id"
    by (auto simp: stream_info_canon_def codecs)
  have csd: "map wbytes_canon ws = ws" if "list_all wbytes_valid ws" "None \<notin> set ws" for ws
    using that by (induction ws) (auto simp: wbytes_canon_def wbytes_valid_def bytes_ser_def split: option.splits)
  have "get_id (body_canon ver (ebody e)) = get_id (ebody e)"
    by (cases "ebody e") auto
  moreover have "body_canon ver (ebody e) = ebody e"
    if "6 \<le> peer_version ver" "74 \<le> max_layer ver" "\<forall>k. ebody e \<noteq> ExtraGroupCallKey k"
      "\<forall>x. ebody e = ExtraStreamCsd x \<longrightarrow> None \<notin> set (csd_data x)"
    using that assms(1) csd by (cases "ebody e") (auto simp: extra_valid_def codecs streams)
  ultimately show ?thesis
    using readsD [OF wextra_reads [OF assms(1)] assms(2,3)] by (simp add: extra_canon_def)
qed

definition sample_extra :: extra where
  "sample_extra = \<lparr>ehash = 0, ebody = ExtraInit \<lparr>init_peer_version = 10, init_min_version = 3,
     init_flags = 2, init_audio_codecs = [Opus], init_decoders = [7], init_max_resolution = 4\<rparr>\<rparr>"

theorem extra_transfer_witness:
  "wextra_parse (\<lambda>_. replicate 20 0) \<lparr>peer_version = 10, max_layer = 110\<rparr>
     (None, istream_of (wextra_ser \<lparr>peer_version = 10, max_layer = 110\<rparr> (Some sample_extra)))
   = (Done, Some sample_extra, adv 22 (istream_of (wextra_ser \<lparr>peer_version = 10, max_layer = 110\<rparr> (Some sample_extra))))"
proof -
  let ?v = "\<lparr>peer_version = 10, max_layer = 110\<rparr>"
  have v: "extra_valid ?v sample_extra"
    by (simp add: extra_valid_def extra_ser_def sample_extra_def init_ser_def is_new_def
        array_ser_def uint32_ser_def codec_ser_def)
  have l: "length (wextra_ser ?v (Some sample_extra)) = 22"
    by (simp add: wrapped_ser_def Let_def extra_ser_def sample_extra_def init_ser_def is_new_def
        array_ser_def uint32_ser_def codec_ser_def)
  have "hash_of (\<lambda>_. replicate 20 0) bs = 0" for bs
    by (simp add: hash_of_def un64_def eval_nat_numeral Let_def)
  then have "extra_canon (\<lambda>_. replicate 20 0) ?v sample_extra = sample_extra"
    by (simp add: extra_canon_def sample_extra_def codec_canon_def)
  with extra_transfer [OF v, of "istream_of (wextra_ser ?v (Some sample_extra))" "[]" "\<lambda>_. replicate 20 0" None] l
  show ?thesis by (simp add: buf_simps)
qed

text \<open>
  Parsing an extra never throws and never leaves the packet, whatever bytes the peer has
  sent: it returns true or false with the offset still within the buffer and moved forward
  only.
\<close>

theorem extra_parse_total:
  assumes "iok s" "wextra_parse sha1 ver (w, s) = (r, w', t)"
  shows "(r = Done \<or> r = Refused) \<and> ibuf t = ibuf s \<and> ioff s \<le> ioff t \<and> ioff t \<le> length (ibuf s)"
proof -
  have "stays s t" "\<forall>e. r \<noteq> Raised e" using tameD [OF tame_wextra assms] by auto
  then show ?thesis using assms(1) by (cases r) (auto simp: stays_def iok_def)
qed

theorem extra_parse_total_witness:
  "fst (wextra_parse (\<lambda>_. []) \<lparr>peer_version = 10, max_layer = 110\<rparr> (None, istream_of [9, 1])) \<noteq> Raised OutOfRange"
proof -
  obtain r w t where 1: "wextra_parse (\<lambda>_. []) \<lparr>peer_version = 10, max_layer = 110\<rparr>
      (None, istream_of [9, 1]) = (r, w, t)"
    by (cases "wextra_parse (\<lambda>_. []) \<lparr>peer_version = 10, max_layer = 110\<rparr> (None, istream_of [9, 1])") auto
  with extra_parse_total [OF iok_istream_of 1] show ?thesis by auto
qed

text \<open>
  The size an extra announces is the number of bytes it writes, for every extra that
  fits the format, unless the peer counts as new only because of the layer while its version
  is below 5: then each codec is announced as one byte and written as four.
\<close>

theorem extra_size_exact:
  assumes "body_valid (ebody e)"
  shows "(\<not> (is_new ver \<and> peer_version ver < 5) \<longrightarrow> extra_size ver e = length (extra_ser ver e))
    \<and> (is_new ver \<and> peer_version ver < 5 \<longrightarrow>
         length (codec_ser ver c) = 4 \<and> codec_size ver c = 1)"
  using constructor_size_ser [OF _ assms] by (auto simp: extra_size_def extra_ser_def codec_ser_def codec_size_def)

theorem extra_size_exact_witness:
  "extra_size \<lparr>peer_version = 10, max_layer = 110\<rparr> sample_extra
     = length (extra_ser \<lparr>peer_version = 10, max_layer = 110\<rparr> sample_extra)"
  using extra_size_exact [of sample_extra "\<lparr>peer_version = 10, max_layer = 110\<rparr>"]
  by (simp add: sample_extra_def)

end
