(* ===== verification/Packets.thy ===== *)
theory Packets
  imports Extras Historic Packet_Manager
begin

section \<open>Packets (controller/protocol/packets/PacketStructs.h, PacketStructs.cpp)\<close>

text \<open>
  The packet with its format for new peers, and the preparation of an outgoing packet: its
  sequence numbers and the signaling that rides along. The list of further packets, which
  only the legacy format produces, is an extension of the record (the packets in it have no
  such list of their own).
\<close>

subsection \<open>Packet\<close>

record packet0 =
  legacy :: bool
  legacy_seq :: u32
  nop_packet :: bool
  pkt_seq :: u32
  ack_seq :: u32
  ack_mask :: u32
  stream_id :: byte
  eflags :: byte
  fragment_index :: byte
  fragment_count :: byte
  recv_ts :: u32
  pkt_data :: "byte list option"
  extra_ec :: "wbytes list"
  extra_signaling :: "wextra list"

record packet = packet0 +
  other_packets :: "packet0 list"

definition packet0_new :: packet0 where
  "packet0_new = \<lparr>legacy = False, legacy_seq = 0, nop_packet = True, pkt_seq = 0, ack_seq = 0,
     ack_mask = 0, stream_id = 0, eflags = 0, fragment_index = 0, fragment_count = 1, recv_ts = 0,
     pkt_data = None, extra_ec = replicate 8 None, extra_signaling = []\<rparr>"

definition packet_new :: packet where
  "packet_new = packet0.extend packet0_new \<lparr>other_packets = []\<rparr>"

definition data_len :: "'z packet0_scheme \<Rightarrow> nat" where
  "data_len p = (case pkt_data p of None \<Rightarrow> 0 | Some d \<Rightarrow> length d)"

definition packet_bool :: "'z packet0_scheme \<Rightarrow> bool" where
  "packet_bool p \<longleftrightarrow> data_len p \<noteq> 0 \<or> mask_bool wbytes_bool (extra_ec p)
     \<or> array_bool (extra_signaling p) \<or> nop_packet p"

text \<open>\<^verbatim>\<open>clear\<close> leaves the other fields as they are, the flags and fragment numbers among them.\<close>

definition packet_clear :: "'z packet0_scheme \<Rightarrow> 'z packet0_scheme" where
  "packet_clear p = p\<lparr>pkt_seq := 0, ack_seq := 0, ack_mask := 0, stream_id := 0, pkt_data := None,
     recv_ts := 0, legacy := False, extra_ec := map (\<lambda>_. None) (extra_ec p), extra_signaling := []\<rparr>"

text \<open>
  Parsing. The flag bits of the first byte, behind two bits of stream id: 16-bit length (2),
  receive timestamp (3), error correction (4), signaling (5), and one that is always set (6).
  The length field carries five flags of its own above its eleven bits. (The buffer that the
  data is read into holds indeterminate bytes until then; 0 here.)
\<close>

definition try_len :: "bool \<Rightarrow> istream \<Rightarrow> u16 option \<times> istream" where
  "try_len len16 s = (if len16 then try_u16 s
     else (case try_u8 s of (v, t) \<Rightarrow> (map_option ucast v, t)))"

definition packet_parse_body ::
    "(byte list \<Rightarrow> byte list) \<Rightarrow> version \<Rightarrow> byte \<Rightarrow> u16 \<Rightarrow> 'z packet0_scheme parser" where
  "packet_parse_body sha1 ver f len = chain
     [assign (eflags_update (\<lambda>_. ucast (drop_bit 11 len))),
      depend (\<lambda>p. optional (bit (eflags p) 0) (chain
        [rd8 (\<lambda>v. fragment_count_update (\<lambda>_. v)),
         rd8 (\<lambda>v. fragment_index_update (\<lambda>_. v))])),
      optional (len AND 0x7FF \<noteq> 0) (chain
        [assign (pkt_data_update (\<lambda>_. Some (replicate (unat (len AND 0x7FF)) 0))),
         rd_bytes (unat (len AND 0x7FF)) (\<lambda>v. pkt_data_update (\<lambda>_. Some v))]),
      optional (bit f 3) (rd32 (\<lambda>v. recv_ts_update (\<lambda>_. v))),
      optional (bit f 4) (rd_obj extra_ec (\<lambda>v. extra_ec_update (\<lambda>_. v)) (mask_parse wbytes_parse)),
      optional (bit f 5) (rd_obj extra_signaling (\<lambda>v. extra_signaling_update (\<lambda>_. v))
        (array_parse (wextra_parse sha1 ver) None))]"

definition packet_parse_new ::
    "(byte list \<Rightarrow> byte list) \<Rightarrow> version \<Rightarrow> 'z packet0_scheme parser" where
  "packet_parse_new sha1 ver = rd_let try_u8 (\<lambda>f. chain
     [rd32 (\<lambda>v. pkt_seq_update (\<lambda>_. v)),
      rd32 (\<lambda>v. ack_seq_update (\<lambda>_. v)),
      rd32 (\<lambda>v. ack_mask_update (\<lambda>_. v)),
      assign (stream_id_update (\<lambda>_. f AND 3)),
      guard (bit f 6),
      depend (\<lambda>p. optional (stream_id p = 3) (rd8 (\<lambda>v. stream_id_update (\<lambda>_. v)))),
      rd_let (try_len (bit f 2)) (packet_parse_body sha1 ver f)])"

text \<open>Serializing. The fragment numbers are not written, whatever the flags say.\<close>

definition flags_of :: "'z packet0_scheme \<Rightarrow> byte" where
  "flags_of p = 16
     OR (if data_len p > 0xFF \<or> eflags p \<noteq> 0 then 1 else 0)
     OR (if recv_ts p \<noteq> 0 then 2 else 0)
     OR (if mask_bool wbytes_bool (extra_ec p) then 4 else 0)
     OR (if array_bool (extra_signaling p) then 8 else 0)"

definition packet_ser :: "version \<Rightarrow> 'z packet0_scheme \<Rightarrow> byte list" where
  "packet_ser ver p = (let short = (if stream_id p > 3 then 3 else stream_id p); fl = flags_of p in
     (short OR push_bit 2 fl) # le32 (pkt_seq p) @ le32 (ack_seq p) @ le32 (ack_mask p)
     @ (if short = 3 then [stream_id p] else [])
     @ (if bit fl 0 then le16 (of_nat (data_len p) OR push_bit 11 (ucast (eflags p)))
        else [of_nat (data_len p)])
     @ (if data_len p \<noteq> 0 then the (pkt_data p) else [])
     @ (if bit fl 1 then le32 (recv_ts p) else [])
     @ (if bit fl 2 then mask_ser wbytes_bool wbytes_ser (extra_ec p) else [])
     @ (if bit fl 3 then array_ser (wextra_ser ver) (extra_signaling p) else []))"

definition wextra_size :: "version \<Rightarrow> wextra \<Rightarrow> nat" where
  "wextra_size ver w = 1 + (case w of None \<Rightarrow> 0 | Some e \<Rightarrow> extra_size ver e)"

definition packet_size :: "version \<Rightarrow> 'z packet0_scheme \<Rightarrow> nat" where
  "packet_size ver p = (if \<not> is_new ver then 0 else
     4 + 4 + 4 + 1 + (if stream_id p > 3 then 1 else 0)
     + (if data_len p > 0xFF \<or> eflags p \<noteq> 0 then 2 else 1)
     + (if recv_ts p \<noteq> 0 then 4 else 0)
     + (if mask_bool wbytes_bool (extra_ec p) then mask_size wbytes_bool wbytes_size (extra_ec p) else 0)
     + (if array_bool (extra_signaling p) then array_size (wextra_size ver) (extra_signaling p) else 0))"

subsection \<open>Preparing an outgoing packet\<close>

text \<open>Signaling that the peer has not acknowledged yet, with the packets it was sent in.\<close>

record unacked_extra =
  ue_data :: wextra
  ue_seqs :: "u32 hist"
  ue_endpoint :: int

definition unacked_extra_new :: "wextra \<Rightarrow> int \<Rightarrow> unacked_extra" where
  "unacked_extra_new w ep = \<lparr>ue_data = w, ue_seqs = hist_new 16, ue_endpoint = ep\<rparr>"

definition prepare :: "packet_manager \<Rightarrow> 'z packet0_scheme \<Rightarrow> 'z packet0_scheme \<times> packet_manager" where
  "prepare pm p = (if pkt_seq p = 0 then
     (case next_local_seq pm of (sq, pm1) \<Rightarrow>
       (p\<lparr>pkt_seq := sq, ack_seq := last_remote_seq pm1, ack_mask := last_remote_mask pm1,
          stream_id := transport_id pm1\<rparr>, pm1))
     else (p, pm))"

definition goes_to :: "int \<Rightarrow> unacked_extra \<Rightarrow> bool" where
  "goes_to ep x \<longleftrightarrow> ue_endpoint x = 0 \<or> ue_endpoint x = ep"

definition note_seq :: "u32 \<Rightarrow> unacked_extra \<Rightarrow> unacked_extra" where
  "note_seq sq x = x\<lparr>ue_seqs := hist_add sq (ue_seqs x)\<rparr>"

fun attach_extras :: "int \<Rightarrow> unacked_extra list \<Rightarrow> 'z packet0_scheme \<Rightarrow> 'z packet0_scheme \<times> unacked_extra list" where
  "attach_extras ep [] p = (p, [])"
| "attach_extras ep (x # xs) p =
     (if goes_to ep x
      then (case attach_extras ep xs (p\<lparr>extra_signaling := extra_signaling p @ [ue_data x]\<rparr>) of
              (q, ys) \<Rightarrow> (q, note_seq (pkt_seq p) x # ys))
      else (case attach_extras ep xs p of (q, ys) \<Rightarrow> (q, x # ys)))"

definition prepare_extras :: "packet_manager \<Rightarrow> unacked_extra list \<Rightarrow> int \<Rightarrow> 'z packet0_scheme
    \<Rightarrow> 'z packet0_scheme \<times> unacked_extra list \<times> packet_manager" where
  "prepare_extras pm xs ep p = (case prepare pm p of (q, pm1) \<Rightarrow>
     (case attach_extras ep xs (q\<lparr>extra_signaling := []\<rparr>) of (r, ys) \<Rightarrow> (r, ys, pm1)))"

text \<open>
  Towards an old peer. Extras that travel as packets of their own are noted under the legacy
  numbers that \<^verbatim>\<open>serializeLegacy\<close> will give these packets. The two managers compare equal
  only when they are the same object; its new state is then the third component of the result.
\<close>

definition type_of_wextra :: "int \<Rightarrow> wextra \<Rightarrow> byte" where
  "type_of_wextra pv w = choose_type pv (ebody (the w))"

fun attach_extras_legacy :: "int \<Rightarrow> int \<Rightarrow> u32 \<Rightarrow> unacked_extra list \<Rightarrow> 'z packet0_scheme
    \<Rightarrow> 'z packet0_scheme \<times> unacked_extra list" where
  "attach_extras_legacy pv ep tmp [] p = (p, [])"
| "attach_extras_legacy pv ep tmp (x # xs) p =
     (if goes_to ep x
      then let p1 = p\<lparr>extra_signaling := extra_signaling p @ [ue_data x]\<rparr> in
        if type_of_wextra pv (ue_data x) = PKT_NOP
        then (case attach_extras_legacy pv ep tmp xs p1 of
                (q, ys) \<Rightarrow> (q, note_seq (pkt_seq p) x # ys))
        else (case attach_extras_legacy pv ep (tmp + 1) xs p1 of
                (q, ys) \<Rightarrow> (q, note_seq tmp x # ys))
      else (case attach_extras_legacy pv ep tmp xs p of (q, ys) \<Rightarrow> (q, x # ys)))"

definition prepare_legacy :: "packet_manager \<Rightarrow> unacked_extra list \<Rightarrow> int \<Rightarrow> packet_manager \<Rightarrow> int
    \<Rightarrow> 'z packet0_scheme \<Rightarrow> 'z packet0_scheme \<times> unacked_extra list \<times> packet_manager \<times> packet_manager" where
  "prepare_legacy pm xs ep lpm pv p = (case prepare pm p of (q, pm1) \<Rightarrow>
     (let (r, lpm1) = (if legacy_seq q = 0 then
            if \<not> pm_eq pm1 lpm then
              (case next_local_seq lpm of (sq, l) \<Rightarrow>
                (q\<lparr>legacy_seq := sq, ack_seq := last_remote_seq l, ack_mask := last_remote_mask l\<rparr>, l))
            else (q\<lparr>legacy_seq := pkt_seq q\<rparr>, lpm)
          else (q, lpm))
      in (case attach_extras_legacy pv ep (legacy_seq r) xs (r\<lparr>extra_signaling := []\<rparr>) of
            (t, ys) \<Rightarrow> (t, ys, pm1, lpm1))))"


text \<open>The acknowledgment of a received packet (PacketManager.cpp): a legacy packet without a legacy
  number counts as new.\<close>

definition ack_remote_packet :: "'z packet0_scheme \<Rightarrow> packet_manager \<Rightarrow> (bool \<times> packet_manager) option" where
  "ack_remote_packet p pm = (if legacy p
     then if legacy_seq p \<noteq> 0 then ack_remote_seq (legacy_seq p) pm else Some (True, pm)
     else ack_remote_seq (pkt_seq p) pm)"

subsection \<open>Round trip of the new format\<close>

lemma bit_flags_of:
  "bit (flags_of p) 0 \<longleftrightarrow> data_len p > 0xFF \<or> eflags p \<noteq> 0"
  "bit (flags_of p) 1 \<longleftrightarrow> recv_ts p \<noteq> 0"
  "bit (flags_of p) 2 \<longleftrightarrow> mask_bool wbytes_bool (extra_ec p)"
  "bit (flags_of p) 3 \<longleftrightarrow> array_bool (extra_signaling p)"
  "bit (flags_of p) 4"
  by (auto simp: flags_of_def bit_or_iff)

definition header_byte :: "'z packet0_scheme \<Rightarrow> byte" where
  "header_byte p = (if stream_id p > 3 then 3 else stream_id p) OR push_bit 2 (flags_of p)"

lemma small_bits: "unat w < 2 ^ k \<Longrightarrow> bit w n \<Longrightarrow> n < k" for w :: "'a::len word"
proof -
  assume "unat w < 2 ^ k" "bit w n"
  then have "bit (take_bit k (unat w)) n"
    by (simp add: take_bit_nat_eq_self bit_unsigned_iff bit_imp_le_length)
  then show "n < k" by (simp add: bit_take_bit_iff)
qed

lemma header_byte_stream: "header_byte p AND 3 = (if stream_id p > 3 then 3 else stream_id p)"
proof -
  let ?s = "if stream_id p > 3 then 3 else stream_id p"
  have "unat ?s < 2 ^ 2" by (auto simp: word_le_nat_alt not_less)
  then have s: "bit ?s n \<Longrightarrow> n < 2" for n by (rule small_bits)
  have m: "bit (3 :: byte) n \<longleftrightarrow> n < 2" for n
    using bit_mask_iff [of 2 n, where ?'a = "8 word"] by (auto simp: mask_eq_exp_minus_1)
  show ?thesis
  proof (rule bit_word_eqI)
    fix n
    assume "n < LENGTH(8)"
    show "bit (header_byte p AND 3) n = bit ?s n"
      unfolding header_byte_def bit_and_iff bit_or_iff bit_push_bit_iff m using s [of n] by auto
  qed
qed

lemma header_byte_flags: "2 \<le> k \<Longrightarrow> k < 8 \<Longrightarrow> bit (header_byte p) k \<longleftrightarrow> bit (flags_of p) (k - 2)"
proof -
  let ?s = "if stream_id p > 3 then 3 else stream_id p"
  have "unat ?s < 2 ^ 2" by (auto simp: word_le_nat_alt not_less)
  then have "2 \<le> k \<Longrightarrow> \<not> bit ?s k" using small_bits [of ?s 2 k] by auto
  then show "2 \<le> k \<Longrightarrow> k < 8 \<Longrightarrow> bit (header_byte p) k \<longleftrightarrow> bit (flags_of p) (k - 2)"
    unfolding header_byte_def bit_or_iff bit_push_bit_iff by auto
qed

lemma bit_header:
  "bit (header_byte p) 2 = bit (flags_of p) 0" "bit (header_byte p) 3 = bit (flags_of p) 1"
  "bit (header_byte p) 4 = bit (flags_of p) 2" "bit (header_byte p) 5 = bit (flags_of p) 3"
  "bit (header_byte p) 6"
  by (simp_all add: header_byte_flags bit_flags_of(5))

lemma len_field:
  assumes "n < 2 ^ 11" "unat (e :: byte) < 2 ^ 5"
  shows "ucast (drop_bit 11 (of_nat n OR push_bit 11 (ucast e) :: u16)) = e"
    and "(of_nat n OR push_bit 11 (ucast e) :: u16) AND 0x7FF = of_nat n"
proof -
  have u: "unat (of_nat n :: u16) < 2 ^ 11" using assms(1) by (simp add: unat_of_nat)
  note n = small_bits [OF u] and e = small_bits [OF assms(2)]
  have m: "bit (0x7FF :: u16) k \<longleftrightarrow> k < 11" for k
    using bit_mask_iff [of 11 k, where ?'a = "16 word"] by (auto simp: mask_eq_exp_minus_1)
  show "ucast (drop_bit 11 (of_nat n OR push_bit 11 (ucast e) :: u16)) = e"
  proof (rule bit_word_eqI)
    fix k
    assume "k < LENGTH(8)"
    then show "bit (ucast (drop_bit 11 (of_nat n OR push_bit 11 (ucast e) :: u16)) :: byte) k \<longleftrightarrow> bit e k"
      using n [of "11 + k"] e [of k] by (auto simp: bit_simps)
  qed
  show "(of_nat n OR push_bit 11 (ucast e) :: u16) AND 0x7FF = of_nat n"
    unfolding bit_eq_iff bit_and_iff bit_or_iff bit_push_bit_iff m using n by auto
qed

lemma rd_let_len:
  "rd_let (try_len True) k = rd_let try_u16 k"
  "rd_let (try_len False) k = rd_let try_u8 (\<lambda>v. k (ucast v))"
  by (auto intro!: ext simp: try_len_def split: prod.splits option.splits)

text \<open>What the format can carry, and what arrives.\<close>

definition packet_fits :: "version \<Rightarrow> 'z packet0_scheme \<Rightarrow> bool" where
  "packet_fits ver p \<longleftrightarrow> data_len p < 2048 \<and> unat (eflags p) < 32 \<and> length (extra_ec p) = 8
     \<and> (\<forall>w \<in> set (extra_ec p). wbytes_bool w \<longrightarrow> wbytes_valid w)
     \<and> length (extra_signaling p) < 256
     \<and> list_all (\<lambda>w. case w of None \<Rightarrow> False | Some e \<Rightarrow> extra_valid ver e) (extra_signaling p)"

definition packet_canon :: "(byte list \<Rightarrow> byte list) \<Rightarrow> version \<Rightarrow> 'z packet0_scheme \<Rightarrow> packet" where
  "packet_canon sha1 ver p = packet_new\<lparr>pkt_seq := pkt_seq p, ack_seq := ack_seq p,
     ack_mask := ack_mask p, stream_id := stream_id p, eflags := eflags p,
     pkt_data := (if data_len p \<noteq> 0 then pkt_data p else None), recv_ts := recv_ts p,
     extra_ec := map (\<lambda>w. if wbytes_bool w then w else None) (extra_ec p),
     extra_signaling := map (map_option (extra_canon sha1 ver)) (extra_signaling p)\<rparr>"

lemma wbytes_canon_present: "wbytes_bool w \<Longrightarrow> wbytes_canon w = w"
  by (auto simp: wrapped_bool_def bytes_bool_def wbytes_canon_def bytes_ser_def split: option.splits)

lemma extra_ec_reads:
  assumes "packet_fits ver p"
  shows "reads (mask_parse wbytes_parse) (replicate 8 None) (mask_ser wbytes_bool wbytes_ser (extra_ec p))
    (map (\<lambda>w. if wbytes_bool w then w else None) (extra_ec p))"
  using wb.mask_reads [of "extra_ec p" wbytes_bool None] assms
  by (simp add: packet_fits_def wbytes_canon_present cong: if_cong)

lemma extra_ec_absent:
  "\<not> mask_bool wbytes_bool ws \<Longrightarrow> map (\<lambda>w. if wbytes_bool w then w else None) ws = replicate (length ws) None"
  by (auto simp: mask_bool_def list_ex_iff intro!: nth_equalityI)

lemma extra_signaling_reads:
  assumes "packet_fits ver p"
  shows "reads (array_parse (wextra_parse sha1 ver) None) [] (array_ser (wextra_ser ver) (extra_signaling p))
    (map (map_option (extra_canon sha1 ver)) (extra_signaling p))"
  using wextra.wrapped.array_reads [where v = "extra_signaling p" and pre = "[]" and ?sha1.0 = sha1 and ver = ver]
    assms by (simp add: packet_fits_def)


lemma data_reads:
  fixes len :: u16
  assumes "data_len p < 2048" "len AND 0x7FF = of_nat (data_len p)" "pkt_data x = None"
  shows "len AND 0x7FF \<noteq> 0 \<longleftrightarrow> data_len p \<noteq> 0"
    and "data_len p \<noteq> 0 \<Longrightarrow> reads (chain
        [assign (pkt_data_update (\<lambda>_. Some (replicate (unat (len AND 0x7FF)) 0))),
         rd_bytes (unat (len AND 0x7FF)) (\<lambda>v. pkt_data_update (\<lambda>_. Some v))])
       x (the (pkt_data p)) (x\<lparr>pkt_data := pkt_data p\<rparr>)"
proof -
  have u: "unat (len AND 0x7FF) = data_len p"
    using assms by (simp add: unat_of_nat)
  then show "len AND 0x7FF \<noteq> 0 \<longleftrightarrow> data_len p \<noteq> 0" by (metis unat_0 unat_eq_zero)
  assume "data_len p \<noteq> 0"
  then obtain d where d: "pkt_data p = Some d" "length d = data_len p"
    by (auto simp: data_len_def split: option.splits)
  then show "reads (chain
        [assign (pkt_data_update (\<lambda>_. Some (replicate (unat (len AND 0x7FF)) 0))),
         rd_bytes (unat (len AND 0x7FF)) (\<lambda>v. pkt_data_update (\<lambda>_. Some v))])
       x (the (pkt_data p)) (x\<lparr>pkt_data := pkt_data p\<rparr>)"
    unfolding u by (auto intro!: reads_assign reads_last reads_eq [OF reads_prim(4)])
qed

lemma packet_body_reads:
  assumes fits: "packet_fits ver p" and frag: "\<not> bit (eflags p) 0"
    and len: "ucast (drop_bit 11 len) = eflags p" "len AND 0x7FF = of_nat (data_len p)"
    and x0: "x0 = packet_new\<lparr>pkt_seq := pkt_seq p, ack_seq := ack_seq p, ack_mask := ack_mask p,
      stream_id := stream_id p\<rparr>"
  shows "reads (packet_parse_body sha1 ver (header_byte p) len) x0
    ((if data_len p \<noteq> 0 then the (pkt_data p) else [])
     @ (if bit (flags_of p) 1 then le32 (recv_ts p) else [])
     @ (if bit (flags_of p) 2 then mask_ser wbytes_bool wbytes_ser (extra_ec p) else [])
     @ (if bit (flags_of p) 3 then array_ser (wextra_ser ver) (extra_signaling p) else []))
    (packet_canon sha1 ver p)"
proof -
  let ?x1 = "x0\<lparr>eflags := eflags p\<rparr>"
  let ?x2 = "?x1\<lparr>pkt_data := (if data_len p \<noteq> 0 then pkt_data p else None)\<rparr>"
  let ?x3 = "?x2\<lparr>recv_ts := recv_ts p\<rparr>"
  let ?x4 = "?x3\<lparr>extra_ec := map (\<lambda>w. if wbytes_bool w then w else None) (extra_ec p)\<rparr>"
  let ?sg = "rd_obj extra_signaling (\<lambda>v. extra_signaling_update (\<lambda>_. v))
    (array_parse (wextra_parse sha1 ver) None) :: packet parser"
  let ?ec = "rd_obj extra_ec (\<lambda>v. extra_ec_update (\<lambda>_. v)) (mask_parse wbytes_parse) :: packet parser"
  let ?ps = "[optional (len AND 0x7FF \<noteq> 0) (chain
        [assign (pkt_data_update (\<lambda>_. Some (replicate (unat (len AND 0x7FF)) 0))),
         rd_bytes (unat (len AND 0x7FF)) (\<lambda>v. pkt_data_update (\<lambda>_. Some v))]),
      optional (bit (flags_of p) 1) (rd32 (\<lambda>v. recv_ts_update (\<lambda>_. v))),
      optional (bit (flags_of p) 2) ?ec, optional (bit (flags_of p) 3) ?sg]"
  let ?bs = "(if data_len p \<noteq> 0 then the (pkt_data p) else [])
     @ (if bit (flags_of p) 1 then le32 (recv_ts p) else [])
     @ (if bit (flags_of p) 2 then mask_ser wbytes_bool wbytes_ser (extra_ec p) else [])
     @ (if bit (flags_of p) 3 then array_ser (wextra_ser ver) (extra_signaling p) else [])"
  have new: "pkt_data ?x1 = None" "extra_ec ?x3 = replicate 8 None" "extra_signaling ?x4 = []"
    "recv_ts ?x2 = 0"
    by (simp_all add: x0 packet_new_def packet0_new_def packet0.defs)
  have canon: "?x4\<lparr>extra_signaling := map (map_option (extra_canon sha1 ver)) (extra_signaling p)\<rparr>
      = packet_canon sha1 ver p"
    by (simp add: x0 packet_canon_def)
  have "reads ?sg ?x4 (array_ser (wextra_ser ver) (extra_signaling p)) (packet_canon sha1 ver p)"
    unfolding canon [symmetric] by (rule reads_obj) (simp only: new(3) extra_signaling_reads [OF fits])
  moreover have "packet_canon sha1 ver p = ?x4" if "\<not> bit (flags_of p) 3"
    using that new(3) unfolding canon [symmetric] by (simp add: bit_flags_of array_bool_def)
  ultimately have s5: "reads (chain [optional (bit (flags_of p) 3) ?sg]) ?x4
      (if bit (flags_of p) 3 then array_ser (wextra_ser ver) (extra_signaling p) else []) (packet_canon sha1 ver p)"
    by (rule reads_opt_last)
  have e1: "reads ?ec ?x3 (mask_ser wbytes_bool wbytes_ser (extra_ec p)) ?x4"
    by (rule reads_obj) (simp only: new(2) extra_ec_reads [OF fits])
  have e2: "?x4 = ?x3" if "\<not> bit (flags_of p) 2"
    using that new(2) fits by (simp add: bit_flags_of extra_ec_absent packet_fits_def)
  have t2: "?x3 = ?x2" if "\<not> bit (flags_of p) 1"
    using that new(4) unfolding bit_flags_of by simp
  note s3 = reads_opt [OF reads_prim(3) [of "\<lambda>v. recv_ts_update (\<lambda>_. v)" ?x2 "recv_ts p"] t2 reads_opt [OF e1 e2 s5]]
  have dl: "data_len p < 2048" using fits by (simp add: packet_fits_def)
  note d = data_reads [OF dl len(2) new(1)]
  have x2: "?x2 = ?x1\<lparr>pkt_data := pkt_data p\<rparr>" if "data_len p \<noteq> 0" using that by simp
  have x1: "?x2 = ?x1" if "\<not> data_len p \<noteq> 0" using that new(1) by simp
  have "reads (chain ?ps) ?x1 ?bs (packet_canon sha1 ver p)"
    unfolding d(1) by (rule reads_opt [OF _ x1 s3]) (simp_all add: d(2) x2)
  then have "reads (chain (optional (bit (eflags p) 0) q # ?ps)) ?x1 ?bs (packet_canon sha1 ver p)" for q
    using frag by (simp add: optional_def reads_def)
  then show ?thesis
    unfolding packet_parse_body_def bit_header by (intro reads_assign reads_depend) (simp add: len)
qed

lemma packet_reads:
  assumes fits: "packet_fits ver p" and frag: "\<not> bit (eflags p) 0"
  shows "reads (packet_parse_new sha1 ver) packet_new (packet_ser ver p) (packet_canon sha1 ver p)"
proof -
  let ?x = "packet_new\<lparr>pkt_seq := pkt_seq p, ack_seq := ack_seq p, ack_mask := ack_mask p,
    stream_id := stream_id p\<rparr>"
  let ?short = "if stream_id p > 3 then 3 else stream_id p"
  let ?l = "of_nat (data_len p) OR push_bit 11 (ucast (eflags p)) :: u16"
  let ?bs = "(if data_len p \<noteq> 0 then the (pkt_data p) else [])
     @ (if bit (flags_of p) 1 then le32 (recv_ts p) else [])
     @ (if bit (flags_of p) 2 then mask_ser wbytes_bool wbytes_ser (extra_ec p) else [])
     @ (if bit (flags_of p) 3 then array_ser (wextra_ser ver) (extra_signaling p) else [])"
  have b: "data_len p < 2 ^ 11" "unat (eflags p) < 2 ^ 5" using fits by (auto simp: packet_fits_def)
  have len: "reads (chain [rd_let (try_len (bit (flags_of p) 0)) (packet_parse_body sha1 ver (header_byte p))]) ?x
      ((if bit (flags_of p) 0 then le16 ?l else [of_nat (data_len p)]) @ ?bs) (packet_canon sha1 ver p)"
  proof (rule reads_last, cases "bit (flags_of p) 0")
    case True
    then show "reads (rd_let (try_len (bit (flags_of p) 0)) (packet_parse_body sha1 ver (header_byte p))) ?x
      ((if bit (flags_of p) 0 then le16 ?l else [of_nat (data_len p)]) @ ?bs) (packet_canon sha1 ver p)"
      using reads_let16 [where k = "packet_parse_body sha1 ver (header_byte p)", OF packet_body_reads [OF fits frag len_field [OF b] refl]] by (simp only: rd_let_len if_True)
  next
    case False
    then have z: "eflags p = 0" "data_len p < 256" by (simp_all add: bit_flags_of)
    have u: "ucast (of_nat (data_len p) :: byte) = (of_nat (data_len p) :: u16)"
      using z(2) by (simp add: word_unat_eq_iff unsigned_ucast_eq unsigned_of_nat take_bit_nat_eq_self)
    have l: "?l = ucast (of_nat (data_len p) :: byte)" using z u by simp
    have "reads (packet_parse_body sha1 ver (header_byte p) (ucast (of_nat (data_len p) :: byte))) ?x ?bs (packet_canon sha1 ver p)"
      using packet_body_reads [OF fits frag len_field [OF b] refl] unfolding l .
    from reads_let8 [where k = "\<lambda>v. packet_parse_body sha1 ver (header_byte p) (ucast v)", OF this] False
    show "reads (rd_let (try_len (bit (flags_of p) 0)) (packet_parse_body sha1 ver (header_byte p))) ?x
      ((if bit (flags_of p) 0 then le16 ?l else [of_nat (data_len p)]) @ ?bs) (packet_canon sha1 ver p)"
      by (simp only: rd_let_len if_False append_Cons append_Nil)
  qed
  have "reads (chain [optional (?short = 3) (rd8 (\<lambda>v. stream_id_update (\<lambda>_. v))),
       rd_let (try_len (bit (flags_of p) 0)) (packet_parse_body sha1 ver (header_byte p))]) (?x\<lparr>stream_id := ?short\<rparr>)
      ((if ?short = 3 then [stream_id p] else [])
        @ (if bit (flags_of p) 0 then le16 ?l else [of_nat (data_len p)]) @ ?bs) (packet_canon sha1 ver p)"
    by (rule reads_opt [OF _ _ len]) (auto intro: reads_eq [OF reads_prim(1)] split: if_splits)
  then show ?thesis
    unfolding packet_parse_new_def packet_ser_def Let_def header_byte_def [symmetric]
    by (intro reads_let8 reads32 reads_assign reads_guard reads_depend) (simp_all add: header_byte_stream bit_header)
qed


subsection \<open>Fragments\<close>

lemma packet_head_run:
  fixes s :: istream
  assumes "iok s" "rest s = header_byte p # le32 (pkt_seq p) @ le32 (ack_seq p) @ le32 (ack_mask p)
      @ (if stream_id p \<ge> 3 then [stream_id p] else []) @ ys"
  shows "\<exists>t. packet_parse_new sha1 ver (packet_new, s)
      = rd_let (try_len (bit (flags_of p) 0)) (packet_parse_body sha1 ver (header_byte p))
          (packet_new\<lparr>pkt_seq := pkt_seq p, ack_seq := ack_seq p, ack_mask := ack_mask p,
             stream_id := stream_id p\<rparr>, t)
    \<and> iok t \<and> rest t = ys"
proof -
  let ?x = "packet_new\<lparr>pkt_seq := pkt_seq p, ack_seq := ack_seq p, ack_mask := ack_mask p,
    stream_id := stream_id p\<rparr>"
  let ?hd = "[rd32 (\<lambda>v. pkt_seq_update (\<lambda>_. v)), rd32 (\<lambda>v. ack_seq_update (\<lambda>_. v)),
      rd32 (\<lambda>v. ack_mask_update (\<lambda>_. v)), assign (stream_id_update (\<lambda>_. header_byte p AND 3)),
      guard (bit (header_byte p) 6),
      depend (\<lambda>p. optional (stream_id p = 3) (rd8 (\<lambda>v. stream_id_update (\<lambda>_. v))))] :: packet parser list"
  let ?bs = "le32 (pkt_seq p) @ le32 (ack_seq p) @ le32 (ack_mask p) @ (if stream_id p \<ge> 3 then [stream_id p] else [])"
  have e: "stream_id p \<ge> 3 \<longleftrightarrow> (if stream_id p > 3 then 3 else stream_id p) = 3" by auto
  let ?short = "if stream_id p > 3 then 3 else stream_id p"
  have "reads (chain [optional (?short = 3) (rd8 (\<lambda>v. stream_id_update (\<lambda>_. v)))])
      (?x\<lparr>stream_id := ?short\<rparr>) (if ?short = 3 then [stream_id p] else []) ?x"
    by (rule reads_opt_last) (auto intro: reads_eq [OF reads_prim(1)] split: if_splits)
  then have "reads (chain ?hd) packet_new ?bs ?x"
    unfolding e by (intro reads32 reads_assign reads_guard reads_depend) (simp_all add: header_byte_stream bit_header)
  moreover have 1: "iok (adv 1 s)" "rest (adv 1 s) = ?bs @ ys"
    using assms by (auto intro!: iok_adv simp: buf_simps)
  ultimately have 2: "chain ?hd (packet_new, adv 1 s) = (Done, ?x, adv (length ?bs) (adv 1 s))"
    by (rule readsD)
  have "packet_parse_new sha1 ver (packet_new, s)
      = chain (?hd @ [rd_let (try_len (bit (header_byte p) 2)) (packet_parse_body sha1 ver (header_byte p))])
          (packet_new, adv 1 s)"
    using assms(2) by (simp add: packet_parse_new_def try_u8_Cons)
  then have 3: "packet_parse_new sha1 ver (packet_new, s)
      = rd_let (try_len (bit (flags_of p) 0)) (packet_parse_body sha1 ver (header_byte p)) (?x, adv (length ?bs) (adv 1 s))"
    unfolding chain_append 2 bit_header by (simp split: prod.splits outcome.splits)
  have "iok (adv (length ?bs) (adv 1 s))" "rest (adv (length ?bs) (adv 1 s)) = ys"
    using skip_prefix [OF 1] by blast+
  with 3 show ?thesis by blast
qed

text \<open>
  C6: a packet for a new peer is read back as it was written, whatever follows: sequence
  number, acknowledgment, stream, flags, data, timestamp, error correction and signaling,
  provided the data is below 2048 bytes and the packet is not a fragment. An empty data
  buffer arrives as none, an empty error correction entry as a null one, and each extra as
  its own round trip says.
\<close>

theorem packet_transfer:
  assumes "packet_fits ver p" "\<not> bit (eflags p) 0" "iok s" "rest s = packet_ser ver p @ xs"
  shows "packet_parse_new sha1 ver (packet_new, s)
    = (Done, packet_canon sha1 ver p, adv (length (packet_ser ver p)) s)"
  using readsD [OF packet_reads [OF assms(1,2)] assms(3,4)] .

definition sample_packet :: packet where
  "sample_packet = packet_new\<lparr>pkt_seq := 7, ack_seq := 5, ack_mask := 3, stream_id := 1,
     pkt_data := Some [1, 2, 3], extra_ec := Some (Some [9]) # replicate 7 None\<rparr>"

lemma sample_packet_fits: "packet_fits ver sample_packet" "\<not> bit (eflags sample_packet) 0"
  by (simp_all add: packet_fits_def sample_packet_def data_len_def wrapped_bool_def bytes_bool_def
      wbytes_valid_def packet_new_def packet0_new_def packet0.defs)

theorem packet_transfer_witness:
  "fst (packet_parse_new (\<lambda>_. []) \<lparr>peer_version = 10, max_layer = 110\<rparr>
     (packet_new, istream_of (packet_ser \<lparr>peer_version = 10, max_layer = 110\<rparr> sample_packet))) = Done"
  using packet_transfer [OF sample_packet_fits, of "istream_of (packet_ser \<lparr>peer_version = 10, max_layer = 110\<rparr> sample_packet)" _ "[]"]
  by (simp add: buf_simps)

lemma chain_assign: "chain (assign f # ps) (x, s) = chain ps (f x, s)"
  by simp

lemma chain_depend: "chain (depend k # ps) (x, s) = chain (k x # ps) (x, s)"
  by simp

lemma fragment_data_refused:
  assumes "rest t = d" "iok t" "unat (len AND 0x7FF) = length d"
  shows "fst (chain (optional True (chain
      [rd8 (\<lambda>v. fragment_count_update (\<lambda>_. v)), rd8 (\<lambda>v. fragment_index_update (\<lambda>_. v))])
    # optional (len AND 0x7FF \<noteq> 0) (chain [assign f, rd_bytes (unat (len AND 0x7FF)) g]) # ps) (x, t)) = Refused"
proof (cases d)
  case Nil
  then show ?thesis using assms by (simp add: optional_def rd8_def try_u8_conv)
next
  case (Cons a d1)
  then have 1: "try_u8 t = (Some a, adv 1 t)" "rest (adv 1 t) = d1" "iok (adv 1 t)"
    using assms by (auto intro!: iok_adv simp: buf_simps)
  show ?thesis
  proof (cases d1)
    case Nil
    then show ?thesis using 1 by (simp add: optional_def rd8_def try_u8_conv)
  next
    case (Cons b d2)
    then have 2: "try_u8 (adv 1 t) = (Some b, adv 2 t)" "rest (adv 2 t) = d2" "iok (adv 2 t)"
      using 1 assms \<open>d = a # d1\<close> by (auto intro!: iok_adv simp: buf_simps numeral_2_eq_2)
    have 3: "unat (len AND 0x7FF) = length d2 + 2" using assms(3) Cons \<open>d = a # d1\<close> by simp
    then have "try_bytes (unat (len AND 0x7FF)) (adv 2 t) = (None, adv 2 t)"
      using 2(2,3) by (simp add: try_bytes_conv)
    moreover have "len AND 0x7FF \<noteq> 0" using 3 by (metis add_is_0 unat_0 zero_neq_numeral)
    ultimately show ?thesis using 1 2 by (simp add: optional_def rd8_def rd_bytes_def)
  qed
qed

text \<open>
  A fragment does not survive the transfer. The parser reads the fragment count and index
  of a packet with the fragment flag, but the serializer never writes them; so when the data
  is the last thing in the packet, as it is without timestamp and signaling, the parser takes
  the first two bytes of the data for them and then refuses the packet as too short.
\<close>

theorem packet_fragment_refused:
  assumes "bit (eflags p) 0" "data_len p < 2048" "unat (eflags p) < 32" "recv_ts p = 0"
    "\<not> mask_bool wbytes_bool (extra_ec p)" "\<not> array_bool (extra_signaling p)"
  shows "fst (packet_parse_new sha1 ver (packet_new, istream_of (packet_ser ver p))) = Refused"
proof -
  define l where "l = (of_nat (data_len p) OR push_bit 11 (ucast (eflags p)) :: u16)"
  let ?d = "if data_len p \<noteq> 0 then the (pkt_data p) else []"
  have ne: "eflags p \<noteq> 0" using assms(1) by auto
  have fl: "bit (flags_of p) 0" "\<not> bit (flags_of p) 1" "\<not> bit (flags_of p) 2" "\<not> bit (flags_of p) 3"
    using assms ne unfolding bit_flags_of by simp_all
  have "stream_id p \<ge> 3 \<longleftrightarrow> (if stream_id p > 3 then 3 else stream_id p) = 3" by auto
  then have "rest (istream_of (packet_ser ver p)) = header_byte p # le32 (pkt_seq p) @ le32 (ack_seq p)
      @ le32 (ack_mask p) @ (if stream_id p \<ge> 3 then [stream_id p] else []) @ le16 l @ ?d"
    using fl unfolding rest_istream_of packet_ser_def Let_def header_byte_def l_def by simp
  from packet_head_run [OF iok_istream_of this, of sha1 ver] obtain t x where
    t: "packet_parse_new sha1 ver (packet_new, istream_of (packet_ser ver p))
        = rd_let (try_len (bit (flags_of p) 0)) (packet_parse_body sha1 ver (header_byte p)) (x, t)"
      "iok t" "rest t = le16 l @ ?d" by blast
  have t2: "rest (adv 2 t) = ?d" "iok (adv 2 t)" using t by (auto intro!: iok_adv simp: buf_simps)
  have lf: "ucast (drop_bit 11 l) = eflags p" "l AND 0x7FF = of_nat (data_len p)"
    using len_field [of "data_len p" "eflags p"] assms(2,3) by (simp_all add: l_def)
  have "length ?d = data_len p" by (auto simp: data_len_def split: option.splits)
  then have "unat (l AND 0x7FF) = length ?d" using assms(2) unfolding lf by (simp add: unat_of_nat)
  note r = fragment_data_refused [OF t2 this]
  have "packet_parse_new sha1 ver (packet_new, istream_of (packet_ser ver p))
      = packet_parse_body sha1 ver (header_byte p) l (x, adv 2 t)"
    unfolding t(1) using fl(1) try_u16_le [OF t(3)] by (simp only: rd_let_len simp_thms rd_let.simps) simp
  moreover have "eflags (eflags_update (\<lambda>_. eflags p) x) = eflags p" "bit (eflags p) 0 = True"
    using assms(1) by simp_all
  ultimately show ?thesis
    unfolding packet_parse_body_def chain_assign chain_depend lf(1) by (simp only: r)
qed


theorem packet_fragment_refused_witness:
  "fst (packet_parse_new (\<lambda>_. []) \<lparr>peer_version = 10, max_layer = 110\<rparr> (packet_new,
     istream_of (packet_ser \<lparr>peer_version = 10, max_layer = 110\<rparr>
       (packet_new\<lparr>eflags := 1, fragment_count := 2, pkt_data := Some [1, 2, 3]\<rparr>)))) = Refused"
  by (rule packet_fragment_refused)
    (simp_all add: packet_new_def packet0_new_def packet0.defs data_len_def mask_bool_def
      wrapped_bool_def array_bool_def list_ex_iff)

subsection \<open>Size, and arbitrary bytes\<close>

lemma extra_valid_size:
  "\<not> (is_new ver \<and> peer_version ver < 5) \<Longrightarrow> extra_valid ver e \<Longrightarrow>
     wextra_size ver (Some e) = length (wextra_ser ver (Some e))"
  using constructor_size_ser [of ver "ebody e"]
  by (simp add: wextra_size_def wrapped_ser_def Let_def extra_size_def extra_valid_def extra_ser_def)

text \<open>
  \<^verbatim>\<open>getSize\<close>, by which the sender splits what it has into packets, is not the size of
  the packet: it leaves out the data itself, and the second stream id byte that stream 3
  takes on the wire. Everything else is counted exactly.
\<close>

theorem packet_size_exact:
  assumes "is_new ver" "peer_version ver \<ge> 5" "packet_fits ver p"
  shows "length (packet_ser ver p)
    = packet_size ver p + data_len p + (if stream_id p = 3 then 1 else 0)"
proof -
  have v: "\<not> (is_new ver \<and> peer_version ver < 5)" using assms(2) by simp
  have ec: "mask_size wbytes_bool wbytes_size (extra_ec p) = length (mask_ser wbytes_bool wbytes_ser (extra_ec p))"
    by (rule mask_size_ser) (simp add: wbytes_size_ser)
  have sg: "array_size (wextra_size ver) (extra_signaling p) = length (array_ser (wextra_ser ver) (extra_signaling p))"
    by (rule array_size_ser)
      (use assms(3) extra_valid_size [OF v] in \<open>auto simp: packet_fits_def list_all_iff split: option.splits\<close>)
  have d: "length (the (pkt_data p)) = data_len p" if "data_len p \<noteq> 0"
    using that by (auto simp: data_len_def split: option.splits)
  have "stream_id p = 3 \<or> stream_id p > 3 \<or> stream_id p < 3" by auto
  then show ?thesis
    unfolding packet_ser_def packet_size_def Let_def bit_flags_of ec sg using assms(1) d by auto
qed

theorem packet_size_exact_witness:
  "length (packet_ser \<lparr>peer_version = 10, max_layer = 110\<rparr> sample_packet)
     = packet_size \<lparr>peer_version = 10, max_layer = 110\<rparr> sample_packet + 3"
  using packet_size_exact [OF _ _ sample_packet_fits(1), of "\<lparr>peer_version = 10, max_layer = 110\<rparr>"]
  by (simp add: is_new_def) (simp add: sample_packet_def data_len_def packet_new_def packet0_new_def packet0.defs)

lemma try_len_stays: "try_len b s = (r, t) \<Longrightarrow> stays s t"
  by (auto simp: try_len_def dest: try_u8_stays try_u16_stays split: if_splits prod.splits)

lemma tame_packet_body: "tame (packet_parse_body sha1 ver f len)"
  unfolding packet_parse_body_def by (intro tame_intros tame_wextra)

lemma tame_packet_new: "tame (packet_parse_new sha1 ver)"
  unfolding packet_parse_new_def
  by (intro tame_intros tame_let [OF try_len_stays] tame_packet_body)

text \<open>
  C11: parsing a packet in the new format never throws and never reads outside the received
  bytes, whatever they are.
\<close>

theorem packet_parse_total:
  assumes "iok s" "packet_parse_new sha1 ver (p, s) = (r, q, t)"
  shows "(r = Done \<or> r = Refused) \<and> ibuf t = ibuf s \<and> ioff s \<le> ioff t \<and> ioff t \<le> length (ibuf s)"
proof -
  have "stays s t" "\<forall>e. r \<noteq> Raised e" using tameD [OF tame_packet_new assms] by auto
  then show ?thesis using assms(1) by (cases r) (auto simp: stays_def iok_def)
qed

theorem packet_parse_total_witness:
  "fst (packet_parse_new (\<lambda>_. []) \<lparr>peer_version = 10, max_layer = 110\<rparr> (packet_new, istream_of [255, 255])) \<noteq> Raised OutOfRange"
proof -
  obtain r w t where 1: "packet_parse_new (\<lambda>_. []) \<lparr>peer_version = 10, max_layer = 110\<rparr>
      (packet_new, istream_of [255, 255]) = (r, w, t)"
    by (cases "packet_parse_new (\<lambda>_. []) \<lparr>peer_version = 10, max_layer = 110\<rparr> (packet_new, istream_of [255, 255])") auto
  with packet_parse_total [OF iok_istream_of 1] show ?thesis by auto
qed

subsection \<open>Preparation\<close>

lemma attach_extras_eq:
  "attach_extras ep xs p = (p\<lparr>extra_signaling := extra_signaling p @ map ue_data (filter (goes_to ep) xs)\<rparr>,
     map (\<lambda>x. if goes_to ep x then note_seq (pkt_seq p) x else x) xs)"
  by (induction ep xs p rule: attach_extras.induct) auto

text \<open>
  Preparing a packet gives it the next number of its stream unless it already has one,
  together with the acknowledgment state of that moment; then the signaling of the packet is
  exactly the pending signaling that may go to this endpoint, in order, and each of these
  entries remembers the packet's number as the latest one it was sent in. The entries bound
  to another endpoint are untouched.
\<close>

theorem prepare_extras_effect:
  assumes "prepare_extras pm xs ep p = (q, ys, pm')"
  shows "(pkt_seq p = 0 \<longrightarrow> pkt_seq q = local_seq pm \<and> local_seq pm' = local_seq pm + 1
            \<and> ack_seq q = last_remote_seq pm \<and> ack_mask q = last_remote_mask pm \<and> stream_id q = transport_id pm)
    \<and> (pkt_seq p \<noteq> 0 \<longrightarrow> q = p\<lparr>extra_signaling := extra_signaling q\<rparr> \<and> pm' = pm)
    \<and> extra_signaling q = map ue_data (filter (\<lambda>x. ue_endpoint x = 0 \<or> ue_endpoint x = ep) xs)
    \<and> map ue_data ys = map ue_data xs
    \<and> (\<forall>i < length xs. ys ! i = (if ue_endpoint (xs ! i) = 0 \<or> ue_endpoint (xs ! i) = ep
          then (xs ! i)\<lparr>ue_seqs := hist_add (pkt_seq q) (ue_seqs (xs ! i))\<rparr> else xs ! i))"
proof -
  have g: "goes_to ep = (\<lambda>x. ue_endpoint x = 0 \<or> ue_endpoint x = ep)" by (auto simp: goes_to_def)
  show ?thesis
    using assms by (cases "pkt_seq p = 0")
      (auto simp: prepare_extras_def prepare_def next_local_seq_def attach_extras_eq note_seq_def g)
qed

theorem prepare_extras_effect_witness:
  "map ue_data (fst (snd (prepare_extras (pm_new 0 1) [unacked_extra_new None 0, unacked_extra_new None 5] 4 packet_new)))
     = [None, None]"
proof -
  obtain q ys pm' where 1: "prepare_extras (pm_new 0 1) [unacked_extra_new None 0, unacked_extra_new None 5] 4 packet_new = (q, ys, pm')"
    by (cases "prepare_extras (pm_new 0 1) [unacked_extra_new None 0, unacked_extra_new None 5] 4 packet_new") auto
  from prepare_extras_effect [OF this] 1 show ?thesis by (simp add: unacked_extra_new_def)
qed

end
