(* ===== verification/Omap.thy ===== *)
theory Omap
  imports Main
begin

section \<open>Ordered maps (\<open>std::map\<close>)\<close>

text \<open>
  The model of \<^verbatim>\<open>std::map<int64_t, T>\<close>: the pairs in the order of their keys, which is the
  order in which the code iterates over them. The clients (the endpoints of a call) use it
  through the laws of the locale \<open>ordered_map\<close>.
\<close>

type_synonym 'v omap = "(int \<times> 'v) list"

fun om_put :: "int \<Rightarrow> 'v \<Rightarrow> 'v omap \<Rightarrow> 'v omap" where
  "om_put k v [] = [(k, v)]"
| "om_put k v ((i, w) # m) = (if k < i then (k, v) # (i, w) # m
     else if k = i then (k, v) # m
     else (i, w) # om_put k v m)"

definition om_erase :: "int \<Rightarrow> 'v omap \<Rightarrow> 'v omap" where
  "om_erase k m = filter (\<lambda>(i, _). i \<noteq> k) m"

abbreviation om_get :: "'v omap \<Rightarrow> int \<Rightarrow> 'v option" where
  "om_get m \<equiv> map_of m"

text \<open>In place, for each value.\<close>

definition om_map :: "('v \<Rightarrow> 'v) \<Rightarrow> 'v omap \<Rightarrow> 'v omap" where
  "om_map f m = map (\<lambda>(i, v). (i, f v)) m"

definition om_modify :: "int \<Rightarrow> ('v \<Rightarrow> 'v) \<Rightarrow> 'v omap \<Rightarrow> 'v omap" where
  "om_modify k f m = map (\<lambda>(i, v). (i, if i = k then f v else v)) m"

definition om_ok :: "'v omap \<Rightarrow> bool" where
  "om_ok m \<longleftrightarrow> sorted (map fst m) \<and> distinct (map fst m)"

lemma find_least:
  "sorted (map fst xs) \<Longrightarrow> find P xs = Some (k, v) \<Longrightarrow> (i, w) \<in> set xs \<Longrightarrow> P (i, w) \<Longrightarrow> k \<le> (i :: int)"
  by (induction xs) (auto split: if_splits)

locale ordered_map =
  fixes put :: "int \<Rightarrow> 'v \<Rightarrow> 'm \<Rightarrow> 'm"
    and erase :: "int \<Rightarrow> 'm \<Rightarrow> 'm"
    and get :: "'m \<Rightarrow> int \<Rightarrow> 'v option"
    and entries :: "'m \<Rightarrow> (int \<times> 'v) list"
    and ok :: "'m \<Rightarrow> bool"
  assumes get_put: "get (put k v m) = (get m)(k \<mapsto> v)"
    and get_erase: "ok m \<Longrightarrow> get (erase k m) = (get m)(k := None)"
    and get_entries: "ok m \<Longrightarrow> map_of (entries m) = get m"
    and sorted_entries: "ok m \<Longrightarrow> sorted (map fst (entries m)) \<and> distinct (map fst (entries m))"
    and ok_put: "ok m \<Longrightarrow> ok (put k v m)"
    and ok_erase: "ok m \<Longrightarrow> ok (erase k m)"
begin

definition put_all :: "(int \<times> 'v) list \<Rightarrow> 'm \<Rightarrow> 'm" where
  "put_all kvs m = fold (\<lambda>(k, v). put k v) kvs m"

lemma ok_put_all: "ok m \<Longrightarrow> ok (put_all kvs m)"
  unfolding put_all_def by (induction kvs arbitrary: m) (auto simp: ok_put)

lemma get_put_all: "distinct (map fst kvs) \<Longrightarrow> get (put_all kvs m) = get m ++ map_of kvs"
  unfolding put_all_def
proof (induction kvs arbitrary: m)
  case (Cons kv kvs)
  then show ?case
    by (cases kv) (auto simp: get_put map_add_def fun_eq_iff split: option.splits dest: map_of_SomeD
        intro!: image_eqI [where f = fst])
qed simp

lemma in_entries: "ok m \<Longrightarrow> (k, v) \<in> set (entries m) \<longleftrightarrow> get m k = Some v"
  using get_entries [of m] sorted_entries [of m] by (metis map_of_eq_Some_iff)

text \<open>The first entry with a property is the one with the smallest key.\<close>

lemma first_entry_least:
  assumes "ok m" "find P (entries m) = Some (k, v)" "get m i = Some w" "P (i, w)"
  shows "k \<le> i"
proof -
  have "(i, w) \<in> set (entries m)" using assms(1,3) by (simp add: in_entries)
  moreover have "sorted (map fst (entries m))" using assms(1) by (simp add: sorted_entries)
  ultimately show ?thesis using assms(2,4) find_least by metis
qed

end

lemma om_get_put: "om_get (om_put k v m) = (om_get m)(k \<mapsto> v)"
  by (induction k v m rule: om_put.induct) (auto simp: fun_eq_iff)

lemma om_keys_put: "set (map fst (om_put k v m)) = insert k (set (map fst m))"
  by (induction k v m rule: om_put.induct) auto

lemma om_ok_put: "om_ok m \<Longrightarrow> om_ok (om_put k v m)"
proof (induction k v m rule: om_put.induct)
  case (2 k v i w m)
  then show ?case using om_keys_put [of k v m] by (auto simp: om_ok_def)
qed (simp add: om_ok_def)

lemma om_get_erase: "om_get (om_erase k m) = (om_get m)(k := None)"
  by (induction m) (auto simp: om_erase_def fun_eq_iff)

lemma om_ok_erase: "om_ok m \<Longrightarrow> om_ok (om_erase k m)"
  by (auto simp: om_ok_def om_erase_def sorted_filter distinct_map_filter)

interpretation om: ordered_map om_put om_erase om_get "\<lambda>m. m" om_ok
  by unfold_locales (simp_all add: om_get_put om_get_erase om_ok_put om_ok_erase, auto simp: om_ok_def)

lemma om_get_map [simp]: "om_get (om_map f m) k = map_option f (om_get m k)"
  by (induction m) (auto simp: om_map_def)

lemma om_ok_map [simp]: "om_ok (om_map f m) = om_ok m"
  by (simp add: om_ok_def om_map_def case_prod_unfold comp_def)

lemma om_get_modify [simp]: "om_get (om_modify k f m) i = (if i = k then map_option f (om_get m i) else om_get m i)"
  by (induction m) (auto simp: om_modify_def)

lemma om_ok_modify [simp]: "om_ok (om_modify k f m) = om_ok m"
  by (simp add: om_ok_def om_modify_def case_prod_unfold comp_def)

lemma om_values_put: "snd ` set (om_put k v m) \<subseteq> insert v (snd ` set m)"
  by (induction k v m rule: om_put.induct) auto

lemma om_values_get: "om_get m k = Some v \<Longrightarrow> v \<in> snd ` set m"
  by (metis image_eqI map_of_SomeD snd_conv)

end
