(* ===== verification/Session.thy ===== *)
theory Session
  imports Jitter Messages Reassembler Congestion Crypto Packets Omap
begin

section \<open>The call: its state, streams and signaling (VoIPController.h, Tick.cpp, PublicAPI.cpp)\<close>

text \<open>
  The controller runs everything on its message thread, so its state extends the state of
  that thread, with the tasks below as the posted functions. This theory holds the state of the
  call, the streams, and the extras that wait for an acknowledgment; later theories
  extend the record by the endpoints, the queues of packets and the estimates.

  The clock and the devices are read from an environment: an operation sees one value of
  \<^verbatim>\<open>GetCurrentTime()\<close> and one answer of each device. Calls into the application, the audio
  devices and the sockets are recorded in the order in which they are made.
\<close>

datatype call_state = Created | Wait_Init | Wait_Init_Ack | Established | Failed | Reconnecting

datatype call_error = Error_Unknown | Error_Incompatible | Error_Timeout | Error_Audio_IO | Error_Proxy

text \<open>A datagram with its source (NetworkSocket.h).\<close>

record net_packet =
  np_data :: "byte list"
  np_addr :: naddr
  np_port :: u16
  np_tcp :: bool

datatype task =
    Notify_State call_state
  | Send_Mic_Flags
  | Run_Update_RTT | Run_Update_Audio_Bitrate | Run_Update_Congestion | Run_Update_Signal_Bars | Run_Tick
  | Run_Send_Udp_Pings | Run_Evaluate_Udp_Pings
  | Run_Resend_Endpoints_Request
  | Run_Update_Reliable
  | Run_Stop_Dropping
  | Run_Establish
  | Run_Establish_If_Waiting
  | Run_Key_Received "byte list" | Run_Upgrade_Requested | Run_Key_Sent
  | Run_Send_Group_Key "byte list" | Run_Request_Upgrade
  | Run_Send_Init | Run_Init_Timeout | Run_Send_Relay_Pings | Run_Try_Send
  | Run_Reset_Udp | Run_Handover | Run_Frame "byte list" "byte list" | Run_Received net_packet

datatype outside =
    State_Changed call_state | Key_Received "byte list" | Key_Sent | Upgrade_Requested | Bars_Changed int
  | Input_Start | Input_Stop | Output_Start | Output_Stop | Echo_Enable bool | Echo_Voice_Detection bool | Start_Decoder bool | Start_Encoder
  | Video_Enabled bool | Video_Paused bool
  | Udp_Send naddr u16 "byte list"
  | Connect_Tcp int naddr u16
  | Cancel_Select | Close_Tcp int | Close_Proxy | Connect_Proxy | Interface_Changed

record env =
  now :: real
  input_ok :: "bool option"
  output_ok :: "bool option"
  has_echo :: bool
  has_renderer :: bool
  crypto :: crypto_fns
  cfg_bool :: "string \<Rightarrow> bool \<Rightarrow> bool"
  cfg_uint :: "string \<Rightarrow> u32 \<Rightarrow> u32"
  cfg_dbl :: "string \<Rightarrow> real \<Rightarrow> real"
  udp_ready :: bool
  tcp_ready :: "int \<Rightarrow> bool"
  ping_id :: "int \<Rightarrow> int"
  lan_addr :: naddr
  local_port :: u16
  legacy_rnd :: "u32 \<Rightarrow> u64 \<times> byte list"
  my_decoders :: "u32 list"
  my_encoders :: "u32 list"
  my_resolution :: byte
  raw_mask :: u32
  proxy_tested :: bool
  proxy_outcome :: "bool option"

text \<open>
  The devices: \<open>None\<close> for one that does not exist, otherwise \<^verbatim>\<open>IsInitialized()\<close>. The getters of
  the server configuration with their defaults; \<^verbatim>\<open>IsReadyToSend()\<close> of the UDP socket and of the
  TCP socket of an endpoint; the random number of the ping that is sent to an endpoint; the
  address of the local interface and the port of the UDP socket; the random bytes in the
  headers for old peers; the video codecs of the device and its largest resolution; the value of
  a mask that is not initialized; whether the SOCKS5 proxy is the one tested last, and the outcome of
  the connection to it (\<open>None\<close>: cancelled).
\<close>

subsection \<open>Streams (Stream.h, PacketSender.h)\<close>

definition TYPE_AUDIO :: byte where "TYPE_AUDIO = 1"
definition TYPE_VIDEO :: byte where "TYPE_VIDEO = 2"
definition TYPE_SIGNALING :: byte where "TYPE_SIGNALING = 0"

record out_stream =
  os_id :: byte
  os_type :: byte
  os_enabled :: bool
  os_paused :: bool
  os_codec :: u32
  os_frame :: u16
  os_extra_ec :: bool
  os_pm :: packet_manager

record in_stream =
  is_id :: byte
  is_type :: byte
  is_enabled :: bool
  is_paused :: bool
  is_codec :: u32
  is_frame :: u16
  is_extra_ec :: bool
  is_jitter :: "jbuf option"
  is_reassembler :: "reassembler option"
  is_width :: u16
  is_height :: u16
  is_csd :: "byte list list"
  is_csd_valid :: bool

record session = "task mthread" +
  call_state :: call_state
  last_error :: call_error
  state_change_time :: real
  was_established :: bool
  mic_muted :: bool
  cur_ver :: version
  cur_keys :: keys
  use_mtproto2 :: bool
  peer_caps :: u32
  did_receive_key :: bool
  did_receive_key_ack :: bool
  did_send_key :: bool
  did_send_upgrade :: bool
  did_invoke_upgrade :: bool
  current_extras :: "unacked_extra list"
  out_streams :: "out_stream list"
  in_streams :: "in_stream list"
  calls :: "outside list"

definition call_out :: "outside \<Rightarrow> 'z session_scheme \<Rightarrow> 'z session_scheme" where
  "call_out c s = s\<lparr>calls := calls s @ [c]\<rparr>"

text \<open>\<^verbatim>\<open>messageThread.Post\<close>; the delays of the code are never negative.\<close>

definition post :: "env \<Rightarrow> task \<Rightarrow> real \<Rightarrow> real \<Rightarrow> 'z session_scheme \<Rightarrow> u32 \<times> 'z session_scheme" where
  "post env f delay ivl s = (case mt_post (now env) (Some f) delay ivl s of
     None \<Rightarrow> (0, s) | Some r \<Rightarrow> r)"

definition post_only :: "env \<Rightarrow> task \<Rightarrow> real \<Rightarrow> real \<Rightarrow> 'z session_scheme \<Rightarrow> 'z session_scheme" where
  "post_only env f delay ivl s = snd (post env f delay ivl s)"

definition first_of_type :: "byte \<Rightarrow> out_stream list \<Rightarrow> out_stream option" where
  "first_of_type ty ss = find (\<lambda>x. os_type x = ty) ss"

fun update_first :: "('a \<Rightarrow> bool) \<Rightarrow> ('a \<Rightarrow> 'a) \<Rightarrow> 'a list \<Rightarrow> 'a list" where
  "update_first P f [] = []"
| "update_first P f (x # xs) = (if P x then f x # xs else x # update_first P f xs)"

subsection \<open>Extras (SendExtra, ProcessAcknowledgedOutgoingExtra)\<close>

definition plain_extra :: "extra_body \<Rightarrow> wextra" where
  "plain_extra b = Some \<lparr>ehash = 0, ebody = b\<rparr>"

definition wid :: "wextra \<Rightarrow> byte" where
  "wid w = get_id (ebody (the w))"

definition same_kind :: "wextra \<Rightarrow> int \<Rightarrow> unacked_extra \<Rightarrow> bool" where
  "same_kind w ep x \<longleftrightarrow> wid (ue_data x) = wid w \<and> ue_endpoint x = ep"

text \<open>An extra of the same type for the same endpoint is replaced, and counts as not yet sent.\<close>

fun put_extra :: "wextra \<Rightarrow> int \<Rightarrow> unacked_extra list \<Rightarrow> unacked_extra list" where
  "put_extra w ep [] = [unacked_extra_new w ep]"
| "put_extra w ep (x # xs) = (if same_kind w ep x
     then x\<lparr>ue_seqs := hist_reset (ue_seqs x), ue_data := w\<rparr> # xs
     else x # put_extra w ep xs)"

definition send_extra :: "extra_body \<Rightarrow> int \<Rightarrow> 'z session_scheme \<Rightarrow> 'z session_scheme" where
  "send_extra b ep s = s\<lparr>current_extras := put_extra (plain_extra b) ep (current_extras s)\<rparr>"

definition acknowledged_extra :: "env \<Rightarrow> unacked_extra \<Rightarrow> 'z session_scheme \<Rightarrow> 'z session_scheme" where
  "acknowledged_extra env x s = (if wid (ue_data x) = 5 \<and> \<not> did_receive_key_ack s
     then post_only env Run_Key_Sent 0 0 (s\<lparr>did_receive_key_ack := True\<rparr>) else s)"

definition stream_flags_of :: "out_stream \<Rightarrow> byte" where
  "stream_flags_of x = (if os_enabled x then 1 else 0)
     OR (if os_type x = TYPE_AUDIO \<and> os_extra_ec x then 3 else 0) OR (if os_paused x then 4 else 0)"

definition send_stream_flags :: "out_stream \<Rightarrow> 'z session_scheme \<Rightarrow> 'z session_scheme" where
  "send_stream_flags x s = send_extra (ExtraStreamFlags
     \<lparr>sf_stream_id = os_id x, sf_flags = stream_flags_of x\<rparr>) 0 s"

definition stream_info_of :: "out_stream \<Rightarrow> stream_info" where
  "stream_info_of x =
    (let a = stream_info_new\<lparr>si_stream_id := os_id x, si_enabled := os_enabled x, si_type := os_type x\<rparr>;
         b = (if os_type x = TYPE_SIGNALING then a else a\<lparr>si_codec := os_codec x\<rparr>)
     in if os_type x = TYPE_AUDIO then b\<lparr>si_frame_duration := os_frame x\<rparr> else b)"

definition outgoing_init :: "u32 \<Rightarrow> out_stream list" where
  "outgoing_init mask0 =
    [\<lparr>os_id = 0, os_type = TYPE_SIGNALING, os_enabled = True, os_paused = False, os_codec = 0,
      os_frame = 0, os_extra_ec = False, os_pm = pm_new mask0 0\<rparr>,
     \<lparr>os_id = 1, os_type = TYPE_AUDIO, os_enabled = True, os_paused = False, os_codec = Opus,
      os_frame = 60, os_extra_ec = False, os_pm = pm_new mask0 1\<rparr>]"

subsection \<open>State changes\<close>

definition enter_state :: "env \<Rightarrow> call_state \<Rightarrow> 'z session_scheme \<Rightarrow> 'z session_scheme" where
  "enter_state env st s = post_only env (Notify_State st) 0 0 (s\<lparr>call_state := st, state_change_time := now env\<rparr>)"

definition set_mic_mute :: "env \<Rightarrow> bool \<Rightarrow> 'z session_scheme \<Rightarrow> 'z session_scheme" where
  "set_mic_mute env mute s = (if mic_muted s = mute then s else
    (let s1 = s\<lparr>mic_muted := mute\<rparr>;
         s2 = (if input_ok env \<noteq> None then call_out (if mute then Input_Stop else Input_Start) s1 else s1)
     in if input_ok env = Some False
        then enter_state env Failed (s2\<lparr>last_error := Error_Audio_IO\<rparr>)
        else let s3 = (if has_echo env then call_out (Echo_Enable (\<not> mute)) s2 else s2)
          in if call_state s3 = Established then post_only env Send_Mic_Flags 0 0 s3 else s3))"

definition set_state :: "env \<Rightarrow> call_state \<Rightarrow> 'z session_scheme \<Rightarrow> 'z session_scheme" where
  "set_state env st s =
    (let s1 = enter_state env st s in
     if st = Established then
       (let s2 = set_mic_mute env (mic_muted s1) s1 in
        if \<not> was_established s2 then
          post_only env Run_Tick 0 (1 / 10)
            (post_only env Run_Update_Signal_Bars 1 1
              (post_only env Run_Update_Congestion 0 1
                (post_only env Run_Update_Audio_Bitrate 0 (3 / 10)
                  (post_only env Run_Update_RTT (1 / 10) (1 / 2) (s2\<lparr>was_established := True\<rparr>)))))
        else s2)
     else s1)"

text \<open>The tasks of this part.\<close>

definition send_mic_flags :: "'z session_scheme \<Rightarrow> 'z session_scheme" where
  "send_mic_flags s = (case first_of_type TYPE_AUDIO (out_streams s) of
     None \<Rightarrow> s
   | Some x \<Rightarrow> (let y = x\<lparr>os_enabled := \<not> mic_muted s\<rparr> in
       send_stream_flags y (s\<lparr>out_streams := update_first (\<lambda>z. os_type z = TYPE_AUDIO) (\<lambda>_. y) (out_streams s)\<rparr>)))"

definition send_group_key :: "byte list \<Rightarrow> 'z session_scheme \<Rightarrow> 'z session_scheme" where
  "send_group_key key s = (if peer_caps s AND 1 = 0 then s
     else if did_send_key s then s
     else if \<not> is_outgoing (cur_keys s) then s
     else send_extra (ExtraGroupCallKey key) 0 (s\<lparr>did_send_key := True\<rparr>))"

definition request_call_upgrade :: "'z session_scheme \<Rightarrow> 'z session_scheme" where
  "request_call_upgrade s = (if peer_caps s AND 1 = 0 then s
     else if did_send_upgrade s then s
     else if is_outgoing (cur_keys s) then s
     else send_extra ExtraGroupCallUpgrade 0 (s\<lparr>did_send_upgrade := True\<rparr>))"

end
