(* ===== verification/Endpoints.thy ===== *)
theory Endpoints
  imports Session
begin

section \<open>Endpoints and relays (Endpoint.h, Endpoint.cpp, Endpoints.cpp, Tick.cpp, NetworkAPI.cpp)\<close>

text \<open>
  The relays and peer-to-peer addresses through which a call can send: the ordered map from
  their numbers to their records, the endpoint in use and the preferred relay, the addition of
  TCP and IPv6 variants of the relays, and the state machine that finds out with pings whether
  UDP works.
\<close>

subsection \<open>Addresses (NetworkSocket.cpp)\<close>

definition no_address :: naddr where
  "no_address = IPv4 0"

fun addr_empty :: "naddr \<Rightarrow> bool" where
  "addr_empty (IPv6 a) = list_all (\<lambda>b. b = 0) a"
| "addr_empty (IPv4 a) = (a = 0)"

fun prefix_matches :: "nat \<Rightarrow> naddr \<Rightarrow> naddr \<Rightarrow> bool" where
  "prefix_matches n (IPv4 a) (IPv4 b) =
     (let m = push_bit (32 - n) 0xFFFFFFFF in a AND m = b AND m)"
| "prefix_matches n _ _ = False"

subsection \<open>Endpoint\<close>

datatype ep_type = UDP_P2P_INET | UDP_P2P_LAN | UDP_RELAY | TCP_RELAY

record endpoint =
  ep_id :: int
  ep_port :: u16
  ep_addr :: naddr
  ep_v6 :: naddr
  ep_type :: ep_type
  peer_tag :: "byte list"
  last_ping_time :: real
  last_ping_seq :: u32
  ep_rtts :: "real hist"
  self_rtts :: "real hist"
  udp_ping_times :: "real omap"
  ep_rtt :: real
  ep_connected :: bool
  udp_pong_count :: int
  total_pings :: int
  total_replies :: int

text \<open>\<^verbatim>\<open>static_cast<int64_t>(FOURCC(...)) << 32\<close>: the top bit of these is never set.\<close>

definition id_of_name :: "byte \<Rightarrow> byte \<Rightarrow> byte \<Rightarrow> byte \<Rightarrow> int" where
  "id_of_name a b c d = uint (fourcc a b c d) * 2 ^ 32"

definition ID_P2Pv4 :: int where "ID_P2Pv4 = id_of_name 80 50 80 52"
definition ID_LANv4 :: int where "ID_LANv4 = id_of_name 76 65 78 52"
definition ID_P2Pv6 :: int where "ID_P2Pv6 = id_of_name 80 50 80 54"
definition ID_TCP0 :: int where "ID_TCP0 = id_of_name 84 67 80 0"
definition ID_TCP :: int where "ID_TCP = id_of_name 84 67 80 32"
definition ID_IPv6 :: int where "ID_IPv6 = id_of_name 73 80 118 54"

definition is_p2p :: "endpoint \<Rightarrow> bool" where
  "is_p2p e \<longleftrightarrow> ep_type e = UDP_P2P_INET \<or> ep_type e = UDP_P2P_LAN"

definition is_reflector :: "endpoint \<Rightarrow> bool" where
  "is_reflector e \<longleftrightarrow> ep_type e = UDP_RELAY \<or> ep_type e = TCP_RELAY"

definition endpoint_new :: "env \<Rightarrow> int \<Rightarrow> u16 \<Rightarrow> naddr \<Rightarrow> naddr \<Rightarrow> ep_type \<Rightarrow> byte list \<Rightarrow> endpoint" where
  "endpoint_new env i port a v6 ty tag = \<lparr>ep_id = i, ep_port = port, ep_addr = a, ep_v6 = v6,
     ep_type = (if ty = UDP_RELAY \<and> cfg_bool env ''force_tcp'' False then TCP_RELAY else ty),
     peer_tag = tag, last_ping_time = 0, last_ping_seq = 0, ep_rtts = hist_new 6, self_rtts = hist_new 4,
     udp_ping_times = [], ep_rtt = 0, ep_connected = False, udp_pong_count = 0, total_pings = 0,
     total_replies = 0\<rparr>"

definition ipv6_only :: "endpoint \<Rightarrow> bool" where
  "ipv6_only e \<longleftrightarrow> addr_empty (ep_addr e) \<and> \<not> addr_empty (ep_v6 e)"

definition get_address :: "endpoint \<Rightarrow> naddr" where
  "get_address e = (if ipv6_only e then ep_v6 e else ep_addr e)"

definition clean_id :: "endpoint \<Rightarrow> int" where
  "clean_id e =
    (let i = (if ep_type e = TCP_RELAY then ep_id e XOR ID_TCP else ep_id e)
     in if ipv6_only e then i XOR ID_IPv6 else i)"

subsection \<open>The state\<close>

datatype udp_state = Udp_Unknown | Udp_Ping_Pending | Udp_Ping_Sent | Udp_Available | Udp_Not_Available | Udp_Bad

record routing = session +
  endpoints :: "endpoint omap"
  current_endpoint :: int
  preferred_relay :: int
  peer_preferred_relay :: int
  use_tcp :: bool
  use_udp :: bool
  did_add_tcp :: bool
  set_current_tcp :: bool
  did_add_ipv6 :: bool
  my_ipv6 :: naddr
  allow_p2p :: bool
  waiting_peer_info :: bool
  endpoints_req_count :: int
  udp_conn :: udp_state
  udp_ping_count :: int
  udp_ping_timer :: u32
  need_rate :: bool
  need_rate_flags :: u32
  run_receiver :: bool
  via_socks5 :: bool
  udp_is_proxied :: bool
  proxy_supports_udp :: bool

text \<open>
  A new controller. \<^verbatim>\<open>lastError\<close> and the key are not initialized (\<open>e0\<close>, \<open>k0\<close>), nor is the mask
  of received packets of the streams (\<open>mask0\<close>).
\<close>

definition routing_init :: "env \<Rightarrow> call_error \<Rightarrow> keys \<Rightarrow> u32 \<Rightarrow> routing" where
  "routing_init env e0 k0 mask0 = \<lparr>mt_queue = [], last_message_id = 1, cancel_current = False,
     call_state = Wait_Init, last_error = e0, state_change_time = 0, was_established = False,
     mic_muted = False, cur_ver = \<lparr>peer_version = 0, max_layer = 0\<rparr>, cur_keys = k0, use_mtproto2 = False,
     peer_caps = 0, did_receive_key = False, did_receive_key_ack = False, did_send_key = False,
     did_send_upgrade = False, did_invoke_upgrade = False, current_extras = [],
     out_streams = outgoing_init mask0, in_streams = [], calls = [],
     endpoints = [], current_endpoint = 0, preferred_relay = 0, peer_preferred_relay = 0,
     use_tcp = False, use_udp = True, did_add_tcp = False, set_current_tcp = False, did_add_ipv6 = False,
     my_ipv6 = no_address, allow_p2p = True, waiting_peer_info = False, endpoints_req_count = 0,
     udp_conn = Udp_Unknown, udp_ping_count = 0, udp_ping_timer = 0, need_rate = False,
     need_rate_flags = cfg_uint env ''rate_flags'' 0xFFFFFFFF, run_receiver = False, via_socks5 = False,
     udp_is_proxied = False, proxy_supports_udp = True\<rparr>"

definition at_endpoint :: "int \<Rightarrow> 'z routing_scheme \<Rightarrow> exn + endpoint" where
  "at_endpoint i s = (case om_get (endpoints s) i of None \<Rightarrow> Inl OutOfRange | Some e \<Rightarrow> Inr e)"

definition put_endpoint :: "int \<Rightarrow> endpoint \<Rightarrow> 'z routing_scheme \<Rightarrow> 'z routing_scheme" where
  "put_endpoint i e s = s\<lparr>endpoints := om_put i e (endpoints s)\<rparr>"

definition modify_endpoint :: "int \<Rightarrow> (endpoint \<Rightarrow> endpoint) \<Rightarrow> 'z routing_scheme \<Rightarrow> 'z routing_scheme" where
  "modify_endpoint i f s = s\<lparr>endpoints := om_modify i f (endpoints s)\<rparr>"

definition each_endpoint :: "(endpoint \<Rightarrow> endpoint) \<Rightarrow> 'z routing_scheme \<Rightarrow> 'z routing_scheme" where
  "each_endpoint f s = s\<lparr>endpoints := om_map f (endpoints s)\<rparr>"

text \<open>An endpoint by its number; 0 stands for the current one, which has to exist.\<close>

definition get_endpoint_by_id :: "int \<Rightarrow> 'z routing_scheme \<Rightarrow> exn + endpoint option" where
  "get_endpoint_by_id i s = (if i \<noteq> 0 then Inr (om_get (endpoints s) i)
     else bind_res (at_endpoint (current_endpoint s) s) (\<lambda>e. Inr (Some e)))"

definition get_endpoint_by_type :: "ep_type \<Rightarrow> 'z routing_scheme \<Rightarrow> exn + endpoint" where
  "get_endpoint_by_type ty s = (if ty = UDP_RELAY \<and> preferred_relay s \<noteq> 0
     then at_endpoint (preferred_relay s) s
     else (case find (\<lambda>(_, e). ep_type e = ty) (endpoints s) of
             None \<Rightarrow> Inl OutOfRange | Some (_, e) \<Rightarrow> Inr e))"

subsection \<open>Adding relays (Endpoints.cpp)\<close>

text \<open>
  The IPv6-only variant of a relay. The code makes copies of the relays first; when they are
  destroyed, \<^verbatim>\<open>~Endpoint\<close> closes the socket that they share with the original.
\<close>

definition v6_variant :: "endpoint \<Rightarrow> endpoint" where
  "v6_variant e = e\<lparr>ep_addr := no_address, ep_id := ep_id e XOR ID_IPv6, ep_rtt := 0, last_ping_seq := 0,
     last_ping_time := 0, ep_rtts := hist_reset (ep_rtts e), udp_pong_count := 0\<rparr>"

definition has_both :: "endpoint \<Rightarrow> bool" where
  "has_both e \<longleftrightarrow> is_reflector e \<and> \<not> addr_empty (ep_v6 e) \<and> \<not> addr_empty (ep_addr e)"

definition add_variant :: "endpoint \<Rightarrow> 'z routing_scheme \<Rightarrow> 'z routing_scheme" where
  "add_variant t s = put_endpoint (ep_id t) t s"

definition close_copies :: "endpoint list \<Rightarrow> 'z routing_scheme \<Rightarrow> 'z routing_scheme" where
  "close_copies es s = fold (\<lambda>e. if ep_connected e then call_out (Close_Tcp (ep_id e)) else id) es s"

definition add_ipv6_relays :: "'z routing_scheme \<Rightarrow> 'z routing_scheme" where
  "add_ipv6_relays s = (if \<not> addr_empty (my_ipv6 s) \<and> \<not> did_add_ipv6 s then
     (let es = filter has_both (map snd (endpoints s));
          s1 = fold add_variant (map v6_variant es) (s\<lparr>did_add_ipv6 := (es \<noteq> [])\<rparr>)
      in close_copies es s1)
     else s)"

definition set_remote_endpoints :: "endpoint list \<Rightarrow> bool \<Rightarrow> int \<Rightarrow> 'z routing_scheme \<Rightarrow> exn + 'z routing_scheme" where
  "set_remote_endpoints es p2p layer s = (if run_receiver s then Inl AssertFail
     else let
       s1 = s\<lparr>preferred_relay := 0, endpoints := [], did_add_tcp := False, use_tcp := True\<rparr>;
       s2 = fold (\<lambda>e s.
              let a = put_endpoint (ep_id e) e s;
                  b = (if current_endpoint a = 0 then a\<lparr>current_endpoint := ep_id e\<rparr> else a)
              in if ep_type e = UDP_RELAY then b\<lparr>use_tcp := False\<rparr>
                 else if ep_type e = TCP_RELAY then b\<lparr>did_add_tcp := True\<rparr> else b) es s1;
       s3 = s2\<lparr>preferred_relay := current_endpoint s2, allow_p2p := p2p, cur_ver := (cur_ver s2)\<lparr>max_layer := layer\<rparr>\<rparr>;
       s4 = (if layer \<ge> 74 then s3\<lparr>use_mtproto2 := True\<rparr> else s3)
     in Inr (add_ipv6_relays s4))"

definition forget_rtt :: "endpoint \<Rightarrow> endpoint" where
  "forget_rtt e = e\<lparr>ep_rtt := 0, ep_rtts := hist_reset (ep_rtts e)\<rparr>"

definition tcp_variant :: "endpoint \<Rightarrow> endpoint" where
  "tcp_variant e = (forget_rtt e)\<lparr>ep_type := TCP_RELAY, last_ping_seq := 0, last_ping_time := 0,
     udp_pong_count := 0, ep_id := ep_id e XOR ID_TCP0\<rparr>"

definition switch_to :: "endpoint \<Rightarrow> 'z routing_scheme \<Rightarrow> exn + 'z routing_scheme" where
  "switch_to t s = (if set_current_tcp s
     then bind_res (at_endpoint (current_endpoint s) s) (\<lambda>cur. Inr (if ep_type cur \<noteq> TCP_RELAY
       then s\<lparr>set_current_tcp := False, current_endpoint := ep_id t, preferred_relay := ep_id t\<rparr> else s))
     else Inr s)"

fun tcp_relays :: "bool \<Rightarrow> endpoint omap \<Rightarrow> 'z routing_scheme \<Rightarrow> exn + endpoint list \<times> 'z routing_scheme" where
  "tcp_relays was [] s = Inr ([], s)"
| "tcp_relays was ((i, e) # m) s = (if ep_type e \<noteq> UDP_RELAY then tcp_relays was m s
     else let reset = was \<and> \<not> use_udp s;
              e1 = (if reset then (forget_rtt e)\<lparr>last_ping_seq := 0\<rparr> else e);
              s1 = (if reset then modify_endpoint i (\<lambda>_. e1) s else s);
              t = tcp_variant e1
       in bind_res (switch_to t s1) (\<lambda>s2.
          bind_res (tcp_relays was m s2) (\<lambda>(ts, s3). Inr (t # ts, s3))))"

definition add_tcp_relays :: "'z routing_scheme \<Rightarrow> exn + 'z routing_scheme" where
  "add_tcp_relays s = (if \<not> did_add_tcp s
     then bind_res (tcp_relays (set_current_tcp s) (endpoints s) s)
            (\<lambda>(ts, s1). Inr ((fold add_variant ts s1)\<lparr>did_add_tcp := True\<rparr>))
     else Inr s)"

subsection \<open>Pings over UDP (NetworkAPI.cpp, Tick.cpp)\<close>

definition ping_request :: "endpoint \<Rightarrow> int \<Rightarrow> byte list" where
  "ping_request e i = peer_tag e @ replicate 12 255 @ le32 (- 2) @ le64 (of_int i)"

definition send_udp_ping :: "env \<Rightarrow> int \<Rightarrow> endpoint \<Rightarrow> 'z routing_scheme \<Rightarrow> 'z routing_scheme" where
  "send_udp_ping env i e s = (if ep_type e \<noteq> UDP_RELAY then s
     else let q = ping_id env i in
       call_out (Udp_Send (get_address e) (ep_port e) (ping_request e q))
         (modify_endpoint i (\<lambda>x. x\<lparr>udp_ping_times := om_put q (now env) (udp_ping_times x),
            total_pings := total_pings x + 1\<rparr>) s))"

definition reset_udp_availability :: "env \<Rightarrow> 'z routing_scheme \<Rightarrow> 'z routing_scheme" where
  "reset_udp_availability env s =
    (let s1 = (if udp_ping_timer s \<noteq> 0 then mt_cancel (udp_ping_timer s) s else s);
         s2 = each_endpoint (\<lambda>e. e\<lparr>udp_pong_count := 0, udp_ping_times := []\<rparr>) s1
     in case post env Run_Send_Udp_Pings 0 (1 / 2) (s2\<lparr>udp_ping_count := 0, udp_conn := Udp_Ping_Pending\<rparr>) of
          (i, s3) \<Rightarrow> s3\<lparr>udp_ping_timer := i\<rparr>)"

definition reset_ping_stats :: "'z routing_scheme \<Rightarrow> 'z routing_scheme" where
  "reset_ping_stats s = each_endpoint forget_rtt s"

definition send_udp_pings :: "env \<Rightarrow> 'z routing_scheme \<Rightarrow> 'z routing_scheme" where
  "send_udp_pings env s =
    (let s1 = fold (\<lambda>(i, e). send_udp_ping env i e) (endpoints s) s;
         s2 = (if udp_conn s1 = Udp_Unknown \<or> udp_conn s1 = Udp_Ping_Pending
               then s1\<lparr>udp_conn := Udp_Ping_Sent\<rparr> else s1);
         s3 = s2\<lparr>udp_ping_count := udp_ping_count s2 + 1\<rparr>
     in if udp_ping_count s3 = 4 \<or> udp_ping_count s3 = 10
        then (case post env Run_Evaluate_Udp_Pings 1 0 (mt_cancel_self s3) of
                (i, s4) \<Rightarrow> s4\<lparr>udp_ping_timer := i\<rparr>)
        else s3)"

definition average_pongs :: "'z routing_scheme \<Rightarrow> real" where
  "average_pongs s =
    (let cs = map udp_pong_count (filter (\<lambda>e. ep_type e = UDP_RELAY \<and> udp_pong_count e > 0) (map snd (endpoints s)))
     in if length cs > 0 then real_of_int (sum_list cs) / real (length cs) else 0)"

definition rate_flag :: "u32 \<Rightarrow> 'z routing_scheme \<Rightarrow> 'z routing_scheme" where
  "rate_flag f s = (if need_rate_flags s AND f \<noteq> 0 then s\<lparr>need_rate := True\<rparr> else s)"

definition evaluate_udp_pings :: "env \<Rightarrow> 'z routing_scheme \<Rightarrow> exn + 'z routing_scheme" where
  "evaluate_udp_pings env s =
    (let avg = average_pongs s in
     if avg = 0 \<and> via_socks5 s \<and> udp_is_proxied s
     then Inr (reset_udp_availability env
            (call_out Cancel_Select (call_out Close_Proxy (s\<lparr>udp_is_proxied := False, proxy_supports_udp := False\<rparr>))))
     else if cfg_bool env ''use_tcp'' True then
       (if avg = 0 \<or> udp_conn s = Udp_Bad \<and> avg < 7 then
          (let s1 = (rate_flag 2 s)\<lparr>udp_conn := Udp_Not_Available, use_tcp := True, use_udp := avg > 1\<rparr> in
           bind_res (at_endpoint (current_endpoint s1) s1) (\<lambda>cur.
           bind_res (add_tcp_relays (if ep_type cur \<noteq> TCP_RELAY then s1\<lparr>set_current_tcp := True\<rparr> else s1)) (\<lambda>s2.
             Inr (s2\<lparr>waiting_peer_info := False\<rparr>))))
        else if avg < 3 then
          bind_res (add_tcp_relays ((rate_flag 4 s)\<lparr>udp_conn := Udp_Bad, use_tcp := True, set_current_tcp := True\<rparr>))
            (\<lambda>s1. case post env Run_Send_Udp_Pings (1 / 2) (1 / 2) s1 of (i, s2) \<Rightarrow> Inr (s2\<lparr>udp_ping_timer := i\<rparr>))
        else Inr (s\<lparr>udp_ping_timer := 0, udp_conn := Udp_Available\<rparr>))
     else Inr (s\<lparr>udp_ping_timer := 0, udp_conn := Udp_Not_Available\<rparr>))"

subsection \<open>Requests for the address of the peer\<close>

definition request_from_relay :: "endpoint \<Rightarrow> 'z routing_scheme \<Rightarrow> 'z routing_scheme" where
  "request_from_relay e s = (if \<not> use_udp s then s
     else call_out (Udp_Send (ep_addr e) (ep_port e) (peer_tag e @ replicate 16 255)) (s\<lparr>waiting_peer_info := True\<rparr>))"

definition send_endpoints_request :: "env \<Rightarrow> 'z routing_scheme \<Rightarrow> 'z routing_scheme" where
  "send_endpoints_request env s = (if \<not> allow_p2p s then s
     else let s1 = fold (\<lambda>(_, e) s. if ep_type e = UDP_RELAY \<and> \<not> ipv6_only e then request_from_relay e s else s)
                     (endpoints s) s;
              s2 = s1\<lparr>endpoints_req_count := endpoints_req_count s1 + 1\<rparr>
          in if endpoints_req_count s2 < 10 then post_only env Run_Resend_Endpoints_Request 5 0 s2
             else s2\<lparr>endpoints_req_count := 0\<rparr>)"

definition resend_endpoints_request :: "env \<Rightarrow> 'z routing_scheme \<Rightarrow> 'z routing_scheme" where
  "resend_endpoints_request env s = (if waiting_peer_info s then send_endpoints_request env s else s)"


subsection \<open>The endpoints stay consistent\<close>

text \<open>Every record is filed under its own number, and the two selected endpoints exist.\<close>

definition filed :: "endpoint omap \<Rightarrow> bool" where
  "filed m \<longleftrightarrow> om_ok m \<and> (\<forall>k e. om_get m k = Some e \<longrightarrow> ep_id e = k)"

definition routes_ok :: "'z routing_scheme \<Rightarrow> bool" where
  "routes_ok s \<longleftrightarrow> filed (endpoints s) \<and> current_endpoint s \<in> dom (om_get (endpoints s))
     \<and> preferred_relay s \<in> dom (om_get (endpoints s))"

definition type_at :: "int \<Rightarrow> 'z routing_scheme \<Rightarrow> ep_type option" where
  "type_at i s = map_option ep_type (om_get (endpoints s) i)"

definition udp_relays :: "endpoint omap \<Rightarrow> endpoint list" where
  "udp_relays m = filter (\<lambda>e. ep_type e = UDP_RELAY) (map snd m)"

lemma filed_put: "filed m \<Longrightarrow> filed (om_put (ep_id e) e m)"
  by (auto simp: filed_def om_ok_put om_get_put)

lemma filed_modify: "filed m \<Longrightarrow> (\<And>e. ep_id (f e) = ep_id e) \<Longrightarrow> filed (om_modify i f m)"
  by (auto simp: filed_def)

lemma filed_map: "filed m \<Longrightarrow> (\<And>e. ep_id (f e) = ep_id e) \<Longrightarrow> filed (om_map f m)"
  by (auto simp: filed_def)

lemma at_endpoint_eq: "at_endpoint i s = Inr e \<longleftrightarrow> om_get (endpoints s) i = Some e"
  by (simp add: at_endpoint_def split: option.splits)

lemma forget_rtt_idem [simp]: "forget_rtt (forget_rtt e) = forget_rtt e"
  by (simp add: forget_rtt_def hist_reset_def)

lemma tcp_variant_forget: "tcp_variant ((forget_rtt e)\<lparr>last_ping_seq := 0\<rparr>) = tcp_variant e"
  by (simp add: tcp_variant_def forget_rtt_def hist_reset_def)

lemma tcp_variant_simps [simp]: "ep_id (tcp_variant e) = ep_id e XOR ID_TCP0" "ep_type (tcp_variant e) = TCP_RELAY"
  by (simp_all add: tcp_variant_def)

text \<open>What the loop changes in the state itself.\<close>

definition to_tcp :: "endpoint list \<Rightarrow> 'z routing_scheme \<Rightarrow> bool" where
  "to_tcp es s \<longleftrightarrow> set_current_tcp s \<and> es \<noteq> [] \<and> type_at (current_endpoint s) s \<noteq> Some TCP_RELAY"

definition same_routes :: "'z routing_scheme \<Rightarrow> 'z routing_scheme \<Rightarrow> bool" where
  "same_routes s s' \<longleftrightarrow> did_add_tcp s' = did_add_tcp s \<and> use_udp s' = use_udp s \<and> use_tcp s' = use_tcp s
     \<and> udp_conn s' = udp_conn s \<and> mt_queue s' = mt_queue s
     \<and> (filed (endpoints s) \<longrightarrow> filed (endpoints s'))
     \<and> (\<forall>i. type_at i s' = type_at i s)"

lemma same_routes_refl [simp]: "same_routes s s"
  by (simp add: same_routes_def)

lemma same_routes_trans: "same_routes s t \<Longrightarrow> same_routes t u \<Longrightarrow> same_routes s u"
  by (auto simp: same_routes_def)

lemma type_at_dom: "i \<in> dom (om_get (endpoints s)) \<longleftrightarrow> type_at i s \<noteq> None"
  by (auto simp: type_at_def)

lemma switch_to_eq: "set_current_tcp s \<longrightarrow> type_at (current_endpoint s) s \<noteq> None \<Longrightarrow>
  switch_to t s = Inr (if set_current_tcp s \<and> type_at (current_endpoint s) s \<noteq> Some TCP_RELAY
    then s\<lparr>set_current_tcp := False, current_endpoint := ep_id t, preferred_relay := ep_id t\<rparr> else s)"
  by (auto simp: switch_to_def type_at_def at_endpoint_def split: option.splits)

lemma tcp_relays_spec:
  assumes "distinct (map fst m)" "\<forall>i e. (i, e) \<in> set m \<longrightarrow> om_get (endpoints s) i = Some e"
    and "set_current_tcp s \<longrightarrow> type_at (current_endpoint s) s \<noteq> None"
  shows "\<exists>s'. tcp_relays was m s = Inr (map tcp_variant (udp_relays m), s') \<and> same_routes s s'
    \<and> current_endpoint s' = (if to_tcp (udp_relays m) s then ep_id (hd (udp_relays m)) XOR ID_TCP0 else current_endpoint s)
    \<and> preferred_relay s' = (if to_tcp (udp_relays m) s then ep_id (hd (udp_relays m)) XOR ID_TCP0 else preferred_relay s)
    \<and> set_current_tcp s' = (set_current_tcp s \<and> \<not> to_tcp (udp_relays m) s)"
  using assms
proof (induction m arbitrary: s)
  case Nil
  then show ?case by (simp add: udp_relays_def to_tcp_def)
next
  case (Cons ie m)
  obtain i e where ie: "ie = (i, e)" by fastforce
  have at: "om_get (endpoints s) i = Some e" using Cons.prems(2) ie by simp
  show ?case
  proof (cases "ep_type e = UDP_RELAY")
    case False
    then have "udp_relays (ie # m) = udp_relays m" "tcp_relays was (ie # m) s = tcp_relays was m s"
      by (simp_all add: udp_relays_def ie)
    note eqs = this
    have "distinct (map fst m)" "\<forall>i e. (i, e) \<in> set m \<longrightarrow> om_get (endpoints s) i = Some e"
      using Cons.prems(1,2) by simp_all
    then show ?thesis unfolding eqs using Cons.prems(3) by (rule Cons.IH)
  next
    case True
    define reset where "reset = (was \<and> \<not> use_udp s)"
    define e1 where "e1 = (if reset then (forget_rtt e)\<lparr>last_ping_seq := 0\<rparr> else e)"
    define s1 where "s1 = (if reset then modify_endpoint i (\<lambda>_. e1) s else s)"
    define s2 where "s2 = (if set_current_tcp s1 \<and> type_at (current_endpoint s1) s1 \<noteq> Some TCP_RELAY
      then s1\<lparr>set_current_tcp := False, current_endpoint := ep_id (tcp_variant e1),
              preferred_relay := ep_id (tcp_variant e1)\<rparr> else s1)"
    have e1: "ep_id e1 = ep_id e" "ep_type e1 = UDP_RELAY" "tcp_variant e1 = tcp_variant e"
      using True by (auto simp: e1_def forget_rtt_def tcp_variant_def hist_reset_def)
    have types: "type_at j s1 = type_at j s" for j
      using at e1(2) True by (auto simp: s1_def type_at_def modify_endpoint_def)
    have fl: "filed (endpoints s) \<longrightarrow> filed (endpoints s1)"
      using at e1(1) by (auto simp: s1_def modify_endpoint_def filed_def)
    have s1: "same_routes s s1" "current_endpoint s1 = current_endpoint s" "preferred_relay s1 = preferred_relay s"
      "set_current_tcp s1 = set_current_tcp s"
      using types fl by (auto simp: same_routes_def s1_def modify_endpoint_def)
    have "set_current_tcp s1 \<longrightarrow> type_at (current_endpoint s1) s1 \<noteq> None"
      using Cons.prems(3) types s1(2,4) by simp
    from switch_to_eq [OF this] have "switch_to (tcp_variant e1) s1 = Inr s2" by (simp add: s2_def)
    then have step: "tcp_relays was (ie # m) s = bind_res (tcp_relays was m s2) (\<lambda>(ts, s3). Inr (tcp_variant e1 # ts, s3))"
      unfolding ie tcp_relays.simps Let_def reset_def [symmetric] e1_def [symmetric] s1_def [symmetric]
      using True by simp
    have s2_types: "type_at j s2 = type_at j s1" for j by (simp add: s2_def type_at_def)
    have s2: "same_routes s1 s2" using s2_types by (auto simp: same_routes_def s2_def)
    have rest: "\<forall>j f. (j, f) \<in> set m \<longrightarrow> om_get (endpoints s2) j = Some f"
      using Cons.prems(1,2) ie by (auto simp: s2_def s1_def modify_endpoint_def) (force simp: image_iff)+
    have cur: "set_current_tcp s2 \<longrightarrow> type_at (current_endpoint s2) s2 \<noteq> None"
      using Cons.prems(3) types s1(2,4) s2_types by (auto simp: s2_def)
    obtain s' where s': "tcp_relays was m s2 = Inr (map tcp_variant (udp_relays m), s')" "same_routes s2 s'"
      "current_endpoint s' = (if to_tcp (udp_relays m) s2 then ep_id (hd (udp_relays m)) XOR ID_TCP0 else current_endpoint s2)"
      "preferred_relay s' = (if to_tcp (udp_relays m) s2 then ep_id (hd (udp_relays m)) XOR ID_TCP0 else preferred_relay s2)"
      "set_current_tcp s' = (set_current_tcp s2 \<and> \<not> to_tcp (udp_relays m) s2)"
      using Cons.IH [OF _ rest cur] Cons.prems(1) by auto
    have cons: "udp_relays (ie # m) = e # udp_relays m" using True by (simp add: udp_relays_def ie)
    have none: "\<not> to_tcp (udp_relays m) s2" using s2_types by (auto simp: to_tcp_def s2_def)
    have "same_routes s s'" using s1(1) s2 s'(2) same_routes_trans by blast
    then show ?thesis
      using s' none step types s1 e1
      by (auto simp: cons to_tcp_def s2_def split: if_splits)
  qed
qed


definition no_clash :: "'z routing_scheme \<Rightarrow> bool" where
  "no_clash s \<longleftrightarrow> (\<forall>e \<in> set (udp_relays (endpoints s)). om_get (endpoints s) (ep_id e XOR ID_TCP0) = None)"

lemma fold_add_variant:
  "endpoints (fold add_variant ts s) = om.put_all (map (\<lambda>t. (ep_id t, t)) ts) (endpoints s)"
  "current_endpoint (fold add_variant ts s) = current_endpoint s"
  "preferred_relay (fold add_variant ts s) = preferred_relay s"
  "use_tcp (fold add_variant ts s) = use_tcp s" "udp_conn (fold add_variant ts s) = udp_conn s"
  "mt_queue (fold add_variant ts s) = mt_queue s"
  by (induction ts arbitrary: s) (simp_all add: add_variant_def put_endpoint_def om.put_all_def)

lemma filed_put_all: "filed m \<Longrightarrow> filed (om.put_all (map (\<lambda>t. (ep_id t, t)) ts) m)"
  by (induction ts arbitrary: m) (simp_all add: om.put_all_def filed_put)

lemma filed_ids:
  assumes "filed m"
  shows "distinct (map ep_id (map snd m))" "(i, e) \<in> set m \<longleftrightarrow> om_get m i = Some e"
proof -
  have "om_ok m" using assms by (simp add: filed_def)
  then have "distinct (map fst m)" by (simp add: om_ok_def)
  then show g: "(i, e) \<in> set m \<longleftrightarrow> om_get m i = Some e" for i e by simp
  have eq: "map (\<lambda>x. ep_id (snd x)) m = map fst m"
    using assms g by (auto simp: filed_def)
  show "distinct (map ep_id (map snd m))" unfolding map_map comp_def eq by fact
qed


lemma add_tcp_relays_ok:
  assumes ok: "routes_ok s" and new: "\<not> did_add_tcp s" "no_clash s"
  shows "\<exists>s'. add_tcp_relays s = Inr s' \<and> routes_ok s'
    \<and> (\<forall>i. type_at i s \<noteq> None \<longrightarrow> type_at i s' = type_at i s)
    \<and> (\<forall>e \<in> set (udp_relays (endpoints s)). om_get (endpoints s') (ep_id e XOR ID_TCP0) = Some (tcp_variant e))
    \<and> (set_current_tcp s \<and> udp_relays (endpoints s) \<noteq> [] \<longrightarrow> type_at (current_endpoint s') s' = Some TCP_RELAY)
    \<and> did_add_tcp s' \<and> use_tcp s' = use_tcp s \<and> udp_conn s' = udp_conn s \<and> mt_queue s' = mt_queue s"
proof -
  let ?rs = "udp_relays (endpoints s)"
  let ?kvs = "map (\<lambda>t. (ep_id t, t)) (map tcp_variant ?rs)"
  have f: "filed (endpoints s)" and cur: "type_at (current_endpoint s) s \<noteq> None"
    and pref: "type_at (preferred_relay s) s \<noteq> None"
    using ok by (auto simp: routes_ok_def type_at_def)
  have d: "distinct (map fst (endpoints s))" using f by (simp add: filed_def om_ok_def)
  have entries: "\<forall>i e. (i, e) \<in> set (endpoints s) \<longrightarrow> om_get (endpoints s) i = Some e"
    using filed_ids(2) [OF f] by blast
  have flag: "set_current_tcp s \<longrightarrow> type_at (current_endpoint s) s \<noteq> None" using cur by blast
  obtain s1 where s1: "tcp_relays (set_current_tcp s) (endpoints s) s = Inr (map tcp_variant ?rs, s1)"
    "same_routes s s1"
    "current_endpoint s1 = (if to_tcp ?rs s then ep_id (hd ?rs) XOR ID_TCP0 else current_endpoint s)"
    "preferred_relay s1 = (if to_tcp ?rs s then ep_id (hd ?rs) XOR ID_TCP0 else preferred_relay s)"
    using tcp_relays_spec [OF d entries flag, of "set_current_tcp s"] by blast
  define s2 where "s2 = fold add_variant (map tcp_variant ?rs) s1"
  have ends: "endpoints s2 = om.put_all ?kvs (endpoints s1)" "current_endpoint s2 = current_endpoint s1"
    "preferred_relay s2 = preferred_relay s1"
    by (simp_all add: s2_def fold_add_variant)
  have "distinct (map ep_id ?rs)"
    unfolding udp_relays_def by (rule distinct_map_filter) (rule filed_ids(1) [OF f])
  moreover have "inj (\<lambda>x. x XOR ID_TCP0)" by (rule inj_on_inverseI [where g = "\<lambda>x. x XOR ID_TCP0"]) (simp add: xor.assoc)
  ultimately have "distinct (map (\<lambda>x. x XOR ID_TCP0) (map ep_id ?rs))"
    by (auto simp: distinct_map intro!: comp_inj_on elim: inj_on_subset)
  then have dk: "distinct (map fst ?kvs)" by (simp add: comp_def)
  have get: "om_get (endpoints s2) i = (om_get (endpoints s1) ++ map_of ?kvs) i" for i
    unfolding ends(1) om.get_put_all [OF dk] ..
  have twin: "om_get (endpoints s2) (ep_id e XOR ID_TCP0) = Some (tcp_variant e)" if "e \<in> set ?rs" for e
  proof -
    have "(ep_id e XOR ID_TCP0, tcp_variant e) \<in> set ?kvs" using that by force
    then have "map_of ?kvs (ep_id e XOR ID_TCP0) = Some (tcp_variant e)" using dk by (simp only: map_of_eq_Some_iff)
    then show ?thesis by (simp only: get map_add_find_right)
  qed
  have keep: "type_at i s2 = type_at i s" if "type_at i s \<noteq> None" for i
  proof -
    have "i \<notin> fst ` set ?kvs" using new(2) that by (auto simp: no_clash_def type_at_def)
    then have "map_of ?kvs i = None" by (simp only: map_of_eq_None_iff not_False_eq_True)
    then have "type_at i s2 = type_at i s1" by (simp add: type_at_def get map_add_def)
    then show ?thesis using s1(2) by (simp add: same_routes_def)
  qed
  have new_cur: "type_at (current_endpoint s2) s2 = (if to_tcp ?rs s then Some TCP_RELAY else type_at (current_endpoint s) s)
    \<and> type_at (preferred_relay s2) s2 \<noteq> None"
  proof (cases "to_tcp ?rs s")
    case True
    then have "hd ?rs \<in> set ?rs" by (auto simp: to_tcp_def)
    then have "type_at (ep_id (hd ?rs) XOR ID_TCP0) s2 = Some TCP_RELAY" using twin by (simp add: type_at_def)
    then show ?thesis using True s1(3,4) ends by simp
  next
    case False
    then show ?thesis using keep [OF cur] keep [OF pref] s1(3,4) ends pref by simp
  qed
  have "filed (endpoints s1)" using f s1(2) by (simp add: same_routes_def)
  then have "filed (endpoints s2)" unfolding ends(1) by (rule filed_put_all)
  then have "routes_ok s2" unfolding routes_ok_def type_at_dom using new_cur cur by auto
  moreover have "add_tcp_relays s = Inr (s2\<lparr>did_add_tcp := True\<rparr>)"
    using new(1) s1(1) by (simp add: add_tcp_relays_def s2_def)
  moreover have "use_tcp s2 = use_tcp s \<and> udp_conn s2 = udp_conn s \<and> mt_queue s2 = mt_queue s"
    using s1(2) by (simp add: same_routes_def s2_def fold_add_variant)
  moreover have "set_current_tcp s \<and> ?rs \<noteq> [] \<longrightarrow> type_at (current_endpoint s2) s2 = Some TCP_RELAY"
    using new_cur by (simp add: to_tcp_def)
  moreover define s3 where "s3 = s2\<lparr>did_add_tcp := True\<rparr>"
  moreover have "type_at i s3 = type_at i s2" "routes_ok s3 = routes_ok s2" for i
    by (simp_all add: s3_def type_at_def routes_ok_def)
  ultimately show ?thesis using keep twin by (intro exI [of _ s3]) simp
qed


lemma endpoint_ids:
  "ID_TCP0 = 0x5443500000000000" "ID_TCP = 0x5443502000000000" "ID_IPv6 = 0x4950763600000000"
  "ID_P2Pv4 = 0x5032503400000000" "ID_LANv4 = 0x4C414E3400000000" "ID_P2Pv6 = 0x5032503600000000"
  by (simp_all add: ID_TCP0_def ID_TCP_def ID_IPv6_def ID_P2Pv4_def ID_LANv4_def ID_P2Pv6_def id_of_name_def fourcc_def)

subsubsection \<open>Concrete endpoints for the examples\<close>

definition sample_env :: env where
  "sample_env = \<lparr>now = 10, input_ok = Some True, output_ok = Some True, has_echo = True, has_renderer = False, crypto = plain_crypto,
     cfg_bool = (\<lambda>_ b. b), cfg_uint = (\<lambda>_ n. n), cfg_dbl = (\<lambda>_ x. x), udp_ready = True, tcp_ready = (\<lambda>_. True),
     ping_id = (\<lambda>i. i + 1000), lan_addr = IPv4 7, local_port = 4000,
     legacy_rnd = (\<lambda>n. (1, replicate (unat n) 0)), my_decoders = [], my_encoders = [], my_resolution = 0, raw_mask = 0,
     proxy_tested = False, proxy_outcome = None\<rparr>"

definition sample_relay :: endpoint where
  "sample_relay = endpoint_new sample_env 5 443 (IPv4 3) (IPv6 (replicate 16 9)) UDP_RELAY (replicate 16 1)"

definition sample_routes :: routing where
  "sample_routes = (routing_init sample_env Error_Unknown (plain_keys True) 0)\<lparr>endpoints := [(5, sample_relay)],
     current_endpoint := 5, preferred_relay := 5, set_current_tcp := True\<rparr>"

lemma sample_routes_ok: "routes_ok sample_routes" "no_clash sample_routes" "\<not> did_add_tcp sample_routes"
  "udp_relays (endpoints sample_routes) = [sample_relay]"
  by (simp_all add: routes_ok_def no_clash_def udp_relays_def sample_routes_def sample_relay_def endpoint_new_def
      sample_env_def routing_init_def filed_def om_ok_def endpoint_ids)

text \<open>
  C12: adding the TCP relays keeps the endpoints consistent. Every UDP relay gets a variant for
  TCP under a number of its own and stays as an endpoint; nothing else is lost; and when the
  call is to go over TCP, the endpoint in use is one of TCP afterwards, if there is any relay.
\<close>

theorem add_tcp_relays_consistent:
  assumes ok: "routes_ok s" and new: "\<not> did_add_tcp s" "no_clash s"
  shows "\<exists>s'. add_tcp_relays s = Inr s' \<and> routes_ok s'
    \<and> (\<forall>i. type_at i s \<noteq> None \<longrightarrow> type_at i s' = type_at i s)
    \<and> (\<forall>e \<in> set (udp_relays (endpoints s)). om_get (endpoints s') (ep_id e XOR ID_TCP0) = Some (tcp_variant e))
    \<and> (set_current_tcp s \<and> udp_relays (endpoints s) \<noteq> [] \<longrightarrow> type_at (current_endpoint s') s' = Some TCP_RELAY)"
  using add_tcp_relays_ok [OF assms] by blast

theorem add_tcp_relays_consistent_witness:
  "\<exists>s'. add_tcp_relays sample_routes = Inr s' \<and> type_at (current_endpoint s') s' = Some TCP_RELAY"
  using add_tcp_relays_consistent [OF sample_routes_ok(1,3,2)]
  by (auto simp: sample_routes_ok(4)) (simp add: sample_routes_def)

subsection \<open>The numbers of the variants\<close>

text \<open>
  \<^verbatim>\<open>CleanID\<close> gives back the number of the relay from that of its IPv6 variant, but not
  from that of its TCP variant: relays are numbered with \<open>TCP\<close> and a zero byte, and cleaned with
  \<open>TCP\<close> and a space, so that bit 37 of the result is wrong.
\<close>

theorem clean_id_of_variants:
  assumes "ep_type e = UDP_RELAY" "has_both e"
  shows "clean_id (v6_variant e) = ep_id e \<and> clean_id (tcp_variant e) = ep_id e XOR 2 ^ 37
    \<and> clean_id (tcp_variant e) \<noteq> ep_id e"
proof -
  have x: "ID_TCP0 XOR ID_TCP = 2 ^ 37" by (simp add: endpoint_ids)
  have eq: "clean_id (tcp_variant e) = ep_id e XOR 2 ^ 37"
    using assms(2) by (simp add: clean_id_def ipv6_only_def tcp_variant_def forget_rtt_def has_both_def xor.assoc x)
  moreover have "ep_id e XOR 2 ^ 37 \<noteq> ep_id e"
  proof
    assume "ep_id e XOR 2 ^ 37 = ep_id e"
    then have "ep_id e XOR (ep_id e XOR 2 ^ 37) = 0" by simp
    then show False by (simp flip: xor.assoc)
  qed
  moreover have "clean_id (v6_variant e) = ep_id e"
    using assms by (simp add: clean_id_def ipv6_only_def v6_variant_def has_both_def no_address_def xor.assoc)
  ultimately show ?thesis by simp
qed

theorem clean_id_of_variants_witness: "clean_id (tcp_variant sample_relay) \<noteq> 5"
  using clean_id_of_variants [of sample_relay]
  by (simp add: sample_relay_def endpoint_new_def sample_env_def has_both_def is_reflector_def list_all_iff)


subsection \<open>The ping test\<close>

lemma rate_flag_simps [simp]:
  "endpoints (rate_flag f s) = endpoints s" "current_endpoint (rate_flag f s) = current_endpoint s"
  "preferred_relay (rate_flag f s) = preferred_relay s" "did_add_tcp (rate_flag f s) = did_add_tcp s"
  "mt_queue (rate_flag f s) = mt_queue s" "average_pongs (rate_flag f s) = average_pongs s"
  by (simp_all add: rate_flag_def average_pongs_def)

lemma add_tcp_relays_again:
  assumes "routes_ok s" "did_add_tcp s \<or> no_clash s"
  shows "\<exists>s'. add_tcp_relays s = Inr s' \<and> routes_ok s' \<and> did_add_tcp s' \<and> use_tcp s' = use_tcp s
    \<and> udp_conn s' = udp_conn s \<and> mt_queue s' = mt_queue s"
proof (cases "did_add_tcp s")
  case True
  then show ?thesis using assms by (simp add: add_tcp_relays_def)
next
  case False
  with assms have "no_clash s" by blast
  with add_tcp_relays_ok [OF assms(1) False] show ?thesis by blast
qed

lemma routes_ok_cong: "endpoints s' = endpoints s \<Longrightarrow> current_endpoint s' = current_endpoint s
    \<Longrightarrow> preferred_relay s' = preferred_relay s \<Longrightarrow> routes_ok s' = routes_ok s"
  by (simp add: routes_ok_def)

lemma post_routes [simp]:
  assumes "post env f d v s = (i, s')"
  shows "endpoints s' = endpoints s" "current_endpoint s' = current_endpoint s"
    "preferred_relay s' = preferred_relay s" "did_add_tcp s' = did_add_tcp s" "use_tcp s' = use_tcp s"
    "udp_conn s' = udp_conn s"
  using assms by (auto simp: post_def mt_post_def mt_insert_def Let_def split: if_splits)



end
