(* ===== verification/Legacy.thy ===== *)
theory Legacy
  imports Packets
begin

section \<open>Packets for old peers (controller/protocol/packets/Legacy.cpp)\<close>

text \<open>
  The two older formats: one for peers of version 8 and 9 (or unknown, with a layer of at
  least 92), and one for those before, whose blocks are TL objects read with throwing reads.
  In both a packet has one type, so a packet of the new kind is sent as several.
\<close>

subsection \<open>Headers of the oldest format\<close>

definition TLID_DECRYPTED_AUDIO_BLOCK :: u32 where "TLID_DECRYPTED_AUDIO_BLOCK = 0xDBF948C1"
definition TLID_SIMPLE_AUDIO_BLOCK :: u32 where "TLID_SIMPLE_AUDIO_BLOCK = 0xCC0D0E76"
definition PROTOCOL_NAME :: u32 where "PROTOCOL_NAME = 0x50567247"

text \<open>
  What a header says: the packet type, the acknowledged number, the packet's own number, the
  acknowledgment mask and the flags. (The inner length is read too, but never used.)
\<close>

record lheader =
  lh_type :: byte
  lh_ack_id :: u32
  lh_seq :: u32
  lh_acks :: u32
  lh_flags :: byte

text \<open>Throwing reads in sequence.\<close>

type_synonym 'a reader = "istream \<Rightarrow> exn + 'a \<times> istream"

definition bindr :: "'a reader \<Rightarrow> ('a \<Rightarrow> 'b reader) \<Rightarrow> 'b reader" where
  "bindr m k s = bind_res (m s) (\<lambda>(x, t). k x t)"

definition retr :: "'a \<Rightarrow> 'a reader" where
  "retr x s = Inr (x, s)"

text \<open>Skip a TL string: its length, its bytes and the padding.\<close>

definition skip_padded :: "unit reader" where
  "skip_padded = bindr read_tl_length (\<lambda>n s.
     bind_res (seek (ioff s + unat n + pad4 (unat n)) s) (\<lambda>t. Inr ((), t)))"

text \<open>\<open>None\<close> is the \<^verbatim>\<open>return false\<close> of the code.\<close>

definition parse_legacy_legacy :: "version \<Rightarrow> lheader option reader" where
  "parse_legacy_legacy ver = bindr read_int32 (\<lambda>tlid.
     if tlid = TLID_DECRYPTED_AUDIO_BLOCK then
       bindr read_int64 (\<lambda>_. bindr skip_padded (\<lambda>_. bindr read_int32 (\<lambda>flags.
       if \<not> (flags AND 16 \<noteq> 0 \<and> flags AND 32 \<noteq> 0) then retr None else
       bindr read_int32 (\<lambda>ack_id. bindr read_int32 (\<lambda>pseq. bindr read_int32 (\<lambda>acks.
       bindr (if flags AND 8 \<noteq> 0 then bindr read_int32 (\<lambda>proto. retr (proto = PROTOCOL_NAME)) else retr True)
         (\<lambda>proto_ok. if \<not> proto_ok then retr None else
       bindr (if flags AND 2 \<noteq> 0 then skip_padded else retr ()) (\<lambda>_.
       bindr (if flags AND 1 \<noteq> 0 then bindr read_tl_length (\<lambda>_. retr ()) else retr ()) (\<lambda>_.
       retr (Some \<lparr>lh_type = ucast (drop_bit 24 flags), lh_ack_id = ack_id, lh_seq = pseq,
                   lh_acks = acks, lh_flags = 0\<rparr>))))))))))
     else if tlid = TLID_SIMPLE_AUDIO_BLOCK then
       bindr read_int64 (\<lambda>_. bindr skip_padded (\<lambda>_. bindr read_tl_length (\<lambda>_.
       bindr read_byte (\<lambda>ty. bindr read_int32 (\<lambda>ack_id. bindr read_int32 (\<lambda>pseq. bindr read_int32 (\<lambda>acks.
       bindr (if peer_version ver \<ge> 6 then read_byte else retr 0) (\<lambda>fl.
       retr (Some \<lparr>lh_type = ty, lh_ack_id = ack_id, lh_seq = pseq, lh_acks = acks, lh_flags = fl\<rparr>)))))))))
     else retr None)"

text \<open>A TL length as the writer puts it: one byte up to 253, else a marker and three.\<close>

definition tl_length :: "u32 \<Rightarrow> byte list" where
  "tl_length n = (if n \<le> 253 then [ucast n]
     else [254, ucast n, ucast (drop_bit 8 n), ucast (drop_bit 16 n)])"

text \<open>
  The header writer. \<open>waiting\<close>: the call is still in the state of waiting for the init or
  its acknowledgment. \<open>rnd\<close> gives the random id and the seven random bytes that the host's
  generator delivers for the header with a given number.
\<close>

definition header_legacy_legacy :: "(u32 \<Rightarrow> u64 \<times> byte list) \<Rightarrow> version \<Rightarrow> bool \<Rightarrow> byte list \<Rightarrow> u32 \<Rightarrow> u32 \<Rightarrow> u32
    \<Rightarrow> byte \<Rightarrow> u32 \<Rightarrow> wextra list \<Rightarrow> byte list" where
  "header_legacy_legacy rnd ver waiting call_id pseq ack mk ty len extras =
     le32 (if waiting then TLID_DECRYPTED_AUDIO_BLOCK else TLID_SIMPLE_AUDIO_BLOCK)
     @ le64 (fst (rnd pseq)) @ 7 # snd (rnd pseq)
     @ (if waiting then
          le32 (32 OR 16 OR (if len > 0 then 1 else 0) OR 4 OR 8 OR push_bit 24 (ucast ty))
          @ call_id @ le32 ack @ le32 pseq @ le32 mk @ le32 PROTOCOL_NAME
          @ (if len > 0 then tl_length len else [])
        else
          (if len + 13 > 0 then tl_length (len + 13) else [])
          @ ty # le32 ack @ le32 pseq @ le32 mk
          @ (if peer_version ver \<ge> 6 then
               if extras = [] then [0]
               else 1 # of_nat (length extras) # concat (map (wextra_ser ver) extras)
             else []))"

subsection \<open>Parsing\<close>

text \<open>The error correction entries of a legacy packet: the first eight fill the slots.\<close>

definition slots_parse :: "nat \<Rightarrow> wbytes list parser" where
  "slots_parse n = mask_items wbytes_parse (- 1) [0..<min n 8]"

fun skip_wbytes :: "nat \<Rightarrow> 's parser" where
  "skip_wbytes 0 (x, s) = (Done, x, s)"
| "skip_wbytes (Suc n) (x, s) = (case wbytes_parse (None, s) of
     (Done, _, t) \<Rightarrow> skip_wbytes n (x, t) | (r, _, t) \<Rightarrow> (r, x, t))"

text \<open>
  The entries beyond the eighth should be skipped; the loop counter is a \<^verbatim>\<open>uint8_t\<close> that
  starts at \<^verbatim>\<open>8 - count\<close>, which wraps around.
\<close>

definition ec_parse :: "'z packet0_scheme parser" where
  "ec_parse = rd_let try_u8 (\<lambda>count. chain
     [rd_obj extra_ec (\<lambda>v. extra_ec_update (\<lambda>_. v)) (slots_parse (unat count)),
      skip_wbytes (if count > 8 then unat (8 - count) else 0)])"

definition stream_ec_parse :: "version \<Rightarrow> 'z packet0_scheme parser" where
  "stream_ec_parse ver = (if peer_version ver < 7 then chain
     [rd8 (\<lambda>v. stream_id_update (\<lambda>_. v)),
      rd32 (\<lambda>v. pkt_seq_update (\<lambda>_. v)),
      rd_let try_u8 (\<lambda>count. chain
        [assign (pkt_seq_update (\<lambda>v. v div 60 + 1)),
         rd_obj extra_ec (\<lambda>v. extra_ec_update (\<lambda>_. v)) (slots_parse (unat count)),
         skip_wbytes (if count > 8 then unat (8 - count) else 0)])]
     else chain [])"

definition data_item_parse :: "'z packet0_scheme parser" where
  "data_item_parse = rd_let try_u8 (\<lambda>flags. rd_let (try_len (bit flags 6)) (\<lambda>len. chain
     [rd32 (\<lambda>v. pkt_seq_update (\<lambda>_. v)),
      assign (stream_id_update (\<lambda>_. flags AND 0x3F)),
      assign (pkt_seq_update (\<lambda>v. v div 60 + 1)),
      optional (bit len 14) (chain
        [assign (eflags_update (\<lambda>v. v OR 1)),
         rd8 (\<lambda>v. fragment_index_update (\<lambda>_. v)),
         rd8 (\<lambda>v. fragment_count_update (\<lambda>_. v))]),
      optional (bit len 15) (assign (eflags_update (\<lambda>v. v OR 2))),
      assign (pkt_data_update (\<lambda>_. Some (replicate (unat (len AND 0x7FF)) 0))),
      rd_bytes (unat (len AND 0x7FF)) (\<lambda>v. pkt_data_update (\<lambda>_. Some v)),
      optional (bit len 13) ec_parse]))"

text \<open>All items but the last go into packets of their own.\<close>

fun data_items_parse :: "nat \<Rightarrow> packet parser" where
  "data_items_parse 0 (p, s) = (Done, p, s)"
| "data_items_parse (Suc 0) (p, s) = data_item_parse (p, s)"
| "data_items_parse (Suc (Suc n)) (p, s) = (case data_item_parse (packet0_new\<lparr>legacy := True\<rparr>, s) of
     (r, q, t) \<Rightarrow> let p1 = p\<lparr>other_packets := other_packets p @ [q]\<rparr> in
       (case r of Done \<Rightarrow> data_items_parse (Suc n) (p1, t) | _ \<Rightarrow> (r, p1, t)))"

text \<open>An extra that is a packet of its own: its hash is the 0 of a new object.\<close>

definition lone_extra_parse :: "version \<Rightarrow> extra_body \<Rightarrow> packet parser" where
  "lone_extra_parse ver b = (\<lambda>(p, s). case body_parse ver (b, s) of
     (Done, b1, t) \<Rightarrow> (Done, p\<lparr>extra_signaling := extra_signaling p @ [Some \<lparr>ehash = 0, ebody = b1\<rparr>],
                            stream_id := 0\<rparr>, t)
   | (r, _, t) \<Rightarrow> (r, p, t))"

definition legacy_content_parse :: "version \<Rightarrow> byte \<Rightarrow> packet parser" where
  "legacy_content_parse ver ty = (case choose_from_type ty of
     Some b \<Rightarrow> lone_extra_parse ver b
   | None \<Rightarrow>
       if ty = PKT_STREAM_EC then stream_ec_parse ver
       else if ty = PKT_STREAM_DATA then data_items_parse 1
       else if ty = PKT_STREAM_DATA_X2 then data_items_parse 2
       else if ty = PKT_STREAM_DATA_X3 then data_items_parse 3
       else guard False)"

definition legacy_body_parse :: "(byte list \<Rightarrow> byte list) \<Rightarrow> version \<Rightarrow> lheader \<Rightarrow> packet parser" where
  "legacy_body_parse sha1 ver h = chain
     [assign (\<lambda>p. p\<lparr>legacy_seq := lh_seq h, ack_seq := lh_ack_id h, ack_mask := lh_acks h\<rparr>),
      optional (bit (lh_flags h) 0) (rd_obj extra_signaling (\<lambda>v. extra_signaling_update (\<lambda>_. v))
        (array_parse (wextra_parse sha1 ver) None)),
      optional (bit (lh_flags h) 1) (rd32 (\<lambda>v. recv_ts_update (\<lambda>_. v))),
      legacy_content_parse ver (lh_type h)]"

definition legacy_header_parse :: "(lheader \<Rightarrow> packet parser) \<Rightarrow> packet parser" where
  "legacy_header_parse k = rd_let try_u8 (\<lambda>ty. rd_let try_u32 (\<lambda>ack_id. rd_let try_u32 (\<lambda>pseq.
     rd_let try_u32 (\<lambda>acks. rd_let try_u8 (\<lambda>fl.
       k \<lparr>lh_type = ty, lh_ack_id = ack_id, lh_seq = pseq, lh_acks = acks, lh_flags = fl\<rparr>)))))"

definition parse_legacy :: "(byte list \<Rightarrow> byte list) \<Rightarrow> version \<Rightarrow> packet parser" where
  "parse_legacy sha1 ver = (\<lambda>(p, s). let p1 = p\<lparr>legacy := True\<rparr> in
     if is_legacy ver then legacy_header_parse (legacy_body_parse sha1 ver) (p1, s)
     else (case parse_legacy_legacy ver s of
         Inl e \<Rightarrow> (Raised e, p1, s)
       | Inr (None, t) \<Rightarrow> (Refused, p1, t)
       | Inr (Some h, t) \<Rightarrow> legacy_body_parse sha1 ver h (p1, t)))"

text \<open>\<^verbatim>\<open>Packet::parse\<close>.\<close>

definition packet_parse :: "(byte list \<Rightarrow> byte list) \<Rightarrow> version \<Rightarrow> packet parser" where
  "packet_parse sha1 ver = (if \<not> is_new ver then parse_legacy sha1 ver else packet_parse_new sha1 ver)"

subsection \<open>Serializing\<close>

definition header_legacy :: "version \<Rightarrow> 'z packet0_scheme \<Rightarrow> u32 \<Rightarrow> byte \<Rightarrow> wextra list \<Rightarrow> byte list" where
  "header_legacy ver p sq ty extras =
     ty # le32 (ack_seq p) @ le32 sq @ le32 (ack_mask p)
     @ [(if extras = [] then 0 else 1) OR (if recv_ts p \<noteq> 0 then 2 else 0)]
     @ (if extras = [] then [] else of_nat (length extras) # concat (map (wextra_ser ver) extras))
     @ (if recv_ts p \<noteq> 0 then le32 (recv_ts p) else [])"

text \<open>
  The writer's environment: the random bytes, the state and the call id. \<open>wrap_content\<close> puts
  the header of the version before the content of one packet.
\<close>

record lenv =
  le_rnd :: "u32 \<Rightarrow> u64 \<times> byte list"
  le_waiting :: bool
  le_call_id :: "byte list"

definition wrap_content :: "lenv \<Rightarrow> version \<Rightarrow> 'z packet0_scheme \<Rightarrow> wextra list \<Rightarrow> u32 \<Rightarrow> byte \<Rightarrow> byte list \<Rightarrow> byte list" where
  "wrap_content env ver p extras sq ty content =
     (if \<not> is_legacy_legacy ver then header_legacy ver p sq ty extras @ content
      else header_legacy_legacy (le_rnd env) ver (le_waiting env) (le_call_id env) sq (ack_seq p)
             (ack_mask p) ty (of_nat (length content)) extras @ content)"

fun lone_extras_ser :: "lenv \<Rightarrow> version \<Rightarrow> 'z packet0_scheme \<Rightarrow> wextra list \<Rightarrow> u32 \<Rightarrow> wextra list \<Rightarrow> (byte list \<times> bool) list" where
  "lone_extras_ser env ver p extras sq [] = []"
| "lone_extras_ser env ver p extras sq (w # ws) =
     (let b = ebody (the w); ty = choose_type (peer_version ver) b in
      (wrap_content env ver p extras sq ty (body_ser ver b), \<not> (ty = PKT_PING \<or> ty = PKT_PONG))
        # lone_extras_ser env ver p extras (sq + 1) ws)"

definition legacy_ec_content :: "'z packet0_scheme \<Rightarrow> byte list" where
  "legacy_ec_content p = stream_id p # le32 ((pkt_seq p - 1) * 60) @ array_ser wbytes_ser (extra_ec p)"

definition legacy_data_content :: "version \<Rightarrow> 'z packet0_scheme \<Rightarrow> byte list" where
  "legacy_data_content ver p =
     (let fec = peer_version ver \<ge> 7 \<and> mask_bool wbytes_bool (extra_ec p);
          flags = (if data_len p > 255 \<or> fec then 0x40 else 0 :: byte) in
      (flags OR 1)
      # (if flags \<noteq> 0 then le16 (of_nat (data_len p) OR (if fec then 0x2000 else 0))
         else [of_nat (data_len p)])
      @ le32 ((pkt_seq p - 1) * 60) @ the (pkt_data p)
      @ (if fec then array_ser wbytes_ser (extra_ec p) else []))"

definition serialize_legacy :: "lenv \<Rightarrow> version \<Rightarrow> 'z packet0_scheme \<Rightarrow> (byte list \<times> bool) list \<times> 'z packet0_scheme" where
  "serialize_legacy env ver p =
     (let sep = filter (\<lambda>w. choose_type (peer_version ver) (ebody (the w)) \<noteq> PKT_NOP) (extra_signaling p);
          extras = filter (\<lambda>w. \<not> choose_type (peer_version ver) (ebody (the w)) \<noteq> PKT_NOP) (extra_signaling p);
          out1 = lone_extras_ser env ver p extras (legacy_seq p) sep;
          sq1 = legacy_seq p + of_nat (length sep);
          (out2, sq2) = (if peer_version ver < 7 \<and> mask_bool wbytes_bool (extra_ec p)
            then ([(wrap_content env ver p extras sq1 PKT_STREAM_EC (legacy_ec_content p), False)], sq1 + 1)
            else ([], sq1));
          (out3, sq3) = (if pkt_data p \<noteq> None
            then ([(wrap_content env ver p extras sq2 PKT_STREAM_DATA (legacy_data_content ver p), False)], sq2 + 1)
            else ([], sq2));
          (out4, sq4) = (if sq3 = legacy_seq p
            then ([(wrap_content env ver p extras sq3 PKT_NOP [], False)], sq3 + 1) else ([], sq3))
      in (out1 @ out2 @ out3 @ out4, p\<lparr>legacy_seq := sq4\<rparr>))"


subsection \<open>Round trip of a data packet\<close>

lemma ec_reads:
  assumes "length ws = 8" "list_all wbytes_valid ws" "extra_ec x = replicate 8 None"
  shows "reads ec_parse x (array_ser wbytes_ser ws) (x\<lparr>extra_ec := map wbytes_canon ws\<rparr>)"
proof -
  have "mask_items wbytes_parse (- 1) [0..<8] (replicate 8 None, s)
      = (Done, map wbytes_canon ws, adv (length (concat (map wbytes_ser ws))) s)"
    if "iok s" "rest s = concat (map wbytes_ser ws) @ xs" for s xs
    using wb.mask_items_round [where vs = ws and present = "\<lambda>_. True" and pre = "[]" and mk = "- 1" and new = None and s = s and xs = xs]
      that assms(1,2) by (simp add: list_all_iff del: upt_Suc)
  then have "reads (slots_parse 8) (replicate 8 None) (concat (map wbytes_ser ws)) (map wbytes_canon ws)"
    by (auto intro!: readsI simp: slots_parse_def simp del: upt_Suc)
  then have 1: "reads (rd_obj extra_ec (\<lambda>v. extra_ec_update (\<lambda>_. v)) (slots_parse 8)) x
      (concat (map wbytes_ser ws)) (x\<lparr>extra_ec := map wbytes_canon ws\<rparr>)"
    using assms(3) by (intro reads_obj) simp
  have "reads (skip_wbytes 0) y [] y" for y :: "'b packet0_scheme"
    by (auto intro!: readsI simp: buf_simps)
  from reads_step [OF 1 reads_last [OF this]]
  show ?thesis unfolding ec_parse_def array_ser_def assms(1) by (intro reads_let8) simp
qed

lemma stream_time:
  assumes "1 \<le> unat q" "(unat q - 1) * 60 < 2 ^ 32"
  shows "((q - 1) * 60) div 60 + 1 = (q :: u32)"
proof -
  have "unat (q - 1) = unat q - 1" using assms(1) by (subst unat_sub) (simp_all add: word_le_nat_alt)
  moreover have "unat (r * 60) = unat r * 60" if "unat r * 60 < 2 ^ 32" for r :: u32
    using that by (simp add: unat_word_ariths)
  ultimately have m: "unat ((q - 1) * 60) = (unat q - 1) * 60"
    using assms(2) by metis
  have "unat (((q - 1) * 60) div 60) = unat q - 1"
    unfolding unat_div m by simp
  then have "((q - 1) * 60) div 60 = q - 1"
    using \<open>unat (q - 1) = unat q - 1\<close> by (simp add: word_unat_eq_iff)
  then show ?thesis by simp
qed

definition fec_len :: "nat \<Rightarrow> bool \<Rightarrow> u16" where
  "fec_len n fec = of_nat n OR (if fec then 0x2000 else 0)"

lemma fec_len_bits:
  assumes "n < 2048"
  shows "unat (fec_len n fec AND 0x7FF) = n" "bit (fec_len n fec) 13 = fec"
    "\<not> bit (fec_len n fec) 14" "\<not> bit (fec_len n fec) 15"
proof -
  have u: "unat (of_nat n :: u16) < 2 ^ 11" using assms by (simp add: unat_of_nat)
  note n = small_bits [OF u]
  have m: "bit (0x7FF :: u16) k \<longleftrightarrow> k < 11" for k
    using bit_mask_iff [of 11 k, where ?'a = "16 word"] by (auto simp: mask_eq_exp_minus_1)
  have f: "bit (0x2000 :: u16) k \<longleftrightarrow> k = 13" for k
  proof -
    have "(0x2000 :: u16) = push_bit 13 1" by simp
    then show ?thesis by (simp only: bit_push_bit_iff bit_1_iff) auto
  qed
  have b: "bit (fec_len n fec) k \<longleftrightarrow> bit (of_nat n :: u16) k \<or> fec \<and> k = 13" for k
    unfolding fec_len_def bit_or_iff by (cases fec) (simp_all only: if_True if_False f, simp_all)
  have "fec_len n fec AND 0x7FF = of_nat n"
    using n by (intro bit_word_eqI) (auto simp only: bit_and_iff b m)
  then show "unat (fec_len n fec AND 0x7FF) = n" using assms by (simp add: unat_of_nat)
  show "bit (fec_len n fec) 13 = fec" "\<not> bit (fec_len n fec) 14" "\<not> bit (fec_len n fec) 15"
    unfolding b using n [of 13] n [of 14] n [of 15] by auto
qed

lemma len_byte_fec: "n < 256 \<Longrightarrow> ucast (of_nat n :: byte) = fec_len n False"
  by (simp add: fec_len_def word_unat_eq_iff unsigned_ucast_eq unsigned_of_nat take_bit_nat_eq_self)


definition has_fec :: "version \<Rightarrow> 'z packet0_scheme \<Rightarrow> bool" where
  "has_fec ver p \<longleftrightarrow> peer_version ver \<ge> 7 \<and> mask_bool wbytes_bool (extra_ec p)"

lemma legacy_data_content_eq:
  "legacy_data_content ver p =
     (if data_len p > 255 \<or> has_fec ver p
      then 0x41 # le16 (fec_len (data_len p) (has_fec ver p))
      else 1 # [of_nat (data_len p)])
     @ le32 ((pkt_seq p - 1) * 60) @ the (pkt_data p)
     @ (if has_fec ver p then array_ser wbytes_ser (extra_ec p) else [])"
  by (simp add: legacy_data_content_def Let_def has_fec_def fec_len_def)

lemma data_item_reads:
  fixes x :: "'z packet0_scheme"
  assumes d: "pkt_data p = Some d" "length d < 2048"
    and q: "1 \<le> unat (pkt_seq p)" "(unat (pkt_seq p) - 1) * 60 < 2 ^ 32"
    and ec: "length (extra_ec p) = 8" "list_all wbytes_valid (extra_ec p)" "extra_ec x = replicate 8 None"
  shows "reads data_item_parse x (legacy_data_content ver p)
    (x\<lparr>pkt_seq := pkt_seq p, stream_id := 1, pkt_data := Some d,
       extra_ec := (if has_fec ver p then map wbytes_canon (extra_ec p) else replicate 8 None)\<rparr>)"
proof -
  let ?f = "has_fec ver p" and ?n = "data_len p"
  let ?y = "x\<lparr>pkt_seq := pkt_seq p, stream_id := 1, pkt_data := Some d\<rparr>"
  let ?z = "?y\<lparr>extra_ec := (if ?f then map wbytes_canon (extra_ec p) else replicate 8 None)\<rparr>"
  have n: "?n = length d" "?n < 2048" using d by (simp_all add: data_len_def)
  note fl = fec_len_bits [OF n(2), of ?f]
  have e1: "reads ec_parse ?y (array_ser wbytes_ser (extra_ec p)) ?z" if ?f
    using ec_reads [OF ec(1,2), of ?y] ec(3) that by simp
  have e2: "?z = ?y" if "\<not> ?f" using ec(3) that by simp
  have tl: "reads (chain [rd32 (\<lambda>v. pkt_seq_update (\<lambda>_. v)),
      assign (stream_id_update (\<lambda>_. flags AND 0x3F)),
      assign (pkt_seq_update (\<lambda>v. v div 60 + 1)),
      optional (bit (fec_len ?n ?f) 14) (chain
        [assign (eflags_update (\<lambda>v. v OR 1)),
         rd8 (\<lambda>v. fragment_index_update (\<lambda>_. v)),
         rd8 (\<lambda>v. fragment_count_update (\<lambda>_. v))]),
      optional (bit (fec_len ?n ?f) 15) (assign (eflags_update (\<lambda>v. v OR 2))),
      assign (pkt_data_update (\<lambda>_. Some (replicate (unat (fec_len ?n ?f AND 0x7FF)) 0))),
      rd_bytes (unat (fec_len ?n ?f AND 0x7FF)) (\<lambda>v. pkt_data_update (\<lambda>_. Some v)),
      optional (bit (fec_len ?n ?f) 13) ec_parse]) x
     (le32 ((pkt_seq p - 1) * 60) @ d @ (if ?f then array_ser wbytes_ser (extra_ec p) else [])) ?z"
    if fl6: "flags AND 0x3F = 1" for flags :: byte
  proof -
    have "reads (chain [rd_bytes (length d) (\<lambda>v. pkt_data_update (\<lambda>_. Some v)), optional ?f ec_parse])
        (?y\<lparr>pkt_data := Some (replicate (length d) 0)\<rparr>)
        (d @ (if ?f then array_ser wbytes_ser (extra_ec p) else [])) ?z"
      by (rule reads_step [OF reads_eq [OF reads_prim(4)] reads_opt_last [OF e1 e2]]) simp_all
    then have "reads (chain [optional False q1, optional False q2,
        assign (pkt_data_update (\<lambda>_. Some (replicate (length d) 0))),
        rd_bytes (length d) (\<lambda>v. pkt_data_update (\<lambda>_. Some v)), optional ?f ec_parse])
        (x\<lparr>pkt_seq := pkt_seq p, stream_id := 1\<rparr>)
        (d @ (if ?f then array_ser wbytes_ser (extra_ec p) else [])) ?z" for q1 q2
      by (simp add: optional_def reads_def)
    note r = this
    have "pkt_seq_update (\<lambda>v. v div 60 + 1) (stream_id_update (\<lambda>_. flags AND 0x3F)
        (pkt_seq_update (\<lambda>_. (pkt_seq p - 1) * 60) x)) = x\<lparr>pkt_seq := pkt_seq p, stream_id := 1\<rparr>"
      using stream_time [OF q] fl6 by simp
    moreover have "bit (fec_len ?n ?f) 14 = False" "bit (fec_len ?n ?f) 15 = False" using fl by simp_all
    ultimately show ?thesis
      unfolding fl(1,2) n(1) [symmetric] by (intro reads32 reads_assign) (simp only: r n(1))
  qed
  show ?thesis
  proof (cases "?n > 255 \<or> ?f")
    case True
    then show ?thesis
      unfolding legacy_data_content_eq data_item_parse_def d option.sel
      using tl [of "0x41"] by (auto intro!: reads_let8 reads_let16 simp: rd_let_len)
  next
    case False
    then have "ucast (of_nat ?n :: byte) = fec_len ?n ?f" by (simp add: len_byte_fec)
    with False show ?thesis
      unfolding legacy_data_content_eq data_item_parse_def d option.sel
      using tl [of 1] by (auto intro!: reads_let8 simp: rd_let_len)
  qed
qed


text \<open>What the header of the younger legacy format delivers, before the content is read.\<close>

definition header_fields :: "(byte list \<Rightarrow> byte list) \<Rightarrow> version \<Rightarrow> 'z packet0_scheme \<Rightarrow> u32 \<Rightarrow> wextra list \<Rightarrow> packet" where
  "header_fields sha1 ver p sq extras = packet_new\<lparr>legacy := True, legacy_seq := sq, ack_seq := ack_seq p,
     ack_mask := ack_mask p, extra_signaling := map (map_option (extra_canon sha1 ver)) extras, recv_ts := recv_ts p\<rparr>"

definition extras_fit :: "version \<Rightarrow> wextra list \<Rightarrow> bool" where
  "extras_fit ver ws \<longleftrightarrow> length ws < 256
     \<and> list_all (\<lambda>w. case w of None \<Rightarrow> False | Some e \<Rightarrow> extra_valid ver e) ws"

lemma legacy_header_run:
  assumes "iok s" "rest s = ty # le32 a @ le32 b @ le32 m @ fl # ys"
  shows "\<exists>t. legacy_header_parse k (x, s)
      = k \<lparr>lh_type = ty, lh_ack_id = a, lh_seq = b, lh_acks = m, lh_flags = fl\<rparr> (x, t)
    \<and> iok t \<and> rest t = ys"
proof -
  have 1: "try_u8 s = (Some ty, adv 1 s)" "iok (adv 1 s)" "rest (adv 1 s) = le32 a @ le32 b @ le32 m @ fl # ys"
    using assms by (auto intro!: iok_adv simp: buf_simps)
  have 2: "try_u32 (adv 1 s) = (Some a, adv 5 s)" "iok (adv 5 s)" "rest (adv 5 s) = le32 b @ le32 m @ fl # ys"
    using assms 1 by (auto intro!: iok_adv simp: buf_simps)
  have 3: "try_u32 (adv 5 s) = (Some b, adv 9 s)" "iok (adv 9 s)" "rest (adv 9 s) = le32 m @ fl # ys"
    using assms 2 by (auto intro!: iok_adv simp: buf_simps)
  have 4: "try_u32 (adv 9 s) = (Some m, adv 13 s)" "iok (adv 13 s)" "rest (adv 13 s) = fl # ys"
    using assms 3 by (auto intro!: iok_adv simp: buf_simps)
  have 5: "try_u8 (adv 13 s) = (Some fl, adv 14 s)" "iok (adv 14 s)" "rest (adv 14 s) = ys"
    using assms 4 by (auto intro!: iok_adv simp: buf_simps)
  show ?thesis
    using 1(1) 2(1) 3(1) 4(1) 5 by (intro exI [of _ "adv 14 s"]) (simp add: legacy_header_parse_def)
qed

lemma legacy_run:
  assumes fit: "extras_fit ver extras" and s: "iok s" "rest s = header_legacy ver p sq ty extras @ ys"
  shows "\<exists>t. legacy_header_parse (legacy_body_parse sha1 ver) (packet_new\<lparr>legacy := True\<rparr>, s)
      = legacy_content_parse ver ty (header_fields sha1 ver p sq extras, t)
    \<and> iok t \<and> rest t = ys"
proof -
  let ?fl = "(if extras = [] then 0 else 1) OR (if recv_ts p \<noteq> 0 then 2 else 0) :: byte"
  let ?h = "\<lparr>lh_type = ty, lh_ack_id = ack_seq p, lh_seq = sq, lh_acks = ack_mask p, lh_flags = ?fl\<rparr>"
  let ?x = "packet_new\<lparr>legacy := True, legacy_seq := sq, ack_seq := ack_seq p, ack_mask := ack_mask p\<rparr>"
  let ?y = "?x\<lparr>extra_signaling := map (map_option (extra_canon sha1 ver)) extras\<rparr>"
  let ?ex = "rd_obj extra_signaling (\<lambda>v. extra_signaling_update (\<lambda>_. v)) (array_parse (wextra_parse sha1 ver) None)"
  let ?bs = "(if extras \<noteq> [] then array_ser (wextra_ser ver) extras else [])
      @ (if recv_ts p \<noteq> 0 then le32 (recv_ts p) else [])"
  have b: "bit ?fl 0 \<longleftrightarrow> extras \<noteq> []" "bit ?fl 1 \<longleftrightarrow> recv_ts p \<noteq> 0"
    by (simp_all add: bit_or_iff)
  have new: "extra_signaling ?x = []" "recv_ts ?y = 0"
    by (simp_all add: packet_new_def packet0_new_def packet0.defs)
  have "reads (array_parse (wextra_parse sha1 ver) None) [] (array_ser (wextra_ser ver) extras)
      (map (map_option (extra_canon sha1 ver)) extras)"
    using wextra.wrapped.array_reads [where v = extras and pre = "[]" and ?sha1.0 = sha1 and ver = ver] fit
    by (simp add: extras_fit_def)
  then have e1: "reads ?ex ?x (array_ser (wextra_ser ver) extras) ?y"
    by (intro reads_obj) (simp only: new(1))
  have e2: "?y = ?x" if "\<not> extras \<noteq> []" using that new(1) by simp
  have t2: "?y\<lparr>recv_ts := recv_ts p\<rparr> = ?y" if "\<not> recv_ts p \<noteq> 0" using that new(2) by simp
  have pre: "reads (chain [optional (extras \<noteq> []) ?ex, optional (recv_ts p \<noteq> 0) (rd32 (\<lambda>v. recv_ts_update (\<lambda>_. v)))])
      ?x ?bs (header_fields sha1 ver p sq extras)"
    using reads_opt [where b = "extras \<noteq> []", OF e1 e2 reads_opt_last [where b = "recv_ts p \<noteq> 0",
      OF reads_prim(3) [of "\<lambda>v. recv_ts_update (\<lambda>_. v)" ?y "recv_ts p"] t2]]
    by (simp add: header_fields_def)
  have "rest s = ty # le32 (ack_seq p) @ le32 sq @ le32 (ack_mask p) @ ?fl # (?bs @ ys)"
    using s(2) by (simp add: header_legacy_def array_ser_def)
  from legacy_header_run [OF s(1) this] obtain t where
    t: "legacy_header_parse (legacy_body_parse sha1 ver) (packet_new\<lparr>legacy := True\<rparr>, s)
        = legacy_body_parse sha1 ver ?h (packet_new\<lparr>legacy := True\<rparr>, t)" "iok t" "rest t = ?bs @ ys" by blast
  have "legacy_body_parse sha1 ver ?h (packet_new\<lparr>legacy := True\<rparr>, t)
      = chain ([optional (extras \<noteq> []) ?ex, optional (recv_ts p \<noteq> 0) (rd32 (\<lambda>v. recv_ts_update (\<lambda>_. v)))]
          @ [legacy_content_parse ver ty]) (?x, t)"
    unfolding legacy_body_parse_def lheader.simps b by simp
  also have "\<dots> = legacy_content_parse ver ty (header_fields sha1 ver p sq extras, adv (length ?bs) t)"
    unfolding chain_append readsD [OF pre t(2,3)] by (simp split: prod.splits outcome.splits)
  finally show ?thesis using t skip_prefix [OF t(2,3)] by metis
qed

lemma legacy_packet_reads:
  assumes "extras_fit ver extras"
    and "reads (legacy_content_parse ver ty) (header_fields sha1 ver p sq extras) content z"
  shows "\<exists>t. legacy_header_parse (legacy_body_parse sha1 ver) (packet_new\<lparr>legacy := True\<rparr>,
      istream_of (header_legacy ver p sq ty extras @ content)) = (Done, z, t)"
proof -
  obtain t where "legacy_header_parse (legacy_body_parse sha1 ver) (packet_new\<lparr>legacy := True\<rparr>,
      istream_of (header_legacy ver p sq ty extras @ content))
        = legacy_content_parse ver ty (header_fields sha1 ver p sq extras, t)" "iok t" "rest t = content"
    using legacy_run [OF assms(1) iok_istream_of rest_istream_of] by blast
  with readsD [OF assms(2), of t "[]"] show ?thesis by simp
qed

subsection \<open>Properties\<close>

lemma data_type: "choose_from_type PKT_STREAM_DATA = None" "PKT_STREAM_DATA \<noteq> PKT_STREAM_EC"
  by (simp_all add: choose_from_type_def pkt_defs)

lemma all_nop: "(\<forall>w \<in> set ws. choose_type pv (ebody (the w)) = PKT_NOP) \<Longrightarrow>
    filter (\<lambda>w. choose_type pv (ebody (the w)) \<noteq> PKT_NOP) ws = []
    \<and> filter (\<lambda>w. \<not> choose_type pv (ebody (the w)) \<noteq> PKT_NOP) ws = ws"
  by (auto simp: filter_empty_conv intro: filter_True)

text \<open>
  C24: a packet with data and with signaling that may ride in a header is sent to a peer of
  version 8 or 9 as one packet, and that peer reads it back: its legacy number, the
  acknowledgments, the signaling, the timestamp, the data and the error correction, and the
  number of the stream, recovered from the time in milliseconds, as long as the time fits 32
  bits. What is lost is the stream: it always arrives as stream 1.
\<close>

theorem legacy_data_transfer:
  assumes "is_legacy ver" "peer_version ver \<ge> 8"
    and "pkt_data p = Some d" "length d < 2048"
    and "1 \<le> unat (pkt_seq p)" "(unat (pkt_seq p) - 1) * 60 < 2 ^ 32"
    and "length (extra_ec p) = 8" "list_all wbytes_valid (extra_ec p)"
    and "extras_fit ver (extra_signaling p)"
    and "\<forall>w \<in> set (extra_signaling p). choose_type (peer_version ver) (ebody (the w)) = PKT_NOP"
  shows "\<exists>bs t. serialize_legacy env ver p = ([(bs, False)], p\<lparr>legacy_seq := legacy_seq p + 1\<rparr>)
    \<and> packet_parse sha1 ver (packet_new, istream_of bs)
      = (Done, (header_fields sha1 ver p (legacy_seq p) (extra_signaling p))\<lparr>
          pkt_seq := pkt_seq p, stream_id := 1, pkt_data := Some d,
          extra_ec := (if mask_bool wbytes_bool (extra_ec p) then map wbytes_canon (extra_ec p)
                       else replicate 8 None)\<rparr>, t)"
proof -
  let ?bs = "header_legacy ver p (legacy_seq p) PKT_STREAM_DATA (extra_signaling p) @ legacy_data_content ver p"
  let ?h = "header_fields sha1 ver p (legacy_seq p) (extra_signaling p)"
  have ll: "\<not> is_legacy_legacy ver" "\<not> is_new ver" using assms(1) by (auto simp: is_legacy_def is_legacy_legacy_def)
  have ser: "serialize_legacy env ver p = ([(?bs, False)], p\<lparr>legacy_seq := legacy_seq p + 1\<rparr>)"
    using all_nop [OF assms(10)] assms(2,3) ll by (simp add: serialize_legacy_def Let_def wrap_content_def)
  have "extra_ec ?h = replicate 8 None"
    by (simp add: header_fields_def packet_new_def packet0_new_def packet0.defs)
  note item = data_item_reads [OF assms(3-8) this, of ver]
  have "reads (legacy_content_parse ver PKT_STREAM_DATA) ?h (legacy_data_content ver p)
      (?h\<lparr>pkt_seq := pkt_seq p, stream_id := 1, pkt_data := Some d,
          extra_ec := (if mask_bool wbytes_bool (extra_ec p) then map wbytes_canon (extra_ec p)
                       else replicate 8 None)\<rparr>)"
    using item assms(2) by (auto simp: reads_def legacy_content_parse_def data_type has_fec_def)
  from legacy_packet_reads [OF assms(9) this] ser show ?thesis
    using assms(1) ll by (simp add: packet_parse_def parse_legacy_def)
qed

theorem legacy_data_transfer_witness:
  "\<exists>bs q t. serialize_legacy \<lparr>le_rnd = (\<lambda>_. (0, [])), le_waiting = False, le_call_id = []\<rparr>
       \<lparr>peer_version = 9, max_layer = 92\<rparr> (sample_packet\<lparr>legacy_seq := 4\<rparr>) = ([(bs, False)], sample_packet\<lparr>legacy_seq := 5\<rparr>)
     \<and> packet_parse (\<lambda>_. []) \<lparr>peer_version = 9, max_layer = 92\<rparr> (packet_new, istream_of bs) = (Done, q, t)
     \<and> pkt_data q = Some [1, 2, 3] \<and> pkt_seq q = 7 \<and> legacy_seq q = 4"
proof -
  let ?p = "sample_packet\<lparr>legacy_seq := 4\<rparr>"
  let ?v = "\<lparr>peer_version = 9, max_layer = 92\<rparr>"
  have "is_legacy ?v" "extras_fit ?v (extra_signaling ?p)" "pkt_data ?p = Some [1, 2, 3]"
    "length (extra_ec ?p) = 8" "list_all wbytes_valid (extra_ec ?p)" "extra_signaling ?p = []" "pkt_seq ?p = 7"
    by (simp_all add: is_legacy_def is_new_def extras_fit_def sample_packet_def wbytes_valid_def
        packet_new_def packet0_new_def packet0.defs list_all_iff)
  then show ?thesis
    using legacy_data_transfer [of ?v ?p "[1, 2, 3]" "\<lparr>le_rnd = (\<lambda>_. (0, [])), le_waiting = False, le_call_id = []\<rparr>" "\<lambda>_. []"]
    by (auto simp: header_fields_def)
qed


text \<open>
  The acknowledgments of an idle peer are lost. With neither data nor error correction
  nor an extra that travels alone, the packet for a peer of version 8 or 9 is one packet of
  type NOP; the parser knows no such type and refuses it, so the receiver drops the packet
  with its acknowledgment number and its signaling.
\<close>

theorem legacy_nop_refused:
  assumes "is_legacy ver" "peer_version ver \<ge> 8" "pkt_data p = None"
    and "extras_fit ver (extra_signaling p)"
    and "\<forall>w \<in> set (extra_signaling p). choose_type (peer_version ver) (ebody (the w)) = PKT_NOP"
  shows "\<exists>bs. serialize_legacy env ver p = ([(bs, False)], p\<lparr>legacy_seq := legacy_seq p + 1\<rparr>)
    \<and> fst (packet_parse sha1 ver (packet_new, istream_of bs)) = Refused"
proof -
  let ?bs = "header_legacy ver p (legacy_seq p) PKT_NOP (extra_signaling p)"
  have ll: "\<not> is_legacy_legacy ver" "\<not> is_new ver" using assms(1) by (auto simp: is_legacy_def is_legacy_legacy_def)
  have "serialize_legacy env ver p = ([(?bs, False)], p\<lparr>legacy_seq := legacy_seq p + 1\<rparr>)"
    using all_nop [OF assms(5)] assms(2,3) ll by (simp add: serialize_legacy_def Let_def wrap_content_def)
  moreover have "choose_from_type PKT_NOP = None" "PKT_NOP \<noteq> PKT_STREAM_EC" "PKT_NOP \<noteq> PKT_STREAM_DATA"
    "PKT_NOP \<noteq> PKT_STREAM_DATA_X2" "PKT_NOP \<noteq> PKT_STREAM_DATA_X3"
    by (simp_all add: choose_from_type_def pkt_defs)
  then have "fst (legacy_content_parse ver PKT_NOP x) = Refused" for x
    by (cases x) (simp add: legacy_content_parse_def)
  then have "fst (packet_parse sha1 ver (packet_new, istream_of ?bs)) = Refused"
    using legacy_run [OF assms(4) iok_istream_of, of ?bs p "legacy_seq p" PKT_NOP "[]" sha1] assms(1) ll
    by (auto simp: packet_parse_def parse_legacy_def rest_istream_of)
  ultimately show ?thesis by blast
qed

theorem legacy_nop_refused_witness:
  "\<exists>bs. serialize_legacy \<lparr>le_rnd = (\<lambda>_. (0, [])), le_waiting = False, le_call_id = []\<rparr>
       \<lparr>peer_version = 9, max_layer = 92\<rparr> packet_new = ([(bs, False)], packet_new\<lparr>legacy_seq := 1\<rparr>)
     \<and> fst (packet_parse (\<lambda>_. []) \<lparr>peer_version = 9, max_layer = 92\<rparr> (packet_new, istream_of bs)) = Refused"
  using legacy_nop_refused [of "\<lparr>peer_version = 9, max_layer = 92\<rparr>" packet_new]
  by (simp add: is_legacy_def is_new_def extras_fit_def packet_new_def packet0_new_def packet0.defs)


subsection \<open>The oldest format\<close>

text \<open>Running a reader over a known prefix.\<close>

definition delivers :: "'a reader \<Rightarrow> byte list \<Rightarrow> 'a \<Rightarrow> bool" where
  "delivers m bs v \<longleftrightarrow> (\<forall>s xs. iok s \<longrightarrow> rest s = bs @ xs \<longrightarrow> m s = Inr (v, adv (length bs) s))"

lemma deliversD: "delivers m bs v \<Longrightarrow> iok s \<Longrightarrow> rest s = bs @ xs \<Longrightarrow>
    m s = Inr (v, adv (length bs) s) \<and> iok (adv (length bs) s) \<and> rest (adv (length bs) s) = xs"
  using skip_prefix by (simp add: delivers_def)

lemma delivers_bindr: "delivers m bs v \<Longrightarrow> delivers (k v) cs w \<Longrightarrow> delivers (bindr m k) (bs @ cs) w"
proof -
  assume m: "delivers m bs v" and k: "delivers (k v) cs w"
  have "bindr m k s = Inr (w, adv (length (bs @ cs)) s)" if s: "iok s" "rest s = (bs @ cs) @ xs" for s xs
  proof -
    have 1: "m s = Inr (v, adv (length bs) s)" "iok (adv (length bs) s)" "rest (adv (length bs) s) = cs @ xs"
      using deliversD [OF m s(1), of "cs @ xs"] s(2) by auto
    from deliversD [OF k 1(2,3)] 1(1) show ?thesis by (simp add: bindr_def buf_simps)
  qed
  then show ?thesis by (simp add: delivers_def)
qed

lemma delivers_retr: "delivers (retr v) [] v"
  by (simp add: delivers_def retr_def buf_simps)

lemma delivers_prim:
  "delivers read_byte [b] b" "delivers read_int32 (le32 w) w" "delivers read_int64 (le64 u) u"
  by (auto simp: delivers_def read_byte_Cons read_int32_le read_int64_le)

lemma delivers_int32_bytes: "length bs = 4 \<Longrightarrow>
    delivers read_int32 bs (un32 (bs ! 0) (bs ! 1) (bs ! 2) (bs ! 3))"
  by (auto simp: delivers_def read_int32_conv try_u32_conv nth_append)

lemma read_tl_length_rest:
  assumes "rest s = l # xs"
  shows "read_tl_length s = (if l < 254 then Inr (ucast l, adv 1 s)
     else if length xs < 3 then Inl AssertFail
     else Inr (un32 (xs ! 0) (xs ! 1) (xs ! 2) 0, adv 4 s))"
proof -
  have r: "rest (adv 1 s) = xs" using assms by (simp add: buf_simps)
  have l: "length (ibuf (adv 1 s)) - ioff (adv 1 s) = length xs"
    using length_rest [of "adv 1 s"] r by (simp add: remaining_def)
  have n: "ibuf (adv 1 s) ! (ioff (adv 1 s) + k) = xs ! k" if "k < length xs" for k
    using nth_ibuf [of k "adv 1 s"] r that by simp
  show ?thesis
    unfolding read_tl_length_def read_byte_Cons [OF assms] ensure_conv bind_res.simps prod.case Let_def l r
    using n [of 0] n [of 1] n [of 2] by (cases xs; cases "tl xs") (auto simp: adv_def)
qed

lemma tl_length_bytes: "n < 2 ^ 24 \<Longrightarrow>
    un32 (ucast n) (ucast (drop_bit 8 n)) (ucast (drop_bit 16 n)) 0 = (n :: u32)"
proof -
  assume "n < 2 ^ 24"
  then have "unat n < 2 ^ 24" by (simp add: word_less_nat_alt)
  note b = small_bits [OF this]
  have "ucast (drop_bit 24 n) = (0 :: byte)"
    by (rule bit_word_eqI) (use b in \<open>force simp: bit_simps\<close>)
  then show ?thesis using un32_le32 [of n] by simp
qed

lemma delivers_tl_length: "n < 2 ^ 24 \<Longrightarrow> delivers read_tl_length (tl_length n) n"
proof (cases "n \<le> 253")
  case True
  then have u: "unat n \<le> 253" by (simp add: word_le_nat_alt)
  define k where "k = unat n"
  have n: "n = of_nat k" "k \<le> 253" using u by (simp_all add: k_def)
  have c: "ucast (of_nat k :: u32) = (of_nat k :: byte)" "ucast (of_nat k :: byte) = (of_nat k :: u32)"
    using n(2) by (simp_all add: word_unat_eq_iff unsigned_ucast_eq unsigned_of_nat take_bit_nat_eq_self)
  have "unat (of_nat k :: byte) = k" using n(2) by (intro unat_of_nat_byte) simp
  then have 1: "ucast n < (254 :: byte)" "ucast (ucast n :: byte) = n"
    unfolding n(1) c using n(2) by (simp_all add: word_less_nat_alt)
  then show ?thesis using True by (auto simp: delivers_def tl_length_def read_tl_length_rest)
next
  case False
  assume "n < 2 ^ 24"
  then show ?thesis
    using False tl_length_bytes [of n]
    by (auto simp: delivers_def tl_length_def read_tl_length_rest eval_nat_numeral)
qed

text \<open>The random string: seven bytes behind their length need no padding.\<close>

lemma delivers_random: "length rb = 7 \<Longrightarrow> delivers skip_padded (7 # rb) ()"
proof -
  assume rb: "length rb = 7"
  have "skip_padded s = Inr ((), adv 8 s)" if "iok s" "rest s = 7 # rb @ xs" for s xs
  proof -
    have "read_tl_length s = Inr (7, adv 1 s)" using read_tl_length_rest [OF that(2)] by simp
    moreover have "ioff s + 8 \<le> length (ibuf s)"
      using that rb length_rest [of s] by (simp add: remaining_def)
    ultimately show ?thesis
      by (simp add: skip_padded_def bindr_def seek_def adv_def pad4_def Let_def)
  qed
  with rb show ?thesis by (simp add: delivers_def)
qed

text \<open>
  Once the call is established, the oldest format carries the header of a packet through:
  the type, the acknowledgments and the packet's number are read back, whatever the random
  bytes, and from version 6 on also whether signaling follows; what is left to read is then
  the signaling and the content.
\<close>

theorem simple_block_transfer:
  assumes "length (snd (rnd sq)) = 7" "len + 13 < 2 ^ 24" "len + 13 > 0"
  shows "\<exists>t. parse_legacy_legacy ver (istream_of (header_legacy_legacy rnd ver False call_id sq ack mk ty len extras @ content))
      = Inr (Some \<lparr>lh_type = ty, lh_ack_id = ack, lh_seq = sq, lh_acks = mk,
               lh_flags = (if peer_version ver \<ge> 6 \<and> extras \<noteq> [] then 1 else 0)\<rparr>, t)
    \<and> iok t
    \<and> rest t = (if peer_version ver \<ge> 6 \<and> extras \<noteq> [] then array_ser (wextra_ser ver) extras else []) @ content"
proof -
  let ?ex = "if peer_version ver \<ge> 6 \<and> extras \<noteq> [] then array_ser (wextra_ser ver) extras else []"
  let ?fl = "if peer_version ver \<ge> 6 \<and> extras \<noteq> [] then 1 else 0 :: byte"
  let ?fin = "if peer_version ver \<ge> 6 then [?fl] else []"
  let ?hd = "le32 TLID_SIMPLE_AUDIO_BLOCK @ le64 (fst (rnd sq)) @ (7 # snd (rnd sq)) @ tl_length (len + 13)
        @ [ty] @ le32 ack @ le32 sq @ le32 mk @ ?fin @ []"
  have ne: "TLID_SIMPLE_AUDIO_BLOCK \<noteq> TLID_DECRYPTED_AUDIO_BLOCK"
    by (simp add: TLID_SIMPLE_AUDIO_BLOCK_def TLID_DECRYPTED_AUDIO_BLOCK_def)
  have fl: "delivers (if peer_version ver \<ge> 6 then read_byte else retr 0) ?fin ?fl"
    by (auto intro: delivers_prim delivers_retr)
  have d: "delivers (parse_legacy_legacy ver) ?hd
      (Some \<lparr>lh_type = ty, lh_ack_id = ack, lh_seq = sq, lh_acks = mk, lh_flags = ?fl\<rparr>)"
    unfolding parse_legacy_legacy_def
    by (rule delivers_bindr [OF delivers_prim(2)], unfold if_not_P [OF ne] if_P [OF refl])
      (rule delivers_bindr delivers_prim delivers_random [OF assms(1)] delivers_tl_length [OF assms(2)]
         fl delivers_retr)+
  have "rest (istream_of (header_legacy_legacy rnd ver False call_id sq ack mk ty len extras @ content))
      = ?hd @ (?ex @ content)"
    using assms(3) by (simp add: rest_istream_of header_legacy_legacy_def array_ser_def)
  from deliversD [OF d iok_istream_of this] show ?thesis by blast
qed


theorem simple_block_transfer_witness:
  "\<exists>t. parse_legacy_legacy \<lparr>peer_version = 5, max_layer = 65\<rparr> (istream_of (header_legacy_legacy
      (\<lambda>_. (1, [1, 2, 3, 4, 5, 6, 7])) \<lparr>peer_version = 5, max_layer = 65\<rparr> False [] 9 8 7 PKT_PING 300 [] @ [42]))
    = Inr (Some \<lparr>lh_type = PKT_PING, lh_ack_id = 8, lh_seq = 9, lh_acks = 7, lh_flags = 0\<rparr>, t) \<and> rest t = [42]"
  using simple_block_transfer [of "\<lambda>_. (1, [1, 2, 3, 4, 5, 6, 7])" 9 300 "\<lparr>peer_version = 5, max_layer = 65\<rparr>" "[]" 8 7 PKT_PING "[]" "[42]"]
  by auto

definition init_flags_word :: "byte \<Rightarrow> u32 \<Rightarrow> u32" where
  "init_flags_word ty len = 32 OR 16 OR (if len > 0 then 1 else 0) OR 4 OR 8 OR push_bit 24 (ucast ty)"

lemma init_flags_bits:
  "init_flags_word ty len AND 16 \<noteq> 0" "init_flags_word ty len AND 32 \<noteq> 0" "init_flags_word ty len AND 8 \<noteq> 0"
proof -
  have b: "bit (init_flags_word ty len) 3" "bit (init_flags_word ty len) 4" "bit (init_flags_word ty len) 5"
    by (simp_all add: init_flags_word_def bit_or_iff)
  then show "init_flags_word ty len AND 16 \<noteq> 0" "init_flags_word ty len AND 32 \<noteq> 0" "init_flags_word ty len AND 8 \<noteq> 0"
    using and_exp_eq_0_iff_not_bit [of "init_flags_word ty len" 4]
      and_exp_eq_0_iff_not_bit [of "init_flags_word ty len" 5]
      and_exp_eq_0_iff_not_bit [of "init_flags_word ty len" 3] by simp_all
qed

text \<open>
  While the call is being set up, the oldest format cannot talk to itself. The writer
  puts the sixteen bytes of the call id behind the flags, and the parser does not skip them:
  it takes the call id for the acknowledgments, and its last four bytes for the protocol
  name. Unless these spell the protocol name, every packet written in this state, the init
  among them, is refused by a peer running this code.
\<close>

theorem init_block_refused:
  assumes "\<not> is_new ver" "is_legacy_legacy ver" "le_waiting env"
    and "length (snd (le_rnd env sq)) = 7" "length (le_call_id env) = 16"
    and "un32 (le_call_id env ! 12) (le_call_id env ! 13) (le_call_id env ! 14) (le_call_id env ! 15) \<noteq> PROTOCOL_NAME"
  shows "fst (packet_parse sha1 ver (q, istream_of (wrap_content env ver p extras sq ty content))) = Refused"
proof -
  let ?c = "le_call_id env" and ?r = "le_rnd env sq" and ?len = "of_nat (length content) :: u32"
  have c: "?c = take 4 ?c @ take 4 (drop 4 ?c) @ take 4 (drop 8 ?c) @ drop 12 ?c"
    using append_take_drop_id [of 4 ?c] append_take_drop_id [of 4 "drop 4 ?c"]
      append_take_drop_id [of 4 "drop 8 ?c"] by simp
  let ?hd = "le32 TLID_DECRYPTED_AUDIO_BLOCK @ le64 (fst ?r) @ (7 # snd ?r) @ le32 (init_flags_word ty ?len)
      @ take 4 ?c @ take 4 (drop 4 ?c) @ take 4 (drop 8 ?c) @ (drop 12 ?c @ []) @ []"
  note l = init_flags_bits [of ty ?len]
  have last: "delivers (bindr read_int32 (\<lambda>proto. retr (proto = PROTOCOL_NAME))) (drop 12 ?c @ []) False"
    using delivers_bindr [OF delivers_int32_bytes delivers_retr, of "drop 12 ?c" "\<lambda>proto. proto = PROTOCOL_NAME"]
      assms(5,6) by (simp add: add.commute)
  have ok: "(\<not> (init_flags_word ty ?len AND 16 \<noteq> 0 \<and> init_flags_word ty ?len AND 32 \<noteq> 0)) = False"
    "(init_flags_word ty ?len AND 8 \<noteq> 0) = True"
    using l by simp_all
  have d: "delivers (parse_legacy_legacy ver) ?hd None"
    unfolding parse_legacy_legacy_def
    apply (rule delivers_bindr [OF delivers_prim(2)], unfold if_P [OF refl])
    apply (rule delivers_bindr [OF delivers_prim(3)], rule delivers_bindr [OF delivers_random [OF assms(4)]])
    apply (rule delivers_bindr [OF delivers_prim(2)], unfold ok if_True if_False)
    apply (rule delivers_bindr [OF delivers_int32_bytes], simp add: assms(5))+
    apply (rule delivers_bindr [OF last], simp add: delivers_retr)
    done
  have "wrap_content env ver p extras sq ty content = ?hd @ (le32 (ack_seq p) @ le32 sq @ le32 (ack_mask p)
      @ le32 PROTOCOL_NAME @ (if ?len > 0 then tl_length ?len else []) @ content)"
    using assms(2,3) c by (simp add: wrap_content_def header_legacy_legacy_def init_flags_word_def flip: append_assoc)
  then have "rest (istream_of (wrap_content env ver p extras sq ty content))
      = ?hd @ (le32 (ack_seq p) @ le32 sq @ le32 (ack_mask p)
      @ le32 PROTOCOL_NAME @ (if ?len > 0 then tl_length ?len else []) @ content)"
    by (simp only: rest_istream_of)
  then obtain t where "parse_legacy_legacy ver (istream_of (wrap_content env ver p extras sq ty content)) = Inr (None, t)"
    using deliversD [OF d iok_istream_of] by blast
  moreover have "\<not> is_legacy ver" using assms(1,2) legacy_kinds by blast
  ultimately show ?thesis
    using assms(1) by (simp add: packet_parse_def parse_legacy_def)
qed

theorem init_block_refused_witness:
  "fst (packet_parse (\<lambda>_. []) \<lparr>peer_version = 0, max_layer = 65\<rparr> (packet_new,
     istream_of (wrap_content \<lparr>le_rnd = (\<lambda>_. (1, [1, 2, 3, 4, 5, 6, 7])), le_waiting = True, le_call_id = replicate 16 0\<rparr>
       \<lparr>peer_version = 0, max_layer = 65\<rparr> packet_new [] 1 PKT_INIT [1, 2, 3]))) = Refused"
proof (rule init_block_refused)
  show "un32 (le_call_id \<lparr>le_rnd = (\<lambda>_. (1, [1, 2, 3, 4, 5, 6, 7])), le_waiting = True, le_call_id = replicate 16 0\<rparr> ! 12)
    (le_call_id \<lparr>le_rnd = (\<lambda>_. (1, [1, 2, 3, 4, 5, 6, 7])), le_waiting = True, le_call_id = replicate 16 0\<rparr> ! 13)
    (le_call_id \<lparr>le_rnd = (\<lambda>_. (1, [1, 2, 3, 4, 5, 6, 7])), le_waiting = True, le_call_id = replicate 16 0\<rparr> ! 14)
    (le_call_id \<lparr>le_rnd = (\<lambda>_. (1, [1, 2, 3, 4, 5, 6, 7])), le_waiting = True, le_call_id = replicate 16 0\<rparr> ! 15) \<noteq> PROTOCOL_NAME"
    by (simp add: un32_def PROTOCOL_NAME_def)
qed (simp_all add: is_new_def is_legacy_legacy_def)

text \<open>
  The numbers of the packets that \<^verbatim>\<open>serializeLegacy\<close> sends: they are consecutive, in the
  order of the packets, and the packet ends with the next free one.
\<close>

lemma lone_extras_numbers:
  "lone_extras_ser env ver p extras sq ws = map (\<lambda>i.
     let b = ebody (the (ws ! i)); ty = choose_type (peer_version ver) b in
       (wrap_content env ver p extras (sq + of_nat i) ty (body_ser ver b), \<not> (ty = PKT_PING \<or> ty = PKT_PONG)))
     [0..<length ws]"
proof (induction ws arbitrary: sq)
  case (Cons w ws)
  have "[0..<length (w # ws)] = 0 # map Suc [0..<length ws]"
    by (simp add: map_Suc_upt upt_conv_Cons del: upt_Suc)
  then show ?case using Cons by (simp add: Let_def add.assoc comp_def del: upt_Suc)
qed simp

fun noted :: "int \<Rightarrow> int \<Rightarrow> u32 \<Rightarrow> u32 \<Rightarrow> unacked_extra list \<Rightarrow> unacked_extra list" where
  "noted pv ep sq tmp [] = []"
| "noted pv ep sq tmp (x # xs) =
     (if \<not> goes_to ep x then x # noted pv ep sq tmp xs
      else if type_of_wextra pv (ue_data x) = PKT_NOP then note_seq sq x # noted pv ep sq tmp xs
      else note_seq tmp x # noted pv ep sq (tmp + 1) xs)"

lemma attach_extras_legacy_eq:
  "attach_extras_legacy pv ep tmp xs p =
     (p\<lparr>extra_signaling := extra_signaling p @ map ue_data (filter (goes_to ep) xs)\<rparr>, noted pv ep (pkt_seq p) tmp xs)"
  by (induction xs arbitrary: tmp p) (auto simp: Let_def)

lemma noted_lone:
  "(x, y) \<in> set (zip (filter (\<lambda>x. goes_to ep x \<and> type_of_wextra pv (ue_data x) \<noteq> PKT_NOP) xs)
      (filter (\<lambda>x. goes_to ep x \<and> type_of_wextra pv (ue_data x) \<noteq> PKT_NOP) (noted pv ep sq tmp xs)))
    \<Longrightarrow> ue_data y = ue_data x"
  by (induction pv ep sq tmp xs rule: noted.induct) (auto simp: note_seq_def goes_to_def split: if_splits)

lemma noted_lone_seqs:
  "map ue_seqs (filter (\<lambda>x. goes_to ep x \<and> type_of_wextra pv (ue_data x) \<noteq> PKT_NOP) (noted pv ep sq tmp xs))
   = (let ls = filter (\<lambda>x. goes_to ep x \<and> type_of_wextra pv (ue_data x) \<noteq> PKT_NOP) xs in
      map (\<lambda>i. hist_add (tmp + of_nat i) (ue_seqs (ls ! i))) [0..<length ls])"
proof (induction xs arbitrary: tmp)
  case (Cons x xs)
  let ?P = "\<lambda>x. goes_to ep x \<and> type_of_wextra pv (ue_data x) \<noteq> PKT_NOP"
  have up: "[0..<Suc n] = 0 # map Suc [0..<n]" for n
    by (simp add: map_Suc_upt upt_conv_Cons del: upt_Suc)
  have g: "goes_to ep (note_seq q x) = goes_to ep x" "ue_data (note_seq q x) = ue_data x"
    "ue_seqs (note_seq q x) = hist_add q (ue_seqs x)" for q
    by (simp_all add: note_seq_def goes_to_def)
  show ?case
    using Cons by (auto simp: Let_def g up comp_def add.assoc simp del: upt_Suc)
qed simp

lemma serialize_legacy_prefix:
  "\<exists>extras ms. fst (serialize_legacy env ver p)
     = lone_extras_ser env ver p extras (legacy_seq p)
         (filter (\<lambda>w. choose_type (peer_version ver) (ebody (the w)) \<noteq> PKT_NOP) (extra_signaling p)) @ ms"
  unfolding serialize_legacy_def Let_def split_beta fst_conv by blast

text \<open>
  The numbers under which pending signaling is remembered for an old peer are the numbers
  of the packets it leaves in. The \<open>k\<close>-th of the extras that travel alone is noted under the
  packet's legacy number plus \<open>k\<close>, and is sent by \<^verbatim>\<open>serializeLegacy\<close> as the \<open>k\<close>-th packet,
  with that number in its header; all but pings and pongs are marked for reliable delivery.
\<close>

theorem legacy_numbering:
  assumes "prepare_legacy pm xs ep lpm (peer_version ver) p = (q, ys, pm', lpm')"
    and "lone = filter (\<lambda>x. goes_to ep x \<and> type_of_wextra (peer_version ver) (ue_data x) \<noteq> PKT_NOP) xs"
    and "k < length lone"
  shows "map ue_seqs (filter (\<lambda>x. goes_to ep x \<and> type_of_wextra (peer_version ver) (ue_data x) \<noteq> PKT_NOP) ys) ! k
      = hist_add (legacy_seq q + of_nat k) (ue_seqs (lone ! k))
    \<and> (\<exists>extras. fst (serialize_legacy env ver q) ! k =
        (wrap_content env ver q extras (legacy_seq q + of_nat k) (type_of_wextra (peer_version ver) (ue_data (lone ! k)))
           (body_ser ver (ebody (the (ue_data (lone ! k))))),
         \<not> (type_of_wextra (peer_version ver) (ue_data (lone ! k)) \<in> {PKT_PING, PKT_PONG})))"
proof -
  let ?pv = "peer_version ver"
  let ?P = "\<lambda>x. goes_to ep x \<and> type_of_wextra ?pv (ue_data x) \<noteq> PKT_NOP"
  obtain r where r: "q = r\<lparr>extra_signaling := map ue_data (filter (goes_to ep) xs)\<rparr>"
    "ys = noted ?pv ep (pkt_seq r) (legacy_seq r) xs"
    using assms(1) by (auto simp: prepare_legacy_def Let_def attach_extras_legacy_eq split: prod.splits)
  have 1: "map ue_seqs (filter ?P ys) ! k = hist_add (legacy_seq q + of_nat k) (ue_seqs (lone ! k))"
    using assms(3) unfolding r(2) noted_lone_seqs assms(2) r(1) by (simp add: Let_def)
  have "filter (\<lambda>w. choose_type ?pv (ebody (the w)) \<noteq> PKT_NOP) (extra_signaling q) = map ue_data lone"
    unfolding r(1) assms(2) by (simp add: filter_map comp_def type_of_wextra_def conj_commute)
  then obtain extras ms where "fst (serialize_legacy env ver q)
      = lone_extras_ser env ver q extras (legacy_seq q) (map ue_data lone) @ ms"
    using serialize_legacy_prefix [of env ver q] by auto
  then have "fst (serialize_legacy env ver q) ! k = lone_extras_ser env ver q extras (legacy_seq q) (map ue_data lone) ! k"
    using assms(3) by (simp add: nth_append lone_extras_numbers)
  with 1 show ?thesis
    using assms(3) by (auto simp: lone_extras_numbers Let_def type_of_wextra_def)
qed


theorem legacy_numbering_witness:
  "\<exists>q ys pm lpm extras. prepare_legacy (pm_new 0 1) [unacked_extra_new (Some \<lparr>ehash = 0, ebody = ExtraPing\<rparr>) 0] 4
        (pm_new 0 0) (peer_version \<lparr>peer_version = 9, max_layer = 92\<rparr>) packet_new = (q, ys, pm, lpm)
     \<and> fst (serialize_legacy \<lparr>le_rnd = (\<lambda>_. (0, [])), le_waiting = False, le_call_id = []\<rparr> \<lparr>peer_version = 9, max_layer = 92\<rparr> q) ! 0
       = (wrap_content \<lparr>le_rnd = (\<lambda>_. (0, [])), le_waiting = False, le_call_id = []\<rparr> \<lparr>peer_version = 9, max_layer = 92\<rparr> q extras 1 PKT_PING [], False)"
proof -
  let ?v = "\<lparr>peer_version = 9, max_layer = 92\<rparr>"
  let ?x = "unacked_extra_new (Some \<lparr>ehash = 0, ebody = ExtraPing\<rparr>) 0"
  obtain q ys pm lpm where 1: "prepare_legacy (pm_new 0 1) [?x] 4 (pm_new 0 0) (peer_version ?v) packet_new = (q, ys, pm, lpm)"
    by (cases "prepare_legacy (pm_new 0 1) [?x] 4 (pm_new 0 0) (peer_version ?v) packet_new") auto
  have t: "type_of_wextra 9 (ue_data ?x) = PKT_PING"
    by (simp add: type_of_wextra_def unacked_extra_new_def choose_type_def)
  have "legacy_seq q = 1"
    using 1 by (auto simp: prepare_legacy_def prepare_def next_local_seq_def pm_eq_def pm_new_def
        attach_extras_legacy_eq Let_def packet_new_def packet0_new_def packet0.defs split: prod.splits)
  with legacy_numbering [OF 1 refl, of 0 "\<lparr>le_rnd = (\<lambda>_. (0, [])), le_waiting = False, le_call_id = []\<rparr>"] 1 t show ?thesis
    by (auto simp: goes_to_def unacked_extra_new_def pkt_defs)
qed

subsection \<open>More than eight error correction entries\<close>

lemma skip_wbytes_refused:
  "list_all wbytes_valid ws \<Longrightarrow> length ws < n \<Longrightarrow> iok s \<Longrightarrow> rest s = concat (map wbytes_ser ws) \<Longrightarrow>
     fst (skip_wbytes n (x, s)) = Refused"
proof (induction ws arbitrary: n s)
  case Nil
  then obtain m where "n = Suc m" by (cases n) auto
  with Nil show ?case by (simp add: wrapped_parse.simps try_u8_conv)
next
  case (Cons w ws)
  then obtain m where m: "n = Suc m" "length ws < m" by (cases n) auto
  have w: "wbytes_parse (None, s) = (Done, wbytes_canon w, adv (length (wbytes_ser w)) s)"
    using Cons.prems readsD [OF wbytes_reads, of w s "concat (map wbytes_ser ws)"] by simp
  have "fst (skip_wbytes m (x, adv (length (wbytes_ser w)) s)) = Refused"
    using Cons skip_prefix [of s "wbytes_ser w" "concat (map wbytes_ser ws)"] m(2) by simp
  with w m(1) show ?case by simp
qed

lemma slots_run:
  assumes "length ws = 8" "list_all wbytes_valid ws" "length v = 8" "iok s" "rest s = concat (map wbytes_ser ws) @ ys"
  shows "\<exists>v1 t. slots_parse 8 (v, s) = (Done, v1, t) \<and> iok t \<and> rest t = ys"
proof -
  have "\<exists>v1 t. mask_items wbytes_parse (- 1) is (v, s) = (Done, v1, t) \<and> iok t \<and> rest t = ys"
    if "length is = length us" "list_all wbytes_valid us" "iok s" "rest s = concat (map wbytes_ser us) @ ys"
      "\<forall>i \<in> set is. i < 8" for "is" us v s
    using that
  proof (induction "is" us arbitrary: v s rule: list_induct2)
    case Nil
    then show ?case by simp
  next
    case (Cons i "is" u us)
    have "wbytes_parse (v ! i, s) = (Done, wbytes_canon u, adv (length (wbytes_ser u)) s)"
      using Cons.prems readsD [OF wbytes_reads, of u s "concat (map wbytes_ser us) @ ys"] by simp
    moreover have "\<exists>v1 t. mask_items wbytes_parse (- 1) is (v[i := wbytes_canon u], adv (length (wbytes_ser u)) s)
        = (Done, v1, t) \<and> iok t \<and> rest t = ys"
      using Cons skip_prefix [of s "wbytes_ser u" "concat (map wbytes_ser us) @ ys"] by simp
    ultimately show ?case using Cons.prems by simp
  qed
  from this [of "[0..<8]" ws s v] assms show ?thesis by (simp add: slots_parse_def del: upt_Suc)
qed

text \<open>
  An old packet with more than eight error correction entries is not read to its end.
  The parser fills its eight slots, and then has to skip the others; but the number of those
  is computed as \<^verbatim>\<open>8 - count\<close> in eight bits. With 9 to 135 entries it looks for more entries
  than there are, and refuses a packet that is well-formed.
\<close>

theorem legacy_ec_overcount:
  assumes "peer_version ver < 7" "length ws = c" "9 \<le> c" "c < 136" "list_all wbytes_valid ws"
    and "length (extra_ec x) = 8"
  shows "fst (stream_ec_parse ver (x, istream_of (sid # le32 time @ array_ser wbytes_ser ws))) = Refused"
proof -
  let ?s = "istream_of (sid # le32 time @ array_ser wbytes_ser ws)"
  let ?n = "of_nat c :: byte"
  have n: "unat ?n = c" using assms(4) by (intro unat_of_nat_byte) simp
  have sk: "unat (8 - ?n) = 264 - c"
    using assms(3,4) n by (simp add: unat_sub_if')
  have 1: "try_u8 ?s = (Some sid, adv 1 ?s)" "iok (adv 1 ?s)" "rest (adv 1 ?s) = le32 time @ array_ser wbytes_ser ws"
    by (auto intro!: iok_adv simp: buf_simps)
  have 2: "try_u32 (adv 1 ?s) = (Some time, adv 5 ?s)" "iok (adv 5 ?s)" "rest (adv 5 ?s) = array_ser wbytes_ser ws"
    using 1 by (auto intro!: iok_adv simp: buf_simps)
  have 3: "try_u8 (adv 5 ?s) = (Some ?n, adv 6 ?s)" "iok (adv 6 ?s)"
    "rest (adv 6 ?s) = concat (map wbytes_ser (take 8 ws)) @ concat (map wbytes_ser (drop 8 ws))"
  proof -
    have "rest (adv 5 ?s) = ?n # concat (map wbytes_ser ws)" using 2(3) assms(2) by (simp add: array_ser_def)
    then show "try_u8 (adv 5 ?s) = (Some ?n, adv 6 ?s)" "iok (adv 6 ?s)"
      "rest (adv 6 ?s) = concat (map wbytes_ser (take 8 ws)) @ concat (map wbytes_ser (drop 8 ws))"
      using skip_prefix [of "adv 5 ?s" "[?n]"] 2(2)
      by (simp_all add: try_u8_Cons adv_adv flip: concat_append map_append)
  qed
  let ?y = "x\<lparr>stream_id := sid, pkt_seq := time div 60 + 1\<rparr>"
  have "list_all wbytes_valid (take 8 ws)" "list_all wbytes_valid (drop 8 ws)"
    using assms(5) by (auto simp: list_all_iff dest: in_set_takeD in_set_dropD)
  moreover obtain v1 t where t: "slots_parse 8 (extra_ec ?y, adv 6 ?s) = (Done, v1, t)" "iok t"
      "rest t = concat (map wbytes_ser (drop 8 ws))"
    using slots_run [of "take 8 ws" "extra_ec ?y" "adv 6 ?s"] calculation 3(2,3) assms by auto
  ultimately have "fst (skip_wbytes (264 - c) (?y\<lparr>extra_ec := v1\<rparr>, t)) = Refused"
    using assms(2-4) by (intro skip_wbytes_refused) simp_all
  then obtain z u where "skip_wbytes (264 - c) (?y\<lparr>extra_ec := v1\<rparr>, t) = (Refused, z, u)"
    by (metis prod.collapse)
  moreover have "slots_parse (unat ?n) = slots_parse 8" using n assms(3) by (simp add: slots_parse_def)
  moreover have "?n > 8" using n assms(3) by (simp add: word_less_nat_alt)
  ultimately show ?thesis
    using 1(1) 2(1) 3(1) t(1) sk assms(1)
    by (simp add: stream_ec_parse_def rd8_def rd32_def rd_obj_def comp_def)
qed

theorem legacy_ec_overcount_witness:
  "fst (stream_ec_parse \<lparr>peer_version = 5, max_layer = 65\<rparr>
     (packet_new, istream_of (1 # le32 60 @ array_ser wbytes_ser (replicate 9 None)))) = Refused"
  by (rule legacy_ec_overcount [where c = 9])
    (simp_all add: list_all_iff wbytes_valid_def packet_new_def packet0_new_def packet0.defs)

end
