(* ===== verification/Blocking_Queue.thy ===== *)
theory Blocking_Queue
  imports Main
begin

section \<open>Blocking queue (tools/BlockingQueue.h)\<close>

text \<open>
  The queue between the message thread and the sending thread: a list under a mutex and a
  semaphore that counts its elements. The threads are interleaved at the points where the
  code waits: \<^verbatim>\<open>GetBlocking\<close> passes the semaphore before it takes the mutex, and \<^verbatim>\<open>Get\<close> may wait
  for the semaphore while it holds the mutex.
\<close>

record 'a bqueue =
  bq_items :: "'a list"
  bq_capacity :: nat
  bq_sem :: nat

definition bq_new :: "nat \<Rightarrow> 'a bqueue" where
  "bq_new n = \<lparr>bq_items = [], bq_capacity = n, bq_sem = 0\<rparr>"

text \<open>\<^verbatim>\<open>Put\<close> aborts the process when the capacity is exceeded: \<open>None\<close>.\<close>

definition bq_put :: "'a \<Rightarrow> 'a bqueue \<Rightarrow> 'a bqueue option" where
  "bq_put x b = (let q = bq_items b @ [x] in
     if length q > bq_capacity b then None
     else Some (b\<lparr>bq_items := q, bq_sem := bq_sem b + 1\<rparr>))"

text \<open>Taking the front of an empty list is undefined: \<open>None\<close>.\<close>

definition bq_get_internal :: "'a bqueue \<Rightarrow> ('a \<times> 'a bqueue) option" where
  "bq_get_internal b = (case bq_items b of [] \<Rightarrow> None | x # xs \<Rightarrow> Some (x, b\<lparr>bq_items := xs\<rparr>))"

definition bq_acquire :: "'a bqueue \<Rightarrow> 'a bqueue option" where
  "bq_acquire b = (if bq_sem b = 0 then None else Some (b\<lparr>bq_sem := bq_sem b - 1\<rparr>))"

definition bq_size :: "'a bqueue \<Rightarrow> nat" where
  "bq_size b = length (bq_items b)"

subsection \<open>Threads\<close>

text \<open>
  The queue with its threads: how many calls of \<^verbatim>\<open>GetBlocking\<close> have passed the semaphore and wait
  for the mutex, whether a call of \<^verbatim>\<open>Get\<close> holds the mutex and waits for the semaphore, and,
  as ghosts, everything that was put and everything that was taken.
\<close>

record 'a bq_system =
  bq_queue :: "'a bqueue"
  bq_passed :: nat
  bq_in_get :: bool
  bq_puts :: "'a list"
  bq_gets :: "'a list"

definition bq_start :: "nat \<Rightarrow> 'a bq_system" where
  "bq_start n = \<lparr>bq_queue = bq_new n, bq_passed = 0, bq_in_get = False, bq_puts = [], bq_gets = []\<rparr>"

inductive bq_step :: "'a bq_system \<Rightarrow> 'a bq_system \<Rightarrow> bool" where
  put: "\<not> bq_in_get s \<Longrightarrow> bq_put x (bq_queue s) = Some b \<Longrightarrow>
    bq_step s (s\<lparr>bq_queue := b, bq_puts := bq_puts s @ [x]\<rparr>)"
| blocking_acquire: "bq_acquire (bq_queue s) = Some b \<Longrightarrow>
    bq_step s (s\<lparr>bq_queue := b, bq_passed := bq_passed s + 1\<rparr>)"
| blocking_take: "\<not> bq_in_get s \<Longrightarrow> bq_passed s > 0 \<Longrightarrow> bq_get_internal (bq_queue s) = Some (x, b) \<Longrightarrow>
    bq_step s (s\<lparr>bq_queue := b, bq_passed := bq_passed s - 1, bq_gets := bq_gets s @ [x]\<rparr>)"
| get_lock: "\<not> bq_in_get s \<Longrightarrow> bq_size (bq_queue s) > 0 \<Longrightarrow> bq_step s (s\<lparr>bq_in_get := True\<rparr>)"
| get_take: "bq_in_get s \<Longrightarrow> bq_acquire (bq_queue s) = Some b \<Longrightarrow> bq_get_internal b = Some (x, c) \<Longrightarrow>
    bq_step s (s\<lparr>bq_queue := c, bq_in_get := False, bq_gets := bq_gets s @ [x]\<rparr>)"

inductive_cases bq_stepE: "bq_step s t"

inductive bq_reach :: "nat \<Rightarrow> 'a bq_system \<Rightarrow> bool" for n where
  start: "bq_reach n (bq_start n)"
| step: "bq_reach n s \<Longrightarrow> bq_step s t \<Longrightarrow> bq_reach n t"

definition bq_inv :: "'a bq_system \<Rightarrow> bool" where
  "bq_inv s \<longleftrightarrow> bq_sem (bq_queue s) + bq_passed s = length (bq_items (bq_queue s))
     \<and> length (bq_items (bq_queue s)) \<le> bq_capacity (bq_queue s)
     \<and> bq_puts s = bq_gets s @ bq_items (bq_queue s)
     \<and> (bq_in_get s \<longrightarrow> bq_items (bq_queue s) \<noteq> [])"

lemma bq_inv_step: "bq_step s t \<Longrightarrow> bq_inv s \<Longrightarrow> bq_inv t"
  by (erule bq_stepE)
    (auto simp: bq_inv_def bq_put_def bq_acquire_def bq_get_internal_def bq_size_def Let_def
      split: if_splits list.splits)

lemma bq_reach_inv: "bq_reach n s \<Longrightarrow> bq_inv s"
proof (induction rule: bq_reach.induct)
  case start
  show ?case by (simp add: bq_inv_def bq_start_def bq_new_def)
qed (rule bq_inv_step)


lemma first_put: "bq_step (bq_start (Suc n)) ((bq_start (Suc n))\<lparr>
    bq_queue := \<lparr>bq_items = [x], bq_capacity = Suc n, bq_sem = 1\<rparr>, bq_puts := [x]\<rparr>)"
  using bq_step.put [of "bq_start (Suc n)" x "\<lparr>bq_items = [x], bq_capacity = Suc n, bq_sem = 1\<rparr>"]
  by (simp add: bq_start_def bq_new_def bq_put_def)


text \<open>
  A call of \<^verbatim>\<open>Get\<close> and a call of \<^verbatim>\<open>GetBlocking\<close> can block each other for ever: with one element
  in the queue, \<^verbatim>\<open>GetBlocking\<close> takes the semaphore, \<^verbatim>\<open>Get\<close> takes the mutex, sees the element and
  waits for the semaphore, and nothing can happen any more.
\<close>

lemma bq_deadlock:
  "\<exists>s :: 'a bq_system. bq_reach (Suc n) s \<and> bq_items (bq_queue s) \<noteq> [] \<and> (\<forall>t. \<not> bq_step s t)"
proof -
  fix x :: 'a
  let ?q = "\<lambda>k. \<lparr>bq_items = [x], bq_capacity = Suc n, bq_sem = k\<rparr>"
  let ?s1 = "(bq_start (Suc n))\<lparr>bq_queue := ?q 1, bq_puts := [x]\<rparr>"
  let ?s2 = "?s1\<lparr>bq_queue := ?q 0, bq_passed := 1\<rparr>"
  let ?s3 = "?s2\<lparr>bq_in_get := True\<rparr>"
  have "bq_step (bq_start (Suc n)) ?s1"
    by (rule first_put)
  moreover have "bq_step ?s1 ?s2"
    using bq_step.blocking_acquire [of ?s1 "?q 0"] by (simp add: bq_acquire_def bq_start_def)
  moreover have "bq_step ?s2 ?s3"
    by (rule bq_step.get_lock) (simp_all add: bq_size_def bq_start_def)
  ultimately have "bq_reach (Suc n) ?s3" by (blast intro: bq_reach.intros)
  moreover have "\<not> bq_step ?s3 t" for t
    by (auto elim!: bq_stepE simp: bq_acquire_def)
  ultimately show ?thesis by (intro exI [of _ ?s3]) simp
qed

end
