(* ===== verification/Sending.thy ===== *)
theory Sending
  imports Endpoints Legacy Blocking_Queue
begin

section \<open>Sending (NetworkAPI.cpp, Reliable.cpp)\<close>

text \<open>
  From a packet to the bytes that the send thread puts on the wire: sequence numbers and
  extras, serialization, encryption, the choice of the socket, congestion control and the history
  of the stream; the queue of packets whose socket is not ready, and the list of packets
  that are repeated until they are acknowledged.
\<close>

record reliable =
  rl_pkt :: pending_packet
  rl_retry :: real
  rl_timeout :: real
  rl_tries :: byte
  rl_first :: real
  rl_last :: real

text \<open>What the send thread gets; the socket of a TCP relay is named by its endpoint.\<close>

record raw_packet =
  rw_data :: "byte list"
  rw_addr :: naddr
  rw_port :: u16
  rw_tcp :: bool
  rw_socket :: "int option"

record config =
  c_init_timeout :: real
  c_recv_timeout :: real
  c_data_saving :: nat
  c_call_upgrade :: bool
  c_video_send :: bool
  c_video_recv :: bool

record flow = routing +
  send_queue :: "pending_packet list"
  reliable_packets :: "reliable list"
  raw_queue :: "raw_packet bqueue"
  cong :: congestion
  unacked_incoming :: u32
  stopping :: bool
  config :: config
  data_saving :: bool
  data_saving_by_peer :: bool
  relay_switch :: real
  p2p_to_relay :: real
  relay_to_p2p :: real

definition find_endpoint :: "int \<Rightarrow> 'z routing_scheme \<Rightarrow> exn + int \<times> endpoint" where
  "find_endpoint i s = bind_res (get_endpoint_by_id i s) (\<lambda>r. case r of
     None \<Rightarrow> Inl Undefined
   | Some e \<Rightarrow> Inr (if i \<noteq> 0 then i else current_endpoint s, e))"

definition prepare_packet :: "env \<Rightarrow> endpoint \<Rightarrow> byte list \<Rightarrow> cc_packet \<Rightarrow> 'z session_scheme \<Rightarrow> pending_packet" where
  "prepare_packet env e data info s = \<lparr>pp_packet =
       (if is_reflector e then peer_tag e
        else if peer_version (cur_ver s) < 9 then call_id (cur_keys s) else [])
       @ (if length data > 0 then encrypt_packet (crypto env) (cur_keys s) (cur_ver s) (use_mtproto2 s) data else []),
     pp_info = info, pp_endpoint = ep_id e\<rparr>"

definition on_stream :: "nat \<Rightarrow> (packet_manager \<Rightarrow> packet_manager) \<Rightarrow> 'z session_scheme \<Rightarrow> 'z session_scheme" where
  "on_stream i f s = s\<lparr>out_streams := (out_streams s)[i := (out_streams s ! i)\<lparr>os_pm := f (os_pm (out_streams s ! i))\<rparr>]\<rparr>"

definition pm_of :: "nat \<Rightarrow> 'z session_scheme \<Rightarrow> packet_manager" where
  "pm_of i s = os_pm (out_streams s ! i)"

text \<open>The socket of a TCP relay is opened by the first packet for it.\<close>

definition open_socket :: "int \<Rightarrow> endpoint \<Rightarrow> 'z routing_scheme \<Rightarrow> 'z routing_scheme" where
  "open_socket k e s = (if ep_type e = TCP_RELAY \<and> \<not> ep_connected e
     then call_out Cancel_Select (call_out (Connect_Tcp k (get_address e) (ep_port e))
            (modify_endpoint k (\<lambda>x. x\<lparr>ep_connected := True\<rparr>) s))
     else s)"

definition can_send :: "env \<Rightarrow> int \<Rightarrow> endpoint \<Rightarrow> bool" where
  "can_send env k e = (if ep_type e \<noteq> TCP_RELAY then udp_ready env else tcp_ready env k)"

definition raw_of :: "int \<Rightarrow> endpoint \<Rightarrow> pending_packet \<Rightarrow> raw_packet" where
  "raw_of k e p = \<lparr>rw_data = pp_packet p, rw_addr = get_address e, rw_port = ep_port e,
     rw_tcp = (ep_type e = TCP_RELAY), rw_socket = (if ep_type e = TCP_RELAY then Some k else None)\<rparr>"

text \<open>The hand-over to the send thread, with what is noted about the packet.\<close>

definition hand_over :: "env \<Rightarrow> int \<Rightarrow> endpoint \<Rightarrow> pending_packet \<Rightarrow> 'z flow_scheme \<Rightarrow> exn + 'z flow_scheme" where
  "hand_over env k e p s =
    bind_res (packet_sent (now env) (pp_info p) (of_nat (length (pp_packet p))) (cong s)) (\<lambda>c.
    case bq_put (raw_of k e p) (raw_queue s) of
      None \<Rightarrow> Inl AssertFail
    | Some q \<Rightarrow> let i = unat (ccp_stream_id (pp_info p)) in
        if i \<ge> length (out_streams s) then Inl Undefined
        else Inr (on_stream i (add_recent_outgoing (now env) p)
               (s\<lparr>cong := c, raw_queue := q, unacked_incoming := 0\<rparr>)))"

definition send_or_enqueue :: "env \<Rightarrow> pending_packet \<Rightarrow> bool \<Rightarrow> 'z flow_scheme \<Rightarrow> exn + 'z flow_scheme" where
  "send_or_enqueue env p enqueue s =
    bind_res (find_endpoint (pp_endpoint p) s) (\<lambda>(k, e).
      let s1 = open_socket k e s in
      if \<not> can_send env k e then Inr (if enqueue then s1\<lparr>send_queue := send_queue s1 @ [p]\<rparr> else s1)
      else if (ep_type e = TCP_RELAY \<and> use_tcp s1) \<or> (ep_type e \<noteq> TCP_RELAY \<and> use_udp s1) then
        if stopping s1 then Inr s1 else hand_over env k e p s1
      else Inr s1)"

definition send_packet_reliably :: "env \<Rightarrow> pending_packet \<Rightarrow> real \<Rightarrow> real \<Rightarrow> byte \<Rightarrow> 'z flow_scheme \<Rightarrow> 'z flow_scheme" where
  "send_packet_reliably env p retry timeout tries s =
    (let s1 = post_only env Run_Update_Reliable 0 0 (s\<lparr>reliable_packets := reliable_packets s
                @ [\<lparr>rl_pkt = p, rl_retry = retry, rl_timeout = timeout, rl_tries = tries, rl_first = 0, rl_last = 0\<rparr>]\<rparr>)
     in if timeout > 0 then post_only env Run_Update_Reliable timeout 0 s1 else s1)"

fun send_legacy_parts :: "env \<Rightarrow> endpoint \<Rightarrow> u32 \<Rightarrow> real \<Rightarrow> real \<Rightarrow> byte \<Rightarrow> (byte list \<times> bool) list
    \<Rightarrow> 'z flow_scheme \<Rightarrow> exn + 'z flow_scheme" where
  "send_legacy_parts env e sq retry timeout tries [] s = Inr s"
| "send_legacy_parts env e sq retry timeout tries ((buf, rel) # out) s =
     (let p = prepare_packet env e buf \<lparr>ccp_seq = sq, ccp_stream_id = 0\<rparr> s in
      bind_res (if rel \<or> tries \<noteq> 0
          then Inr (send_packet_reliably env p retry timeout (if tries \<noteq> 0 then tries else 255) s)
          else send_or_enqueue env p True s)
        (send_legacy_parts env e (sq + 1) retry timeout tries out))"

definition is_waiting :: "'z session_scheme \<Rightarrow> bool" where
  "is_waiting s \<longleftrightarrow> call_state s = Wait_Init \<or> call_state s = Wait_Init_Ack"

definition send_packet_new :: "env \<Rightarrow> 'p packet0_scheme \<Rightarrow> endpoint \<Rightarrow> real \<Rightarrow> real \<Rightarrow> byte
    \<Rightarrow> 'z flow_scheme \<Rightarrow> exn + 'z flow_scheme" where
  "send_packet_new env p e retry timeout tries s =
    (let i = unat (stream_id p) in
     case prepare_extras (pm_of i s) (current_extras s) (ep_id e) p of (q, xs, pm) \<Rightarrow>
       let s1 = on_stream i (\<lambda>_. pm) (s\<lparr>current_extras := xs\<rparr>);
           r = prepare_packet env e (packet_ser (cur_ver s1) q) \<lparr>ccp_seq = pkt_seq q, ccp_stream_id = stream_id q\<rparr> s1
       in if tries \<noteq> 0 then Inr (send_packet_reliably env r retry timeout tries s1)
          else send_or_enqueue env r True s1)"

definition send_packet_legacy :: "env \<Rightarrow> 'p packet0_scheme \<Rightarrow> endpoint \<Rightarrow> real \<Rightarrow> real \<Rightarrow> byte
    \<Rightarrow> 'z flow_scheme \<Rightarrow> exn + 'z flow_scheme" where
  "send_packet_legacy env p e retry timeout tries s =
    (let i = unat (stream_id p) in
     case prepare_legacy (pm_of i s) (current_extras s) (ep_id e) (pm_of 0 s) (peer_version (cur_ver s)) p of
       (q, xs, pm, lpm) \<Rightarrow>
       let s0 = s\<lparr>current_extras := xs\<rparr>;
           s1 = (if i = 0 then on_stream 0 (\<lambda>_. pm) s0 else on_stream 0 (\<lambda>_. lpm) (on_stream i (\<lambda>_. pm) s0))
       in case serialize_legacy \<lparr>le_rnd = legacy_rnd env, le_waiting = is_waiting s1, le_call_id = call_id (cur_keys s1)\<rparr>
                 (cur_ver s1) q of
            (out, r) \<Rightarrow> send_legacy_parts env e (legacy_seq q) retry timeout tries out
              (on_stream 0 (set_local_seq (legacy_seq r)) s1))"

definition send_packet :: "env \<Rightarrow> 'p packet0_scheme \<Rightarrow> int \<Rightarrow> real \<Rightarrow> real \<Rightarrow> byte
    \<Rightarrow> 'z flow_scheme \<Rightarrow> exn + 'z flow_scheme" where
  "send_packet env p ep retry timeout tries s =
    bind_res (find_endpoint ep s) (\<lambda>(_, e).
      if unat (stream_id p) \<ge> length (out_streams s) then Inl Undefined
      else if is_new (cur_ver s) then send_packet_new env p e retry timeout tries s
      else send_packet_legacy env p e retry timeout tries s)"

definition send_nop :: "env \<Rightarrow> int \<Rightarrow> 'z flow_scheme \<Rightarrow> exn + 'z flow_scheme" where
  "send_nop env ep s = send_packet env packet_new ep (1 / 2) 5 0 s"

subsection \<open>The start of a call\<close>

definition init_extra :: "env \<Rightarrow> 'z flow_scheme \<Rightarrow> init" where
  "init_extra env s = init_new\<lparr>init_peer_version := 10, init_min_version := 3,
     init_flags := (if c_call_upgrade (config s) then 2 else 0) OR (if c_video_recv (config s) then 8 else 0)
       OR (if c_video_send (config s) then 4 else 0) OR (if data_saving s then 1 else 0),
     init_audio_codecs := [Opus], init_decoders := (if c_video_recv (config s) then my_decoders env else []),
     init_max_resolution := (if max_layer (cur_ver s) \<ge> 92 then my_resolution env else 0)\<rparr>"

fun init_packets :: "env \<Rightarrow> u32 \<Rightarrow> endpoint omap \<Rightarrow> 'z flow_scheme \<Rightarrow> exn + 'z flow_scheme" where
  "init_packets env sq [] s = Inr s"
| "init_packets env sq ((_, e) # m) s = (if ep_type e = TCP_RELAY \<and> \<not> use_tcp s then init_packets env sq m s
     else bind_res (send_packet env (packet_new\<lparr>pkt_seq := sq, ack_seq := last_remote_seq (pm_of 0 s),
            ack_mask := last_remote_mask (pm_of 0 s)\<rparr>) (ep_id e) (1 / 2) (c_init_timeout (config s)) 255 s)
       (init_packets env sq m))"

definition send_init :: "env \<Rightarrow> 'z flow_scheme \<Rightarrow> exn + 'z flow_scheme" where
  "send_init env s =
    (let s1 = send_extra (ExtraInit (init_extra env s)) 0 s in
     case next_local_seq (pm_of 0 s1) of (sq, pm) \<Rightarrow>
       bind_res (init_packets env sq (endpoints s1) (on_stream 0 (\<lambda>_. pm) s1)) (\<lambda>s2.
         Inr (if call_state s2 = Wait_Init then set_state env Wait_Init_Ack s2 else s2)))"

subsection \<open>Repetition until the acknowledgment (Reliable.cpp)\<close>

definition timed_out :: "env \<Rightarrow> reliable \<Rightarrow> bool" where
  "timed_out env r \<longleftrightarrow> rl_timeout r > 0 \<and> rl_first r > 0 \<and> now env - rl_first r \<ge> rl_timeout r"

definition sent_now :: "env \<Rightarrow> reliable \<Rightarrow> reliable" where
  "sent_now env r = r\<lparr>rl_last := now env, rl_first := (if rl_first r = 0 then now env else rl_first r)\<rparr>"

text \<open>Returns what stays in the list and what has to be sent, in order.\<close>

fun reliable_pass :: "env \<Rightarrow> reliable list \<Rightarrow> 'z session_scheme \<Rightarrow> reliable list \<times> pending_packet list \<times> 'z session_scheme" where
  "reliable_pass env [] s = ([], [], s)"
| "reliable_pass env (r # rs) s = (if timed_out env r \<or> rl_tries r = 0 then reliable_pass env rs s
     else let r1 = r\<lparr>rl_tries := rl_tries r - 1\<rparr> in
       if now env - rl_last r1 \<ge> rl_retry r1
       then (case reliable_pass env rs (post_only env Run_Update_Reliable (rl_retry r1) 0 s) of
               (ks, ps, s1) \<Rightarrow> (sent_now env r1 # ks, rl_pkt r1 # ps, s1))
       else (case reliable_pass env rs s of (ks, ps, s1) \<Rightarrow> (r1 # ks, ps, s1)))"

fun send_all :: "env \<Rightarrow> pending_packet list \<Rightarrow> 'z flow_scheme \<Rightarrow> exn + 'z flow_scheme" where
  "send_all env [] s = Inr s"
| "send_all env (p # ps) s = bind_res (send_or_enqueue env p True s) (send_all env ps)"

definition update_reliable :: "env \<Rightarrow> 'z flow_scheme \<Rightarrow> exn + 'z flow_scheme" where
  "update_reliable env s = (case reliable_pass env (reliable_packets s) s of
     (ks, ps, s1) \<Rightarrow> send_all env ps (s1\<lparr>reliable_packets := ks\<rparr>))"

definition extra_acked :: "packet_manager \<Rightarrow> unacked_extra \<Rightarrow> bool" where
  "extra_acked pm x \<longleftrightarrow> (\<exists>sq \<in> set (hdata (ue_seqs x)). sq \<noteq> 0 \<and> was_local_acked sq pm)"

definition handle_reliable :: "env \<Rightarrow> packet_manager \<Rightarrow> 'z flow_scheme \<Rightarrow> 'z flow_scheme" where
  "handle_reliable env pm s =
    (let s1 = s\<lparr>reliable_packets := filter (\<lambda>r. \<not> was_local_acked (ccp_seq (pp_info (rl_pkt r))) pm) (reliable_packets s)\<rparr>;
         s2 = fold (acknowledged_extra env) (filter (extra_acked pm) (current_extras s1)) s1
     in s2\<lparr>current_extras := filter (\<lambda>x. \<not> extra_acked pm x) (current_extras s2)\<rparr>)"

subsection \<open>The queue of packets whose socket was not ready\<close>

fun try_send :: "env \<Rightarrow> pending_packet list \<Rightarrow> 'z flow_scheme \<Rightarrow> exn + pending_packet list \<times> 'z flow_scheme" where
  "try_send env [] s = Inr ([], s)"
| "try_send env (p # ps) s = bind_res (get_endpoint_by_id (pp_endpoint p) s) (\<lambda>r. case r of
     None \<Rightarrow> try_send env ps s
   | Some e \<Rightarrow> let k = (if pp_endpoint p \<noteq> 0 then pp_endpoint p else current_endpoint s) in
       if (ep_type e \<noteq> TCP_RELAY \<or> ep_connected e) \<and> can_send env k e
       then bind_res (send_or_enqueue env p False s) (try_send env ps)
       else bind_res (try_send env ps s) (\<lambda>(qs, s1). Inr (p # qs, s1)))"

definition try_send_outgoing :: "env \<Rightarrow> 'z flow_scheme \<Rightarrow> exn + 'z flow_scheme" where
  "try_send_outgoing env s = bind_res (try_send env (send_queue s) s) (\<lambda>(qs, s1). Inr (s1\<lparr>send_queue := qs\<rparr>))"


subsection \<open>Pings to the relays and the choice of the endpoint\<close>

definition dbl_max :: real where
  "dbl_max = (2 - 1 / 2 ^ 52) * 2 ^ 1023"

definition ping_relay :: "env \<Rightarrow> int \<Rightarrow> endpoint \<Rightarrow> 'z flow_scheme \<Rightarrow> exn + 'z flow_scheme" where
  "ping_relay env k e s = (if now env - last_ping_time e \<ge> 10
     then bind_res (send_nop env (ep_id e) (send_extra ExtraPing (ep_id e) s))
            (\<lambda>s1. Inr (modify_endpoint k (\<lambda>x. x\<lparr>last_ping_time := now env\<rparr>) s1))
     else Inr s)"

fun ping_relays :: "env \<Rightarrow> endpoint omap \<Rightarrow> real \<times> endpoint \<Rightarrow> 'z flow_scheme
    \<Rightarrow> exn + (real \<times> endpoint) \<times> 'z flow_scheme" where
  "ping_relays env [] best s = Inr (best, s)"
| "ping_relays env ((k, e) # m) best s =
     (if ep_type e = TCP_RELAY \<and> \<not> use_tcp s then ping_relays env m best s
      else if ep_type e = UDP_RELAY \<and> \<not> use_udp s then ping_relays env m best s
      else bind_res (ping_relay env k e s) (\<lambda>s1.
        let f = (if ep_type e = UDP_RELAY then 1 else 2) in
        ping_relays env m
          (if is_reflector e \<and> ep_rtt e > 0 \<and> ep_rtt e * f < fst best * relay_switch s1
           then (ep_rtt e * f, e) else best) s1))"

definition choose_endpoint :: "real \<Rightarrow> endpoint \<Rightarrow> endpoint \<Rightarrow> 'z flow_scheme \<Rightarrow> 'z flow_scheme" where
  "choose_endpoint mp best cur s =
    (let (cur1, s1) = (if ep_id best \<noteq> preferred_relay s
           then (let a = s\<lparr>preferred_relay := ep_id best\<rparr> in
                 if is_reflector cur then (best, a\<lparr>current_endpoint := ep_id best\<rparr>) else (cur, a))
           else (cur, s))
     in if ep_type cur1 = UDP_RELAY \<and> use_udp s1 then
          (case om_get (endpoints s1) ID_P2Pv4 of
             None \<Rightarrow> s1
           | Some p2p \<Rightarrow>
               if (case om_get (endpoints s1) ID_LANv4 of
                     None \<Rightarrow> False | Some l \<Rightarrow> ep_rtt l > 0 \<and> ep_rtt l < mp * relay_to_p2p s1)
               then s1\<lparr>current_endpoint := ID_LANv4\<rparr>
               else if ep_rtt p2p > 0 \<and> ep_rtt p2p < mp * relay_to_p2p s1
               then s1\<lparr>current_endpoint := ID_P2Pv4\<rparr> else s1)
        else if mp > 0 \<and> mp < ep_rtt cur1 * p2p_to_relay s1
        then s1\<lparr>current_endpoint := preferred_relay s1\<rparr> else s1)"

definition send_relay_pings :: "env \<Rightarrow> 'z flow_scheme \<Rightarrow> exn + 'z flow_scheme" where
  "send_relay_pings env s =
    (if (call_state s = Established \<or> call_state s = Reconnecting) \<and> length (endpoints s) > 1 then
       bind_res (at_endpoint (preferred_relay s) s) (\<lambda>pref.
       bind_res (at_endpoint (current_endpoint s) s) (\<lambda>cur.
         let mp = ep_rtt pref * (if ep_type pref = TCP_RELAY then 2 else 1) in
         bind_res (ping_relays env (endpoints s) (if mp = 0 then dbl_max else mp, pref) s)
           (\<lambda>(best, s1). Inr (choose_endpoint (fst best) (snd best) cur s1))))
     else Inr s)"

subsection \<open>Extras: at most one of a type for an endpoint\<close>

definition one_of_each :: "unacked_extra list \<Rightarrow> bool" where
  "one_of_each xs \<longleftrightarrow> distinct (map (\<lambda>x. (wid (ue_data x), ue_endpoint x)) xs)"

lemma put_extra_kinds:
  "set (map (\<lambda>x. (wid (ue_data x), ue_endpoint x)) (put_extra w ep xs))
   = insert (wid w, ep) (set (map (\<lambda>x. (wid (ue_data x), ue_endpoint x)) xs))"
  by (induction w ep xs rule: put_extra.induct) (auto simp: unacked_extra_new_def same_kind_def)

lemma put_extra_one: "one_of_each xs \<Longrightarrow> one_of_each (put_extra w ep xs)"
proof (induction w ep xs rule: put_extra.induct)
  case (2 w ep x xs)
  then show ?case using put_extra_kinds [of w ep xs] by (auto simp: one_of_each_def same_kind_def)
qed (simp add: one_of_each_def)

lemma one_of_each_filter: "one_of_each xs \<Longrightarrow> one_of_each (filter P xs)"
  by (simp add: one_of_each_def distinct_map_filter)

lemma attach_extras_kinds:
  "attach_extras ep xs p = (q, ys) \<Longrightarrow>
    map (\<lambda>x. (wid (ue_data x), ue_endpoint x)) ys = map (\<lambda>x. (wid (ue_data x), ue_endpoint x)) xs"
  by (induction ep xs p arbitrary: q ys rule: attach_extras.induct)
    (auto simp: note_seq_def split: if_splits prod.splits)

end
