(* ===== verification/Receiving.thy ===== *)
theory Receiving
  imports Sending
begin

section \<open>Receiving (Loop.cpp, Reflector.cpp, Protocol.cpp)\<close>

text \<open>
  From a datagram to its effects: the endpoint it came from, the answers of the reflectors,
  decryption, parsing, acknowledgments, the signaling that travels in a packet, and the media data
  that go to the jitter buffer.
\<close>

datatype net_type = Net_Unknown | Net_GPRS | Net_EDGE | Net_3G | Net_HSPA | Net_LTE | Net_WiFi
  | Net_Ethernet | Net_Other_High | Net_Other_Low | Net_Dialup | Net_Other_Mobile

definition is_mobile :: "net_type \<Rightarrow> bool" where
  "is_mobile t \<longleftrightarrow> t = Net_GPRS \<or> t = Net_EDGE \<or> t = Net_3G \<or> t = Net_HSPA \<or> t = Net_LTE \<or> t = Net_Other_Mobile"

text \<open>What the controller sets on the Opus encoder.\<close>

record encoder =
  en_bitrate :: u32
  en_vad :: bool
  en_secondary :: bool
  en_loss :: int
  en_complexity :: int

record bitrates =
  br_max :: u32
  br_max_edge :: u32
  br_max_gprs :: u32
  br_max_saving :: u32
  br_init :: u32
  br_init_edge :: u32
  br_init_gprs :: u32
  br_init_saving :: u32
  br_min :: u32
  br_incr :: u32
  br_decr :: u32

text \<open>The sender of the audio stream (AudioPacketSender.h); a \<^verbatim>\<open>double\<close> that may be no number.\<close>

datatype fp = NaN | PInf | Fin real

record audio_sender =
  as_shitty :: bool
  as_ec_level :: byte
  as_loss :: fp
  as_resend :: real
  as_ec :: "byte list list"

text \<open>
  Where the receive thread is: not started, at the top of its loop, in the wait for its sockets, or at
  its end. In the wait: the endpoints whose TCP sockets it waits for, whether the UDP socket is
  waited for to become ready for sending, and which TCP sockets are.
\<close>

datatype recv_state = Recv_Idle | Recv_Top | Recv_Select "int list" bool "int list" | Recv_Ended

record controller = flow +
  network :: net_type
  encoder :: "encoder option"
  bitrates :: bitrates
  max_bitrate :: u32
  received_init :: bool
  received_init_ack :: bool
  audio_started :: bool
  audio_out_started :: bool
  output_playing :: bool
  received_first_packet :: bool
  waiting_for_acks :: bool
  first_sent_ping :: u32
  rtt_hist :: "real hist"
  dont_send :: int
  send_losses :: u32
  packets_received :: u32
  last_recv_time :: real
  last_extras :: "byte \<Rightarrow> u64"
  peer_decoders :: "u32 list"
  peer_resolution :: u32
  init_timer :: u32
  was_handover :: bool
  peer_ipv6 :: bool
  did_send_ipv6 :: bool
  use_ipv6 :: bool
  unack_nop_threshold :: u32
  rate_max_rtt :: real
  bytes_recv_mobile :: u64
  bytes_recv_wifi :: u64
  sender :: audio_sender
  recv_losses :: u32
  send_loss_hist :: "u32 hist"
  packet_count_hist :: "u32 hist"
  prev_send_loss :: u32
  prev_seq :: u32
  was_extra_ec :: bool
  was_encoder_laggy :: bool
  was_reconnecting :: bool
  loss_for_extra_ec :: real
  rate_max_loss :: real
  reconnecting_timeout :: real
  bars :: "int hist"
  active_itf :: string
  reinit_proxy :: bool
  recv_thread :: recv_state
  send_ended :: bool
  bytes_sent_mobile :: u64
  bytes_sent_wifi :: u64
  crashed :: "exn option"

subsection \<open>Settings of the media (Bandwidth.cpp, Audio.cpp, Video.cpp)\<close>

definition update_data_saving :: "('z) controller_scheme \<Rightarrow> 'z controller_scheme" where
  "update_data_saving s = s\<lparr>data_saving := (if c_data_saving (config s) = 2 then True
     else if c_data_saving (config s) = 1 then is_mobile (network s) else False)\<rparr>"

definition saving :: "'z controller_scheme \<Rightarrow> bool" where
  "saving s \<longleftrightarrow> data_saving s \<or> data_saving_by_peer s"

definition update_bitrate_limit :: "env \<Rightarrow> 'z controller_scheme \<Rightarrow> 'z controller_scheme" where
  "update_bitrate_limit env s = (case encoder s of None \<Rightarrow> s
   | Some en \<Rightarrow>
       let b = bitrates s;
           (mx, rate) = (if saving s then (br_max_saving b, br_init_saving b)
             else if network s = Net_GPRS then (br_max_gprs b, br_init_gprs b)
             else if network s = Net_EDGE then (br_max_edge b, br_init_edge b)
             else (br_max b, br_init b));
           s1 = s\<lparr>max_bitrate := mx, encoder := Some (en\<lparr>en_bitrate := rate, en_vad := saving s\<rparr>)\<rparr>
       in if has_echo env then call_out (Echo_Voice_Detection (saving s)) s1 else s1)"

definition update_audio_output :: "env \<Rightarrow> 'z controller_scheme \<Rightarrow> 'z controller_scheme" where
  "update_audio_output env s =
    (let on = (\<exists>x \<in> set (in_streams s). is_type x = TYPE_AUDIO \<and> is_enabled x) in
     if output_ok env \<noteq> None \<and> output_playing s \<noteq> on
     then call_out (if on then Output_Start else Output_Stop) (s\<lparr>output_playing := on\<rparr>) else s)"

text \<open>The stream at position 1 has to be an audio stream: otherwise a null pointer is used.\<close>

definition start_audio :: "env \<Rightarrow> 'z controller_scheme \<Rightarrow> exn + 'z controller_scheme" where
  "start_audio env s = (if length (in_streams s) \<le> 1 \<or> is_type (in_streams s ! 1) \<noteq> TYPE_AUDIO \<or> encoder s = None
       \<or> \<not> mic_muted s \<and> input_ok env = None then Inl Undefined
     else let s1 = call_out Start_Encoder (call_out (Start_Decoder (peer_version (cur_ver s) \<ge> 6)) s) in
       if \<not> mic_muted s1 then
         (let s2 = call_out Input_Start s1 in
          Inr (if input_ok env = Some False
               then set_state env Failed (s2\<lparr>last_error := Error_Audio_IO\<rparr>) else s2))
       else Inr s1)"

definition codec_Hevc :: u32 where "codec_Hevc = fourcc 72 69 86 67"
definition codec_Avc :: u32 where "codec_Avc = fourcc 65 86 67 32"
definition codec_Vp8 :: u32 where "codec_Vp8 = fourcc 86 80 56 48"

definition common_codec :: "u32 list \<Rightarrow> u32 list \<Rightarrow> u32 option" where
  "common_codec mine peer = find (\<lambda>c. c \<in> set mine \<and> c \<in> set peer) [codec_Hevc, codec_Avc, codec_Vp8]"

definition setup_video :: "env \<Rightarrow> 'z controller_scheme \<Rightarrow> 'z controller_scheme" where
  "setup_video env s = (case common_codec (my_encoders env) (peer_decoders s) of None \<Rightarrow> s
   | Some c \<Rightarrow> s\<lparr>out_streams := out_streams s @ [\<lparr>os_id = 2, os_type = TYPE_VIDEO, os_enabled = False,
       os_paused = False, os_codec = c, os_frame = 0, os_extra_ec = False, os_pm = pm_new (raw_mask env) 2\<rparr>]\<rparr>)"

subsection \<open>Answers of the reflectors (Reflector.cpp)\<close>

definition TLID_SELF_INFO :: u32 where "TLID_SELF_INFO = 0xc01572c7"
definition TLID_PEER_INFO :: u32 where "TLID_PEER_INFO = 0x27D9371C"

definition self_info :: "env \<Rightarrow> int \<Rightarrow> endpoint \<Rightarrow> istream \<Rightarrow> 'z controller_scheme \<Rightarrow> exn + 'z controller_scheme" where
  "self_info env k e i s =
    (if ep_type e = UDP_RELAY \<and> remaining i \<ge> 32 then
       bind_res (read_int32 i) (\<lambda>(_, i1).
       bind_res (read_int64 i1) (\<lambda>(q, i2).
       bind_res (read_bytes 16 i2) (\<lambda>(ip, i3).
       bind_res (read_int32 i3) (\<lambda>(_, _).
         let s1 = modify_endpoint k (\<lambda>x.
               let y = x\<lparr>udp_pong_count := udp_pong_count x + 1, total_replies := total_replies x + 1\<rparr> in
               case om_get (udp_ping_times y) (sint q) of
                 None \<Rightarrow> y
               | Some t \<Rightarrow> y\<lparr>udp_ping_times := om_erase (sint q) (udp_ping_times y),
                              self_rtts := hist_add (now env - t) (self_rtts y)\<rparr>) s
         in Inr (if ipv6_only e \<and> \<not> did_send_ipv6 s1 \<and> IPv6 ip = my_ipv6 s1 then
                   let s2 = s1\<lparr>use_ipv6 := True\<rparr> in
                   if allow_p2p s2
                   then send_extra (ExtraIpv6Endpoint \<lparr>ip6_address = IPv6 ip, ip6_port = local_port env\<rparr>) 0
                          (s2\<lparr>did_send_ipv6 := True\<rparr>)
                   else s2
                 else s1)))))
     else Inr s)"

definition p2p_endpoint :: "env \<Rightarrow> u32 \<Rightarrow> u32 \<Rightarrow> endpoint" where
  "p2p_endpoint env a p = endpoint_new env ID_P2Pv4 (ucast p) (IPv4 a) no_address UDP_P2P_INET (replicate 16 0)"

text \<open>(The tag of a new peer-to-peer endpoint is indeterminate and never read; zeros here.)\<close>

definition peer_info :: "env \<Rightarrow> istream \<Rightarrow> 'z controller_scheme \<Rightarrow> exn + 'z controller_scheme" where
  "peer_info env i s =
    (if remaining i \<ge> 16 then
       bind_res (read_int32 i) (\<lambda>(my_a, i1).
       bind_res (read_int32 i1) (\<lambda>(_, i2).
       bind_res (read_int32 i2) (\<lambda>(peer_a, i3).
       bind_res (read_int32 i3) (\<lambda>(peer_p, _).
         let s1 = (if current_endpoint s = ID_P2Pv4 \<or> current_endpoint s = ID_LANv4
                   then s\<lparr>current_endpoint := preferred_relay s\<rparr> else s);
             s2 = s1\<lparr>endpoints := om_erase ID_LANv4 (endpoints s1)\<rparr>
         in Inr (if waiting_peer_info s2 then
              let s3 = put_endpoint ID_P2Pv4 (p2p_endpoint env peer_a peer_p) s2;
                  s4 = (if my_a = peer_a
                        then send_extra (ExtraLanEndpoint \<lparr>lan_address = lan_addr env, lan_port = local_port env\<rparr>) 0 s3
                        else s3)
              in s4\<lparr>waiting_peer_info := False\<rparr>
            else s2)))))
     else Inr s)"

text \<open>Answers whether the packet was one of the reflector's, and leaves the stream for the parser.\<close>

definition parse_relay_packet :: "env \<Rightarrow> int \<Rightarrow> endpoint \<Rightarrow> istream \<Rightarrow> 'z controller_scheme
    \<Rightarrow> exn + bool \<times> istream \<times> 'z controller_scheme" where
  "parse_relay_packet env k e i s =
    bind_res (read_int64 i) (\<lambda>(a, i1).
    bind_res (if a = 0xFFFFFFFFFFFFFFFF then bind_res (read_int32 i1) (\<lambda>(b, i2). Inr (b = 0xFFFFFFFF, i2))
              else Inr (False, i1)) (\<lambda>(special, i2).
      if \<not> special then bind_res (seek (ioff i) i2) (\<lambda>i3. Inr (False, i3, s))
      else bind_res (seek (16 + 12) i2) (\<lambda>i3.
           bind_res (read_int32 i3) (\<lambda>(tlid, i4).
           bind_res (if tlid = TLID_SELF_INFO then self_info env k e i4 s
                     else if tlid = TLID_PEER_INFO then peer_info env i4 s
                     else Inr s) (\<lambda>s1. Inr (True, i4, s1))))))"


subsection \<open>Signaling (ProcessExtraData)\<close>

text \<open>Version numbers are read as 32-bit words; the controller keeps them in an \<^verbatim>\<open>int\<close>.\<close>

definition set_peer_version :: "u32 \<Rightarrow> 'z session_scheme \<Rightarrow> 'z session_scheme" where
  "set_peer_version v s = s\<lparr>cur_ver := (cur_ver s)\<lparr>peer_version := sint v\<rparr>\<rparr>"

definition fail_incompatible :: "env \<Rightarrow> 'z session_scheme \<Rightarrow> 'z session_scheme" where
  "fail_incompatible env s = set_state env Failed (s\<lparr>last_error := Error_Incompatible\<rparr>)"

definition note_capabilities :: "env \<Rightarrow> byte \<Rightarrow> 'z controller_scheme \<Rightarrow> 'z controller_scheme" where
  "note_capabilities env f s =
    (let s1 = (if bit f 0 then update_bitrate_limit env (update_data_saving (s\<lparr>data_saving_by_peer := True\<rparr>)) else s)
     in s1\<lparr>peer_caps := peer_caps s1 OR (if bit f 1 then 1 else 0) OR (if bit f 3 then 4 else 0)
                        OR (if bit f 2 then 2 else 0)\<rparr>)"

fun note_decoders :: "env \<Rightarrow> byte \<Rightarrow> u32 list \<Rightarrow> 'z controller_scheme \<Rightarrow> 'z controller_scheme" where
  "note_decoders env r [] s = s"
| "note_decoders env r (d # ds) s = note_decoders env r ds
     (setup_video env (s\<lparr>peer_decoders := peer_decoders s @ [d], peer_resolution := ucast r\<rparr>))"

definition init_ack_of :: "'z session_scheme \<Rightarrow> init_ack" where
  "init_ack_of s = \<lparr>ack_peer_version = 10, ack_min_version = 3, ack_streams = map stream_info_of
     (filter (\<lambda>x. is_new (cur_ver s) \<or> os_type x = TYPE_AUDIO) (out_streams s))\<rparr>"

definition adopt_source :: "endpoint \<Rightarrow> 'z routing_scheme \<Rightarrow> 'z routing_scheme" where
  "adopt_source e s =
    (if ep_type e = UDP_RELAY \<and> udp_conn s \<noteq> Udp_Bad \<and> udp_conn s \<noteq> Udp_Not_Available \<or> ep_type e = TCP_RELAY
     then let s1 = s\<lparr>current_endpoint := ep_id e\<rparr> in
       if ep_type e = UDP_RELAY \<or> use_tcp s1 \<and> ep_type e = TCP_RELAY
       then s1\<lparr>preferred_relay := ep_id e\<rparr> else s1
     else s)"

text \<open>The record of the endpoint from which the packet came is read when it is needed.\<close>

definition begin_audio :: "env \<Rightarrow> bool \<Rightarrow> 'z controller_scheme \<Rightarrow> exn + 'z controller_scheme" where
  "begin_audio env ready s = (if \<not> audio_started s \<and> ready
     then bind_res (start_audio env s) (\<lambda>s1. Inr (s1\<lparr>audio_started := True\<rparr>)) else Inr s)"

definition on_init :: "env \<Rightarrow> int \<Rightarrow> init \<Rightarrow> 'z controller_scheme \<Rightarrow> exn + 'z controller_scheme" where
  "on_init env k d s =
    (let s1 = (if \<not> received_init s then set_peer_version (init_peer_version d) s else s) in
     if init_min_version d > 10 \<or> init_min_version d < 3 then Inr (fail_incompatible env s1)
     else let
       f = init_flags d;
       s2 = (if \<not> received_init s1 then note_capabilities env f s1 else s1);
       s3 = (if \<not> received_init s2 \<and> (bit f 2 \<and> c_video_recv (config s2) \<or> bit f 3 \<and> c_video_send (config s2))
             then note_decoders env (init_max_resolution d) (init_decoders d) s2 else s2)
     in bind_res (send_nop env 0 (send_extra (ExtraInitAck (init_ack_of s3)) 0 s3)) (\<lambda>s4.
        bind_res (if \<not> received_init s4
          then bind_res (at_endpoint k s4) (\<lambda>e. Inr (adopt_source e (s4\<lparr>received_init := True\<rparr>)))
          else Inr s4) (\<lambda>s5. begin_audio env (received_init_ack s5) s5)))"

definition in_stream_new :: "stream_info \<Rightarrow> in_stream" where
  "in_stream_new x = \<lparr>is_id = si_stream_id x, is_type = si_type x, is_enabled = si_enabled x, is_paused = False,
     is_codec = 0, is_frame = 60, is_extra_ec = False, is_jitter = None, is_reassembler = None, is_width = 0,
     is_height = 0, is_csd = [], is_csd_valid = False\<rparr>"

definition jitter_for :: "env \<Rightarrow> u32 \<Rightarrow> jbuf" where
  "jitter_for env frame = set_min_packet_count
     (if frame > 50 then cfg_uint env ''jitter_initial_delay_60'' 2
      else if frame > 30 then cfg_uint env ''jitter_initial_delay_40'' 4
      else cfg_uint env ''jitter_initial_delay_20'' 6)
     (jb_new (cfg_uint env) (cfg_dbl env) frame)"

fun incoming_of :: "env \<Rightarrow> int \<Rightarrow> stream_info list \<Rightarrow> in_stream list" where
  "incoming_of env pv [] = []"
| "incoming_of env pv (x # xs) =
     (if si_type x = TYPE_VIDEO then
        (if pv < 9 then incoming_of env pv xs
         else (in_stream_new x)\<lparr>is_codec := si_codec x, is_reassembler := Some reassembler_new\<rparr> # incoming_of env pv xs)
      else if si_type x = TYPE_AUDIO then
        (in_stream_new x)\<lparr>is_codec := si_codec x, is_jitter := Some (jitter_for env 60)\<rparr> # incoming_of env pv xs
      else if si_type x = TYPE_SIGNALING then in_stream_new x # incoming_of env pv xs
      else incoming_of env pv xs)"

definition signaling_stream :: in_stream where
  "signaling_stream = (in_stream_new stream_info_new)\<lparr>is_id := 0, is_type := TYPE_SIGNALING, is_enabled := True\<rparr>"

definition on_init_ack :: "env \<Rightarrow> init_ack \<Rightarrow> 'z controller_scheme \<Rightarrow> exn + 'z controller_scheme" where
  "on_init_ack env d s = (if received_init_ack s then Inr s
     else let
       s1 = (mt_cancel (init_timer s) (s\<lparr>received_init_ack := True\<rparr>))\<lparr>init_timer := 0\<rparr>;
       s2 = set_peer_version (ack_peer_version d) s1
     in if ack_min_version d > 10 \<or> ack_peer_version d < 3 then Inr (fail_incompatible env s2)
     else let
       s3 = (if \<not> is_new (cur_ver s2) then s2\<lparr>in_streams := in_streams s2 @ [signaling_stream]\<rparr> else s2);
       new = incoming_of env (peer_version (cur_ver s3)) (ack_streams d);
       s4 = s3\<lparr>in_streams := in_streams s3 @ new\<rparr>
     in if \<not> (\<exists>x \<in> set new. is_type x = TYPE_AUDIO) then Inr s4
     else let
       s5 = (if peer_version (cur_ver s4) \<ge> 5 then s4\<lparr>use_mtproto2 := True\<rparr> else s4)
     in bind_res (begin_audio env (received_init s5) s5) (\<lambda>s6.
        let s7 = post_only env Run_Establish_If_Waiting (cfg_dbl env ''established_delay_if_no_stream_data'' (3 / 2)) 0 s6
        in Inr (if allow_p2p s7 then send_endpoints_request env s7 else s7)))"

definition set_extra_ec :: "bool \<Rightarrow> in_stream \<Rightarrow> in_stream" where
  "set_extra_ec on x = (if is_type x = TYPE_AUDIO \<and> is_extra_ec x \<noteq> on
     then x\<lparr>is_extra_ec := on, is_jitter := map_option (set_min_packet_count (if on then 4 else 2)) (is_jitter x)\<rparr>
     else x)"

definition apply_flags :: "byte \<Rightarrow> in_stream \<Rightarrow> in_stream" where
  "apply_flags f x = set_extra_ec (f AND 3 \<noteq> 0) (x\<lparr>is_enabled := bit f 0, is_paused := bit f 2\<rparr>)"

definition video_calls :: "env \<Rightarrow> in_stream \<Rightarrow> in_stream \<Rightarrow> 'z session_scheme \<Rightarrow> 'z session_scheme" where
  "video_calls env x y s =
    (let v = is_type x = TYPE_VIDEO \<and> has_renderer env;
         s1 = (if v \<and> is_enabled x \<noteq> is_enabled y then call_out (Video_Enabled (is_enabled y)) s else s)
     in if v \<and> is_paused x \<noteq> is_paused y then call_out (Video_Paused (is_paused y)) s1 else s1)"

definition on_stream_flags :: "env \<Rightarrow> stream_flags \<Rightarrow> 'z controller_scheme \<Rightarrow> 'z controller_scheme" where
  "on_stream_flags env d s = (case find (\<lambda>x. is_id x = sf_stream_id d) (in_streams s) of
     None \<Rightarrow> s
   | Some x \<Rightarrow> update_audio_output env (video_calls env x (apply_flags (sf_flags d) x)
       (s\<lparr>in_streams := update_first (\<lambda>x. is_id x = sf_stream_id d) (apply_flags (sf_flags d)) (in_streams s)\<rparr>)))"

definition on_stream_csd :: "stream_csd \<Rightarrow> 'z session_scheme \<Rightarrow> 'z session_scheme" where
  "on_stream_csd d s = (let i = unat (csd_stream_id d) in
     if i < length (in_streams s) \<and> is_type (in_streams s ! i) = TYPE_VIDEO
     then s\<lparr>in_streams := (in_streams s)[i := (in_streams s ! i)\<lparr>is_csd := map (\<lambda>w. the (the w)) (csd_data d),
            is_csd_valid := False, is_width := csd_width d, is_height := csd_height d\<rparr>]\<rparr>
     else s)"

definition on_lan_endpoint :: "env \<Rightarrow> lan_endpoint \<Rightarrow> 'z routing_scheme \<Rightarrow> 'z routing_scheme" where
  "on_lan_endpoint env d s = (if \<not> allow_p2p s then s
     else put_endpoint ID_LANv4 (endpoint_new env ID_LANv4 (lan_port d) (lan_address d) no_address UDP_P2P_LAN (replicate 16 0))
       (if current_endpoint s = ID_LANv4 then s\<lparr>current_endpoint := preferred_relay s\<rparr> else s))"

definition on_network_changed :: "env \<Rightarrow> network_changed \<Rightarrow> 'z controller_scheme \<Rightarrow> exn + 'z controller_scheme" where
  "on_network_changed env d s = bind_res (at_endpoint (current_endpoint s) s) (\<lambda>cur.
     let s1 = s\<lparr>was_handover := True\<rparr>;
         s2 = (if \<not> is_reflector cur then s1\<lparr>current_endpoint := preferred_relay s1\<rparr> else s1);
         s3 = (if allow_p2p s2 then send_endpoints_request env s2 else s2)
     in Inr (if peer_version (cur_ver s3) < 2 then s3
             else reset_ping_stats (update_bitrate_limit env (update_data_saving
                    (s3\<lparr>data_saving_by_peer := bit (nc_flags d) 0\<rparr>)))))"

definition on_group_key :: "env \<Rightarrow> byte list \<Rightarrow> 'z session_scheme \<Rightarrow> 'z session_scheme" where
  "on_group_key env key s = (if \<not> did_receive_key s \<and> \<not> did_send_key s
     then (post_only env (Run_Key_Received key) 0 0 s)\<lparr>did_receive_key := True\<rparr> else s)"

definition on_upgrade :: "env \<Rightarrow> 'z session_scheme \<Rightarrow> 'z session_scheme" where
  "on_upgrade env s = (if \<not> did_invoke_upgrade s
     then (post_only env Run_Upgrade_Requested 0 0 s)\<lparr>did_invoke_upgrade := True\<rparr> else s)"

definition on_ipv6_endpoint :: "env \<Rightarrow> ipv6_endpoint \<Rightarrow> 'z controller_scheme \<Rightarrow> 'z controller_scheme" where
  "on_ipv6_endpoint env d s = (if \<not> allow_p2p s then s
     else let s1 = put_endpoint ID_P2Pv6 (endpoint_new env ID_P2Pv6 (ip6_port d) no_address (ip6_address d)
                     UDP_P2P_INET (replicate 16 0)) (s\<lparr>peer_ipv6 := True\<rparr>)
          in if \<not> addr_empty (my_ipv6 s1) then s1\<lparr>current_endpoint := ID_P2Pv6\<rparr> else s1)"

definition on_ping :: "env \<Rightarrow> int \<Rightarrow> 'z controller_scheme \<Rightarrow> exn + 'z controller_scheme" where
  "on_ping env k s = bind_res (at_endpoint k s) (\<lambda>e.
     if \<not> is_reflector e \<and> \<not> allow_p2p s then Inr s
     else send_nop env 0 (send_extra (ExtraPong 0) 0 s))"

definition on_pong :: "env \<Rightarrow> int \<Rightarrow> u32 \<Rightarrow> 'z controller_scheme \<Rightarrow> exn + 'z controller_scheme" where
  "on_pong env k sq s = bind_res (at_endpoint k s) (\<lambda>e.
     if sq \<noteq> 0 \<and> sq = last_ping_seq e then
       let h = hist_add (now env - last_ping_time e) (ep_rtts e); a = hist_nonzero_average h;
           s1 = modify_endpoint k (\<lambda>x. x\<lparr>ep_rtts := h, ep_rtt := a\<rparr>) s
       in Inr (if a > rate_max_rtt s1 then s1\<lparr>need_rate := True\<rparr> else s1)
     else Inr s)"

text \<open>An object that was received twice is recognized by its hash, one per type.\<close>

definition process_extra :: "env \<Rightarrow> int \<Rightarrow> wextra \<Rightarrow> 'z controller_scheme \<Rightarrow> exn + 'z controller_scheme" where
  "process_extra env k w s = (case w of None \<Rightarrow> Inl Undefined | Some x \<Rightarrow>
     let ty = get_id (ebody x) in
     if ehash x \<noteq> 0 \<and> last_extras s ty = ehash x then Inr s
     else let s1 = s\<lparr>last_extras := (last_extras s)(ty := ehash x)\<rparr> in
       (case ebody x of
          ExtraInit d \<Rightarrow> on_init env k d s1
        | ExtraInitAck d \<Rightarrow> on_init_ack env d s1
        | ExtraStreamFlags d \<Rightarrow> Inr (on_stream_flags env d s1)
        | ExtraStreamCsd d \<Rightarrow> Inr (on_stream_csd d s1)
        | ExtraLanEndpoint d \<Rightarrow> Inr (on_lan_endpoint env d s1)
        | ExtraNetworkChanged d \<Rightarrow> on_network_changed env d s1
        | ExtraGroupCallKey key \<Rightarrow> Inr (on_group_key env key s1)
        | ExtraGroupCallUpgrade \<Rightarrow> Inr (on_upgrade env s1)
        | ExtraIpv6Endpoint d \<Rightarrow> Inr (on_ipv6_endpoint env d s1)
        | ExtraPing \<Rightarrow> on_ping env k s1
        | ExtraPong sq \<Rightarrow> on_pong env k sq s1))"


fun process_extras :: "env \<Rightarrow> int \<Rightarrow> wextra list \<Rightarrow> 'z controller_scheme \<Rightarrow> exn + 'z controller_scheme" where
  "process_extras env k [] s = Inr s"
| "process_extras env k (w # ws) s = bind_res (process_extra env k w s) (process_extras env k ws)"

subsection \<open>Acknowledgments and data (ProcessIncomingPacket of a packet)\<close>

text \<open>The packets in the history that the new acknowledgment covers, one after the other.\<close>

fun ack_recent :: "env \<Rightarrow> packet_manager \<Rightarrow> recent_packet list \<Rightarrow> u32 \<times> congestion \<Rightarrow> recent_packet list \<times> u32 \<times> congestion" where
  "ack_recent env pm [] (n, c) = ([], n, c)"
| "ack_recent env pm (r # rs) (n, c) =
     (if rp_ack_time r = 0 \<and> was_local_acked (ccp_seq (rp_pkt r)) pm
      then let r1 = r\<lparr>rp_ack_time := now env, rp_rtt_time := now env - rp_send_time r\<rparr> in
        (case ack_recent env pm rs (if rp_lost r then n - 1 else n, packet_acknowledged (now env) (rp_pkt r) c) of
           (rs1, x) \<Rightarrow> (r1 # rs1, x))
      else (case ack_recent env pm rs (n, c) of (rs1, x) \<Rightarrow> (r # rs1, x)))"

definition resume_sending :: "env \<Rightarrow> nat \<Rightarrow> 'z controller_scheme \<Rightarrow> 'z controller_scheme" where
  "resume_sending env i s = (if waiting_for_acks s \<and> last_acked_seq (pm_of i s) \<ge> first_sent_ping s
     then post_only env Run_Stop_Dropping 1 0
       (s\<lparr>rtt_hist := hist_reset (rtt_hist s), waiting_for_acks := False, dont_send := 10\<rparr>)
     else s)"

definition handle_ack :: "env \<Rightarrow> nat \<Rightarrow> 'p packet0_scheme \<Rightarrow> 'z controller_scheme \<Rightarrow> 'z controller_scheme" where
  "handle_ack env i p s = (if ack_seq p \<noteq> 0 \<and> seqgt (ack_seq p) (last_acked_seq (pm_of i s)) then
     (let s1 = resume_sending env i s;
          c1 = packet_acknowledged (now env) \<lparr>ccp_seq = pkt_seq p, ccp_stream_id = stream_id p\<rparr> (cong s1);
          pm = ack_local (ack_seq p) (ack_mask p) (pm_of i s1)
      in case ack_recent env pm (recent_outgoing pm) (send_losses s1, c1) of (rs, n, c2) \<Rightarrow>
        let pm2 = pm\<lparr>recent_outgoing := rs\<rparr> in
        handle_reliable env pm2 (on_stream i (\<lambda>_. pm2) (s1\<lparr>send_losses := n, cong := c2\<rparr>)))
     else s)"

text \<open>
  \<^verbatim>\<open>_currentEndpoint\<close> is a reference into the map: the assignment to it overwrites the record of
  the endpoint that was current before.
\<close>

definition switch_to_relay :: "env \<Rightarrow> int \<Rightarrow> nat \<Rightarrow> 'z controller_scheme \<Rightarrow> exn + 'z controller_scheme" where
  "switch_to_relay env k i s =
    bind_res (at_endpoint (current_endpoint s) s) (\<lambda>cur.
    bind_res (at_endpoint k s) (\<lambda>src.
      if ep_id src \<noteq> current_endpoint s \<and> is_reflector src \<and> (is_p2p cur \<or> ep_rtt cur = 0)
         \<and> seqgt (last_sent_seq (pm_of i s) - 32) (last_acked_seq (pm_of i s))
      then let s1 = modify_endpoint (current_endpoint s) (\<lambda>_. src) (s\<lparr>current_endpoint := ep_id src\<rparr>) in
        Inr (if allow_p2p s1 then send_endpoints_request env s1 else s1)
      else Inr s))"

definition count_unacked :: "env \<Rightarrow> 'z controller_scheme \<Rightarrow> exn + 'z controller_scheme" where
  "count_unacked env s =
    (let n = unacked_incoming s; s1 = s\<lparr>unacked_incoming := n + 1\<rparr> in
     if n > unack_nop_threshold s then send_nop env 0 s1 else Inr s1)"

fun put_ec :: "env \<Rightarrow> u32 \<Rightarrow> nat \<Rightarrow> wbytes list \<Rightarrow> jbuf \<Rightarrow> jbuf option" where
  "put_ec env sq i [] j = Some j"
| "put_ec env sq i (w # ws) j =
     (if wbytes_bool w
      then (case handle_input (now env) (the (the w)) (sq - of_nat (8 - i)) True j of
              None \<Rightarrow> None | Some j1 \<Rightarrow> put_ec env sq (i + 1) ws j1)
      else put_ec env sq (i + 1) ws j)"

definition put_audio :: "env \<Rightarrow> 'p packet0_scheme \<Rightarrow> jbuf \<Rightarrow> jbuf option" where
  "put_audio env p j = (case handle_input (now env) (the (pkt_data p)) (pkt_seq p - 1) False j of
     None \<Rightarrow> None
   | Some j1 \<Rightarrow> if mask_bool wbytes_bool (extra_ec p) then put_ec env (pkt_seq p - 1) 0 (extra_ec p) j1 else Some j1)"

definition first_data :: "env \<Rightarrow> 'z controller_scheme \<Rightarrow> 'z controller_scheme" where
  "first_data env s = (if \<not> received_first_packet s
     then let s1 = s\<lparr>received_first_packet := True\<rparr> in
       if call_state s1 \<noteq> Established \<and> received_init_ack s1 then post_only env Run_Establish (1 / 2) 0 s1 else s1
     else s)"

definition process_data :: "env \<Rightarrow> int \<Rightarrow> 'p packet0_scheme \<Rightarrow> 'z controller_scheme \<Rightarrow> exn + 'z controller_scheme" where
  "process_data env k p s =
    bind_res (at_endpoint k s) (\<lambda>src.
      let s1 = first_data env s;
          s2 = (if ep_type src = UDP_RELAY \<and> ep_id src \<noteq> peer_preferred_relay s1
                then s1\<lparr>peer_preferred_relay := ep_id src\<rparr> else s1);
          i = unat (stream_id p)
      in if i \<ge> length (in_streams s2) then Inr s2
      else let
        s3 = (if \<not> audio_out_started s2 \<and> output_ok env \<noteq> None
              then call_out Output_Start (s2\<lparr>audio_out_started := True, output_playing := True\<rparr>) else s2);
        x = in_streams s3 ! i
      in if is_type x = TYPE_AUDIO then
           (case is_jitter x of None \<Rightarrow> Inr s3
            | Some j \<Rightarrow> (case put_audio env p j of None \<Rightarrow> Inl Undefined
                | Some j1 \<Rightarrow> Inr (s3\<lparr>in_streams := (in_streams s3)[i := x\<lparr>is_jitter := Some j1\<rparr>]\<rparr>)))
         else Inr s3)"

text \<open>The stream number of a packet selects the outgoing stream without a check.\<close>

definition process_packet :: "env \<Rightarrow> int \<Rightarrow> 'p packet0_scheme \<Rightarrow> 'z controller_scheme \<Rightarrow> exn + 'z controller_scheme" where
  "process_packet env k p s =
    (let i = (if legacy p then 0 else unat (stream_id p)) in
     if i \<ge> length (out_streams s) then Inl Undefined
     else (case ack_remote_packet p (pm_of i s) of
        None \<Rightarrow> Inl Undefined
      | Some (False, pm) \<Rightarrow> Inr (on_stream i (\<lambda>_. pm) s)
      | Some (True, pm) \<Rightarrow>
          bind_res (process_extras env k (extra_signaling p) (on_stream i (\<lambda>_. pm) s)) (\<lambda>s1.
          bind_res (switch_to_relay env k i (handle_ack env i p s1)) (\<lambda>s2.
          bind_res (count_unacked env s2) (\<lambda>s3.
            if pkt_data p \<noteq> None then process_data env k p s3 else Inr s3)))))"

subsection \<open>Datagrams\<close>

text \<open>
  The attempts to parse with the negotiated version and then with three fixed ones. The object
  is reused; \<^verbatim>\<open>clear\<close> resets a part of it.
\<close>

fun parse_attempts :: "(byte list \<Rightarrow> byte list) \<Rightarrow> version list \<Rightarrow> packet \<Rightarrow> istream \<Rightarrow> exn + packet option" where
  "parse_attempts sha1 [] p i = Inr None"
| "parse_attempts sha1 (v # vs) p i = (case packet_parse sha1 v (p, i) of
     (Done, q, _) \<Rightarrow> Inr (Some q)
   | (Raised e, q, _) \<Rightarrow> Inl e
   | (Refused, q, j) \<Rightarrow> bind_res (seek (ioff i) j) (parse_attempts sha1 vs (packet_clear q)))"

definition fallback_versions :: "version list" where
  "fallback_versions = [\<lparr>peer_version = 10, max_layer = 110\<rparr>, \<lparr>peer_version = 9, max_layer = 92\<rparr>,
     \<lparr>peer_version = 7, max_layer = 91\<rparr>]"

definition learn_address :: "int \<Rightarrow> endpoint \<Rightarrow> net_packet \<Rightarrow> 'z routing_scheme \<Rightarrow> 'z routing_scheme" where
  "learn_address k e np s = (if ep_type e = UDP_P2P_INET \<and> \<not> ipv6_only e
       \<and> (ep_port e \<noteq> np_port np \<or> ep_addr e \<noteq> np_addr np) \<and> (\<exists>a. np_addr np = IPv4 a)
     then modify_endpoint k (\<lambda>x. x\<lparr>ep_addr := np_addr np, ep_port := np_port np\<rparr>) s else s)"

text \<open>The tag in front of a packet, which is skipped: \<open>None\<close> when it is missing or wrong.\<close>

definition skip_tag :: "endpoint \<Rightarrow> net_packet \<Rightarrow> 'z session_scheme \<Rightarrow> istream option" where
  "skip_tag e np s = (let i = istream_of (np_data np) in
     if peer_version (cur_ver s) < 9 \<or> is_reflector e
     then if remaining i < 16 then None
       else if take 16 (np_data np) \<noteq> (if is_reflector e then peer_tag e else call_id (cur_keys s)) then None
       else Some (i\<lparr>ioff := 16\<rparr>)
     else Some i)"

definition process_decrypted :: "env \<Rightarrow> int \<Rightarrow> endpoint \<Rightarrow> net_packet \<Rightarrow> istream \<Rightarrow> 'z controller_scheme
    \<Rightarrow> exn + 'z controller_scheme" where
  "process_decrypted env k e np i s =
    (let s1 = s\<lparr>last_recv_time := now env\<rparr>;
         s2 = (if call_state s1 = Reconnecting then set_state env Established s1 else s1);
         s3 = learn_address k e np s2
     in bind_res (parse_attempts (cf_sha1 (crypto env)) (cur_ver s3 # fallback_versions) packet_new i) (\<lambda>r. case r of
          None \<Rightarrow> Inr s3
        | Some p \<Rightarrow> fold (\<lambda>q acc. bind_res acc (process_packet env k q)) (other_packets p)
            (process_packet env k p (s3\<lparr>packets_received := packets_received s3 + 1\<rparr>))))"

definition process_payload :: "env \<Rightarrow> int \<Rightarrow> endpoint \<Rightarrow> net_packet \<Rightarrow> istream \<Rightarrow> 'z controller_scheme
    \<Rightarrow> exn + 'z controller_scheme" where
  "process_payload env k e np i s = (if remaining i < 40 then Inr s
     else bind_res (decrypt_packet (crypto env) (cur_keys s) (cur_ver s) (use_mtproto2 s) (is_waiting s) i)
       (\<lambda>(n, j, two). let s1 = s\<lparr>use_mtproto2 := two\<rparr> in
          if n = 0 then Inr s1 else process_decrypted env k e np j s1))"

definition process_datagram :: "env \<Rightarrow> int \<Rightarrow> net_packet \<Rightarrow> 'z controller_scheme \<Rightarrow> exn + 'z controller_scheme" where
  "process_datagram env k np s = bind_res (at_endpoint k s) (\<lambda>e. case skip_tag e np s of
     None \<Rightarrow> Inr s
   | Some i \<Rightarrow> if remaining i \<ge> 16 \<and> is_reflector e
       then bind_res (parse_relay_packet env k e i s) (\<lambda>(done, j, s1).
              if done then Inr s1 else process_payload env k e np j s1)
       else process_payload env k e np i s)"

subsection \<open>Where a datagram comes from (Loop.cpp)\<close>

definition protocol_matches :: "ep_type \<Rightarrow> bool \<Rightarrow> bool" where
  "protocol_matches ty tcp \<longleftrightarrow> (ty = TCP_RELAY) = tcp"

definition source_of :: "net_packet \<Rightarrow> 'z routing_scheme \<Rightarrow> exn + int" where
  "source_of np s = (case np_addr np of
     IPv4 a \<Rightarrow>
       let i = (case find (\<lambda>(_, e). ep_addr e = np_addr np \<and> ep_port e = np_port np
                    \<and> protocol_matches (ep_type e) (np_tcp np)) (endpoints s) of
                  None \<Rightarrow> 0 | Some (_, e) \<Rightarrow> ep_id e)
       in if i = 0 \<and> \<not> np_tcp np then
            (case get_endpoint_by_type UDP_P2P_INET s of
               Inl _ \<Rightarrow> Inr 0
             | Inr p2p \<Rightarrow> bind_res (hist_nth (ep_rtts p2p) 0) (\<lambda>x.
                 Inr (if x = 0 \<and> prefix_matches 24 (ep_addr p2p) (np_addr np) then ep_id p2p else 0)))
          else Inr i
   | IPv6 a \<Rightarrow> Inr (case find (\<lambda>(_, e). ep_v6 e = np_addr np \<and> ep_port e = np_port np \<and> ipv6_only e
                    \<and> protocol_matches (ep_type e) (np_tcp np)) (endpoints s) of
                  None \<Rightarrow> 0 | Some (_, e) \<Rightarrow> ep_id e))"

definition network_packet_received :: "env \<Rightarrow> net_packet \<Rightarrow> 'z controller_scheme \<Rightarrow> exn + 'z controller_scheme" where
  "network_packet_received env np s = bind_res (source_of np s) (\<lambda>k.
     if k = 0 then Inr s
     else let n = of_nat (length (np_data np));
              s1 = (if is_mobile (network s) then s\<lparr>bytes_recv_mobile := bytes_recv_mobile s + n\<rparr>
                    else s\<lparr>bytes_recv_wifi := bytes_recv_wifi s + n\<rparr>)
          in process_datagram env k np s1)"

end
