(* ===== verification/Ticks.thy ===== *)
theory Ticks
  imports Receiving
begin

section \<open>The audio sender and the timers (AudioPacketSender.cpp, Tick.cpp, Bandwidth.cpp)\<close>

text \<open>
  What an encoded frame becomes: a packet that repeats the low-bitrate versions of earlier
  frames when the network is bad. And the timers of a call: the estimates of delay and loss, the
  bitrate, the level of error correction, the signal bars, the detection of a lost connection.
\<close>

subsection \<open>The audio sender\<close>

definition fp_gt :: "fp \<Rightarrow> real \<Rightarrow> bool" where
  "fp_gt x r = (case x of NaN \<Rightarrow> False | PInf \<Rightarrow> True | Fin v \<Rightarrow> v > r)"

definition fp_lt :: "fp \<Rightarrow> real \<Rightarrow> bool" where
  "fp_lt x r = (case x of Fin v \<Rightarrow> v < r | _ \<Rightarrow> False)"

definition fp_scale :: "real \<Rightarrow> fp \<Rightarrow> fp" where
  "fp_scale r x = (case x of Fin v \<Rightarrow> Fin (v * r) | _ \<Rightarrow> x)"

definition set_packet_loss :: "fp \<Rightarrow> audio_sender \<Rightarrow> audio_sender" where
  "set_packet_loss p a = a\<lparr>as_loss := p, as_resend := 1 + (if fp_gt p 2
     then (case p of Fin v \<Rightarrow> clamp (v / 2) 0 2 | _ \<Rightarrow> 2) else 1)\<rparr>"

text \<open>
  The number of earlier frames that a packet repeats; its sequence number less one is
  truncated to eight bits. Slot \<open>8 - d\<close> gets the frame \<open>d\<close> packets back, unless that packet was
  acknowledged.
\<close>

definition max_ec :: "audio_sender \<Rightarrow> u32 \<Rightarrow> byte" where
  "max_ec a sq = min (min (of_nat (length (as_ec a))) (ucast (sq - 1))) (as_ec_level a)"

definition ec_slots :: "audio_sender \<Rightarrow> packet_manager \<Rightarrow> u32 \<Rightarrow> wbytes list" where
  "ec_slots a pm sq = map (\<lambda>i. let d = 8 - i in
     if d \<le> unat (max_ec a sq) \<and> \<not> was_local_acked (sq - of_nat d) pm
     then Some (Some (as_ec a ! (length (as_ec a) - d))) else None) [0..<8]"

definition keep_ec :: "byte list \<Rightarrow> audio_sender \<Rightarrow> audio_sender" where
  "keep_ec b a = (let q = as_ec a @ [b] in a\<lparr>as_ec := (if length q = 9 then tl q else q)\<rparr>)"

definition send_frame :: "env \<Rightarrow> byte list \<Rightarrow> byte list \<Rightarrow> 'z controller_scheme \<Rightarrow> exn + 'z controller_scheme" where
  "send_frame env d sec s = (if \<not> received_init_ack s then Inr s
     else (case prepare (pm_of 1 s) (packet_new\<lparr>pkt_data := Some d\<rparr>) of (p, pm) \<Rightarrow>
       let a = sender s;
           p1 = (if length sec > 0 \<and> as_shitty a then p\<lparr>extra_ec := ec_slots a pm (pkt_seq p)\<rparr> else p);
           a1 = (if length sec > 0 then keep_ec sec a else a);
           s1 = on_stream 1 (\<lambda>_. pm) (s\<lparr>sender := a1\<rparr>);
           frame = real (unat (os_frame (out_streams s ! 1)))
       in if as_loss a1 = Fin 0 then send_packet env p1 0 (1 / 2) 5 0 s1
          else send_packet env p1 0 (frame / (as_resend a1 * 4) / 1000) (frame * 4 / 1000)
                 (of_int (trunc (as_resend a1))) s1))"

subsection \<open>Delay and loss\<close>

definition best_stream :: "'z session_scheme \<Rightarrow> nat" where
  "best_stream s = (if is_new (cur_ver s) then 1 else 0)"

definition get_average_rtt :: "'z session_scheme \<Rightarrow> real" where
  "get_average_rtt s =
    (let pm = pm_of (best_stream s) s in
     if last_sent_seq pm \<ge> last_acked_seq pm \<and> last_sent_seq pm - last_acked_seq pm < 32 then
       (let xs = filter (\<lambda>x. x \<noteq> 0) (map rp_rtt_time (recent_outgoing pm)) in
        if length xs > 0 then sum_list xs / real (length xs) else sum_list xs)
     else 999)"

fun lose_recent :: "env \<Rightarrow> real \<Rightarrow> recent_packet list \<Rightarrow> u32 \<times> congestion \<Rightarrow> recent_packet list \<times> u32 \<times> congestion" where
  "lose_recent env limit [] (n, c) = ([], n, c)"
| "lose_recent env limit (r # rs) (n, c) =
     (if rp_ack_time r = 0 \<and> \<not> rp_lost r \<and> now env - rp_send_time r > limit
      then (case lose_recent env limit rs (n + 1, packet_lost (rp_pkt r) c) of (rs1, x) \<Rightarrow> (r\<lparr>rp_lost := True\<rparr> # rs1, x))
      else (case lose_recent env limit rs (n, c) of (rs1, x) \<Rightarrow> (r # rs1, x)))"

fun lose_streams :: "env \<Rightarrow> real \<Rightarrow> out_stream list \<Rightarrow> u32 \<times> congestion \<Rightarrow> out_stream list \<times> u32 \<times> congestion" where
  "lose_streams env limit [] x = ([], x)"
| "lose_streams env limit (o1 # os) x =
     (case lose_recent env limit (recent_outgoing (os_pm o1)) x of (rs, y) \<Rightarrow>
        (case lose_streams env limit os y of (qs, z) \<Rightarrow>
           (o1\<lparr>os_pm := (os_pm o1)\<lparr>recent_outgoing := rs\<rparr>\<rparr> # qs, z)))"

fun tick_jitters :: "in_stream list \<Rightarrow> in_stream list option" where
  "tick_jitters [] = Some []"
| "tick_jitters (x # xs) =
     (case (case is_jitter x of
              Some j \<Rightarrow> if is_type x = TYPE_AUDIO then map_option Some (jb_tick j) else Some (Some j)
            | None \<Rightarrow> Some None) of
        None \<Rightarrow> None
      | Some j \<Rightarrow> map_option (\<lambda>ys. x\<lparr>is_jitter := j\<rparr> # ys) (tick_jitters xs))"

definition tick :: "env \<Rightarrow> 'z controller_scheme \<Rightarrow> exn + 'z controller_scheme" where
  "tick env s = (case tick_jitters (in_streams s) of None \<Rightarrow> Inl Undefined
   | Some ins \<Rightarrow>
       let s1 = s\<lparr>in_streams := ins, cong := cc_tick (now env) (cong s)\<rparr>;
           limit = max (get_average_rtt s1 * 2) (1 / 10)
       in (case lose_streams env limit (out_streams s1) (send_losses s1, cong s1) of
             (os, n, c) \<Rightarrow> Inr (s1\<lparr>out_streams := os, send_losses := n, cong := c\<rparr>)))"

definition slow_net :: "'z controller_scheme \<Rightarrow> bool" where
  "slow_net s \<longleftrightarrow> network s = Net_EDGE \<or> network s = Net_GPRS"

fun take_losses :: "in_stream list \<Rightarrow> u32 \<Rightarrow> in_stream list \<times> u32" where
  "take_losses [] n = ([], n)"
| "take_losses (x # xs) n =
     (case is_jitter x of
        Some j \<Rightarrow> if is_type x = TYPE_AUDIO then
            (case take_lost_count j of (l, j1) \<Rightarrow>
              (case take_losses xs (if l > 0 \<or> l < 0 \<and> n > of_int (- l) then n + of_int l else n) of
                 (ys, m) \<Rightarrow> (x\<lparr>is_jitter := Some j1\<rparr> # ys, m)))
          else (case take_losses xs n of (ys, m) \<Rightarrow> (x # ys, m))
      | None \<Rightarrow> (case take_losses xs n of (ys, m) \<Rightarrow> (x # ys, m)))"

definition update_rtt :: "'z controller_scheme \<Rightarrow> exn + 'z controller_scheme" where
  "update_rtt s =
    (let h = hist_add (get_average_rtt s) (rtt_hist s) in
     bind_res (hist_nth h 0) (\<lambda>a. bind_res (hist_nth h 8) (\<lambda>b.
       case take_losses (in_streams s) (recv_losses s) of (ins, n) \<Rightarrow>
         Inr (s\<lparr>rtt_hist := h, waiting_for_acks := (a > 10 \<and> b > 10 \<and> slow_net s),
                in_streams := ins, recv_losses := n\<rparr>))))"

subsection \<open>The level of error correction\<close>

definition mean_u32 :: "u32 hist \<Rightarrow> real" where
  "mean_u32 h = sum_list (map (\<lambda>w. real (unat w)) (hdata h)) / real (length (hdata h))"

definition fp_div :: "real \<Rightarrow> real \<Rightarrow> fp" where
  "fp_div a b = (if b \<noteq> 0 then Fin (a / b) else if a = 0 then NaN else PInf)"

definition ec_level_for :: "fp \<Rightarrow> byte" where
  "ec_level_for x = (if fp_gt x (8 / 100) then 4 else if fp_gt x (5 / 100) then 3
     else if fp_gt x (2 / 100) then 2 else 0)"

definition switch_extra_ec :: "bool \<Rightarrow> 'z controller_scheme \<Rightarrow> 'z controller_scheme" where
  "switch_extra_ec on s =
    (let s1 = s\<lparr>sender := (sender s)\<lparr>as_shitty := on\<rparr>,
              out_streams := update_first (\<lambda>x. os_type x = TYPE_AUDIO) (\<lambda>x. x\<lparr>os_extra_ec := on\<rparr>) (out_streams s)\<rparr>;
         s2 = (case first_of_type TYPE_AUDIO (out_streams s1) of None \<Rightarrow> s1 | Some x \<Rightarrow> send_stream_flags x s1)
     in s2\<lparr>encoder := map_option (\<lambda>e. e\<lparr>en_secondary := on\<rparr>) (encoder s2)\<rparr>)"

text \<open>The loss goes to the encoder as an \<^verbatim>\<open>int\<close>, which is undefined when it is no number.\<close>

definition loss_percent :: "fp \<Rightarrow> int option" where
  "loss_percent x = (case x of Fin v \<Rightarrow> if - (2 ^ 31) \<le> trunc (v * 100) \<and> trunc (v * 100) < 2 ^ 31
     then Some (trunc (v * 100)) else None | _ \<Rightarrow> None)"

definition adapt_extra_ec :: "fp \<Rightarrow> 'z controller_scheme \<Rightarrow> 'z controller_scheme" where
  "adapt_extra_ec x s =
    (if fp_gt x (loss_for_extra_ec s) \<and> \<not> slow_net s \<and> \<not> as_shitty (sender s)
     then (rate_flag 1 (switch_extra_ec True s))\<lparr>was_extra_ec := True\<rparr> else s)"

definition update_congestion :: "'z controller_scheme \<Rightarrow> exn + 'z controller_scheme" where
  "update_congestion s = (if encoder s = None then Inr s
     else let
       n = send_loss_count (cong s); q = last_sent_seq (pm_of (best_stream s) s);
       s1 = s\<lparr>send_loss_hist := hist_add (n - prev_send_loss s) (send_loss_hist s), prev_send_loss := n,
              packet_count_hist := hist_add (q - prev_seq s) (packet_count_hist s), prev_seq := q\<rparr>;
       x = fp_div (mean_u32 (send_loss_hist s1)) (mean_u32 (packet_count_hist s1))
     in if first_of_type TYPE_AUDIO (out_streams s1) = None then Inl Undefined
     else let
       s2 = s1\<lparr>sender := set_packet_loss (fp_scale 100 x) (sender s1)\<rparr>;
       s3 = adapt_extra_ec x s2;
       s4 = s3\<lparr>sender := (sender s3)\<lparr>as_ec_level := ec_level_for x\<rparr>\<rparr>
     in (case loss_percent x of None \<Rightarrow> Inl Undefined
         | Some pc \<Rightarrow>
             let s5 = s4\<lparr>encoder := map_option (\<lambda>e. e\<lparr>en_loss := min 20 pc\<rparr>) (encoder s4)\<rparr>;
                 s6 = (if fp_gt x (rate_max_loss s5) then s5\<lparr>need_rate := True\<rparr> else s5);
                 s7 = (if (fp_lt x (loss_for_extra_ec s6) \<or> slow_net s6) \<and> as_shitty (sender s6)
                       then switch_extra_ec False s6 else s6)
             in Inr (if \<not> was_encoder_laggy s7 \<and> en_complexity (the (encoder s7)) < 10
                     then s7\<lparr>was_encoder_laggy := True\<rparr> else s7)))"

end
