(* ===== verification/Control.thy ===== *)
theory Control
  imports Ticks
begin

section \<open>The controller (Tick.cpp, Bandwidth.cpp, Init.cpp, PublicAPI.cpp, Loop.cpp)\<close>

text \<open>
  The rest of the timers: the bitrate and the detection of a lost connection, and the signal
  bars. Then what the application calls, the initial state, the dispatch of the posted tasks
  on the message thread, and the call as a system of steps: datagrams that arrive, passes of the
  message thread, frames of the encoder, packets taken by the send thread.
\<close>

subsection \<open>Bitrate and lost connections\<close>

definition send_data_saving :: "'z flow_scheme \<Rightarrow> 'z flow_scheme" where
  "send_data_saving s = send_extra (ExtraNetworkChanged \<lparr>nc_flags = (if data_saving s then 1 else 0)\<rparr>) 0 s"

text \<open>The level is divided as an integer.\<close>

definition bitrate_multiple :: "audio_sender \<Rightarrow> real" where
  "bitrate_multiple a = (if as_ec_level a \<noteq> 0 then real (unat (as_ec_level a) div 2) else 1)
     * (if as_resend a \<noteq> 0 then as_resend a else 1)"

definition next_bitrate :: "cc_action \<Rightarrow> u32 \<Rightarrow> bitrates \<Rightarrow> u32 \<Rightarrow> u32" where
  "next_bitrate act mx b r = (case act of
     Decrease \<Rightarrow> if r > 8000 then (if r < br_min b + br_decr b then br_min b else r - br_decr b) else r
   | Increase \<Rightarrow> if r < mx then r + br_incr b else r
   | _ \<Rightarrow> r)"

definition audio_failed :: "env \<Rightarrow> bool" where
  "audio_failed env \<longleftrightarrow> input_ok env = Some False \<or> output_ok env = Some False"

definition adapt_bitrate :: "env \<Rightarrow> 'z controller_scheme \<Rightarrow> exn + 'z controller_scheme" where
  "adapt_bitrate env s =
    (case bandwidth_action (now env) (if as_shitty (sender s) then 1 else 0) (bitrate_multiple (sender s)) (cong s) of
       None \<Rightarrow> Inl Undefined
     | Some (act, c) \<Rightarrow> Inr (s\<lparr>cong := c, encoder := map_option
         (\<lambda>e. e\<lparr>en_bitrate := next_bitrate act (max_bitrate s) (bitrates s) (en_bitrate e)\<rparr>) (encoder s)\<rparr>))"

definition detect_reconnecting :: "env \<Rightarrow> 'z controller_scheme \<Rightarrow> 'z controller_scheme" where
  "detect_reconnecting env s =
    (if call_state s = Established \<and> now env - last_recv_time s \<ge> reconnecting_timeout s
     then reset_udp_availability env ((rate_flag 8 (set_state env Reconnecting s))\<lparr>was_reconnecting := True\<rparr>)
     else s)"

definition forget_p2p :: "endpoint \<Rightarrow> endpoint" where
  "forget_p2p e = (if is_p2p e then forget_rtt e else e)"

definition leave_p2p :: "env \<Rightarrow> 'z controller_scheme \<Rightarrow> 'z controller_scheme" where
  "leave_p2p env s =
    (let s1 = each_endpoint forget_p2p (s\<lparr>current_endpoint := preferred_relay s\<rparr>);
         s2 = (if allow_p2p s1 then send_endpoints_request env s1 else s1)
     in (send_data_saving (update_bitrate_limit env (update_data_saving s2)))\<lparr>last_recv_time := now env\<rparr>)"

definition receive_timeout :: "env \<Rightarrow> 'z controller_scheme \<Rightarrow> exn + 'z controller_scheme" where
  "receive_timeout env s =
    (if (call_state s = Established \<or> call_state s = Reconnecting)
        \<and> now env - last_recv_time s \<ge> c_recv_timeout (config s)
     then bind_res (at_endpoint (current_endpoint s) s) (\<lambda>cur.
       Inr (if \<not> is_reflector cur then leave_p2p env s
            else set_state env Failed (s\<lparr>last_error := Error_Timeout\<rparr>)))
     else Inr s)"

definition update_audio_bitrate :: "env \<Rightarrow> 'z controller_scheme \<Rightarrow> exn + 'z controller_scheme" where
  "update_audio_bitrate env s = (if encoder s = None then Inr s
     else let s1 = (if audio_failed env then set_state env Failed (s\<lparr>last_error := Error_Audio_IO\<rparr>) else s) in
       if first_of_type TYPE_AUDIO (out_streams s1) = None then Inl Undefined
       else bind_res (adapt_bitrate env s1) (\<lambda>s2. receive_timeout env (detect_reconnecting env s2)))"

subsection \<open>Signal bars\<close>

text \<open>The average over the bars that are not zero, in integers.\<close>

definition signal_bars_count :: "int hist \<Rightarrow> int" where
  "signal_bars_count h = (let xs = filter (\<lambda>x. x \<noteq> 0) (hdata h) in
     if xs = [] then 0 else sum_list xs div int (length xs))"

fun late_bars :: "in_stream list \<Rightarrow> int \<Rightarrow> int option" where
  "late_bars [] n = Some n"
| "late_bars (x # xs) n = (case is_jitter x of
     None \<Rightarrow> late_bars xs n
   | Some j \<Rightarrow> if is_type x = TYPE_AUDIO then
       (case average_late_count j of None \<Rightarrow> None
        | Some (_, _, l) \<Rightarrow> late_bars xs (if l \<ge> 2 / 10 then 1 else if l \<ge> 1 / 10 then min n 2 else n))
     else late_bars xs n)"

definition loss_bars :: "fp \<Rightarrow> int \<Rightarrow> int" where
  "loss_bars x n = (if fp_gt x (1 / 10) then 1 else if fp_gt x (625 / 10000) then min n 2
     else if fp_gt x (25 / 1000) then min n 3 else n)"

text \<open>A frame duration of zero makes the rate infinite and the loss zero.\<close>

definition frame_loss :: "real \<Rightarrow> u16 \<Rightarrow> fp" where
  "frame_loss l frame = (if frame = 0 then Fin 0 else Fin (l / (1000 / real (unat frame))))"

definition update_signal_bars :: "env \<Rightarrow> 'z controller_scheme \<Rightarrow> exn + 'z controller_scheme" where
  "update_signal_bars env s =
    (if length (out_streams s) \<le> 1 \<or> os_type (out_streams s ! 1) \<noteq> TYPE_AUDIO then Inl Undefined
     else let
       x = frame_loss (mean_u32 (send_loss_hist s)) (os_frame (out_streams s ! 1));
       n1 = (if call_state s = Reconnecting \<or> waiting_for_acks s then 1 else 4)
     in bind_res (at_endpoint (current_endpoint s) s) (\<lambda>cur.
          let n2 = (if ep_type cur = TCP_RELAY then min n1 3 else n1) in
          case late_bars (in_streams s) (loss_bars x n2) of
            None \<Rightarrow> Inl AssertFail
          | Some n \<Rightarrow> let h = hist_add n (bars s); s1 = s\<lparr>bars := h\<rparr> in
              Inr (if signal_bars_count h \<noteq> signal_bars_count (bars s)
                   then call_out (Bars_Changed (signal_bars_count h)) s1 else s1)))"

subsection \<open>A change of the network\<close>

definition init_udp_proxy :: "env \<Rightarrow> 'z routing_scheme \<Rightarrow> 'z routing_scheme" where
  "init_udp_proxy env s =
    (let s1 = (if udp_is_proxied s then call_out Close_Proxy (s\<lparr>udp_is_proxied := False\<rparr>) else s) in
     if proxy_tested env \<and> \<not> proxy_supports_udp s1 then post_only env Run_Reset_Udp 0 0 s1
     else let s2 = call_out Connect_Proxy s1 in
       (case proxy_outcome env of
          None \<Rightarrow> s2
        | Some ok \<Rightarrow> post_only env Run_Reset_Udp 0 0
            (if ok then s2\<lparr>udp_is_proxied := True\<rparr>
             else call_out Close_Proxy (s2\<lparr>proxy_supports_udp := False\<rparr>))))"

text \<open>
  The first UDP relay in the order of the map turns TCP off, and becomes the endpoint in use when
  the preferred relay is one of TCP.
\<close>

fun handover_endpoints :: "bool \<Rightarrow> endpoint omap \<Rightarrow> 'z routing_scheme \<Rightarrow> endpoint omap \<times> 'z routing_scheme" where
  "handover_endpoints pref_tcp [] s = ([], s)"
| "handover_endpoints pref_tcp ((k, e) # m) s =
     (let s1 = (if ep_type e = UDP_RELAY \<and> use_tcp s
                then (if pref_tcp then s\<lparr>use_tcp := False, preferred_relay := ep_id e, current_endpoint := ep_id e\<rparr>
                      else s\<lparr>use_tcp := False\<rparr>)
                else if ep_type e = TCP_RELAY \<and> ep_connected e then call_out (Close_Tcp k) s else s)
      in case handover_endpoints pref_tcp m s1 of (m1, s2) \<Rightarrow> ((k, forget_rtt e) # m1, s2))"

definition leave_network :: "'z routing_scheme \<Rightarrow> exn + 'z routing_scheme" where
  "leave_network s = (if current_endpoint s = 0 then Inr s
     else bind_res (at_endpoint (current_endpoint s) s) (\<lambda>cur.
          bind_res (at_endpoint (preferred_relay s) s) (\<lambda>pref.
            if ep_type cur = UDP_RELAY then Inr s
            else let
              s1 = (if ep_type pref = UDP_RELAY then s\<lparr>current_endpoint := preferred_relay s\<rparr> else s);
              m = om_erase ID_LANv4 (endpoints s1)
            in if preferred_relay s = ID_LANv4 \<and> udp_relays m \<noteq> [] \<and> use_tcp s then Inl Undefined
               else (case handover_endpoints (ep_type pref = TCP_RELAY) m s1 of
                       (m1, s2) \<Rightarrow> Inr (s2\<lparr>endpoints := m1\<rparr>)))))"

definition network_handover :: "env \<Rightarrow> 'z controller_scheme \<Rightarrow> exn + 'z controller_scheme" where
  "network_handover env s =
    bind_res (leave_network (s\<lparr>was_handover := True\<rparr>)) (\<lambda>s1.
      let s2 = (if via_socks5 s1 then init_udp_proxy env s1 else s1);
          s3 = (if allow_p2p s2 \<and> current_endpoint s2 \<noteq> 0 then send_endpoints_request env s2 else s2);
          s4 = call_out Cancel_Select ((send_data_saving s3)\<lparr>reinit_proxy := True\<rparr>)
      in Inr (reset_ping_stats (reset_udp_availability env
           (add_ipv6_relays (s4\<lparr>did_send_ipv6 := False\<rparr>)))))"

text \<open>The name and the IPv6 address of the local interface come from the socket.\<close>

definition set_network_type :: "env \<Rightarrow> net_type \<Rightarrow> string \<Rightarrow> naddr \<Rightarrow> 'z controller_scheme \<Rightarrow> 'z controller_scheme" where
  "set_network_type env t itf v6 s =
    (let s1 = (update_bitrate_limit env (update_data_saving (s\<lparr>network := t\<rparr>)))\<lparr>my_ipv6 := v6\<rparr> in
     if itf = active_itf s1 then s1
     else let s2 = call_out Interface_Changed s1;
              first = (active_itf s2 = [] \<and> call_state s2 \<noteq> Established \<and> call_state s2 \<noteq> Reconnecting);
              s3 = s2\<lparr>active_itf := itf\<rparr>
          in if first then s3 else post_only env Run_Handover 0 0 s3)"

subsection \<open>The start of a call (Init.cpp, VoIPController.h, Audio.cpp, PublicAPI.cpp)\<close>

definition initial_bitrates :: "env \<Rightarrow> bitrates" where
  "initial_bitrates env = (let u = cfg_uint env in
    \<lparr>br_max = u ''audio_max_bitrate'' 20000, br_max_edge = u ''audio_max_bitrate_edge'' 16000,
     br_max_gprs = u ''audio_max_bitrate_gprs'' 8000, br_max_saving = u ''audio_max_bitrate_saving'' 8000,
     br_init = 20000, br_init_edge = u ''audio_init_bitrate_edge'' 8000,
     br_init_gprs = u ''audio_init_bitrate_gprs'' 8000, br_init_saving = u ''audio_init_bitrate_saving'' 8000,
     br_min = u ''audio_min_bitrate'' 8000, br_incr = u ''audio_bitrate_step_incr'' 1000,
     br_decr = u ''audio_bitrate_step_decr'' 1000\<rparr>)"

text \<open>
  \<^verbatim>\<open>firstSentPing\<close> and \<^verbatim>\<open>maxBitrate\<close> are not initialized: they are arguments (\<open>ping0\<close>, \<open>max0\<close>).
\<close>

definition flow_init :: "env \<Rightarrow> call_error \<Rightarrow> keys \<Rightarrow> u32 \<Rightarrow> (string \<Rightarrow> u64 \<Rightarrow> u64) \<Rightarrow> flow" where
  "flow_init env e0 k0 mask0 cfg_int = routing.extend (routing_init env e0 k0 mask0) (flow.fields
     [] [] (bq_new 64) (cc_new cfg_int) 0 False
     \<lparr>c_init_timeout = 30, c_recv_timeout = 20, c_data_saving = 0, c_call_upgrade = False,
      c_video_send = False, c_video_recv = False\<rparr>
     False False (cfg_dbl env ''relay_switch_threshold'' (8 / 10))
     (cfg_dbl env ''p2p_to_relay_switch_threshold'' (6 / 10)) (cfg_dbl env ''relay_to_p2p_switch_threshold'' (8 / 10)))"

definition controller_init :: "env \<Rightarrow> call_error \<Rightarrow> keys \<Rightarrow> u32 \<Rightarrow> u32 \<Rightarrow> u32 \<Rightarrow> (string \<Rightarrow> u64 \<Rightarrow> u64) \<Rightarrow> controller" where
  "controller_init env e0 k0 mask0 ping0 max0 cfg_int = flow.extend (flow_init env e0 k0 mask0 cfg_int)
    \<lparr>network = Net_Unknown, encoder = None, bitrates = initial_bitrates env, max_bitrate = max0,
     received_init = False, received_init_ack = False, audio_started = False, audio_out_started = False,
     output_playing = False, received_first_packet = False, waiting_for_acks = False, first_sent_ping = ping0,
     rtt_hist = hist_new 32, dont_send = 0, send_losses = 0, packets_received = 0, last_recv_time = 0,
     last_extras = (\<lambda>_. 0), peer_decoders = [], peer_resolution = 0, init_timer = 0, was_handover = False,
     peer_ipv6 = False, did_send_ipv6 = False, use_ipv6 = False,
     unack_nop_threshold = cfg_uint env ''unack_nop_threshold'' 10,
     rate_max_rtt = cfg_dbl env ''rate_min_rtt'' (6 / 10), bytes_recv_mobile = 0, bytes_recv_wifi = 0,
     sender = \<lparr>as_shitty = False, as_ec_level = 0, as_loss = Fin 0, as_resend = 1, as_ec = []\<rparr>,
     recv_losses = 0, send_loss_hist = hist_new 10, packet_count_hist = hist_new 10, prev_send_loss = 0,
     prev_seq = 1, was_extra_ec = False, was_encoder_laggy = False, was_reconnecting = False,
     loss_for_extra_ec = cfg_dbl env ''packet_loss_for_extra_ec'' (2 / 100),
     rate_max_loss = cfg_dbl env ''rate_min_send_loss'' (2 / 10),
     reconnecting_timeout = cfg_dbl env ''reconnecting_state_timeout'' 2, bars = hist_new 4, active_itf = [],
     reinit_proxy = True, recv_thread = Recv_Idle, send_ended = False, bytes_sent_mobile = 0, bytes_sent_wifi = 0,
     crashed = None\<rparr>"

text \<open>
  The send thread starts a call. (The loss that the encoder is set to is indeterminate at first
  and only printed; zero here.)
\<close>

definition initialize_audio :: "env \<Rightarrow> 'z controller_scheme \<Rightarrow> 'z controller_scheme" where
  "initialize_audio env s =
    (let s1 = s\<lparr>encoder := Some \<lparr>en_bitrate = 20000, en_vad = False, en_secondary = False, en_loss = 0,
                  en_complexity = 10\<rparr>\<rparr>
     in if output_ok env \<noteq> Some True then set_state env Failed (s1\<lparr>last_error := Error_Audio_IO\<rparr>)
        else update_bitrate_limit env s1)"

definition initialize_timers :: "env \<Rightarrow> 'z controller_scheme \<Rightarrow> 'z controller_scheme" where
  "initialize_timers env s = (case post env Run_Init_Timeout (c_init_timeout (config s)) 0 s of
     (i, s1) \<Rightarrow> post_only env Run_Send_Relay_Pings 0 2 (s1\<lparr>init_timer := i\<rparr>))"

definition set_config :: "env \<Rightarrow> config \<Rightarrow> 'z controller_scheme \<Rightarrow> 'z controller_scheme" where
  "set_config env c s = update_bitrate_limit env (update_data_saving (s\<lparr>config := c\<rparr>))"

definition connect :: "env \<Rightarrow> 'z controller_scheme \<Rightarrow> exn + 'z controller_scheme" where
  "connect env s = (if call_state s = Wait_Init_Ack then Inl AssertFail
     else let c = config s;
              s1 = s\<lparr>config := (if c_init_timeout c = 0 then c\<lparr>c_init_timeout := 30\<rparr> else c)\<rparr>
          in Inr (post_only env Run_Send_Init 0 0 (initialize_timers env (initialize_audio env s1))))"

subsection \<open>The tasks of the message thread\<close>

text \<open>
  The task that reports a received key holds a reference into the packet it came in, which is
  gone when the task runs.
\<close>

definition exec_task :: "env \<Rightarrow> task \<Rightarrow> 'z controller_scheme \<Rightarrow> exn + 'z controller_scheme" where
  "exec_task env t s = (case t of
     Notify_State st \<Rightarrow> Inr (call_out (State_Changed st) s)
   | Send_Mic_Flags \<Rightarrow> Inr (send_mic_flags s)
   | Run_Update_RTT \<Rightarrow> update_rtt s
   | Run_Update_Audio_Bitrate \<Rightarrow> update_audio_bitrate env s
   | Run_Update_Congestion \<Rightarrow> update_congestion s
   | Run_Update_Signal_Bars \<Rightarrow> update_signal_bars env s
   | Run_Tick \<Rightarrow> tick env s
   | Run_Send_Udp_Pings \<Rightarrow> Inr (send_udp_pings env s)
   | Run_Evaluate_Udp_Pings \<Rightarrow> evaluate_udp_pings env s
   | Run_Resend_Endpoints_Request \<Rightarrow> Inr (resend_endpoints_request env s)
   | Run_Update_Reliable \<Rightarrow> update_reliable env s
   | Run_Stop_Dropping \<Rightarrow> Inr (s\<lparr>dont_send := 0\<rparr>)
   | Run_Establish \<Rightarrow> Inr (set_state env Established s)
   | Run_Establish_If_Waiting \<Rightarrow> Inr (if call_state s = Wait_Init_Ack then set_state env Established s else s)
   | Run_Key_Received key \<Rightarrow> Inl Undefined
   | Run_Upgrade_Requested \<Rightarrow> Inr (call_out Upgrade_Requested s)
   | Run_Key_Sent \<Rightarrow> Inr (call_out Key_Sent s)
   | Run_Send_Group_Key key \<Rightarrow> Inr (send_group_key key s)
   | Run_Request_Upgrade \<Rightarrow> Inr (request_call_upgrade s)
   | Run_Send_Init \<Rightarrow> send_init env s
   | Run_Init_Timeout \<Rightarrow> Inr (set_state env Failed (s\<lparr>last_error := Error_Timeout\<rparr>))
   | Run_Send_Relay_Pings \<Rightarrow> send_relay_pings env s
   | Run_Try_Send \<Rightarrow> try_send_outgoing env s
   | Run_Reset_Udp \<Rightarrow> Inr (reset_udp_availability env s)
   | Run_Handover \<Rightarrow> network_handover env s
   | Run_Frame d sec \<Rightarrow> send_frame env d sec s
   | Run_Received np \<Rightarrow> network_packet_received env np s)"

text \<open>Nothing catches an exception on the message thread: it ends the process.\<close>

definition run_task :: "env \<Rightarrow> task \<Rightarrow> 'z controller_scheme \<Rightarrow> 'z controller_scheme" where
  "run_task env t s = (if crashed s \<noteq> None then s
     else case exec_task env t s of Inl e \<Rightarrow> s\<lparr>crashed := Some e\<rparr> | Inr s1 \<Rightarrow> s1)"

definition message_pass :: "env \<Rightarrow> controller \<Rightarrow> controller" where
  "message_pass env s = run_pass (run_task env) (now env) (\<lambda>_. now env) s"

subsection \<open>The receive thread (Loop.cpp)\<close>

text \<open>
  The start of the thread: a proxy has to be resolved (\<open>resolved\<close> tells whether it could be), otherwise the
  test of the UDP connection begins. Then each pass of the loop has two parts, with the wait for
  the sockets in between.
\<close>

definition start_receiving :: "env \<Rightarrow> bool \<Rightarrow> 'z controller_scheme \<Rightarrow> 'z controller_scheme" where
  "start_receiving env resolved s =
    (if via_socks5 s
     then (if resolved then s\<lparr>recv_thread := Recv_Top\<rparr> else (set_state env Failed s)\<lparr>recv_thread := Recv_Ended\<rparr>)
     else case post env Run_Send_Udp_Pings 0 (1 / 2) (s\<lparr>udp_conn := Udp_Ping_Pending\<rparr>) of
       (i, s1) \<Rightarrow> s1\<lparr>udp_ping_timer := i, recv_thread := Recv_Top\<rparr>)"

text \<open>
  Which sockets are waited for; \<open>wanted\<close> is \<^verbatim>\<open>NeedSelectForSending\<close> of a connection through a proxy, and true for the
  others.
\<close>

definition tcp_sockets :: "'z routing_scheme \<Rightarrow> int list" where
  "tcp_sockets s = map fst (filter (\<lambda>(k, e). ep_type e = TCP_RELAY \<and> ep_connected e) (endpoints s))"

definition begin_select :: "env \<Rightarrow> (int \<Rightarrow> bool) \<Rightarrow> 'z controller_scheme \<Rightarrow> 'z controller_scheme" where
  "begin_select env wanted s = (if \<not> run_receiver s then s\<lparr>recv_thread := Recv_Ended\<rparr>
     else let s1 = (if via_socks5 s \<and> reinit_proxy s then (init_udp_proxy env s)\<lparr>reinit_proxy := False\<rparr> else s);
              ks = tcp_sockets s1
          in s1\<lparr>recv_thread := Recv_Select ks (\<not> udp_ready env) (filter (\<lambda>k. \<not> tcp_ready env k \<and> wanted k) ks)\<rparr>)"

text \<open>
  The outcome of the wait, from the operating system: cancelled, the UDP socket failed, the
  endpoints whose sockets failed, what was received on the sockets that are ready, one after the other,
  and whether a socket became ready for sending.
\<close>

record select_result =
  sel_cancelled :: bool
  sel_udp_failed :: bool
  sel_tcp_failed :: "int list"
  sel_received :: "net_packet list"
  sel_writable :: bool

definition select_possible :: "select_result \<Rightarrow> recv_state \<Rightarrow> bool" where
  "select_possible r st = (case st of
     Recv_Select ks u ws \<Rightarrow> set (sel_tcp_failed r) \<subseteq> set ks \<and> length (sel_received r) \<le> length ks + 1
       \<and> (sel_writable r \<longrightarrow> u \<or> ws \<noteq> [])
   | _ \<Rightarrow> False)"

definition close_failed :: "int \<Rightarrow> 'z routing_scheme \<Rightarrow> 'z routing_scheme" where
  "close_failed k s = (case om_get (endpoints s) k of
     None \<Rightarrow> s
   | Some e \<Rightarrow> if ep_connected e then modify_endpoint k (\<lambda>x. x\<lparr>ep_connected := False\<rparr>) (call_out (Close_Tcp k) s) else s)"

definition post_received :: "env \<Rightarrow> net_packet \<Rightarrow> 'z session_scheme \<Rightarrow> 'z session_scheme" where
  "post_received env np s = (if addr_empty (np_addr np) \<or> np_data np = [] then s
     else post_only env (Run_Received np) 0 0 s)"

definition end_select :: "env \<Rightarrow> select_result \<Rightarrow> 'z controller_scheme \<Rightarrow> 'z controller_scheme" where
  "end_select env r s =
    (if sel_cancelled r then s\<lparr>recv_thread := Recv_Top\<rparr>
     else if \<not> run_receiver s then s\<lparr>recv_thread := Recv_Ended\<rparr>
     else if sel_udp_failed r then (set_state env Failed s)\<lparr>recv_thread := Recv_Ended\<rparr>
     else if sel_tcp_failed r \<noteq> [] then (fold close_failed (sel_tcp_failed r) s)\<lparr>recv_thread := Recv_Top\<rparr>
     else let s1 = fold (post_received env) (sel_received r) s;
              s2 = (if sel_writable r then post_only env Run_Try_Send 0 0 s1 else s1)
          in s2\<lparr>recv_thread := Recv_Top\<rparr>)"

subsection \<open>The send thread\<close>

text \<open>
  The loop ends at an empty packet, with which the call is stopped; but a UDP packet without an
  address or a port counts as empty too (NetworkSocket.h). What is sent is not followed further than
  to the socket.
\<close>

definition raw_empty :: "raw_packet \<Rightarrow> bool" where
  "raw_empty x \<longleftrightarrow> rw_data x = [] \<or> \<not> rw_tcp x \<and> (rw_port x = 0 \<or> addr_empty (rw_addr x))"

definition send_pass :: "'z controller_scheme \<Rightarrow> 'z controller_scheme option" where
  "send_pass s = (if send_ended s then None
     else case bq_acquire (raw_queue s) of None \<Rightarrow> None | Some b \<Rightarrow>
       (case bq_get_internal b of None \<Rightarrow> None | Some (x, c) \<Rightarrow>
         let s1 = s\<lparr>raw_queue := c\<rparr>; n = of_nat (length (rw_data x)) in
         Some (if raw_empty x then s1\<lparr>send_ended := True\<rparr>
               else if is_mobile (network s) then s1\<lparr>bytes_sent_mobile := bytes_sent_mobile s + n\<rparr>
               else s1\<lparr>bytes_sent_wifi := bytes_sent_wifi s + n\<rparr>)))"

text \<open>
  The request to stop; the application then waits for the ends of both threads. An overflow of the
  queue ends the process.
\<close>

definition stop_call :: "'z controller_scheme \<Rightarrow> 'z controller_scheme" where
  "stop_call s = (let s1 = call_out Cancel_Select (s\<lparr>stopping := True, run_receiver := False\<rparr>) in
     case bq_put \<lparr>rw_data = [], rw_addr = no_address, rw_port = 0, rw_tcp = False, rw_socket = None\<rparr> (raw_queue s1) of
       None \<Rightarrow> s1\<lparr>crashed := Some AssertFail\<rparr>
     | Some q \<Rightarrow> s1\<lparr>raw_queue := q\<rparr>)"

subsection \<open>The call as a system of steps\<close>

text \<open>
  The message thread, the receive thread and the send thread; the encoder, which posts frames; and the
  application, which changes settings and stops the call.
\<close>

inductive call_step :: "controller \<Rightarrow> controller \<Rightarrow> bool" where
  pass: "crashed s = None \<Longrightarrow> call_step s (message_pass env s)"
| receive_start: "crashed s = None \<Longrightarrow> recv_thread s = Recv_Idle \<Longrightarrow> call_step s (start_receiving env resolved s)"
| receive_wait: "crashed s = None \<Longrightarrow> recv_thread s = Recv_Top \<Longrightarrow> call_step s (begin_select env wanted s)"
| receive: "crashed s = None \<Longrightarrow> select_possible r (recv_thread s) \<Longrightarrow> call_step s (end_select env r s)"
| frame: "crashed s = None \<Longrightarrow> \<not> stopping s \<Longrightarrow> call_step s (post_only env (Run_Frame d sec) 0 0 s)"
| sent: "crashed s = None \<Longrightarrow> send_pass s = Some t \<Longrightarrow> call_step s t"
| stop: "crashed s = None \<Longrightarrow> \<not> stopping s \<Longrightarrow> call_step s (stop_call s)"
| mute: "crashed s = None \<Longrightarrow> call_step s (set_mic_mute env m s)"
| network: "crashed s = None \<Longrightarrow> call_step s (set_network_type env t itf v6 s)"
| group_key: "crashed s = None \<Longrightarrow> call_step s (post_only env (Run_Send_Group_Key key) 0 0 s)"
| upgrade: "crashed s = None \<Longrightarrow> call_step s (post_only env Run_Request_Upgrade 0 0 s)"

text \<open>A call starts with endpoints as their constructor leaves them: nothing is measured yet.\<close>

definition unmeasured :: "endpoint \<Rightarrow> bool" where
  "unmeasured e \<longleftrightarrow> ep_rtt e = 0 \<and> last_ping_seq e = 0"

inductive call_running :: "controller \<Rightarrow> bool" where
  start: "\<forall>e \<in> set es. unmeasured e \<Longrightarrow>
    set_remote_endpoints es p2p layer
      (set_config env c (controller_init env e0 k0 mask0 ping0 max0 cfg_int)) = Inr s1 \<Longrightarrow>
    connect env (s1\<lparr>run_receiver := True\<rparr>) = Inr s2 \<Longrightarrow> call_running s2"
| step: "call_running s \<Longrightarrow> call_step s t \<Longrightarrow> call_running t"

inductive_cases call_stepE: "call_step s t"

end
