(* ===== verification/Invariant.thy ===== *)
theory Invariant
  imports Control
begin

section \<open>What every operation of the call keeps\<close>

text \<open>
  The invariant of the whole call, and that every operation and every task keeps it: the queue
  of the message thread is in the order of time; of the extras that wait for an
  acknowledgment there is one per type and endpoint; the first two outgoing streams are those of
  signaling and audio, and all others carry video; the map of endpoints is ordered; and the delay of
  an endpoint is never measured, as the number of the last ping is never set.
\<close>

named_theorems keeps

definition all_values :: "('v \<Rightarrow> bool) \<Rightarrow> 'v omap \<Rightarrow> bool" where
  "all_values P m \<longleftrightarrow> (\<forall>x \<in> set m. P (snd x))"

definition stream_types :: "byte list \<Rightarrow> bool" where
  "stream_types ts \<longleftrightarrow> (\<exists>n. ts = TYPE_SIGNALING # TYPE_AUDIO # replicate n TYPE_VIDEO)"

definition call_ok :: "'z routing_scheme \<Rightarrow> bool" where
  "call_ok s \<longleftrightarrow> by_time (mt_queue s) \<and> one_of_each (current_extras s)
     \<and> stream_types (map os_type (out_streams s)) \<and> om_ok (endpoints s) \<and> all_values unmeasured (endpoints s)"

definition ok_res :: "('a \<Rightarrow> bool) \<Rightarrow> exn + 'a \<Rightarrow> bool" where
  "ok_res P r \<longleftrightarrow> (case r of Inl e \<Rightarrow> True | Inr s \<Rightarrow> P s)"

lemma ok_res_simps [simp]: "ok_res P (Inl e)" "ok_res P (Inr s) = P s"
  by (simp_all add: ok_res_def)

lemma ok_res_bind [keeps]: "ok_res P r \<Longrightarrow> (\<And>s. P s \<Longrightarrow> ok_res Q (f s)) \<Longrightarrow> ok_res Q (bind_res r f)"
  by (cases r) auto

lemma ok_res_any: "(\<And>x. r = Inr x \<Longrightarrow> ok_res Q (f x)) \<Longrightarrow> ok_res Q (bind_res r f)"
  by (cases r) auto

lemma ok_resD: "ok_res P r \<Longrightarrow> r = Inr s \<Longrightarrow> P s"
  by simp

lemma call_ok_record [simp]:
  "call_ok (s\<lparr>last_message_id := x_last_message_id\<rparr>) \<longleftrightarrow> call_ok s"
  "call_ok (s\<lparr>cancel_current := x_cancel_current\<rparr>) \<longleftrightarrow> call_ok s"
  "call_ok (s\<lparr>call_state := x_call_state\<rparr>) \<longleftrightarrow> call_ok s"
  "call_ok (s\<lparr>last_error := x_last_error\<rparr>) \<longleftrightarrow> call_ok s"
  "call_ok (s\<lparr>state_change_time := x_state_change_time\<rparr>) \<longleftrightarrow> call_ok s"
  "call_ok (s\<lparr>was_established := x_was_established\<rparr>) \<longleftrightarrow> call_ok s"
  "call_ok (s\<lparr>mic_muted := x_mic_muted\<rparr>) \<longleftrightarrow> call_ok s"
  "call_ok (s\<lparr>cur_ver := x_cur_ver\<rparr>) \<longleftrightarrow> call_ok s"
  "call_ok (s\<lparr>cur_keys := x_cur_keys\<rparr>) \<longleftrightarrow> call_ok s"
  "call_ok (s\<lparr>use_mtproto2 := x_use_mtproto2\<rparr>) \<longleftrightarrow> call_ok s"
  "call_ok (s\<lparr>peer_caps := x_peer_caps\<rparr>) \<longleftrightarrow> call_ok s"
  "call_ok (s\<lparr>did_receive_key := x_did_receive_key\<rparr>) \<longleftrightarrow> call_ok s"
  "call_ok (s\<lparr>did_receive_key_ack := x_did_receive_key_ack\<rparr>) \<longleftrightarrow> call_ok s"
  "call_ok (s\<lparr>did_send_key := x_did_send_key\<rparr>) \<longleftrightarrow> call_ok s"
  "call_ok (s\<lparr>did_send_upgrade := x_did_send_upgrade\<rparr>) \<longleftrightarrow> call_ok s"
  "call_ok (s\<lparr>did_invoke_upgrade := x_did_invoke_upgrade\<rparr>) \<longleftrightarrow> call_ok s"
  "call_ok (s\<lparr>in_streams := x_in_streams\<rparr>) \<longleftrightarrow> call_ok s"
  "call_ok (s\<lparr>calls := x_calls\<rparr>) \<longleftrightarrow> call_ok s"
  "call_ok (s\<lparr>current_endpoint := x_current_endpoint\<rparr>) \<longleftrightarrow> call_ok s"
  "call_ok (s\<lparr>preferred_relay := x_preferred_relay\<rparr>) \<longleftrightarrow> call_ok s"
  "call_ok (s\<lparr>peer_preferred_relay := x_peer_preferred_relay\<rparr>) \<longleftrightarrow> call_ok s"
  "call_ok (s\<lparr>use_tcp := x_use_tcp\<rparr>) \<longleftrightarrow> call_ok s"
  "call_ok (s\<lparr>use_udp := x_use_udp\<rparr>) \<longleftrightarrow> call_ok s"
  "call_ok (s\<lparr>did_add_tcp := x_did_add_tcp\<rparr>) \<longleftrightarrow> call_ok s"
  "call_ok (s\<lparr>set_current_tcp := x_set_current_tcp\<rparr>) \<longleftrightarrow> call_ok s"
  "call_ok (s\<lparr>did_add_ipv6 := x_did_add_ipv6\<rparr>) \<longleftrightarrow> call_ok s"
  "call_ok (s\<lparr>my_ipv6 := x_my_ipv6\<rparr>) \<longleftrightarrow> call_ok s"
  "call_ok (s\<lparr>allow_p2p := x_allow_p2p\<rparr>) \<longleftrightarrow> call_ok s"
  "call_ok (s\<lparr>waiting_peer_info := x_waiting_peer_info\<rparr>) \<longleftrightarrow> call_ok s"
  "call_ok (s\<lparr>endpoints_req_count := x_endpoints_req_count\<rparr>) \<longleftrightarrow> call_ok s"
  "call_ok (s\<lparr>udp_conn := x_udp_conn\<rparr>) \<longleftrightarrow> call_ok s"
  "call_ok (s\<lparr>udp_ping_count := x_udp_ping_count\<rparr>) \<longleftrightarrow> call_ok s"
  "call_ok (s\<lparr>udp_ping_timer := x_udp_ping_timer\<rparr>) \<longleftrightarrow> call_ok s"
  "call_ok (s\<lparr>need_rate := x_need_rate\<rparr>) \<longleftrightarrow> call_ok s"
  "call_ok (s\<lparr>need_rate_flags := x_need_rate_flags\<rparr>) \<longleftrightarrow> call_ok s"
  "call_ok (s\<lparr>run_receiver := x_run_receiver\<rparr>) \<longleftrightarrow> call_ok s"
  "call_ok (s\<lparr>via_socks5 := x_via_socks5\<rparr>) \<longleftrightarrow> call_ok s"
  "call_ok (s\<lparr>udp_is_proxied := x_udp_is_proxied\<rparr>) \<longleftrightarrow> call_ok s"
  "call_ok (s\<lparr>proxy_supports_udp := x_proxy_supports_udp\<rparr>) \<longleftrightarrow> call_ok s"
  by (simp_all add: call_ok_def)

lemma call_ok_flow [simp]:
  "call_ok (s\<lparr>send_queue := x_send_queue\<rparr>) \<longleftrightarrow> call_ok s"
  "call_ok (s\<lparr>reliable_packets := x_reliable_packets\<rparr>) \<longleftrightarrow> call_ok s"
  "call_ok (s\<lparr>raw_queue := x_raw_queue\<rparr>) \<longleftrightarrow> call_ok s"
  "call_ok (s\<lparr>cong := x_cong\<rparr>) \<longleftrightarrow> call_ok s"
  "call_ok (s\<lparr>unacked_incoming := x_unacked_incoming\<rparr>) \<longleftrightarrow> call_ok s"
  "call_ok (s\<lparr>stopping := x_stopping\<rparr>) \<longleftrightarrow> call_ok s"
  "call_ok (s\<lparr>config := x_config\<rparr>) \<longleftrightarrow> call_ok s"
  "call_ok (s\<lparr>data_saving := x_data_saving\<rparr>) \<longleftrightarrow> call_ok s"
  "call_ok (s\<lparr>data_saving_by_peer := x_data_saving_by_peer\<rparr>) \<longleftrightarrow> call_ok s"
  "call_ok (s\<lparr>relay_switch := x_relay_switch\<rparr>) \<longleftrightarrow> call_ok s"
  "call_ok (s\<lparr>p2p_to_relay := x_p2p_to_relay\<rparr>) \<longleftrightarrow> call_ok s"
  "call_ok (s\<lparr>relay_to_p2p := x_relay_to_p2p\<rparr>) \<longleftrightarrow> call_ok s"
  by (simp_all add: call_ok_def)

lemma call_ok_controller [simp]:
  "call_ok (s\<lparr>network := x_network\<rparr>) \<longleftrightarrow> call_ok s"
  "call_ok (s\<lparr>encoder := x_encoder\<rparr>) \<longleftrightarrow> call_ok s"
  "call_ok (s\<lparr>bitrates := x_bitrates\<rparr>) \<longleftrightarrow> call_ok s"
  "call_ok (s\<lparr>max_bitrate := x_max_bitrate\<rparr>) \<longleftrightarrow> call_ok s"
  "call_ok (s\<lparr>received_init := x_received_init\<rparr>) \<longleftrightarrow> call_ok s"
  "call_ok (s\<lparr>received_init_ack := x_received_init_ack\<rparr>) \<longleftrightarrow> call_ok s"
  "call_ok (s\<lparr>audio_started := x_audio_started\<rparr>) \<longleftrightarrow> call_ok s"
  "call_ok (s\<lparr>audio_out_started := x_audio_out_started\<rparr>) \<longleftrightarrow> call_ok s"
  "call_ok (s\<lparr>output_playing := x_output_playing\<rparr>) \<longleftrightarrow> call_ok s"
  "call_ok (s\<lparr>received_first_packet := x_received_first_packet\<rparr>) \<longleftrightarrow> call_ok s"
  "call_ok (s\<lparr>waiting_for_acks := x_waiting_for_acks\<rparr>) \<longleftrightarrow> call_ok s"
  "call_ok (s\<lparr>first_sent_ping := x_first_sent_ping\<rparr>) \<longleftrightarrow> call_ok s"
  "call_ok (s\<lparr>rtt_hist := x_rtt_hist\<rparr>) \<longleftrightarrow> call_ok s"
  "call_ok (s\<lparr>dont_send := x_dont_send\<rparr>) \<longleftrightarrow> call_ok s"
  "call_ok (s\<lparr>send_losses := x_send_losses\<rparr>) \<longleftrightarrow> call_ok s"
  "call_ok (s\<lparr>packets_received := x_packets_received\<rparr>) \<longleftrightarrow> call_ok s"
  "call_ok (s\<lparr>last_recv_time := x_last_recv_time\<rparr>) \<longleftrightarrow> call_ok s"
  "call_ok (s\<lparr>last_extras := x_last_extras\<rparr>) \<longleftrightarrow> call_ok s"
  "call_ok (s\<lparr>peer_decoders := x_peer_decoders\<rparr>) \<longleftrightarrow> call_ok s"
  "call_ok (s\<lparr>peer_resolution := x_peer_resolution\<rparr>) \<longleftrightarrow> call_ok s"
  "call_ok (s\<lparr>init_timer := x_init_timer\<rparr>) \<longleftrightarrow> call_ok s"
  "call_ok (s\<lparr>was_handover := x_was_handover\<rparr>) \<longleftrightarrow> call_ok s"
  "call_ok (s\<lparr>peer_ipv6 := x_peer_ipv6\<rparr>) \<longleftrightarrow> call_ok s"
  "call_ok (s\<lparr>did_send_ipv6 := x_did_send_ipv6\<rparr>) \<longleftrightarrow> call_ok s"
  "call_ok (s\<lparr>use_ipv6 := x_use_ipv6\<rparr>) \<longleftrightarrow> call_ok s"
  "call_ok (s\<lparr>unack_nop_threshold := x_unack_nop_threshold\<rparr>) \<longleftrightarrow> call_ok s"
  "call_ok (s\<lparr>rate_max_rtt := x_rate_max_rtt\<rparr>) \<longleftrightarrow> call_ok s"
  "call_ok (s\<lparr>bytes_recv_mobile := x_bytes_recv_mobile\<rparr>) \<longleftrightarrow> call_ok s"
  "call_ok (s\<lparr>bytes_recv_wifi := x_bytes_recv_wifi\<rparr>) \<longleftrightarrow> call_ok s"
  "call_ok (s\<lparr>sender := x_sender\<rparr>) \<longleftrightarrow> call_ok s"
  "call_ok (s\<lparr>recv_losses := x_recv_losses\<rparr>) \<longleftrightarrow> call_ok s"
  "call_ok (s\<lparr>send_loss_hist := x_send_loss_hist\<rparr>) \<longleftrightarrow> call_ok s"
  "call_ok (s\<lparr>packet_count_hist := x_packet_count_hist\<rparr>) \<longleftrightarrow> call_ok s"
  "call_ok (s\<lparr>prev_send_loss := x_prev_send_loss\<rparr>) \<longleftrightarrow> call_ok s"
  "call_ok (s\<lparr>prev_seq := x_prev_seq\<rparr>) \<longleftrightarrow> call_ok s"
  "call_ok (s\<lparr>was_extra_ec := x_was_extra_ec\<rparr>) \<longleftrightarrow> call_ok s"
  "call_ok (s\<lparr>was_encoder_laggy := x_was_encoder_laggy\<rparr>) \<longleftrightarrow> call_ok s"
  "call_ok (s\<lparr>was_reconnecting := x_was_reconnecting\<rparr>) \<longleftrightarrow> call_ok s"
  "call_ok (s\<lparr>loss_for_extra_ec := x_loss_for_extra_ec\<rparr>) \<longleftrightarrow> call_ok s"
  "call_ok (s\<lparr>rate_max_loss := x_rate_max_loss\<rparr>) \<longleftrightarrow> call_ok s"
  "call_ok (s\<lparr>reconnecting_timeout := x_reconnecting_timeout\<rparr>) \<longleftrightarrow> call_ok s"
  "call_ok (s\<lparr>bars := x_bars\<rparr>) \<longleftrightarrow> call_ok s"
  "call_ok (s\<lparr>active_itf := x_active_itf\<rparr>) \<longleftrightarrow> call_ok s"
  "call_ok (s\<lparr>reinit_proxy := x_reinit_proxy\<rparr>) \<longleftrightarrow> call_ok s"
  "call_ok (s\<lparr>recv_thread := x_recv_thread\<rparr>) \<longleftrightarrow> call_ok s"
  "call_ok (s\<lparr>send_ended := x_send_ended\<rparr>) \<longleftrightarrow> call_ok s"
  "call_ok (s\<lparr>bytes_sent_mobile := x_bytes_sent_mobile\<rparr>) \<longleftrightarrow> call_ok s"
  "call_ok (s\<lparr>bytes_sent_wifi := x_bytes_sent_wifi\<rparr>) \<longleftrightarrow> call_ok s"
  "call_ok (s\<lparr>crashed := x_crashed\<rparr>) \<longleftrightarrow> call_ok s"
  by (simp_all add: call_ok_def)

subsection \<open>Streams, extras and endpoints\<close>

lemma call_ok_streams [keeps]:
  "call_ok s \<Longrightarrow> map os_type xs = map os_type (out_streams s) \<Longrightarrow> call_ok (s\<lparr>out_streams := xs\<rparr>)"
  by (simp add: call_ok_def)

lemma map_update_first: "(\<And>x. f (g x) = f x) \<Longrightarrow> map f (update_first P g xs) = map f xs"
  by (induction xs) simp_all

lemma call_ok_extras [keeps]: "call_ok s \<Longrightarrow> one_of_each xs \<Longrightarrow> call_ok (s\<lparr>current_extras := xs\<rparr>)"
  by (simp add: call_ok_def)

lemma call_ok_queue [keeps]: "call_ok s \<Longrightarrow> by_time q \<Longrightarrow> call_ok (s\<lparr>mt_queue := q\<rparr>)"
  by (simp add: call_ok_def)

lemma call_ok_one: "call_ok s \<Longrightarrow> one_of_each (current_extras s)"
  by (simp add: call_ok_def)

lemma all_values_put: "all_values P m \<Longrightarrow> P v \<Longrightarrow> all_values P (om_put k v m)"
  using om_values_put [of k v m] by (fastforce simp: all_values_def)

lemma all_values_erase: "all_values P m \<Longrightarrow> all_values P (om_erase k m)"
  by (auto simp: all_values_def om_erase_def)

lemma all_values_modify: "all_values P m \<Longrightarrow> (\<And>v. P v \<Longrightarrow> P (f v)) \<Longrightarrow> all_values P (om_modify k f m)"
  by (auto simp: all_values_def om_modify_def)

lemma all_values_map: "all_values P m \<Longrightarrow> (\<And>v. P v \<Longrightarrow> P (f v)) \<Longrightarrow> all_values P (om_map f m)"
  by (auto simp: all_values_def om_map_def)

lemma all_values_get: "all_values P m \<Longrightarrow> om_get m k = Some v \<Longrightarrow> P v"
  using om_values_get [of m k v] by (force simp: all_values_def)

lemma call_ok_insert: "call_ok s \<Longrightarrow> call_ok (mt_insert m s)"
  unfolding mt_insert_def by (rule call_ok_queue) (simp_all add: call_ok_def by_time_insert)

lemma call_ok_post [keeps]: "call_ok s \<Longrightarrow> call_ok (snd (post env f d i s))"
  by (cases "d < 0") (simp_all add: post_def mt_post_def Let_def call_ok_insert)

lemma call_ok_post_pair: "post env f d i s = (n, t) \<Longrightarrow> call_ok s \<Longrightarrow> call_ok t"
  using call_ok_post [of s env f d i] by simp

lemma call_ok_basic [keeps]:
  assumes "call_ok s"
  shows "call_ok (post_only env f d i s)" "call_ok (call_out c s)" "call_ok (mt_cancel n s)"
    "call_ok (mt_cancel_self s)" "call_ok (send_extra b ep s)"
proof -
  have "by_time (mt_queue s)" "one_of_each (current_extras s)" using assms by (simp_all add: call_ok_def)
  then show "call_ok (post_only env f d i s)" "call_ok (call_out c s)" "call_ok (mt_cancel n s)"
      "call_ok (mt_cancel_self s)" "call_ok (send_extra b ep s)"
    using assms
    by (simp_all only: post_only_def call_ok_post call_out_def mt_cancel_def mt_cancel_self_def send_extra_def
      call_ok_record call_ok_queue call_ok_extras put_extra_one by_time_filter)
qed

lemma call_ok_put [keeps]: "call_ok s \<Longrightarrow> unmeasured e \<Longrightarrow> call_ok (put_endpoint k e s)"
  by (simp add: call_ok_def put_endpoint_def om_ok_put all_values_put)

lemma call_ok_modify [keeps]:
  "call_ok s \<Longrightarrow> (\<And>e. unmeasured e \<Longrightarrow> unmeasured (f e)) \<Longrightarrow> call_ok (modify_endpoint k f s)"
  by (simp add: call_ok_def modify_endpoint_def all_values_modify)

lemma call_ok_each [keeps]:
  "call_ok s \<Longrightarrow> (\<And>e. unmeasured e \<Longrightarrow> unmeasured (f e)) \<Longrightarrow> call_ok (each_endpoint f s)"
  by (simp add: call_ok_def each_endpoint_def all_values_map)

lemma call_ok_fold [keeps]: "call_ok s \<Longrightarrow> (\<And>x s. x \<in> set xs \<Longrightarrow> call_ok s \<Longrightarrow> call_ok (f x s)) \<Longrightarrow> call_ok (fold f xs s)"
  by (induction xs arbitrary: s) auto

lemma unmeasured_forget [simp]: "unmeasured e \<Longrightarrow> unmeasured (forget_rtt e)"
  by (simp add: unmeasured_def forget_rtt_def)

lemma unmeasured_new [simp]: "unmeasured (endpoint_new env i port a v6 ty tag)"
  by (simp add: unmeasured_def endpoint_new_def)

lemma call_ok_at [keeps]: "call_ok s \<Longrightarrow> ok_res unmeasured (at_endpoint k s)"
  by (auto simp: at_endpoint_def call_ok_def split: option.splits dest: all_values_get)

subsection \<open>Session and endpoints\<close>

lemma keep_session [keeps]:
  assumes "call_ok s"
  shows "call_ok (acknowledged_extra env x s)" "call_ok (send_stream_flags y s)" "call_ok (enter_state env st s)"
    "call_ok (set_mic_mute env m s)"
  using assms by (auto simp: acknowledged_extra_def send_stream_flags_def enter_state_def set_mic_mute_def Let_def intro!: keeps)

lemma keep_set_state [keeps]: "call_ok s \<Longrightarrow> call_ok (set_state env st s)"
  by (auto simp: set_state_def Let_def intro!: keeps)

lemma find_some: "find P xs = Some x \<Longrightarrow> P x"
  by (auto simp: find_Some_iff)

lemma keep_flags [keeps]:
  assumes "call_ok s"
  shows "call_ok (send_mic_flags s)" "call_ok (send_group_key key s)" "call_ok (request_call_upgrade s)"
proof -
  have "map os_type (update_first (\<lambda>z. os_type z = TYPE_AUDIO) (\<lambda>_. y) xs) = map os_type xs"
    if "os_type y = TYPE_AUDIO" for y :: out_stream and xs
    using that by (induction xs) auto
  then show "call_ok (send_mic_flags s)" using assms
    by (auto simp: send_mic_flags_def Let_def first_of_type_def dest!: find_some split: option.splits intro!: keeps)
  show "call_ok (send_group_key key s)" "call_ok (request_call_upgrade s)"
    using assms by (auto simp: send_group_key_def request_call_upgrade_def intro!: keeps)
qed

lemma unmeasured_variants [simp]:
  "unmeasured (v6_variant e)" "unmeasured e \<Longrightarrow> unmeasured (tcp_variant e)"
  "unmeasured e \<Longrightarrow> unmeasured ((forget_rtt e)\<lparr>last_ping_seq := 0\<rparr>)"
  by (simp_all add: unmeasured_def v6_variant_def tcp_variant_def forget_rtt_def)

lemma unmeasured_record [simp]:
  "unmeasured (e\<lparr>ep_connected := b\<rparr>) = unmeasured e" "unmeasured (e\<lparr>last_ping_time := t\<rparr>) = unmeasured e"
  "unmeasured (e\<lparr>udp_ping_times := m\<rparr>) = unmeasured e" "unmeasured (e\<lparr>total_pings := n\<rparr>) = unmeasured e"
  "unmeasured (e\<lparr>udp_pong_count := n\<rparr>) = unmeasured e" "unmeasured (e\<lparr>total_replies := n\<rparr>) = unmeasured e"
  "unmeasured (e\<lparr>self_rtts := h\<rparr>) = unmeasured e" "unmeasured (e\<lparr>ep_addr := a\<rparr>) = unmeasured e"
  "unmeasured (e\<lparr>ep_port := q\<rparr>) = unmeasured e"
  by (simp_all add: unmeasured_def)

lemma keep_routes [keeps]:
  assumes "call_ok s"
  shows "call_ok (close_copies es s)" "call_ok (rate_flag f s)"
    "call_ok (request_from_relay e s)" "call_ok (reset_ping_stats s)" "call_ok (send_udp_ping env k e s)"
    "call_ok (reset_udp_availability env s)"
  using assms by (auto simp: close_copies_def rate_flag_def request_from_relay_def reset_ping_stats_def
      send_udp_ping_def reset_udp_availability_def Let_def split_def intro!: keeps)

lemma keep_variants [keeps]: "call_ok s \<Longrightarrow> call_ok (add_ipv6_relays s)"
  by (auto simp: add_ipv6_relays_def add_variant_def Let_def intro!: keeps)

lemma keep_switch_to [keeps]: "call_ok s \<Longrightarrow> ok_res call_ok (switch_to t s)"
  by (auto simp: switch_to_def intro!: ok_res_any)

lemma keep_tcp_relays:
  "call_ok s \<Longrightarrow> all_values unmeasured m \<Longrightarrow>
    ok_res (\<lambda>(ts, t). call_ok t \<and> (\<forall>e \<in> set ts. unmeasured e)) (tcp_relays was m s)"
proof (induction m arbitrary: s)
  case (Cons x m)
  obtain i e where x: "x = (i, e)" by fastforce
  have e: "unmeasured e" "all_values unmeasured m" using Cons.prems(2) by (simp_all add: all_values_def x)
  show ?case
  proof (cases "ep_type e = UDP_RELAY")
    case True
    define reset where "reset = (was \<and> \<not> use_udp s)"
    define e1 where "e1 = (if reset then (forget_rtt e)\<lparr>last_ping_seq := 0\<rparr> else e)"
    define s1 where "s1 = (if reset then modify_endpoint i (\<lambda>_. e1) s else s)"
    have e1: "unmeasured e1" using e(1) by (simp add: e1_def)
    have step: "tcp_relays was (x # m) s = bind_res (switch_to (tcp_variant e1) s1)
        (\<lambda>s2. bind_res (tcp_relays was m s2) (\<lambda>(ts, s3). Inr (tcp_variant e1 # ts, s3)))"
      unfolding x tcp_relays.simps Let_def reset_def [symmetric] e1_def [symmetric] s1_def [symmetric]
      using True by simp
    have "call_ok s1" using Cons.prems(1) e1 by (auto simp: s1_def intro!: keeps)
    then show ?thesis unfolding step using e1
      by (auto intro!: ok_res_bind [OF keep_switch_to] ok_res_bind [OF Cons.IH] e(2))
  qed (use Cons e in \<open>simp add: x\<close>)
qed simp

lemma keep_add_tcp_relays [keeps]: "call_ok s \<Longrightarrow> ok_res call_ok (add_tcp_relays s)"
proof -
  assume s: "call_ok s"
  then have "ok_res (\<lambda>(ts, t). call_ok t \<and> (\<forall>e \<in> set ts. unmeasured e)) (tcp_relays (set_current_tcp s) (endpoints s) s)"
    by (intro keep_tcp_relays) (simp_all add: call_ok_def)
  then show ?thesis using s unfolding add_tcp_relays_def
    by (auto simp: add_variant_def split: prod.splits intro!: ok_res_bind keeps)
qed

lemma keep_udp_pings [keeps]: "call_ok s \<Longrightarrow> call_ok (send_udp_pings env s)"
  by (auto simp: send_udp_pings_def Let_def split_def intro!: keeps)

lemma ok_res_if: "(b \<Longrightarrow> ok_res P x) \<Longrightarrow> (\<not> b \<Longrightarrow> ok_res P y) \<Longrightarrow> ok_res P (if b then x else y)"
  by simp

lemma ok_res_Inr: "P x \<Longrightarrow> ok_res P (Inr x)"
  by simp

lemma keep_evaluate [keeps]: "call_ok s \<Longrightarrow> ok_res call_ok (evaluate_udp_pings env s)"
  unfolding evaluate_udp_pings_def Let_def split_def
  by (intro ok_res_if ok_res_Inr ok_res_any ok_res_bind [OF keep_add_tcp_relays]) (auto intro!: keeps)

lemma keep_endpoints_request [keeps]: "call_ok s \<Longrightarrow> call_ok (send_endpoints_request env s)"
  by (auto simp: send_endpoints_request_def Let_def split_def intro!: keeps)

lemma keep_resend_request [keeps]: "call_ok s \<Longrightarrow> call_ok (resend_endpoints_request env s)"
  by (auto simp: resend_endpoints_request_def intro!: keeps)

subsection \<open>Sending\<close>

lemma types_on_stream: "map os_type (out_streams (on_stream i f s)) = map os_type (out_streams s)"
  by (simp add: on_stream_def map_update list_update_same_conv) (metis length_map list_update_beyond list_update_id nth_map not_le)

lemma keep_on_stream [keeps]: "call_ok s \<Longrightarrow> call_ok (on_stream i f s)"
  using types_on_stream [of i f s] by (auto simp: on_stream_def intro!: keeps)

lemma keep_open_socket [keeps]: "call_ok s \<Longrightarrow> call_ok (open_socket k e s)"
  by (auto simp: open_socket_def intro!: keeps)

lemma keep_hand_over [keeps]: "call_ok s \<Longrightarrow> ok_res call_ok (hand_over env k e p s)"
  by (auto simp: hand_over_def Let_def split: option.splits intro!: ok_res_any keeps)

lemma keep_send_or_enqueue [keeps]: "call_ok s \<Longrightarrow> ok_res call_ok (send_or_enqueue env p b s)"
  by (auto simp: send_or_enqueue_def Let_def intro!: ok_res_any keeps)

lemma keep_send_reliably [keeps]: "call_ok s \<Longrightarrow> call_ok (send_packet_reliably env p r t n s)"
  by (auto simp: send_packet_reliably_def Let_def intro!: keeps)

lemma keep_legacy_parts [keeps]: "call_ok s \<Longrightarrow> ok_res call_ok (send_legacy_parts env e sq r t n out s)"
proof (induction out arbitrary: s sq)
  case (Cons x out)
  then show ?case
    by (cases x) (auto simp: Let_def intro!: ok_res_bind [where P = call_ok] keep_send_reliably keep_send_or_enqueue)
qed simp

lemma one_of_each_kinds: "map (\<lambda>x. (wid (ue_data x), ue_endpoint x)) ys = map (\<lambda>x. (wid (ue_data x), ue_endpoint x)) xs
  \<Longrightarrow> one_of_each ys = one_of_each xs"
  by (simp add: one_of_each_def)

lemma prepare_extras_one: "prepare_extras pm xs ep p = (q, ys, pm') \<Longrightarrow> one_of_each ys = one_of_each xs"
  by (rule one_of_each_kinds) (auto simp: prepare_extras_def split: prod.splits dest: attach_extras_kinds)

lemma noted_kinds: "map (\<lambda>x. (wid (ue_data x), ue_endpoint x)) (noted pv ep sq tmp xs)
  = map (\<lambda>x. (wid (ue_data x), ue_endpoint x)) xs"
  by (induction pv ep sq tmp xs rule: noted.induct) (simp_all add: note_seq_def)

lemma prepare_legacy_one: "prepare_legacy pm xs ep lpm pv p = (q, ys, pm', lpm') \<Longrightarrow> one_of_each ys = one_of_each xs"
  by (rule one_of_each_kinds)
    (auto simp: prepare_legacy_def Let_def attach_extras_legacy_eq noted_kinds split: prod.splits)

lemma keep_send_packet_new [keeps]: "call_ok s \<Longrightarrow> ok_res call_ok (send_packet_new env p e r t n s)"
  by (auto simp: send_packet_new_def Let_def prepare_extras_one call_ok_one split: prod.splits intro!: keeps)

lemma keep_send_packet_legacy [keeps]: "call_ok s \<Longrightarrow> ok_res call_ok (send_packet_legacy env p e r t n s)"
  unfolding send_packet_legacy_def Let_def
  by (auto simp: prepare_legacy_one call_ok_one split: prod.splits intro!: keeps)

lemma keep_send_packet [keeps]: "call_ok s \<Longrightarrow> ok_res call_ok (send_packet env p ep r t n s)"
  unfolding send_packet_def by (intro ok_res_any) (auto intro!: keeps)

lemma keep_send_nop [keeps]: "call_ok s \<Longrightarrow> ok_res call_ok (send_nop env ep s)"
  by (simp add: send_nop_def keep_send_packet)

lemma keep_init_packets [keeps]: "call_ok s \<Longrightarrow> ok_res call_ok (init_packets env sq m s)"
proof (induction m arbitrary: s)
  case (Cons x m)
  then show ?case by (cases x) (auto intro!: ok_res_bind [OF keep_send_packet])
qed simp

lemma keep_send_init [keeps]: "call_ok s \<Longrightarrow> ok_res call_ok (send_init env s)"
  by (auto simp: send_init_def Let_def split: prod.splits intro!: ok_res_bind [OF keep_init_packets] keeps)

lemma keep_reliable_pass: "reliable_pass env rs s = (ks, ps, t) \<Longrightarrow> call_ok s \<Longrightarrow> call_ok t"
  by (induction env rs s arbitrary: ks ps t rule: reliable_pass.induct)
    (auto simp: Let_def split: if_splits prod.splits intro!: keeps)

lemma keep_send_all [keeps]: "call_ok s \<Longrightarrow> ok_res call_ok (send_all env ps s)"
  by (induction ps arbitrary: s) (auto intro!: ok_res_bind [OF keep_send_or_enqueue])

lemma keep_update_reliable [keeps]: "call_ok s \<Longrightarrow> ok_res call_ok (update_reliable env s)"
  by (auto simp: update_reliable_def dest: keep_reliable_pass split: prod.splits intro!: keeps)

lemma keep_handle_reliable [keeps]: "call_ok s \<Longrightarrow> call_ok (handle_reliable env pm s)"
proof -
  assume s: "call_ok s"
  have "call_ok (fold (acknowledged_extra env) xs t)" if "call_ok t" for xs and t :: "'b flow_scheme"
    using that by (auto intro!: keeps)
  note f = this
  show ?thesis unfolding handle_reliable_def Let_def
    by (intro call_ok_extras one_of_each_filter call_ok_one f) (simp_all add: s)
qed

lemma keep_try_send: "call_ok s \<Longrightarrow> ok_res (\<lambda>r. call_ok (snd r)) (try_send env ps s)"
proof (induction ps arbitrary: s)
  case (Cons p ps)
  have queue: "ok_res (\<lambda>r. call_ok (snd r)) (bind_res (try_send env ps s) (\<lambda>(qs, s1). Inr (p # qs, s1)))"
    using Cons.prems by (auto intro!: ok_res_bind [OF Cons.IH])
  have send: "ok_res (\<lambda>r. call_ok (snd r)) (bind_res (send_or_enqueue env p False s) (try_send env ps))"
    using Cons.prems by (auto intro!: ok_res_bind [OF keep_send_or_enqueue] Cons.IH)
  have drop: "ok_res (\<lambda>r. call_ok (snd r)) (try_send env ps s)"
    using Cons.prems by (rule Cons.IH)
  show ?case
    unfolding try_send.simps by (rule ok_res_any) (auto simp: Let_def queue send drop split: option.splits)
qed simp

lemma keep_try_send_outgoing [keeps]: "call_ok s \<Longrightarrow> ok_res call_ok (try_send_outgoing env s)"
  unfolding try_send_outgoing_def by (rule ok_res_bind [OF keep_try_send]) auto

lemma keep_ping_relay [keeps]: "call_ok s \<Longrightarrow> ok_res call_ok (ping_relay env k e s)"
  by (auto simp: ping_relay_def intro!: ok_res_bind [OF keep_send_nop] keeps)

lemma keep_choose [keeps]: "call_ok s \<Longrightarrow> call_ok (choose_endpoint mp best cur s)"
  by (auto simp: choose_endpoint_def Let_def split: option.splits)

lemma keep_ping_relays: "call_ok s \<Longrightarrow> ok_res (\<lambda>r. call_ok (snd r)) (ping_relays env m best s)"
proof (induction m arbitrary: best s)
  case (Cons x m)
  then show ?case by (cases x) (auto simp: Let_def intro!: ok_res_bind [OF keep_ping_relay] Cons.IH)
qed simp

lemma keep_send_relay_pings [keeps]: "call_ok s \<Longrightarrow> ok_res call_ok (send_relay_pings env s)"
  unfolding send_relay_pings_def Let_def
  by (intro ok_res_if ok_res_any ok_res_Inr) (auto simp: split_def dest: ok_resD [OF keep_ping_relays] intro!: keeps)

subsection \<open>Receiving\<close>

lemma keep_settings [keeps]:
  assumes "call_ok s"
  shows "call_ok (update_data_saving s)" "call_ok (update_bitrate_limit env s)" "call_ok (update_audio_output env s)"
    "ok_res call_ok (start_audio env s)" "call_ok (setup_video env s)"
proof -
  show "call_ok (update_data_saving s)" "call_ok (update_bitrate_limit env s)" "call_ok (update_audio_output env s)"
      "ok_res call_ok (start_audio env s)"
    using assms by (auto simp: update_data_saving_def update_bitrate_limit_def update_audio_output_def
        start_audio_def Let_def split: option.splits intro!: keeps)
  have "stream_types (ts @ [TYPE_VIDEO])" if "stream_types ts" for ts
    using that by (auto simp: stream_types_def replicate_append_same simp flip: replicate_Suc)
  then show "call_ok (setup_video env s)"
    using assms by (auto simp: setup_video_def call_ok_def split: option.splits)
qed

lemma keep_signaling [keeps]:
  "call_ok s \<Longrightarrow> call_ok (set_peer_version v s)" "call_ok s \<Longrightarrow> call_ok (fail_incompatible env s)"
  "call_ok s \<Longrightarrow> call_ok (adopt_source e s)" "call_ok t \<Longrightarrow> call_ok (note_capabilities env f t)"
  by (auto simp: set_peer_version_def fail_incompatible_def adopt_source_def note_capabilities_def Let_def intro!: keeps)

lemma keep_note_decoders [keeps]: "call_ok s \<Longrightarrow> call_ok (note_decoders env r ds s)"
  by (induction ds arbitrary: s) (simp_all add: keep_settings)

lemma keep_begin_audio [keeps]: "call_ok s \<Longrightarrow> ok_res call_ok (begin_audio env b s)"
  by (auto simp: begin_audio_def intro!: ok_res_bind [OF keep_settings(4)])

lemma keep_on_init [keeps]: "call_ok s \<Longrightarrow> ok_res call_ok (on_init env k d s)"
  unfolding on_init_def Let_def
  by (intro ok_res_if ok_res_Inr ok_res_bind [OF keep_send_nop] ok_res_bind [where P = call_ok] ok_res_any
      keep_begin_audio) (auto intro!: keeps)

lemma keep_cancel_timer [keeps]: "call_ok s \<Longrightarrow> call_ok ((mt_cancel n s)\<lparr>init_timer := i\<rparr>)"
  by (simp add: keeps)

lemma keep_on_init_ack [keeps]: "call_ok s \<Longrightarrow> ok_res call_ok (on_init_ack env d s)"
  unfolding on_init_ack_def Let_def
  by (intro ok_res_if ok_res_Inr ok_res_bind [OF keep_begin_audio]) (auto intro!: keeps)

lemma keep_stream_signals [keeps]:
  assumes "call_ok s"
  shows "call_ok (on_stream_flags env d s)" "call_ok (on_stream_csd c s)"
  using assms by (auto simp: on_stream_flags_def on_stream_csd_def video_calls_def Let_def split: option.splits intro!: keeps)

lemma keep_endpoint_signals [keeps]:
  "call_ok s \<Longrightarrow> call_ok (on_lan_endpoint env l s)" "call_ok s \<Longrightarrow> call_ok (on_group_key env key s)"
  "call_ok s \<Longrightarrow> call_ok (on_upgrade env s)"
  by (auto simp: on_lan_endpoint_def on_group_key_def on_upgrade_def intro!: keeps)

lemma keep_on_ipv6 [keeps]: "call_ok s \<Longrightarrow> call_ok (on_ipv6_endpoint env e s)"
  by (auto simp: on_ipv6_endpoint_def Let_def intro!: keeps)

lemma keep_on_network_changed [keeps]: "call_ok s \<Longrightarrow> ok_res call_ok (on_network_changed env n s)"
  unfolding on_network_changed_def Let_def
  by (intro ok_res_any ok_res_Inr) (auto intro!: keeps)

lemma keep_on_ping [keeps]: "call_ok s \<Longrightarrow> ok_res call_ok (on_ping env k s)"
  unfolding on_ping_def by (intro ok_res_any) (auto intro!: keeps)

text \<open>The answer to a ping never has the number of the last ping.\<close>

lemma on_pong_nothing: "call_ok s \<Longrightarrow> on_pong env k sq s = bind_res (at_endpoint k s) (\<lambda>e. Inr s)"
proof -
  assume "call_ok s"
  then have "ok_res unmeasured (at_endpoint k s)" by (rule call_ok_at)
  then show ?thesis by (cases "at_endpoint k s") (simp_all add: on_pong_def unmeasured_def)
qed

lemma keep_on_pong [keeps]: "call_ok s \<Longrightarrow> ok_res call_ok (on_pong env k sq s)"
  by (auto simp: on_pong_nothing intro!: ok_res_any)

lemma keep_process_extra [keeps]: "call_ok s \<Longrightarrow> ok_res call_ok (process_extra env k w s)"
  unfolding process_extra_def Let_def
  by (auto split: option.splits extra_body.splits intro!: keeps)

lemma keep_process_extras [keeps]: "call_ok s \<Longrightarrow> ok_res call_ok (process_extras env k ws s)"
  by (induction ws arbitrary: s) (auto intro!: ok_res_bind [OF keep_process_extra])

lemma keep_acks [keeps]:
  assumes "call_ok s"
  shows "call_ok (resume_sending env i s)" "call_ok (handle_ack env i p s)"
proof -
  show r: "call_ok (resume_sending env i s)"
    using assms by (auto simp: resume_sending_def intro!: keeps)
  then show "call_ok (handle_ack env i p s)"
    using assms by (auto simp: handle_ack_def Let_def split: prod.splits intro!: keeps)
qed

lemma keep_switch_to_relay [keeps]: "call_ok s \<Longrightarrow> ok_res call_ok (switch_to_relay env k i s)"
  unfolding switch_to_relay_def Let_def
  by (intro ok_res_any ok_res_if ok_res_Inr)
    (auto intro!: keeps dest!: ok_resD [OF call_ok_at, rotated])

lemma keep_count_unacked [keeps]: "call_ok s \<Longrightarrow> ok_res call_ok (count_unacked env s)"
  by (auto simp: count_unacked_def Let_def intro!: keeps)

lemma keep_first_data [keeps]: "call_ok s \<Longrightarrow> call_ok (first_data env s)"
  by (auto simp: first_data_def Let_def intro!: keeps)

lemma keep_audio_data: "call_ok s \<Longrightarrow>
  ok_res call_ok (case put_audio env p j of None \<Rightarrow> Inl Undefined | Some j1 \<Rightarrow> Inr (s\<lparr>in_streams := f j1\<rparr>))"
  by (simp split: option.split)

lemma keep_process_data [keeps]: "call_ok s \<Longrightarrow> ok_res call_ok (process_data env k p s)"
  unfolding process_data_def Let_def
  by (intro ok_res_any ok_res_if ok_res_Inr)
    (simp_all add: keep_first_data keep_audio_data call_out_def split: option.split)

lemma keep_new_packet: "call_ok s \<Longrightarrow> ok_res call_ok
    (bind_res (process_extras env k ws s) (\<lambda>s1. bind_res (switch_to_relay env k i (handle_ack env i p s1)) (\<lambda>s2.
       bind_res (count_unacked env s2) (\<lambda>s3. if b then process_data env k p s3 else Inr s3))))"
  by (intro ok_res_bind [OF keep_process_extras] ok_res_bind [OF keep_switch_to_relay]
      ok_res_bind [OF keep_count_unacked] ok_res_if ok_res_Inr keep_process_data keep_acks)

lemma keep_process_packet [keeps]: "call_ok s \<Longrightarrow> ok_res call_ok (process_packet env k p s)"
  unfolding process_packet_def Let_def
  by (intro ok_res_if) (simp_all add: keep_new_packet keep_on_stream split: option.split prod.split bool.split)

lemma keep_fold_packets: "ok_res call_ok r \<Longrightarrow> ok_res call_ok (fold (\<lambda>q acc. bind_res acc (process_packet env k q)) qs r)"
proof (induction qs arbitrary: r)
  case (Cons q qs)
  then show ?case by (simp add: ok_res_bind [OF Cons.prems keep_process_packet])
qed simp

lemma keep_relay_answers [keeps]:
  assumes "call_ok s"
  shows "ok_res call_ok (self_info env k e i s)" "ok_res call_ok (peer_info env i s)"
proof -
  show "ok_res call_ok (self_info env k e i s)"
    using assms unfolding self_info_def Let_def split_def
    by (intro ok_res_if ok_res_any ok_res_Inr) (auto split: option.splits intro!: keeps)
  have erase: "call_ok (t\<lparr>endpoints := om_erase j m\<rparr>)" if "call_ok t" "m = endpoints t" for j m and t :: "'b controller_scheme"
    using that by (simp add: call_ok_def om_ok_erase all_values_erase)
  have p2p: "unmeasured (p2p_endpoint env a b)" for a b by (simp add: p2p_endpoint_def)
  show "ok_res call_ok (peer_info env i s)"
    using assms unfolding peer_info_def Let_def split_def
    by (intro ok_res_if ok_res_any ok_res_Inr) (auto intro!: keeps erase p2p)
qed

lemma keep_parse_relay: "call_ok s \<Longrightarrow> ok_res (\<lambda>r. call_ok (snd (snd r))) (parse_relay_packet env k e i s)"
  unfolding parse_relay_packet_def split_def
  by (intro ok_res_if ok_res_any ok_res_Inr)
    (auto intro!: keeps ok_res_any dest: ok_resD [OF keep_relay_answers(1)] ok_resD [OF keep_relay_answers(2)] split: if_splits)

lemma keep_learn_address [keeps]: "call_ok s \<Longrightarrow> call_ok (learn_address k e np s)"
  by (auto simp: learn_address_def intro!: keeps)

lemma keep_process_decrypted [keeps]: "call_ok s \<Longrightarrow> ok_res call_ok (process_decrypted env k e np i s)"
  unfolding process_decrypted_def Let_def
  by (intro ok_res_any) (auto split: option.splits intro!: keep_fold_packets keeps)

lemma keep_process_payload [keeps]: "call_ok s \<Longrightarrow> ok_res call_ok (process_payload env k e np i s)"
  unfolding process_payload_def Let_def split_def
  by (intro ok_res_any ok_res_if ok_res_Inr) (auto intro!: keeps)

lemma keep_process_datagram [keeps]: "call_ok s \<Longrightarrow> ok_res call_ok (process_datagram env k np s)"
proof -
  assume s: "call_ok s"
  have "ok_res call_ok (bind_res (parse_relay_packet env k e i s)
      (\<lambda>(done, j, s1). if done then Inr s1 else process_payload env k e np j s1))" for e i
    using s by (intro ok_res_bind [OF keep_parse_relay]) (auto simp: split_def intro!: keeps)
  then show ?thesis using s unfolding process_datagram_def
    by (intro ok_res_any) (simp add: keep_process_payload split: option.split)
qed

lemma keep_received [keeps]: "call_ok s \<Longrightarrow> ok_res call_ok (network_packet_received env np s)"
  unfolding network_packet_received_def Let_def
  by (intro ok_res_any ok_res_if ok_res_Inr) (auto intro!: keeps)

subsection \<open>Timers\<close>

lemma keep_send_frame [keeps]: "call_ok s \<Longrightarrow> ok_res call_ok (send_frame env d sec s)"
  unfolding send_frame_def Let_def
  by (simp add: keep_on_stream keep_send_packet split: prod.split)

lemma lose_streams_types: "map os_type (fst (lose_streams env l xs x)) = map os_type xs"
  by (induction env l xs x rule: lose_streams.induct) (auto split: prod.splits)

lemma keep_tick [keeps]: "call_ok s \<Longrightarrow> ok_res call_ok (tick env s)"
proof -
  assume s: "call_ok s"
  have "call_ok (t\<lparr>out_streams := os\<rparr>)"
    if "lose_streams env l (out_streams s) x = (os, y)" "call_ok t" "out_streams t = out_streams s"
    for l x os y and t :: "'a controller_scheme"
    using that lose_streams_types [of env l "out_streams s" x] by (auto intro: call_ok_streams)
  then show ?thesis using s
    by (auto simp: tick_def Let_def split: option.split prod.split)
qed

lemma keep_update_rtt [keeps]: "call_ok s \<Longrightarrow> ok_res call_ok (update_rtt s)"
  unfolding update_rtt_def Let_def
  by (intro ok_res_any) (auto split: prod.split)

lemma keep_switch_extra_ec [keeps]: "call_ok s \<Longrightarrow> call_ok (switch_extra_ec b s)"
  by (auto simp: switch_extra_ec_def Let_def map_update_first split: option.split intro!: keeps)

lemma keep_adapt_ec [keeps]: "call_ok s \<Longrightarrow> call_ok (adapt_extra_ec x s)"
  by (auto simp: adapt_extra_ec_def intro!: keeps)

lemma keep_update_congestion [keeps]: "call_ok s \<Longrightarrow> ok_res call_ok (update_congestion s)"
  unfolding update_congestion_def Let_def
  by (intro ok_res_if ok_res_Inr) (simp_all add: keeps split: option.split)

lemma keep_bitrate [keeps]:
  assumes "call_ok s"
  shows "ok_res call_ok (adapt_bitrate env s)" "call_ok (detect_reconnecting env s)" "call_ok (leave_p2p env s)"
proof -
  have "unmeasured (forget_p2p e)" if "unmeasured e" for e
    using that by (simp add: forget_p2p_def)
  then show "ok_res call_ok (adapt_bitrate env s)" "call_ok (detect_reconnecting env s)" "call_ok (leave_p2p env s)"
    using assms by (auto simp: adapt_bitrate_def detect_reconnecting_def leave_p2p_def send_data_saving_def Let_def
        split: option.split intro!: keeps)
qed

lemma keep_receive_timeout [keeps]: "call_ok s \<Longrightarrow> ok_res call_ok (receive_timeout env s)"
  unfolding receive_timeout_def by (intro ok_res_if ok_res_any ok_res_Inr) (auto intro!: keeps)

lemma keep_update_audio_bitrate [keeps]: "call_ok s \<Longrightarrow> ok_res call_ok (update_audio_bitrate env s)"
  unfolding update_audio_bitrate_def Let_def
  by (intro ok_res_if ok_res_Inr ok_res_bind [OF keep_bitrate(1)]) (auto intro!: keeps)

lemma keep_signal_bars [keeps]: "call_ok s \<Longrightarrow> ok_res call_ok (update_signal_bars env s)"
  unfolding update_signal_bars_def Let_def
  by (intro ok_res_if ok_res_any) (auto split: option.split intro!: keeps)

subsection \<open>The network and the start\<close>

lemma keep_init_proxy [keeps]: "call_ok s \<Longrightarrow> call_ok (init_udp_proxy env s)"
  by (auto simp: init_udp_proxy_def Let_def split: option.split intro!: keeps)

lemma handover_endpoints_keeps:
  "call_ok s \<Longrightarrow> call_ok (snd (handover_endpoints b m s)) \<and> fst (handover_endpoints b m s) = om_map forget_rtt m"
proof (induction m arbitrary: s)
  case (Cons x m)
  obtain k e where x: "x = (k, e)" by fastforce
  define s1 where "s1 = (if ep_type e = UDP_RELAY \<and> use_tcp s
      then (if b then s\<lparr>use_tcp := False, preferred_relay := ep_id e, current_endpoint := ep_id e\<rparr> else s\<lparr>use_tcp := False\<rparr>)
      else if ep_type e = TCP_RELAY \<and> ep_connected e then call_out (Close_Tcp k) s else s)"
  have "call_ok s1" using Cons.prems by (auto simp: s1_def intro!: keeps)
  moreover have "handover_endpoints b (x # m) s = (case handover_endpoints b m s1 of (m1, s2) \<Rightarrow> ((k, forget_rtt e) # m1, s2))"
    unfolding x handover_endpoints.simps Let_def s1_def [symmetric] ..
  ultimately show ?case using Cons.IH [of s1] by (simp add: split_def om_map_def x)
qed (simp add: om_map_def)

lemma keep_leave_network [keeps]: "call_ok s \<Longrightarrow> ok_res call_ok (leave_network s)"
proof -
  assume s: "call_ok s"
  have "call_ok (t\<lparr>endpoints := m1\<rparr>)"
    if "handover_endpoints b (om_erase ID_LANv4 (endpoints s)) u = (m1, t)" "call_ok u" for b u m1 t
  proof -
    have "om_ok (om_erase ID_LANv4 (endpoints s))" "all_values unmeasured (om_erase ID_LANv4 (endpoints s))"
      using s by (simp_all add: call_ok_def om_ok_erase all_values_erase)
    then have "om_ok m1" "all_values unmeasured m1" "call_ok t"
      using handover_endpoints_keeps [OF that(2)] that(1) by (metis fst_conv om_ok_map, metis fst_conv all_values_map unmeasured_forget, metis snd_conv)
    then show ?thesis by (simp add: call_ok_def)
  qed
  then show ?thesis using s unfolding leave_network_def Let_def
    by (intro ok_res_if ok_res_any) (auto split: prod.split)
qed

lemma keep_handover [keeps]: "call_ok s \<Longrightarrow> ok_res call_ok (network_handover env s)"
  unfolding network_handover_def Let_def send_data_saving_def
  by (intro ok_res_bind [OF keep_leave_network]) (auto intro!: keeps)

lemma keep_network_type [keeps]: "call_ok s \<Longrightarrow> call_ok (set_network_type env t itf v6 s)"
  by (auto simp: set_network_type_def Let_def intro!: keeps)

lemma keep_start [keeps]:
  assumes "call_ok s"
  shows "call_ok (initialize_audio env s)" "call_ok (initialize_timers env s)" "call_ok (set_config env c s)"
  using assms by (auto simp: initialize_audio_def initialize_timers_def set_config_def Let_def split_def intro!: keeps)

lemma keep_connect [keeps]: "call_ok s \<Longrightarrow> ok_res call_ok (connect env s)"
  unfolding connect_def Let_def by (intro ok_res_if) (auto intro!: keeps)

subsection \<open>All tasks and all steps\<close>

lemma keep_exec_task [keeps]: "call_ok s \<Longrightarrow> ok_res call_ok (exec_task env t s)"
  by (cases t) (auto simp: exec_task_def intro!: keeps)

lemma keep_run_task [keeps]: "call_ok s \<Longrightarrow> call_ok (run_task env t s)"
  using keep_exec_task [of s env t] by (auto simp: run_task_def split: sum.split)

lemma keep_deliver: "call_ok s \<Longrightarrow> call_ok (deliver (run_task env) clk m s)"
  by (auto simp: deliver_def Let_def intro!: keeps call_ok_insert split: option.split)

lemma keep_message_pass [keeps]: "call_ok s \<Longrightarrow> call_ok (message_pass env s)"
proof -
  assume s: "call_ok s"
  then have "call_ok (s\<lparr>mt_queue := filter (\<lambda>m. \<not> due (now env) m) (mt_queue s)\<rparr>)"
    by (auto simp: call_ok_def by_time_filter)
  then show ?thesis by (auto simp: message_pass_def run_pass_def intro!: call_ok_fold keep_deliver)
qed

lemma keep_close_failed [keeps]: "call_ok s \<Longrightarrow> call_ok (close_failed k s)"
  by (auto simp: close_failed_def split: option.split intro!: keeps)

lemma keep_post_received [keeps]: "call_ok s \<Longrightarrow> call_ok (post_received env np s)"
  by (simp add: post_received_def keeps)

lemma keep_receive_thread [keeps]:
  assumes "call_ok s"
  shows "call_ok (start_receiving env b s)" "call_ok (begin_select env f s)" "call_ok (end_select env r s)"
  using assms
  by (auto simp: start_receiving_def begin_select_def end_select_def Let_def split_def split: recv_state.split intro!: keeps)

lemma keep_send_thread: "call_ok s \<Longrightarrow> send_pass s = Some t \<Longrightarrow> call_ok t"
  by (auto simp: send_pass_def Let_def split: option.splits prod.splits if_splits)

lemma keep_stop [keeps]: "call_ok s \<Longrightarrow> call_ok (stop_call s)"
  by (auto simp: stop_call_def Let_def split: option.split intro!: keeps)

lemma keep_call_step: "call_step s t \<Longrightarrow> call_ok s \<Longrightarrow> call_ok t"
  by (auto elim!: call_stepE dest: keep_send_thread intro!: keeps)

lemma keep_remote_endpoints:
  assumes "call_ok s" "\<forall>e \<in> set es. unmeasured e"
  shows "ok_res call_ok (set_remote_endpoints es p2p layer s)"
proof -
  have clear: "call_ok (t\<lparr>endpoints := []\<rparr>)" if "call_ok t" for t :: "'a routing_scheme"
    using that by (simp add: call_ok_def om_ok_def all_values_def)
  show ?thesis unfolding set_remote_endpoints_def Let_def
    using assms by (auto intro!: keeps clear)
qed

lemma call_ok_initial: "call_ok (controller_init env e0 k0 mask0 ping0 max0 cfg_int)"
  by (simp add: call_ok_def controller_init_def flow_init_def routing_init_def flow.defs routing.defs one_of_each_def
      stream_types_def outgoing_init_def om_ok_def all_values_def)

lemma running_ok: "call_running s \<Longrightarrow> call_ok s"
proof (induction rule: call_running.induct)
  case (start es p2p layer env c e0 k0 mask0 ping0 max0 cfg_int s1 s2)
  have "call_ok (set_config env c (controller_init env e0 k0 mask0 ping0 max0 cfg_int))"
    by (intro keeps call_ok_initial)
  then have "call_ok s1" using keep_remote_endpoints start(1,2) by (metis ok_resD)
  then have "call_ok (s1\<lparr>run_receiver := True\<rparr>)" by simp
  then show ?case using keep_connect start(3) by (metis ok_resD)
qed (rule keep_call_step)

end
