(* ===== verification/Delivery.thy ===== *)
theory Delivery
  imports Control
begin

section \<open>From the sender to the receiver\<close>

text \<open>
  What one side puts on the wire, the other side takes in: the composition of serialization,
  encryption and tags with the checks, the decryption and the parser of the receiver.
\<close>

definition tag_for :: "endpoint \<Rightarrow> 'z session_scheme \<Rightarrow> byte list" where
  "tag_for e s = (if is_reflector e then peer_tag e
     else if peer_version (cur_ver s) < 9 then call_id (cur_keys s) else [])"

text \<open>
  The receiver gets the bytes behind the tag that the sender wrote, after its own tag: a relay
  replaces one by the other.
\<close>

definition carried :: "env \<Rightarrow> version \<Rightarrow> 'p packet0_scheme \<Rightarrow> endpoint \<Rightarrow> cc_packet \<Rightarrow> 'y session_scheme \<Rightarrow> byte list" where
  "carried env ver p e info a = drop (length (tag_for e a)) (pp_packet (prepare_packet env e (packet_ser ver p) info a))"

definition taken_in :: "env \<Rightarrow> int \<Rightarrow> endpoint \<Rightarrow> net_packet \<Rightarrow> 'z controller_scheme \<Rightarrow> 'z controller_scheme" where
  "taken_in env k e np s =
    (let s1 = s\<lparr>use_mtproto2 := True, last_recv_time := now env\<rparr>;
         s2 = learn_address k e np (if call_state s1 = Reconnecting then set_state env Established s1 else s1)
     in s2\<lparr>packets_received := packets_received s2 + 1\<rparr>)"

lemma cur_ver_session [simp]:
  "cur_ver (post_only env f d i s) = cur_ver s" "cur_ver (call_out c s) = cur_ver s"
  "cur_ver (enter_state env st s) = cur_ver s" "cur_ver (set_mic_mute env m s) = cur_ver s"
  "cur_ver (set_state env st s) = cur_ver s"
proof -
  show 1: "cur_ver (post_only env f d i s) = cur_ver s" for f d i and s :: "'a session_scheme"
    by (simp add: post_only_def post_def mt_post_def mt_insert_def Let_def)
  show 2: "cur_ver (call_out c s) = cur_ver s" for c and s :: "'a session_scheme"
    by (simp add: call_out_def)
  show 3: "cur_ver (enter_state env st s) = cur_ver s" for st and s :: "'a session_scheme"
    by (simp add: enter_state_def 1)
  show 4: "cur_ver (set_mic_mute env m s) = cur_ver s" for m and s :: "'a session_scheme"
    by (simp add: set_mic_mute_def Let_def 1 2 3)
  show "cur_ver (set_state env st s) = cur_ver s"
    by (simp add: set_state_def Let_def 1 3 4)
qed

lemma cur_ver_learn [simp]: "cur_ver (learn_address k e np s) = cur_ver s"
  by (simp add: learn_address_def modify_endpoint_def)

subsection \<open>Packets that are not answers of a relay\<close>

lemma un32_bytes:
  "map (\<lambda>k. ucast (drop_bit (8 * k) (un32 a b c d)) :: byte) [0..<4] = [a, b, c, d]"
  unfolding un32_def
  by (simp add: upt_rec) (intro conjI; rule bit_word_eqI; auto simp: bit_simps dest: bit_imp_le_length)

lemma un64_bytes:
  "map (\<lambda>k. ucast (drop_bit (8 * k) (un64 a b c d e f g h)) :: byte) [0..<8] = [a, b, c, d, e, f, g, h]"
  unfolding un64_def
  by (simp add: upt_rec) (intro conjI; rule bit_word_eqI; auto simp: bit_simps dest: bit_imp_le_length)

lemma un32_ones: "un32 a b c d = 0xFFFFFFFF \<Longrightarrow> a = 255 \<and> b = 255 \<and> c = 255 \<and> d = 255"
  using un32_bytes [of a b c d] by (simp add: upt_rec)

lemma un64_ones: "un64 a b c d e f g h = 0xFFFFFFFFFFFFFFFF \<Longrightarrow>
    a = 255 \<and> b = 255 \<and> c = 255 \<and> d = 255 \<and> e = 255 \<and> f = 255 \<and> g = 255 \<and> h = 255"
  using un64_bytes [of a b c d e f g h] by (simp add: upt_rec)

lemma twelve: "replicate 12 x = [x, x, x, x, x, x, x, x, x, x, x, x]"
  by (simp add: eval_nat_numeral)

lemma take_twelve: "12 \<le> length r \<Longrightarrow>
    take 12 r = [r ! 0, r ! 1, r ! 2, r ! 3, r ! 4, r ! 5, r ! 6, r ! 7, r ! 8, r ! 9, r ! 10, r ! 11]"
  by (simp add: eval_nat_numeral take_Suc_conv_app_nth, cases r, simp_all)

lemma ordinary_not_special:
  assumes "take 12 (rest i) \<noteq> replicate 12 255" "12 \<le> length (rest i)"
  shows "parse_relay_packet env k e i s = Inr (False, i, s)"
proof -
  let ?r = "rest i"
  have r: "read_int64 i = Inr (un64 (?r ! 0) (?r ! 1) (?r ! 2) (?r ! 3) (?r ! 4) (?r ! 5) (?r ! 6) (?r ! 7), adv 8 i)"
    "read_int32 (adv 8 i) = Inr (un32 (?r ! 8) (?r ! 9) (?r ! 10) (?r ! 11), adv 12 i)"
    using assms(2) by (simp_all add: read_int64_conv read_int32_conv try_u64_conv try_u32_conv rest_adv adv_adv)
  have "\<not> (un64 (?r ! 0) (?r ! 1) (?r ! 2) (?r ! 3) (?r ! 4) (?r ! 5) (?r ! 6) (?r ! 7) = 0xFFFFFFFFFFFFFFFF
      \<and> un32 (?r ! 8) (?r ! 9) (?r ! 10) (?r ! 11) = 0xFFFFFFFF)"
    using assms(1) unfolding twelve take_twelve [OF assms(2)] by (auto dest!: un64_ones un32_ones)
  moreover have "iok i" using assms(2) by (intro rest_nonempty_iok) auto
  then have "seek (ioff i) (adv n i) = Inr i" for n
    by (simp add: seek_def adv_def iok_def)
  ultimately show ?thesis
    by (auto simp: parse_relay_packet_def r)
qed

subsection \<open>A packet arrives\<close>

lemma encrypt2_length:
  assumes "crypto_ok c" "length (fingerprint k) = 8"
  shows "40 \<le> length (encrypt2 c k ver data)"
proof -
  define hd2 where "hd2 = (if \<not> is_legacy_legacy ver then le16 (of_nat (length data)) else le32 (of_nat (length data))) @ data"
  define inner where "inner = hd2 @ cf_rand c (pad_len2 (length hd2))"
  define m where "m = piece 8 16 (cf_sha256 c (piece (88 + sender_x k) 32 (enc_key k)
      @ drop (if \<not> is_legacy_legacy ver then 0 else 4) inner))"
  obtain key iv where kv: "kdf2 c k m (sender_x k) = (key, iv)" by fastforce
  have e: "encrypt2 c k ver data = (if \<not> is_legacy_legacy ver then [] else fingerprint k) @ m @ cf_enc c inner key iv"
    using kv by (simp add: encrypt2_def Let_def hd2_def inner_def m_def)
  have len: "length inner = length hd2 + pad_len2 (length hd2)"
    by (simp add: inner_def crypto_okD [OF assms(1)])
  then have aligned: "length inner mod 16 = 0" by (simp only: pad_len2_aligns)
  moreover have "2 + 16 \<le> length inner" unfolding len using pad_len2_aligns(2) [of "length hd2"]
    by (auto simp: hd2_def)
  ultimately have "32 \<le> length inner" by presburger
  then have "32 \<le> length (cf_enc c inner key iv)"
    using crypto_ok_aes(1) [OF assms(1) length_kdf2 [OF assms(1) kv] aligned] by simp
  then show ?thesis using assms by (auto simp: e m_def crypto_okD)
qed

lemma decrypted_parsed:
  assumes "is_new (cur_ver b)" "packet_fits (cur_ver b) p" "\<not> bit (eflags p) 0"
    and "use_mtproto2 b"
  shows "process_decrypted env k e np (istream_of (packet_ser (cur_ver b) p)) b
    = process_packet env k (packet_canon (cf_sha1 (crypto env)) (cur_ver b) p) (taken_in env k e np b)"
proof -
  let ?v = "cur_ver b"
  have parse: "packet_parse (cf_sha1 (crypto env)) ?v (packet_new, istream_of (packet_ser ?v p))
    = (Done, packet_canon (cf_sha1 (crypto env)) ?v p, adv (length (packet_ser ?v p)) (istream_of (packet_ser ?v p)))"
    using readsD [OF packet_reads [OF assms(2,3)], of "istream_of (packet_ser ?v p)" "[]"] assms(1)
    by (simp add: packet_parse_def buf_simps)
  have "other_packets (packet_canon (cf_sha1 (crypto env)) ?v p) = []"
    by (simp add: packet_canon_def packet_new_def packet0.defs)
  moreover have "b\<lparr>use_mtproto2 := True\<rparr> = b" using assms(4) by simp
  ultimately show ?thesis
    unfolding process_decrypted_def taken_in_def Let_def
    by (cases "call_state b = Reconnecting") (simp_all add: parse)
qed

lemma packet_ser_some: "0 < length (packet_ser ver p)"
  by (simp add: packet_ser_def Let_def)

lemma skip_tag_behind:
  assumes "np_data np = tag_for e s @ xs" "length (peer_tag e) = 16" "length (call_id (cur_keys s)) = 16"
  shows "\<exists>i. skip_tag e np s = Some i \<and> rest i = xs"
  using assms by (auto simp: skip_tag_def tag_for_def Let_def remaining_def istream_of_def rest_def)

lemma process_payload_ok:
  assumes "40 \<le> length (rest i)"
    and "decrypt_packet (crypto env) (cur_keys s) (cur_ver s) (use_mtproto2 s) (is_waiting s) i = Inr (n, j, two)" "n \<noteq> 0"
  shows "process_payload env k e np i s = process_decrypted env k e np j (s\<lparr>use_mtproto2 := two\<rparr>)"
  using assms by (simp add: process_payload_def remaining_rest Let_def)

definition delivers :: "env \<Rightarrow> env \<Rightarrow> byte list \<Rightarrow> bool \<Rightarrow> 'y session_scheme \<Rightarrow> 'z controller_scheme
    \<Rightarrow> 'p packet0_scheme \<Rightarrow> endpoint \<Rightarrow> cc_packet \<Rightarrow> int \<Rightarrow> endpoint \<Rightarrow> net_packet \<Rightarrow> bool" where
  "delivers env env' key out a b p e' info k e np \<longleftrightarrow>
     crypto_ok (crypto env) \<and> crypto env' = crypto env
     \<and> set_encryption_key (crypto env) key out = Inr (cur_keys a)
     \<and> set_encryption_key (crypto env) key (\<not> out) = Inr (cur_keys b)
     \<and> is_new (cur_ver b) \<and> cur_ver a = cur_ver b \<and> use_mtproto2 a \<and> use_mtproto2 b
     \<and> packet_fits (cur_ver b) p \<and> \<not> bit (eflags p) 0 \<and> length (packet_ser (cur_ver b) p) \<le> 1400
     \<and> at_endpoint k b = Inr e \<and> length (peer_tag e) = 16
     \<and> np_data np = tag_for e b @ carried env' (cur_ver b) p e' info a
     \<and> (is_reflector e \<longrightarrow> take 12 (carried env' (cur_ver b) p e' info a) \<noteq> replicate 12 255)"

lemma packet_arrives:
  assumes "delivers env env' key out a b p e' info k e np"
  shows "process_datagram env k np b
    = process_packet env k (packet_canon (cf_sha1 (crypto env)) (cur_ver b) p) (taken_in env k e np b)"
proof -
  from assms have c: "crypto_ok (crypto env)" "crypto env' = crypto env"
    and keys: "set_encryption_key (crypto env) key out = Inr (cur_keys a)"
      "set_encryption_key (crypto env) key (\<not> out) = Inr (cur_keys b)"
    and ver: "is_new (cur_ver b)" "cur_ver a = cur_ver b" "use_mtproto2 a" "use_mtproto2 b"
    and p: "packet_fits (cur_ver b) p" "\<not> bit (eflags p) 0" "length (packet_ser (cur_ver b) p) \<le> 1400"
    and e: "at_endpoint k b = Inr e" "length (peer_tag e) = 16"
    and np: "np_data np = tag_for e b @ carried env' (cur_ver b) p e' info a"
      "is_reflector e \<longrightarrow> take 12 (carried env' (cur_ver b) p e' info a) \<noteq> replicate 12 255"
    unfolding delivers_def by blast+
  let ?v = "cur_ver b" and ?c = "crypto env"
  let ?data = "packet_ser ?v p"
  note sides = set_encryption_key_sides [OF c(1) keys]
  have car: "carried env' ?v p e' info a = encrypt2 ?c (cur_keys a) ?v ?data"
    using packet_ser_some [of ?v p] ver
    by (auto simp: carried_def prepare_packet_def tag_for_def encrypt_packet_def c(2))
  obtain i where i: "skip_tag e np b = Some i" "rest i = encrypt2 ?c (cur_keys a) ?v ?data"
    using skip_tag_behind [OF np(1) e(2)] sides(1,3) unfolding car by auto
  have len: "40 \<le> length (rest i)" unfolding i(2) by (rule encrypt2_length [OF c(1) sides(2)])
  have n: "(of_nat (length ?data) :: u64) \<noteq> 0"
    using packet_ser_some [of ?v p] p(3) by (simp add: word_of_nat_eq_0_iff nat_dvd_not_less)
  have "decrypt_packet ?c (cur_keys b) ?v True (is_waiting b) i = Inr (of_nat (length ?data), istream_of ?data, True)"
    using decrypt2_encrypt2 [OF c(1) sides(2) i(2) p(3)] sides(1) by (simp add: decrypt_packet_def)
  moreover have same: "b\<lparr>use_mtproto2 := True\<rparr> = b" using ver(4) by simp
  ultimately have pay: "process_payload env k e np i b = process_decrypted env k e np (istream_of ?data) b"
    using process_payload_ok [OF len _ n, of env b "istream_of ?data" True k e np] ver(4) by (simp add: same)
  have "process_datagram env k np b = process_payload env k e np i b"
  proof (cases "is_reflector e")
    case True
    then have "parse_relay_packet env k e i b = Inr (False, i, b)"
      using ordinary_not_special [of i env k e b] np(2) len unfolding car i(2) by simp
    then show ?thesis using True len by (simp add: process_datagram_def e(1) i(1) remaining_rest)
  next
    case False
    then show ?thesis by (simp add: process_datagram_def e(1) i(1))
  qed
  also note pay
  also note decrypted_parsed [OF ver(1) p(1,2) ver(4)]
  finally show ?thesis .
qed


lemma out_streams_session [simp]:
  "out_streams (post_only env f d i s) = out_streams s" "out_streams (call_out c s) = out_streams s"
  "out_streams (enter_state env st s) = out_streams s" "out_streams (set_mic_mute env m s) = out_streams s"
  "out_streams (set_state env st s) = out_streams s"
proof -
  show 1: "out_streams (post_only env f d i s) = out_streams s" for f d i and s :: "'a session_scheme"
    by (simp add: post_only_def post_def mt_post_def mt_insert_def Let_def)
  show 2: "out_streams (call_out c s) = out_streams s" for c and s :: "'a session_scheme"
    by (simp add: call_out_def)
  show 3: "out_streams (enter_state env st s) = out_streams s" for st and s :: "'a session_scheme"
    by (simp add: enter_state_def 1)
  show 4: "out_streams (set_mic_mute env m s) = out_streams s" for m and s :: "'a session_scheme"
    by (simp add: set_mic_mute_def Let_def 1 2 3)
  show "out_streams (set_state env st s) = out_streams s"
    by (simp add: set_state_def Let_def 1 3 4)
qed

lemma out_streams_taken [simp]: "out_streams (taken_in env k e np s) = out_streams s"
  by (simp add: taken_in_def learn_address_def modify_endpoint_def Let_def)

lemma stray_packet: "\<not> legacy p \<Longrightarrow> length (out_streams s) \<le> unat (stream_id p) \<Longrightarrow> process_packet env k p s = Inl Undefined"
  by (simp add: process_packet_def)

text \<open>Two sides of a call for the examples.\<close>

definition sample_side :: "bool \<Rightarrow> controller" where
  "sample_side out = (controller_init sample_env Error_Unknown (plain_keys out) 0 0 0 (\<lambda>_ d. d))
    \<lparr>cur_ver := \<lparr>peer_version = 10, max_layer = 110\<rparr>, use_mtproto2 := True, call_state := Established,
     endpoints := [(5, sample_relay)], current_endpoint := 5, preferred_relay := 5\<rparr>"

definition sample_datagram :: "packet \<Rightarrow> net_packet" where
  "sample_datagram p = \<lparr>np_data = replicate 16 1 @ carried sample_env \<lparr>peer_version = 10, max_layer = 110\<rparr> p
     sample_relay \<lparr>ccp_seq = 7, ccp_stream_id = 1\<rparr> (sample_side True), np_addr = IPv4 3, np_port = 443, np_tcp = False\<rparr>"

lemma sample_side_simps [simp]:
  "cur_ver (sample_side out) = \<lparr>peer_version = 10, max_layer = 110\<rparr>" "cur_keys (sample_side out) = plain_keys out"
  "use_mtproto2 (sample_side out)" "at_endpoint 5 (sample_side out) = Inr sample_relay"
  "length (out_streams (sample_side out)) = 2"
  by (simp_all add: sample_side_def controller_init_def flow_init_def routing_init_def flow.defs routing.defs
      at_endpoint_def outgoing_init_def)

lemma sample_relay_simps [simp]: "peer_tag sample_relay = replicate 16 1" "is_reflector sample_relay"
  by (simp_all add: sample_relay_def endpoint_new_def is_reflector_def sample_env_def)

lemma plain_hash [simp]: "cf_sha256 plain_crypto x = replicate 32 (of_nat (length x))"
  "cf_rand plain_crypto n = replicate n 0" "enc_key (plain_keys out) = replicate 256 7"
  by (simp_all add: plain_crypto_def plain_keys_def)

lemma other_prefix: "take 16 xs = replicate 16 c \<Longrightarrow> c \<noteq> d \<Longrightarrow> take 12 xs \<noteq> replicate 12 d"
  by (cases xs) (auto simp: eval_nat_numeral)

lemma sample_delivers:
  assumes "packet_fits \<lparr>peer_version = 10, max_layer = 110\<rparr> p" "\<not> bit (eflags p) 0"
    and "length (packet_ser \<lparr>peer_version = 10, max_layer = 110\<rparr> p) \<le> 1400"
  shows "delivers sample_env sample_env (replicate 256 7) True (sample_side True) (sample_side False) p sample_relay
    \<lparr>ccp_seq = 7, ccp_stream_id = 1\<rparr> 5 sample_relay (sample_datagram p)"
proof -
  let ?v = "\<lparr>peer_version = 10, max_layer = 110\<rparr> :: version"
  let ?d = "packet_ser ?v p"
  have car: "carried sample_env ?v p sample_relay \<lparr>ccp_seq = 7, ccp_stream_id = 1\<rparr> (sample_side True)
      = encrypt2 plain_crypto (plain_keys True) ?v ?d"
    using packet_ser_some [of ?v p]
    by (simp add: carried_def prepare_packet_def tag_for_def encrypt_packet_def) (simp add: sample_env_def)
  define n where "n = 2 + length ?d + pad_len2 (2 + length ?d)"
  have "take 16 (encrypt2 plain_crypto (plain_keys True) ?v ?d) = replicate 16 (of_nat (32 + n))"
    by (simp add: encrypt2_def is_legacy_legacy_def Let_def piece_def n_def sender_x_def plain_keys_def
        drop_replicate split_def)
  moreover have "(of_nat (32 + n) :: byte) \<noteq> 255"
  proof
    assume a: "(of_nat (32 + n) :: byte) = 255"
    have "16 dvd n" using pad_len2_aligns(1) [of "2 + length ?d"] by (simp add: n_def mod_eq_0_iff_dvd)
    then have "2 dvd 32 + n" using dvd_trans [of 2 16 n] by simp
    then have "2 dvd (32 + n) mod 256" by (simp add: dvd_mod)
    moreover have "(32 + n) mod 256 = 255"
      using arg_cong [OF a, of unat] unfolding unat_of_nat by (simp del: of_nat_add)
    ultimately show False by simp
  qed
  ultimately have "take 12 (encrypt2 plain_crypto (plain_keys True) ?v ?d) \<noteq> replicate 12 255"
    by (rule other_prefix)
  then show ?thesis
    using assms plain_crypto_ok plain_keys [of True] plain_keys [of False]
    by (simp add: delivers_def car sample_datagram_def is_new_def tag_for_def) (simp add: sample_env_def)
qed

text \<open>
  C1: what one side sends, the other side processes. Let both sides have the key, the one as
  caller and the other as called, speak the same new version and use MTProto 2, and let the packet
  fit into a datagram. When the bytes that the sender hands to the socket arrive behind the tag
  of the receiver, the receiver processes exactly this packet, in its
  own state with the time of arrival noted and, when it was reconnecting, established again. (Bytes
  from a relay that start with twelve times 255 would count as an answer of the relay.)
\<close>

theorem packet_delivery:
  assumes "delivers env env' key out a b p e' info k e np"
  shows "process_datagram env k np b
    = process_packet env k (packet_canon (cf_sha1 (crypto env)) (cur_ver b) p) (taken_in env k e np b)"
  by (rule packet_arrives) (fact assms)

theorem packet_delivery_witness:
  "process_datagram sample_env 5 (sample_datagram sample_packet) (sample_side False)
   = process_packet sample_env 5 (packet_canon (cf_sha1 plain_crypto) \<lparr>peer_version = 10, max_layer = 110\<rparr> sample_packet)
       (taken_in sample_env 5 sample_relay (sample_datagram sample_packet) (sample_side False))"
proof -
  have "length (packet_ser \<lparr>peer_version = 10, max_layer = 110\<rparr> sample_packet) \<le> 1400"
    by (simp add: packet_ser_def sample_packet_def packet_new_def packet0_new_def packet0.defs Let_def data_len_def
        flags_of_def mask_ser_def array_ser_def array_bool_def wrapped_bool_def wrapped_ser_def bytes_bool_def bytes_ser_def)
  from packet_delivery [OF sample_delivers [OF sample_packet_fits this]] show ?thesis
    by (simp add: sample_env_def)
qed

text \<open>
  Nothing checks the number of the stream in a packet before it is used as an index. Such a
  packet, with a number that belongs to no outgoing stream, passes every check of the receiver, as
  its sender holds the key, and the behaviour of the receiver is undefined then. (A
  call without video has two outgoing streams, so the first such number is 2.)
\<close>

theorem stream_number_unchecked:
  assumes "delivers env env' key out a b p e' info k e np" "length (out_streams b) \<le> unat (stream_id p)"
  shows "process_datagram env k np b = Inl Undefined"
  unfolding packet_arrives [OF assms(1)] using assms(2)
  by (intro stray_packet) (simp_all add: packet_canon_def packet_new_def packet0_new_def packet0.defs)

theorem stream_number_unchecked_witness:
  "process_datagram sample_env 5 (sample_datagram (packet_new\<lparr>pkt_seq := 1, stream_id := 2\<rparr>)) (sample_side False) = Inl Undefined"
proof -
  let ?p = "packet_new\<lparr>pkt_seq := 1, stream_id := 2\<rparr>" and ?v = "\<lparr>peer_version = 10, max_layer = 110\<rparr> :: version"
  have "packet_fits ?v ?p" "\<not> bit (eflags ?p) 0" "length (packet_ser ?v ?p) \<le> 1400"
    by (simp_all add: packet_fits_def packet_ser_def packet_new_def packet0_new_def packet0.defs Let_def data_len_def
        flags_of_def mask_ser_def array_ser_def array_bool_def wrapped_bool_def)
  then show ?thesis
    using stream_number_unchecked [OF sample_delivers, of ?p] by (simp add: packet_new_def packet0.defs)
qed

end
