(* ===== verification/Calls.thy ===== *)
theory Calls
  imports Invariant Delivery
begin

section \<open>Properties of a running call\<close>

text \<open>
  What the tasks, timers and handlers of a call guarantee together, in every state that a call
  can reach, and how single handlers behave: the choice of the relay, the detection of a lost
  connection, the bitrate and the signal bars.
\<close>

text \<open>Posting a task only touches the queue and the counter of the message thread.\<close>

lemma post_form: "\<exists>n q. post_only env f d i s = s\<lparr>last_message_id := n, mt_queue := q\<rparr>"
proof (cases "d < 0")
  case True
  then have "post_only env f d i s = s\<lparr>last_message_id := last_message_id s, mt_queue := mt_queue s\<rparr>"
    unfolding post_only_def post_def mt_post_def by simp
  then show ?thesis by blast
next
  case False
  show ?thesis unfolding post_only_def post_def mt_post_def Let_def mt_insert_def if_not_P [OF False] option.case snd_conv
    by (intro exI) (rule refl)
qed

definition sample_config :: config where
  "sample_config = \<lparr>c_init_timeout = 30, c_recv_timeout = 20, c_data_saving = 0, c_call_upgrade = False,
     c_video_send = False, c_video_recv = False\<rparr>"

text \<open>What starting a call leaves alone.\<close>

definition settled :: "controller \<Rightarrow> endpoint omap \<times> int \<times> int \<times> exn option \<times> call_state" where
  "settled s = (endpoints s, current_endpoint s, preferred_relay s, crashed s, call_state s)"

lemma settled_record [simp]:
  "settled (s\<lparr>mt_queue := q\<rparr>) = settled s" "settled (s\<lparr>last_message_id := n\<rparr>) = settled s"
  "settled (s\<lparr>calls := cs\<rparr>) = settled s" "settled (s\<lparr>init_timer := i\<rparr>) = settled s"
  "settled (s\<lparr>encoder := e\<rparr>) = settled s" "settled (s\<lparr>max_bitrate := b\<rparr>) = settled s"
  "settled (s\<lparr>config := c\<rparr>) = settled s" "settled (s\<lparr>data_saving := d\<rparr>) = settled s"
  "settled (s\<lparr>run_receiver := r\<rparr>) = settled s"
  by (simp_all add: settled_def)

lemma settled_post [simp]: "settled (post_only env f d i s) = settled s" "settled (snd (post env f d i s)) = settled s"
  by (cases "d < 0", simp_all add: post_only_def post_def mt_post_def mt_insert_def Let_def)+

lemma settled_limit [simp]: "settled (update_bitrate_limit env s) = settled s"
  by (simp add: update_bitrate_limit_def Let_def call_out_def split: option.split)

lemma connect_settled:
  "output_ok env = Some True \<Longrightarrow> call_state s \<noteq> Wait_Init_Ack \<Longrightarrow> \<exists>t. connect env s = Inr t \<and> settled t = settled s"
  by (simp add: connect_def initialize_timers_def initialize_audio_def Let_def split_def)

lemma receiver_post [simp]: "run_receiver (post_only env f d i s) = run_receiver s"
    "run_receiver (snd (post env f d i s)) = run_receiver s"
  by (cases "d < 0", simp_all add: post_only_def post_def mt_post_def mt_insert_def Let_def)+

lemma connect_receiver: "output_ok env = Some True \<Longrightarrow> connect env s = Inr t \<Longrightarrow> run_receiver t = run_receiver s"
  by (auto simp: connect_def initialize_timers_def initialize_audio_def update_bitrate_limit_def call_out_def Let_def split_def
      split: if_splits option.split)

lemma set_config_new:
  "set_config env c (controller_init env e0 k0 mask0 ping0 max0 cfg_int)
    = (controller_init env e0 k0 mask0 ping0 max0 cfg_int)\<lparr>config := c, data_saving := (c_data_saving c = 2)\<rparr>"
  by (simp add: set_config_def update_data_saving_def update_bitrate_limit_def controller_init_def flow_init_def
      flow.defs routing.defs is_mobile_def)

lemma sample_running:
  "\<exists>s. call_running s \<and> settled s = ([(5, sample_relay)], 5, 5, None, Wait_Init) \<and> run_receiver s"
proof -
  let ?i = "controller_init sample_env Error_Unknown (plain_keys True) 0 0 0 (\<lambda>_ d. d)"
  obtain s1 where s1: "set_remote_endpoints [sample_relay] True 110 (set_config sample_env sample_config ?i) = Inr s1"
    "settled s1 = ([(5, sample_relay)], 5, 5, None, Wait_Init)"
    unfolding set_config_new
    by (simp add: set_remote_endpoints_def controller_init_def flow_init_def routing_init_def flow.defs routing.defs
        put_endpoint_def add_ipv6_relays_def no_address_def sample_relay_def endpoint_new_def settled_def sample_env_def
        Let_def)
  obtain s2 where s2: "connect sample_env (s1\<lparr>run_receiver := True\<rparr>) = Inr s2" "settled s2 = settled s1"
    using connect_settled [of sample_env "s1\<lparr>run_receiver := True\<rparr>"] s1(2) by (auto simp: sample_env_def settled_def)
  moreover have "run_receiver s2" using connect_receiver [OF _ s2(1)] by (simp add: sample_env_def)
  moreover have "\<forall>e \<in> set [sample_relay]. unmeasured e"
    by (simp add: unmeasured_def sample_relay_def endpoint_new_def)
  ultimately show ?thesis using call_running.start [OF _ s1(1)] s1(2) by metis
qed

text \<open>
  C2: the invariant of a call. Whatever datagrams arrive, however often the timers run and
  whatever the application does, in every state that a call reaches: the queue of the message
  thread is in the order of time; at most one extra of a type waits for an acknowledgment per
  endpoint; the first two outgoing streams are those of signaling and audio, and every further one
  carries video; the endpoints are in the order of their numbers; and no delay to an endpoint is known.
\<close>

theorem call_invariant:
  assumes "call_running s"
  shows "sorted (map deliver_at (mt_queue s))
    \<and> distinct (map (\<lambda>x. (wid (ue_data x), ue_endpoint x)) (current_extras s))
    \<and> (\<exists>n. map os_type (out_streams s) = TYPE_SIGNALING # TYPE_AUDIO # replicate n TYPE_VIDEO)
    \<and> sorted (map fst (endpoints s)) \<and> distinct (map fst (endpoints s))
    \<and> (\<forall>(k, e) \<in> set (endpoints s). ep_rtt e = 0)"
  using running_ok [OF assms]
  by (auto simp: call_ok_def one_of_each_def stream_types_def om_ok_def all_values_def unmeasured_def)

theorem call_invariant_witness:
  "\<exists>s. call_running s \<and> (\<forall>(k, e) \<in> set (endpoints s). ep_rtt e = 0) \<and> endpoints s \<noteq> []"
proof -
  obtain s where "call_running s" "settled s = ([(5, sample_relay)], 5, 5, None, Wait_Init)"
    using sample_running by blast
  with call_invariant [of s] show ?thesis by (auto simp: settled_def)
qed

subsection \<open>The choice of the relay\<close>

definition selected :: "'z routing_scheme \<Rightarrow> int \<times> int" where
  "selected s = (current_endpoint s, preferred_relay s)"

lemma selected_record [simp]:
  "selected (s\<lparr>mt_queue := q\<rparr>) = selected s" "selected (s\<lparr>last_message_id := n\<rparr>) = selected s"
  "selected (s\<lparr>calls := cs\<rparr>) = selected s" "selected (s\<lparr>current_extras := xs\<rparr>) = selected s"
  "selected (s\<lparr>out_streams := os\<rparr>) = selected s" "selected (s\<lparr>endpoints := m\<rparr>) = selected s"
  by (simp_all add: selected_def)

lemma selected_flow [simp]:
  "selected (s\<lparr>cong := c\<rparr>) = selected s" "selected (s\<lparr>raw_queue := rq\<rparr>) = selected s"
  "selected (s\<lparr>unacked_incoming := u\<rparr>) = selected s" "selected (s\<lparr>send_queue := sq\<rparr>) = selected s"
  "selected (s\<lparr>reliable_packets := rp\<rparr>) = selected s"
  by (simp_all add: selected_def)

lemma selected_post [simp]: "selected (post_only env f d i s) = selected s"
  by (cases "d < 0") (simp_all add: post_only_def post_def mt_post_def mt_insert_def Let_def)

lemma selected_basic [simp]:
  "selected (call_out c s) = selected s" "selected (send_extra b ep s) = selected s"
  "selected (on_stream j g s) = selected s" "selected (modify_endpoint k h s) = selected s"
  by (simp_all add: call_out_def send_extra_def on_stream_def modify_endpoint_def)

lemma selected_socket [simp]: "selected (open_socket k e s) = selected s"
  by (simp add: open_socket_def)

lemma selected_reliably [simp]: "selected (send_packet_reliably env p r t n s) = selected s"
  by (simp add: send_packet_reliably_def Let_def)

abbreviation stays :: "int \<times> int \<Rightarrow> exn + 'z flow_scheme \<Rightarrow> bool" where
  "stays x r \<equiv> ok_res (\<lambda>t. selected t = x) r"

lemma stays_hand_over: "selected s = x \<Longrightarrow> stays x (hand_over env k e p s)"
  by (auto simp: hand_over_def Let_def split: option.split intro!: ok_res_any)

lemma stays_send_or_enqueue: "selected s = x \<Longrightarrow> stays x (send_or_enqueue env p b s)"
  by (auto simp: send_or_enqueue_def Let_def intro!: ok_res_any stays_hand_over)

lemma stays_legacy_parts: "selected s = x \<Longrightarrow> stays x (send_legacy_parts env e sq r t n out s)"
proof (induction out arbitrary: s sq)
  case (Cons y out)
  obtain buf rel where y: "y = (buf, rel)" by fastforce
  show ?case unfolding y send_legacy_parts.simps Let_def
    by (rule ok_res_bind [OF _ Cons.IH], intro ok_res_if ok_res_Inr) (simp_all add: Cons.prems stays_send_or_enqueue)
qed simp

lemma stays_send_packet: "selected s = x \<Longrightarrow> stays x (send_packet env p ep r t n s)"
  by (auto simp: send_packet_def send_packet_new_def send_packet_legacy_def Let_def split: prod.split
      intro!: ok_res_any stays_send_or_enqueue stays_legacy_parts)

lemma stays_ping_relay: "selected s = x \<Longrightarrow> stays x (ping_relay env k e s)"
  by (auto simp: ping_relay_def send_nop_def intro!: ok_res_bind [OF stays_send_packet])

text \<open>No delay is known, so no relay is better than the one that is preferred.\<close>

lemma ping_relays_unmeasured:
  "selected s = x \<Longrightarrow> all_values unmeasured m \<Longrightarrow>
    ok_res (\<lambda>(b, t). b = best \<and> selected t = x) (ping_relays env m best s)"
proof (induction m arbitrary: s)
  case (Cons y m)
  obtain k e where y: "y = (k, e)" by fastforce
  have e: "ep_rtt e = 0" "all_values unmeasured m" using Cons.prems(2) by (auto simp: y all_values_def unmeasured_def)
  have "ok_res (\<lambda>(b, t). b = best \<and> selected t = x) (bind_res (ping_relay env k e s) (ping_relays env m best))"
    by (rule ok_res_bind [OF stays_ping_relay [OF Cons.prems(1)]]) (rule Cons.IH [OF _ e(2)])
  then show ?case using e Cons.IH [OF Cons.prems(1)] by (simp add: y Let_def)
qed simp

lemma choose_unmeasured:
  assumes "ep_id best = preferred_relay s" "all_values unmeasured (endpoints s)" "unmeasured cur"
  shows "choose_endpoint dbl_max best cur s = s"
proof -
  have rtt: "ep_rtt e = 0" if "om_get (endpoints s) k = Some e" for k e
    using all_values_get [OF assms(2) that] by (simp add: unmeasured_def)
  have "0 \<le> dbl_max" by (simp add: dbl_max_def)
  then show ?thesis
    using assms(1,3) by (auto simp: choose_endpoint_def unmeasured_def rtt split: option.split)
qed

lemma relay_pings_stay:
  assumes "call_ok s" "at_endpoint (preferred_relay s) s = Inr r" "ep_id r = preferred_relay s"
  shows "ok_res (\<lambda>t. selected t = selected s) (send_relay_pings env s)"
proof -
  have un: "unmeasured r" "all_values unmeasured (endpoints s)"
    using assms call_ok_at [OF assms(1), of "preferred_relay s"] by (simp_all add: call_ok_def)
  have step: "ok_res (\<lambda>t. selected t = selected s)
      (bind_res (ping_relays env (endpoints s) (dbl_max, r) s) (\<lambda>(best, s1). Inr (choose_endpoint (fst best) (snd best) cur s1)))"
    if "unmeasured cur" for cur
  proof (rule ok_res_any)
    fix x assume x: "ping_relays env (endpoints s) (dbl_max, r) s = Inr x"
    obtain t where t: "x = ((dbl_max, r), t)" "selected t = selected s"
      using ok_resD [OF ping_relays_unmeasured [OF refl un(2), where env = env and best = "(dbl_max, r)"] x] by (cases x) auto
    have "all_values unmeasured (endpoints t)"
      using ok_resD [OF keep_ping_relays [OF assms(1)] x] t(1) by (simp add: call_ok_def)
    then have "choose_endpoint dbl_max r cur t = t"
      using choose_unmeasured [of r t cur] that assms(3) t(2) by (simp add: selected_def)
    then show "ok_res (\<lambda>t. selected t = selected s) (case x of (best, s1) \<Rightarrow> Inr (choose_endpoint (fst best) (snd best) cur s1))"
      using t by simp
  qed
  have "ep_rtt r = 0" using un(1) by (simp add: unmeasured_def)
  then show ?thesis unfolding send_relay_pings_def
    using step call_ok_at [OF assms(1), of "current_endpoint s"]
    by (auto simp: assms(2) Let_def intro!: ok_res_any)
qed

text \<open>
  The choice of a relay by its delay never happens. No ping is answered in a way that
  counts, as the number of the last ping is never noted, so all delays stay unknown; the periodic
  comparison of the relays then leaves the endpoint in use and the preferred relay as they are,
  when the record of the preferred relay carries its own number.
\<close>

theorem relay_choice_dead:
  assumes "call_running s" "at_endpoint (preferred_relay s) s = Inr r" "ep_id r = preferred_relay s"
    and "send_relay_pings env s = Inr t"
  shows "current_endpoint t = current_endpoint s \<and> preferred_relay t = preferred_relay s
    \<and> on_pong env k sq s = (if k \<in> dom (om_get (endpoints s)) then Inr s else Inl OutOfRange)"
  using ok_resD [OF relay_pings_stay [OF running_ok [OF assms(1)] assms(2,3)] assms(4)]
    on_pong_nothing [OF running_ok [OF assms(1)], of env k sq]
  by (auto simp: selected_def at_endpoint_def split: option.splits)

theorem relay_choice_dead_witness:
  "\<exists>s. call_running s \<and> preferred_relay s = 5 \<and> on_pong sample_env 5 3 s = Inr s"
proof -
  obtain s where s: "call_running s" "settled s = ([(5, sample_relay)], 5, 5, None, Wait_Init)"
    using sample_running by blast
  then have "send_relay_pings sample_env s = Inr s" "at_endpoint (preferred_relay s) s = Inr sample_relay"
    by (simp_all add: send_relay_pings_def settled_def at_endpoint_def)
  moreover have "ep_id sample_relay = preferred_relay s"
    using s(2) by (simp add: settled_def sample_relay_def endpoint_new_def)
  ultimately show ?thesis using relay_choice_dead [OF s(1), of sample_relay sample_env s 5 3] s
    by (auto simp: settled_def)
qed

subsection \<open>A lost connection\<close>

lemma set_state_other: "st \<noteq> Established \<Longrightarrow> set_state env st s = enter_state env st s"
  by (simp add: set_state_def Let_def)

lemma set_state_established: "call_state (set_state env Established s) = Established"
proof -
  have p: "call_state (post_only e f d i t) = call_state t" for e f d i and t :: "'a session_scheme"
    by (cases "d < 0") (simp_all add: post_only_def post_def mt_post_def mt_insert_def Let_def)
  show ?thesis by (simp add: set_state_def set_mic_mute_def enter_state_def Let_def p)
qed

text \<open>The part of the state that the detection of a lost connection looks at.\<close>

definition watched :: "'z controller_scheme \<Rightarrow> real \<times> config \<times> ep_type option \<times> int \<times> int" where
  "watched s = (last_recv_time s, config s, type_at (current_endpoint s) s, current_endpoint s, preferred_relay s)"

lemma watched_record [simp]:
  "watched (s\<lparr>mt_queue := q\<rparr>) = watched s" "watched (s\<lparr>last_message_id := n\<rparr>) = watched s"
  "watched (s\<lparr>cong := c\<rparr>) = watched s" "watched (s\<lparr>encoder := e\<rparr>) = watched s"
  "watched (s\<lparr>was_reconnecting := r\<rparr>) = watched s" "watched (s\<lparr>udp_conn := u\<rparr>) = watched s"
  "watched (s\<lparr>udp_ping_count := pc\<rparr>) = watched s" "watched (s\<lparr>udp_ping_timer := ti\<rparr>) = watched s"
  "watched (s\<lparr>call_state := st\<rparr>) = watched s" "watched (s\<lparr>state_change_time := sc\<rparr>) = watched s"
  "watched (s\<lparr>need_rate := nr\<rparr>) = watched s"
  by (simp_all add: watched_def type_at_def)

lemma watched_post [simp]: "watched (snd (post env f d i s)) = watched s"
  by (cases "d < 0") (simp_all add: post_def mt_post_def mt_insert_def Let_def)

lemma state_post [simp]: "call_state (snd (post env f d i s)) = call_state s"
  by (cases "d < 0") (simp_all add: post_def mt_post_def mt_insert_def Let_def)

lemma watched_enter [simp]: "watched (enter_state env st s) = watched s" "call_state (enter_state env st s) = st"
  by (simp_all add: enter_state_def post_only_def)

lemma adapt_watched: "adapt_bitrate env s = Inr t \<Longrightarrow> watched t = watched s \<and> call_state t = call_state s
    \<and> reconnecting_timeout t = reconnecting_timeout s"
  by (auto simp: adapt_bitrate_def split: option.splits)

definition after_silence :: "env \<Rightarrow> 'z controller_scheme \<Rightarrow> call_state" where
  "after_silence env s = (if call_state s = Established \<and> now env - last_recv_time s \<ge> reconnecting_timeout s
     then Reconnecting else call_state s)"

lemma detect_spec:
  "watched (detect_reconnecting env s) = watched s \<and> call_state (detect_reconnecting env s) = after_silence env s"
proof -
  have w: "watched (mt_cancel n t) = watched t" "watched (rate_flag f t) = watched t"
      "watched (each_endpoint (\<lambda>e. e\<lparr>udp_pong_count := 0, udp_ping_times := []\<rparr>) t) = watched t"
    for n f and t :: "'a controller_scheme"
    by (simp_all add: mt_cancel_def rate_flag_def each_endpoint_def watched_def type_at_def option.map_comp comp_def)
  have st: "call_state (mt_cancel n t) = call_state t" "call_state (rate_flag f t) = call_state t"
      "call_state (each_endpoint g t) = call_state t" for n f g and t :: "'a controller_scheme"
    by (simp_all add: mt_cancel_def rate_flag_def each_endpoint_def)
  have "watched (reset_udp_availability env t) = watched t \<and> call_state (reset_udp_availability env t) = call_state t"
    for t :: "'a controller_scheme"
    by (simp add: reset_udp_availability_def Let_def split_def w st)
  then show ?thesis by (simp add: detect_reconnecting_def after_silence_def set_state_other w st)
qed

lemma fail_spec: "call_state (set_state env Failed s) = Failed \<and> last_error (set_state env Failed s) = last_error s
    \<and> (\<exists>m \<in> set (mt_queue (set_state env Failed s)). func m = Some (Notify_State Failed))"
proof -
  have "m \<in> set (insert_message m q)" for m :: "task message" and q
  proof -
    have "m \<in> set (insert_behind m q)" if "q \<noteq> []" using that
      by (induction m q rule: insert_behind.induct) auto
    then show ?thesis by (auto simp: insert_message_def)
  qed
  then show ?thesis
    by (auto simp: set_state_other enter_state_def post_only_def post_def mt_post_def mt_insert_def Let_def
        intro!: bexI [where x = "\<lparr>msg_id = last_message_id s, deliver_at = 0, interval = 0, func = Some (Notify_State Failed)\<rparr>"])
qed

lemma timeout_spec:
  assumes "type_at (current_endpoint s) s = Some ty" "call_state s = Established \<or> call_state s = Reconnecting"
    and "now env - last_recv_time s \<ge> c_recv_timeout (config s)"
  shows "receive_timeout env s = Inr (if ty = UDP_RELAY \<or> ty = TCP_RELAY
    then set_state env Failed (s\<lparr>last_error := Error_Timeout\<rparr>) else leave_p2p env s)"
proof -
  obtain e where "at_endpoint (current_endpoint s) s = Inr e" "ep_type e = ty"
    using assms(1) by (auto simp: type_at_def at_endpoint_def)
  then show ?thesis using assms(2,3) by (auto simp: receive_timeout_def is_reflector_def)
qed

lemma request_fold:
  "current_endpoint (fold (\<lambda>(_, e) s. if P e then request_from_relay e s else s) m s) = current_endpoint s
   \<and> call_state (fold (\<lambda>(_, e) s. if P e then request_from_relay e s else s) m s) = call_state s"
  by (induction m arbitrary: s) (auto simp: request_from_relay_def call_out_def)

lemma request_keeps [simp]:
  "current_endpoint (send_endpoints_request env s) = current_endpoint s"
  "call_state (send_endpoints_request env s) = call_state s"
proof -
  have p: "current_endpoint (post_only env f d i t) = current_endpoint t" "call_state (post_only env f d i t) = call_state t"
    for f d i and t :: "'a routing_scheme"
    using selected_post [of env f d i t] state_post [of env f d i t] by (simp_all add: selected_def post_only_def)
  show "current_endpoint (send_endpoints_request env s) = current_endpoint s"
      "call_state (send_endpoints_request env s) = call_state s"
    by (simp_all add: send_endpoints_request_def Let_def request_fold p)
qed

lemma receive_timeout_defined:
  assumes "type_at (current_endpoint s) s = Some ty"
  shows "\<exists>t. receive_timeout env s = Inr t"
proof -
  obtain e where "at_endpoint (current_endpoint s) s = Inr e" using assms by (auto simp: type_at_def at_endpoint_def)
  then show ?thesis by (simp add: receive_timeout_def)
qed

lemma leave_p2p_spec: "current_endpoint (leave_p2p env s) = preferred_relay s
    \<and> last_recv_time (leave_p2p env s) = now env \<and> call_state (leave_p2p env s) = call_state s"
proof -
  have u: "current_endpoint (update_bitrate_limit env (update_data_saving t)) = current_endpoint t"
      "call_state (update_bitrate_limit env (update_data_saving t)) = call_state t" for t :: "'a controller_scheme"
    unfolding update_bitrate_limit_def Let_def split_def
    by (simp_all add: update_data_saving_def call_out_def split: option.split)
  show ?thesis
    by (simp add: leave_p2p_def Let_def send_data_saving_def send_extra_def u each_endpoint_def)
qed

text \<open>
  C7: silence ends a call over a relay and brings a direct call back to the relay. When the
  timer of the bitrate finds that nothing was received for the configured time, with working
  audio devices: if the endpoint in use is a relay, the call is failed with a timeout, and a task that tells the
  application is queued; otherwise the call goes on over the preferred relay, with the silence
  counted anew, and its state is that of a call that is reconnecting after the shorter limit.
\<close>

theorem silence_ends_call:
  assumes "update_audio_bitrate env s = Inr t" "encoder s \<noteq> None" "\<not> audio_failed env"
    and "call_state s = Established \<or> call_state s = Reconnecting"
    and "now env - last_recv_time s \<ge> c_recv_timeout (config s)" "type_at (current_endpoint s) s = Some ty"
  shows "if ty = UDP_RELAY \<or> ty = TCP_RELAY
    then call_state t = Failed \<and> last_error t = Error_Timeout
      \<and> (\<exists>m \<in> set (mt_queue t). func m = Some (Notify_State Failed))
    else current_endpoint t = preferred_relay s \<and> last_recv_time t = now env \<and> call_state t = after_silence env s"
proof -
  obtain s2 where s2: "adapt_bitrate env s = Inr s2" "receive_timeout env (detect_reconnecting env s2) = Inr t"
    using assms(1-3) by (auto simp: update_audio_bitrate_def bind_res_Inr_conv split: if_splits)
  let ?d = "detect_reconnecting env s2"
  have w: "watched ?d = watched s" and st: "call_state ?d = after_silence env s"
    using detect_spec [of env s2] adapt_watched [OF s2(1)] by (auto simp: after_silence_def watched_def)
  have "receive_timeout env ?d = Inr (if ty = UDP_RELAY \<or> ty = TCP_RELAY
      then set_state env Failed (?d\<lparr>last_error := Error_Timeout\<rparr>) else leave_p2p env ?d)"
    using w st assms(4-6) by (intro timeout_spec) (auto simp: watched_def after_silence_def)
  moreover have "preferred_relay ?d = preferred_relay s" using w by (simp add: watched_def)
  ultimately show ?thesis
    using s2(2) fail_spec [of env "?d\<lparr>last_error := Error_Timeout\<rparr>"] leave_p2p_spec [of env ?d] st by auto
qed

text \<open>A call over a relay on which nothing was received for 30 seconds.\<close>

definition silent_call :: controller where
  "silent_call = (sample_side False)\<lparr>last_recv_time := - 20, encoder := Some \<lparr>en_bitrate = 16000, en_vad = False,
     en_secondary = False, en_loss = 0, en_complexity = 10\<rparr>\<rparr>"

lemma silent_call_simps:
  "call_state silent_call = Established" "encoder silent_call \<noteq> None" "config silent_call = sample_config"
  "last_recv_time silent_call = - 20" "type_at (current_endpoint silent_call) silent_call = Some UDP_RELAY"
  "cong silent_call = cc_new (\<lambda>_ d. d)" "sender silent_call = sender (sample_side False)"
  "out_streams silent_call = outgoing_init 0"
  by (simp_all add: silent_call_def sample_side_def controller_init_def flow_init_def routing_init_def flow.defs routing.defs
      sample_config_def type_at_def sample_relay_def endpoint_new_def sample_env_def)

lemma silent_adapt: "\<exists>t. adapt_bitrate sample_env silent_call = Inr t"
proof -
  have "\<exists>r. bandwidth_action 10 m 1 (cc_new (\<lambda>_ d. d)) = Some r" for m
    by (simp add: bandwidth_action_def wanted_action_def cc_new_def to_size_def Let_def)
  then obtain r where r: "bandwidth_action 10 (if as_shitty (sender silent_call) then 1 else 0) 1 (cc_new (\<lambda>_ d. d)) = Some r"
    by blast
  have "bitrate_multiple (sender silent_call) = 1"
    by (simp add: silent_call_simps bitrate_multiple_def sample_side_def controller_init_def flow.defs)
  moreover have "now sample_env = 10" by (simp add: sample_env_def)
  ultimately show ?thesis using r by (cases r) (simp add: adapt_bitrate_def silent_call_simps)
qed

theorem silence_ends_call_witness:
  "\<exists>t. update_audio_bitrate sample_env silent_call = Inr t \<and> call_state t = Failed \<and> last_error t = Error_Timeout"
proof -
  obtain s2 where s2: "adapt_bitrate sample_env silent_call = Inr s2" using silent_adapt by blast
  have ok: "\<not> audio_failed sample_env" by (simp add: audio_failed_def sample_env_def)
  have "watched (detect_reconnecting sample_env s2) = watched silent_call"
    using detect_spec [of sample_env s2] adapt_watched [OF s2] by simp
  then have ty: "type_at (current_endpoint (detect_reconnecting sample_env s2)) (detect_reconnecting sample_env s2) = Some UDP_RELAY"
    using silent_call_simps(5) unfolding watched_def by (metis prod.inject)
  then obtain t where "receive_timeout sample_env (detect_reconnecting sample_env s2) = Inr t"
    using receive_timeout_defined by blast
  then have t: "update_audio_bitrate sample_env silent_call = Inr t"
    using s2 ok silent_call_simps(2,8)
    by (auto simp: update_audio_bitrate_def outgoing_init_def first_of_type_def TYPE_AUDIO_def TYPE_SIGNALING_def)
  show ?thesis
    using silence_ends_call [OF t silent_call_simps(2) ok _ _ silent_call_simps(5)] t silent_call_simps(1,3,4)
    by (auto simp: sample_config_def sample_env_def)
qed

subsection \<open>A failed call comes back\<close>

lemma insert_message_mem: "set (insert_message m q) = insert m (set q)"
proof -
  have "set (insert_behind m q) = insert m (set q)" if "q \<noteq> []" using that
    by (induction m q rule: insert_behind.induct) auto
  then show ?thesis by (auto simp: insert_message_def)
qed

lemma first_data_posts:
  assumes "\<not> received_first_packet s" "call_state s \<noteq> Established" "received_init_ack s"
  shows "\<exists>m \<in> set (mt_queue (first_data env s)). func m = Some Run_Establish \<and> deliver_at m = now env + 1 / 2"
  using assms by (auto simp: first_data_def Let_def post_only_def post_def mt_post_def mt_insert_def insert_message_mem)

lemma process_data_queue: "ok_res (\<lambda>t. mt_queue t = mt_queue (first_data env s)) (process_data env k p s)"
proof -
  have audio: "ok_res (\<lambda>t. mt_queue t = mt_queue (first_data env s))
      (case put_audio env p j of None \<Rightarrow> Inl Undefined | Some j1 \<Rightarrow> Inr (u\<lparr>in_streams := f j1\<rparr>))"
    if "mt_queue u = mt_queue (first_data env s)" for u :: "'b controller_scheme" and j f
    using that by (simp split: option.split)
  show ?thesis unfolding process_data_def Let_def
    by (intro ok_res_any ok_res_if ok_res_Inr) (simp_all add: call_out_def audio split: option.split)
qed

lemma mic_muted_post [simp]: "mic_muted (post_only env f d i s) = mic_muted s"
  by (cases "d < 0") (simp_all add: post_only_def post_def mt_post_def mt_insert_def Let_def)

text \<open>
  The first packet with data sets a call to established whatever its state is. A call that
  has failed, with a timeout say, but has had the answer to its introduction, is
  set to be established half a second after that packet, and the task does it without a look at
  the state; setting the state to established also leaves the microphone as it is, although it calls
  the function that mutes it.
\<close>

theorem failed_call_revives:
  assumes "process_data env k p s = Inr t" "call_state s = Failed" "received_init_ack s" "\<not> received_first_packet s"
  shows "(\<exists>m \<in> set (mt_queue t). func m = Some Run_Establish \<and> deliver_at m = now env + 1 / 2)
    \<and> (\<exists>v. exec_task env' Run_Establish u = Inr v \<and> call_state v = Established \<and> mic_muted v = mic_muted u)"
proof -
  have "mic_muted (set_state env' Established u) = mic_muted u"
    by (simp add: set_state_def set_mic_mute_def enter_state_def Let_def)
  then show ?thesis
    using first_data_posts [of s env] assms ok_resD [OF process_data_queue assms(1)]
    by (simp add: exec_task_def set_state_established)
qed

theorem failed_call_revives_witness:
  "\<exists>t. process_data sample_env 5 sample_packet ((sample_side False)\<lparr>call_state := Failed, received_init_ack := True\<rparr>) = Inr t
     \<and> (\<exists>m \<in> set (mt_queue t). func m = Some Run_Establish)"
proof -
  let ?s = "(sample_side False)\<lparr>call_state := Failed, received_init_ack := True\<rparr>"
  have "\<not> received_first_packet ?s" "in_streams ?s = []"
    by (simp_all add: sample_side_def controller_init_def flow_init_def routing_init_def flow.defs routing.defs)
  moreover have "in_streams (first_data sample_env ?s) = in_streams ?s"
    by (simp add: first_data_def Let_def post_only_def post_def mt_post_def mt_insert_def)
  ultimately obtain t where "process_data sample_env 5 sample_packet ?s = Inr t"
    using sample_side_simps(4) [of False] by (fastforce simp: process_data_def Let_def at_endpoint_def)
  then show ?thesis using failed_call_revives \<open>\<not> received_first_packet ?s\<close> by fastforce
qed

subsection \<open>The switch to a relay\<close>

lemma endpoints_post [simp]: "endpoints (post_only env f d i s) = endpoints s"
  using post_form [of env f d i s] by auto

lemma request_fold_endpoints [simp]:
  "endpoints (fold (\<lambda>(_, e) s. if P e then request_from_relay e s else s) m s) = endpoints s"
  by (induction m arbitrary: s) (auto simp: request_from_relay_def call_out_def)

lemma request_endpoints [simp]: "endpoints (send_endpoints_request env s) = endpoints s"
  by (simp add: send_endpoints_request_def Let_def)

text \<open>
  The switch to a relay whose packets arrive while nothing is acknowledged destroys the
  endpoint that was in use: its number is changed in the endpoint in use, but the assignment to a local
  reference overwrites the record in the map with a copy of the record of the relay.
  Afterwards an endpoint is filed under a number that is not its own.
\<close>

theorem switch_overwrites_endpoint:
  assumes "switch_to_relay env k i s = Inr t" "current_endpoint t \<noteq> current_endpoint s"
  shows "\<exists>old src. om_get (endpoints s) (current_endpoint s) = Some old \<and> om_get (endpoints s) k = Some src
    \<and> om_get (endpoints t) (current_endpoint s) = Some src \<and> ep_id src \<noteq> current_endpoint s
    \<and> current_endpoint t = ep_id src \<and> \<not> filed (endpoints t)"
proof -
  obtain cur src where e: "om_get (endpoints s) (current_endpoint s) = Some cur" "om_get (endpoints s) k = Some src"
    using assms(1) by (auto simp: switch_to_relay_def bind_res_Inr_conv at_endpoint_eq)
  define u where "u = modify_endpoint (current_endpoint s) (\<lambda>_. src) (s\<lparr>current_endpoint := ep_id src\<rparr>)"
  have t: "t = (if allow_p2p u then send_endpoints_request env u else u)" "ep_id src \<noteq> current_endpoint s"
    using assms e by (auto simp: switch_to_relay_def at_endpoint_def Let_def u_def split: if_splits)
  then have "endpoints t = om_modify (current_endpoint s) (\<lambda>_. src) (endpoints s)" "current_endpoint t = ep_id src"
    by (simp_all add: u_def modify_endpoint_def)
  moreover from this(1) have "om_get (endpoints t) (current_endpoint s) = Some src" by (simp add: e(1))
  ultimately show ?thesis using e t(2) by (auto simp: filed_def)
qed

theorem switch_overwrites_endpoint_witness:
  "\<exists>(s :: controller) t. switch_to_relay sample_env 9 0 s = Inr t \<and> filed (endpoints s) \<and> \<not> filed (endpoints t)"
proof -
  define r where "r = endpoint_new sample_env 9 444 (IPv4 4) no_address UDP_RELAY (replicate 16 2)"
  define s where "s = (sample_side False)\<lparr>endpoints := [(5, sample_relay), (9, r)], allow_p2p := False,
    out_streams := [(hd (outgoing_init 0))\<lparr>os_pm := (pm_new 0 0)\<lparr>last_sent_seq := 40\<rparr>\<rparr>]\<rparr>"
  have ids: "ep_id r = 9" "ep_type r = UDP_RELAY" "ep_id sample_relay = 5" "ep_rtt sample_relay = 0"
    by (simp_all add: r_def sample_relay_def endpoint_new_def sample_env_def)
  have cur: "current_endpoint s = 5" by (simp add: s_def sample_side_def)
  have "filed (endpoints s)" by (auto simp: filed_def om_ok_def s_def ids)
  moreover have "seqgt (last_sent_seq (pm_of 0 s) - 32) (last_acked_seq (pm_of 0 s))"
    by (simp add: pm_of_def s_def pm_new_def seqgt_def)
  then obtain t where t: "switch_to_relay sample_env 9 0 s = Inr t" "current_endpoint t = 9"
    using cur ids by (auto simp: switch_to_relay_def at_endpoint_def is_reflector_def Let_def s_def modify_endpoint_def)
  moreover have "\<not> filed (endpoints t)" using switch_overwrites_endpoint [OF t(1)] t cur by auto
  ultimately show ?thesis using t(1) by blast
qed

subsection \<open>Bitrate\<close>

text \<open>
  The bitrate of the encoder stays in its bounds: not below the smallest bitrate, and above
  the limit of the network by less than one step, as the last step up starts
  below the limit. (The settings are small enough that the sums do not wrap.)
\<close>

theorem bitrate_bounded:
  assumes "adapt_bitrate env s = Inr t" "encoder s = Some e" "encoder t = Some e'"
    and "unat (max_bitrate s) + unat (br_incr (bitrates s)) < 2 ^ 32"
    and "unat (br_min (bitrates s)) + unat (br_decr (bitrates s)) < 2 ^ 32" "br_min (bitrates s) \<le> en_bitrate e"
  shows "br_min (bitrates s) \<le> en_bitrate e'
    \<and> unat (en_bitrate e') \<le> max (unat (en_bitrate e)) (unat (max_bitrate s) + unat (br_incr (bitrates s)) - 1)"
proof -
  obtain act where e': "en_bitrate e' = next_bitrate act (max_bitrate s) (bitrates s) (en_bitrate e)"
    using assms(1-3) by (auto simp: adapt_bitrate_def split: option.splits)
  let ?mn = "br_min (bitrates s)" and ?d = "br_decr (bitrates s)" and ?r = "en_bitrate e" and ?i = "br_incr (bitrates s)"
  have sum: "unat (?mn + ?d) = unat ?mn + unat ?d" using assms(5) by (simp add: unat_word_ariths)
  have up: "unat (?r + ?i) = unat ?r + unat ?i" if "?r < max_bitrate s"
    using assms(4) that by (simp add: unat_word_ariths word_less_nat_alt)
  have down: "unat (?r - ?d) = unat ?r - unat ?d" if "\<not> ?r < ?mn + ?d"
    using that sum by (simp add: word_less_nat_alt unat_sub word_le_nat_alt)
  show ?thesis unfolding e' next_bitrate_def using assms(6) sum up down
    by (auto simp: word_le_nat_alt word_less_nat_alt split: cc_action.split)
qed

theorem bitrate_bounded_witness:
  "\<exists>t e. adapt_bitrate sample_env silent_call = Inr t \<and> encoder t = Some e \<and> 8000 \<le> en_bitrate e \<and> unat (en_bitrate e) \<le> 20999"
proof -
  obtain t where t: "adapt_bitrate sample_env silent_call = Inr t" using silent_adapt by blast
  have b: "bitrates silent_call = initial_bitrates sample_env" "max_bitrate silent_call = 0"
    by (simp_all add: silent_call_def sample_side_def controller_init_def flow.defs)
  obtain e where e: "encoder silent_call = Some e" "en_bitrate e = 16000" by (simp add: silent_call_def)
  obtain e' where e': "encoder t = Some e'" using t e(1) by (auto simp: adapt_bitrate_def split: option.splits)
  show ?thesis
    using bitrate_bounded [OF t e(1) e'] e' t b e(2)
    by (auto simp: initial_bitrates_def sample_env_def Let_def)
qed

subsection \<open>Signal bars\<close>

lemma late_bars_bounds: "late_bars xs n = Some m \<Longrightarrow> 1 \<le> n \<Longrightarrow> 1 \<le> m \<and> m \<le> n"
  by (induction xs n rule: late_bars.induct) (fastforce split: option.splits if_splits)+

lemma loss_bars_bounds: "1 \<le> n \<Longrightarrow> 1 \<le> loss_bars x n \<and> loss_bars x n \<le> n"
  by (auto simp: loss_bars_def)

definition bars_ok :: "int hist \<Rightarrow> bool" where
  "bars_ok h \<longleftrightarrow> hok h \<and> (\<forall>x \<in> set (hdata h). 0 \<le> x \<and> x \<le> 4)"

lemma sum_bounds: "\<forall>x \<in> set xs. 1 \<le> x \<and> x \<le> (4::int) \<Longrightarrow> int (length xs) \<le> sum_list xs \<and> sum_list xs \<le> 4 * int (length xs)"
  by (induction xs) auto

lemma count_bounds: "bars_ok h \<Longrightarrow> \<exists>x \<in> set (hdata h). x \<noteq> 0 \<Longrightarrow> 1 \<le> signal_bars_count h \<and> signal_bars_count h \<le> 4"
proof -
  assume h: "bars_ok h" "\<exists>x \<in> set (hdata h). x \<noteq> 0"
  define xs where "xs = filter (\<lambda>x. x \<noteq> 0) (hdata h)"
  have "\<forall>x \<in> set xs. 1 \<le> x \<and> x \<le> 4" using h(1) by (force simp: xs_def bars_ok_def)
  note b = sum_bounds [OF this]
  have n: "0 < int (length xs)" using h(2) by (auto simp: xs_def filter_empty_conv)
  have "1 \<le> sum_list xs div int (length xs)" using b n by (simp add: pos_imp_zdiv_pos_iff int_one_le_iff_zero_less)
  moreover have "sum_list xs div int (length xs) \<le> 4 * int (length xs) div int (length xs)"
    using b n by (intro zdiv_mono1) auto
  ultimately show ?thesis using n by (auto simp: signal_bars_count_def xs_def [symmetric] Let_def)
qed

lemma bars_ok_add:
  assumes "bars_ok h" "0 \<le> n" "n \<le> 4"
  shows "bars_ok (hist_add n h)" "n \<in> set (hdata (hist_add n h))"
proof -
  have "hoff h < length (hdata h)" using assms(1) by (simp add: bars_ok_def hok_def)
  moreover from this have "(hoff h + 1) mod length (hdata h) < length (hdata h)" by (intro mod_less_divisor) auto
  ultimately show "bars_ok (hist_add n h)" "n \<in> set (hdata (hist_add n h))"
    using assms set_update_subset_insert [of "hdata h" "hoff h" n]
    by (auto simp: bars_ok_def hok_def hist_add_def set_update_memI)
qed

text \<open>
  The signal bars are between 1 and 4. Each evaluation adds a value between 1 and 4 to
  the history: 1 while the call is reconnecting or waits for acknowledgments, at most 3 over a TCP
  relay, less with losses and late packets. The count shown is the average of the
  history in whole numbers, and the application is told when, and only when, it changes.
\<close>

theorem signal_bars_bounded:
  assumes "update_signal_bars env s = Inr t" "bars_ok (bars s)"
  shows "\<exists>n. bars t = hist_add n (bars s) \<and> bars_ok (bars t) \<and> 1 \<le> n \<and> n \<le> 4
    \<and> (call_state s = Reconnecting \<or> waiting_for_acks s \<longrightarrow> n = 1)
    \<and> (type_at (current_endpoint s) s = Some TCP_RELAY \<longrightarrow> n \<le> 3)
    \<and> 1 \<le> signal_bars_count (bars t) \<and> signal_bars_count (bars t) \<le> 4
    \<and> calls t = calls s @ (if signal_bars_count (bars t) \<noteq> signal_bars_count (bars s)
        then [Bars_Changed (signal_bars_count (bars t))] else [])"
proof -
  define x where "x = frame_loss (mean_u32 (send_loss_hist s)) (os_frame (out_streams s ! 1))"
  define n1 :: int where "n1 = (if call_state s = Reconnecting \<or> waiting_for_acks s then 1 else 4)"
  obtain cur where cur: "at_endpoint (current_endpoint s) s = Inr cur"
    using assms(1) by (auto simp: update_signal_bars_def Let_def bind_res_Inr_conv split: if_splits)
  define n2 where "n2 = (if ep_type cur = TCP_RELAY then min n1 3 else n1)"
  obtain n where n: "late_bars (in_streams s) (loss_bars x n2) = Some n" and
    t: "t = (let h = hist_add n (bars s); s1 = s\<lparr>bars := h\<rparr> in
      if signal_bars_count h \<noteq> signal_bars_count (bars s) then call_out (Bars_Changed (signal_bars_count h)) s1 else s1)"
    using assms(1) unfolding update_signal_bars_def Let_def x_def [symmetric] n1_def [symmetric] cur bind_res.simps n2_def [symmetric]
    by (auto split: if_splits option.splits)
  have n2: "1 \<le> n2" "n2 \<le> n1" by (auto simp: n2_def n1_def)
  have b: "1 \<le> n" "n \<le> n2"
    using late_bars_bounds [OF n] loss_bars_bounds [OF n2(1), of x] by auto
  have ok: "bars_ok (hist_add n (bars s))" "n \<in> set (hdata (hist_add n (bars s)))"
    using bars_ok_add [OF assms(2), of n] b n2 by (auto simp: n1_def split: if_splits)
  have count: "1 \<le> signal_bars_count (hist_add n (bars s)) \<and> signal_bars_count (hist_add n (bars s)) \<le> 4"
    using count_bounds [OF ok(1)] ok(2) b(1) by force
  have "n1 \<le> 4" "call_state s = Reconnecting \<or> waiting_for_acks s \<longrightarrow> n1 = 1" by (auto simp: n1_def)
  moreover have "type_at (current_endpoint s) s = Some TCP_RELAY \<longrightarrow> n2 \<le> 3"
    using cur by (auto simp: type_at_def at_endpoint_eq n2_def)
  moreover have "bars t = hist_add n (bars s)" "calls t = calls s @ (if signal_bars_count (bars t) \<noteq> signal_bars_count (bars s)
        then [Bars_Changed (signal_bars_count (bars t))] else [])"
    by (auto simp: t Let_def call_out_def)
  ultimately show ?thesis
    using b n2 ok(1) count by (intro exI [of _ n]) (simp, linarith?)
qed

theorem signal_bars_bounded_witness:
  "\<exists>t. update_signal_bars sample_env silent_call = Inr t \<and> 1 \<le> signal_bars_count (bars t)"
proof -
  have s: "bars silent_call = hist_new 4" "in_streams silent_call = []"
    by (simp_all add: silent_call_def sample_side_def controller_init_def flow_init_def routing_init_def flow.defs routing.defs)
  then have ok: "bars_ok (bars silent_call)" by (simp add: bars_ok_def hok_def hist_new_def)
  obtain e where "at_endpoint (current_endpoint silent_call) silent_call = Inr e"
    using silent_call_simps(5) by (auto simp: type_at_def at_endpoint_def)
  then obtain t where "update_signal_bars sample_env silent_call = Inr t"
    using s by (auto simp: update_signal_bars_def silent_call_simps(8) outgoing_init_def TYPE_AUDIO_def Let_def)
  then show ?thesis using signal_bars_bounded [OF _ ok] by blast
qed

subsection \<open>Timers in a running call\<close>

lemma running_streams:
  assumes "call_running s"
  shows "2 \<le> length (out_streams s)" "os_type (out_streams s ! 1) = TYPE_AUDIO"
    "first_of_type TYPE_AUDIO (out_streams s) \<noteq> None"
proof -
  obtain n where n: "map os_type (out_streams s) = TYPE_SIGNALING # TYPE_AUDIO # replicate n TYPE_VIDEO"
    using running_ok [OF assms] by (auto simp: call_ok_def stream_types_def)
  then obtain a b xs where "out_streams s = a # b # xs" "os_type b = TYPE_AUDIO" by auto
  then show "2 \<le> length (out_streams s)" "os_type (out_streams s ! 1) = TYPE_AUDIO"
    "first_of_type TYPE_AUDIO (out_streams s) \<noteq> None"
    by (auto simp: first_of_type_def)
qed

definition observed_loss :: "'z controller_scheme \<Rightarrow> fp" where
  "observed_loss s = fp_div
     (mean_u32 (hist_add (send_loss_count (cong s) - prev_send_loss s) (send_loss_hist s)))
     (mean_u32 (hist_add (last_sent_seq (pm_of (best_stream s) s) - prev_seq s) (packet_count_hist s)))"

lemma update_congestion_undefined:
  assumes "first_of_type TYPE_AUDIO (out_streams s) \<noteq> None"
  shows "update_congestion s = Inl Undefined \<longleftrightarrow> encoder s \<noteq> None \<and> loss_percent (observed_loss s) = None"
  using assms by (auto simp: update_congestion_def observed_loss_def Let_def split: option.splits)

text \<open>
  C37: in a running call the timers find their streams. The evaluation of the signal bars
  uses the outgoing stream at position 1, and that of the losses the first audio stream, both
  without a check; in every state that a call reaches these exist, so the bars are always defined, and the
  losses unless the loss that was observed does not fit into an integer.
\<close>

theorem timers_find_streams:
  assumes "call_running s"
  shows "update_signal_bars env s \<noteq> Inl Undefined
    \<and> (update_congestion s = Inl Undefined \<longleftrightarrow> encoder s \<noteq> None \<and> loss_percent (observed_loss s) = None)"
proof -
  have "update_signal_bars env s \<noteq> Inl Undefined"
    using running_streams(1,2) [OF assms]
    by (auto simp: update_signal_bars_def Let_def at_endpoint_def split: option.split)
  then show ?thesis using update_congestion_undefined [OF running_streams(3) [OF assms]] by blast
qed

theorem timers_find_streams_witness:
  "\<exists>s. call_running s \<and> update_signal_bars sample_env s \<noteq> Inl Undefined"
proof -
  obtain s where "call_running s" using sample_running by blast
  with timers_find_streams show ?thesis by blast
qed

lemma sum_of_zeros: "set xs \<subseteq> {0} \<Longrightarrow> sum_list (map (\<lambda>w. real (unat w)) xs) = 0"
  by (induction xs) auto

text \<open>
  A call that sends no audio for ten seconds, as one that is muted from the start, divides
  zero by zero: with no packet and no loss in any slot of the two histories the loss is not a
  number, and its conversion to a whole percentage for the encoder is undefined.
\<close>

theorem idle_call_undefined:
  assumes "encoder s \<noteq> None" "first_of_type TYPE_AUDIO (out_streams s) \<noteq> None"
    and "set (hdata (send_loss_hist s)) \<subseteq> {0}" "set (hdata (packet_count_hist s)) \<subseteq> {0}"
    and "send_loss_count (cong s) = prev_send_loss s" "last_sent_seq (pm_of (best_stream s) s) = prev_seq s"
  shows "update_congestion s = Inl Undefined"
proof -
  have "mean_u32 (hist_add 0 h) = 0" if "set (hdata h) \<subseteq> {0}" for h
  proof -
    have "set (hdata (hist_add 0 h)) \<subseteq> {0}"
      using that set_update_subset_insert [of "hdata h" "hoff h" 0] by (auto simp: hist_add_def)
    from sum_of_zeros [OF this] show ?thesis unfolding mean_u32_def by simp
  qed
  then have "observed_loss s = NaN" using assms(3-6) by (simp add: observed_loss_def fp_div_def)
  then show ?thesis using update_congestion_undefined [OF assms(2)] assms(1) by (simp add: loss_percent_def)
qed

theorem idle_call_undefined_witness:
  "update_congestion (silent_call\<lparr>prev_seq := 0\<rparr>) = Inl Undefined"
proof -
  let ?s = "silent_call\<lparr>prev_seq := 0\<rparr>"
  have "send_loss_hist ?s = hist_new 10" "packet_count_hist ?s = hist_new 10" "prev_send_loss ?s = 0"
    by (simp_all add: silent_call_def sample_side_def controller_init_def flow.defs)
  moreover have "last_sent_seq (pm_of (best_stream ?s) ?s) = 0"
    by (simp add: pm_of_def silent_call_simps(8) outgoing_init_def best_stream_def pm_new_def)
  ultimately show ?thesis using silent_call_simps(2)
    by (intro idle_call_undefined)
      (simp_all add: silent_call_simps(6,8) hist_new_def send_loss_count_def cc_new_def outgoing_init_def
        first_of_type_def TYPE_AUDIO_def TYPE_SIGNALING_def)
qed

end
