(* ===== verification/Redundancy.thy ===== *)
theory Redundancy
  imports Calls
begin

section \<open>Repetition and error correction\<close>

text \<open>
  What makes up for losses: the list of packets that are repeated until they are acknowledged,
  the signaling extras that travel with every packet until then, and the copies of earlier audio frames
  in later packets.
\<close>

subsection \<open>Repeated packets\<close>

definition waits :: "env \<Rightarrow> reliable \<Rightarrow> bool" where
  "waits env r \<longleftrightarrow> \<not> timed_out env r \<and> rl_tries r \<noteq> 0"

definition after_pass :: "env \<Rightarrow> reliable \<Rightarrow> reliable" where
  "after_pass env r = (let r1 = r\<lparr>rl_tries := rl_tries r - 1\<rparr> in
     if now env - rl_last r \<ge> rl_retry r then sent_now env r1 else r1)"

lemma reliable_pass_eq:
  "fst (reliable_pass env rs s) = map (after_pass env) (filter (waits env) rs)
   \<and> fst (snd (reliable_pass env rs s)) = map rl_pkt (filter (\<lambda>r. waits env r \<and> now env - rl_last r \<ge> rl_retry r) rs)"
proof (induction rs arbitrary: s)
  case (Cons r rs)
  then show ?case
    by (auto simp: Let_def waits_def after_pass_def split_def)
qed simp

lemma reliable_kept_on_stream [simp]: "reliable_packets (on_stream i f s) = reliable_packets s"
  by (simp add: on_stream_def)

lemma reliable_kept_socket [simp]: "reliable_packets (open_socket k e s) = reliable_packets s"
  by (simp add: open_socket_def call_out_def modify_endpoint_def)

lemma reliable_kept_hand_over: "reliable_packets s = x \<Longrightarrow> ok_res (\<lambda>t. reliable_packets t = x) (hand_over env k e p s)"
  by (auto simp: hand_over_def Let_def split: option.split intro!: ok_res_any)

lemma reliable_kept_send: "reliable_packets s = x \<Longrightarrow> ok_res (\<lambda>t. reliable_packets t = x) (send_or_enqueue env p b s)"
  by (auto simp: send_or_enqueue_def Let_def intro!: ok_res_any reliable_kept_hand_over)

lemma reliable_kept_send_all: "reliable_packets s = x \<Longrightarrow> ok_res (\<lambda>t. reliable_packets t = x) (send_all env ps s)"
  by (induction ps arbitrary: s) (auto intro!: ok_res_bind [OF reliable_kept_send])

lemma update_reliable_list:
  assumes "update_reliable env s = Inr t"
  shows "reliable_packets t = map (after_pass env) (filter (waits env) (reliable_packets s))"
proof -
  obtain ks ps s1 where p: "reliable_pass env (reliable_packets s) s = (ks, ps, s1)" by (metis prod_cases3)
  then have "send_all env ps (s1\<lparr>reliable_packets := ks\<rparr>) = Inr t" using assms by (simp add: update_reliable_def)
  from ok_resD [OF reliable_kept_send_all [OF refl] this] show ?thesis
    using reliable_pass_eq [of env "reliable_packets s" s] p by simp
qed

fun reliable_rounds :: "env list \<Rightarrow> 'z flow_scheme \<Rightarrow> exn + 'z flow_scheme" where
  "reliable_rounds [] s = Inr s"
| "reliable_rounds (env # es) s = bind_res (update_reliable env s) (reliable_rounds es)"

lemma tries_after_pass: "waits env r \<Longrightarrow> unat (rl_tries (after_pass env r)) + 1 = unat (rl_tries r)"
  by (auto simp: waits_def after_pass_def Let_def sent_now_def unat_minus_one unat_gt_0)

lemma rounds_empty:
  assumes "reliable_rounds es s = Inr t" "\<forall>r \<in> set (reliable_packets s). unat (rl_tries r) < length es"
  shows "reliable_packets t = []"
  using assms
proof (induction es arbitrary: s)
  case (Cons env es)
  obtain u where u: "update_reliable env s = Inr u" "reliable_rounds es u = Inr t"
    using Cons.prems(1) by (auto simp: bind_res_Inr_conv)
  have "unat (rl_tries r) < length es" if r: "r \<in> set (reliable_packets u)" for r
  proof -
    obtain r0 where r0: "r = after_pass env r0" "waits env r0" "r0 \<in> set (reliable_packets s)"
      using r unfolding update_reliable_list [OF u(1)] by auto
    then show ?thesis using Cons.prems(2) tries_after_pass [OF r0(2)] by fastforce
  qed
  then show ?case using Cons.IH [OF u(2)] by blast
qed (auto)

text \<open>
  C13: repetition ends. Every pass over the list of repeated packets drops those
  that timed out or have no try left, and takes a try from each of the others, whether the packet
  is sent again in this pass or not yet due; so after 256 passes without new packets the list is
  empty, whatever the clock shows.
\<close>

theorem repetition_ends:
  assumes "reliable_rounds es s = Inr t" "length es = 256"
  shows "reliable_packets t = []
    \<and> (update_reliable env s = Inr u \<longrightarrow> (\<forall>r \<in> set (reliable_packets u). \<exists>r0 \<in> set (reliable_packets s).
          rl_pkt r = rl_pkt r0 \<and> unat (rl_tries r) + 1 = unat (rl_tries r0) \<and> \<not> timed_out env r0))"
proof -
  have "unat (rl_tries r) < length es" for r :: reliable
    using unsigned_less [of "rl_tries r", where ?'a = nat] assms(2) by simp
  moreover have "\<forall>r \<in> set (reliable_packets u). \<exists>r0 \<in> set (reliable_packets s).
      rl_pkt r = rl_pkt r0 \<and> unat (rl_tries r) + 1 = unat (rl_tries r0) \<and> \<not> timed_out env r0"
    if u: "update_reliable env s = Inr u"
  proof
    fix r assume r: "r \<in> set (reliable_packets u)"
    obtain r0 where r0: "r = after_pass env r0" "waits env r0" "r0 \<in> set (reliable_packets s)"
      using r unfolding update_reliable_list [OF u] by auto
    moreover have "rl_pkt (after_pass env r0) = rl_pkt r0" by (simp add: after_pass_def sent_now_def Let_def)
    ultimately show "\<exists>r0 \<in> set (reliable_packets s).
        rl_pkt r = rl_pkt r0 \<and> unat (rl_tries r) + 1 = unat (rl_tries r0) \<and> \<not> timed_out env r0"
      using tries_after_pass [OF r0(2)] by (auto simp: waits_def)
  qed
  ultimately show ?thesis using rounds_empty [OF assms(1)] by blast
qed

text \<open>A packet that is never due again: each pass takes a try from it.\<close>

lemma not_due_rounds:
  assumes "\<forall>r \<in> set (reliable_packets s). now env - rl_last r < rl_retry r"
  shows "\<exists>t. reliable_rounds (replicate n env) s = Inr t"
  using assms
proof (induction n arbitrary: s)
  case (Suc n)
  have pass: "reliable_pass env rs s = (map (after_pass env) (filter (waits env) rs), [], s)"
    if "\<forall>r \<in> set rs. now env - rl_last r < rl_retry r" for rs
    using that by (induction rs) (auto simp: Let_def waits_def after_pass_def)
  let ?u = "s\<lparr>reliable_packets := map (after_pass env) (filter (waits env) (reliable_packets s))\<rparr>"
  have "update_reliable env s = Inr ?u" using pass [OF Suc.prems] by (simp add: update_reliable_def)
  moreover have "\<forall>r \<in> set (reliable_packets ?u). now env - rl_last r < rl_retry r"
    using Suc.prems by (auto simp: after_pass_def Let_def)
  ultimately show ?case using Suc.IH [of ?u] by simp
qed simp

theorem repetition_ends_witness:
  "\<exists>t. reliable_rounds (replicate 256 sample_env) ((sample_side True)\<lparr>reliable_packets :=
       [\<lparr>rl_pkt = \<lparr>pp_packet = [1], pp_info = \<lparr>ccp_seq = 1, ccp_stream_id = 0\<rparr>, pp_endpoint = 5\<rparr>, rl_retry = 1, rl_timeout = 0,
         rl_tries = 255, rl_first = 10, rl_last = 10\<rparr>]\<rparr>) = Inr t \<and> reliable_packets t = []"
proof -
  let ?s = "(sample_side True)\<lparr>reliable_packets :=
       [\<lparr>rl_pkt = \<lparr>pp_packet = [1], pp_info = \<lparr>ccp_seq = 1, ccp_stream_id = 0\<rparr>, pp_endpoint = 5\<rparr>, rl_retry = 1, rl_timeout = 0,
         rl_tries = 255, rl_first = 10, rl_last = 10\<rparr>]\<rparr>"
  have "\<forall>r \<in> set (reliable_packets ?s). now sample_env - rl_last r < rl_retry r" by (simp add: sample_env_def)
  then obtain t where t: "reliable_rounds (replicate 256 sample_env) ?s = Inr t" using not_due_rounds by blast
  then show ?thesis using repetition_ends [OF t] by auto
qed

subsection \<open>Copies of earlier frames\<close>

text \<open>The sender keeps the last eight low-bitrate frames.\<close>

lemma kept_frames: "as_ec a = [] \<Longrightarrow> as_ec (fold keep_ec fs a) = drop (length fs - 8) fs"
proof (induction fs rule: rev_induct)
  case (snoc f fs)
  have "length (drop (length fs - 8) fs @ [f]) = 9 \<longleftrightarrow> length fs \<ge> 8" by auto
  moreover have "drop (Suc (length fs) - 8) fs = tl (drop (length fs - 8) fs)" if "length fs \<ge> 8"
  proof -
    have "length fs - 7 = Suc (length fs - 8)" using that by arith
    then show ?thesis by (simp add: drop_Suc tl_drop)
  qed
  moreover have "drop (length fs - 8) fs \<noteq> []" if "length fs \<ge> 8" using that by auto
  ultimately show ?case using snoc by (cases "length fs \<ge> 8") (auto simp: keep_ec_def Let_def)
qed simp

lemma kept_other [simp]: "as_ec_level (fold keep_ec fs a) = as_ec_level a"
proof (induction fs arbitrary: a)
  case (Cons f fs)
  have "as_ec_level (keep_ec f a) = as_ec_level a" by (simp add: keep_ec_def Let_def)
  then show ?case using Cons by simp
qed simp

definition copied :: "nat \<Rightarrow> nat \<Rightarrow> byte \<Rightarrow> bool" where
  "copied n d level \<longleftrightarrow> d \<le> 8 \<and> d \<le> n mod 256 \<and> d \<le> unat level"

lemma unat_min: "unat (min x y) = min (unat x) (unat (y :: 'w::len word))"
  by (auto simp: min_def word_le_nat_alt)

lemma max_ec_copied:
  assumes "as_ec a = []" "length fs \<le> n" "length fs = n \<or> 8 \<le> length fs" "1 \<le> d" "d \<le> 8"
  shows "d \<le> unat (max_ec (fold keep_ec fs a) (of_nat n + 1)) \<longleftrightarrow> copied n d (as_ec_level a)"
proof -
  have l: "unat (of_nat (min 8 (length fs)) :: byte) = min 8 (length fs)" by (simp add: unat_of_nat)
  have "unat (ucast (of_nat n :: u32) :: byte) = n mod 256"
    by (simp add: unsigned_of_nat unat_of_nat take_bit_eq_mod mod_mod_cancel)
  moreover have "length (as_ec (fold keep_ec fs a)) = min 8 (length fs)" using kept_frames [OF assms(1), of fs] by simp
  moreover have "n mod 256 \<le> n" by simp
  ultimately show ?thesis using assms(2-) l by (auto simp: max_ec_def unat_min copied_def)
qed

lemma ec_slot:
  assumes "as_ec a = []" "length fs \<le> n" "length fs = n \<or> 8 \<le> length fs" "1 \<le> d" "d \<le> 8" "d \<le> length fs"
  shows "ec_slots (fold keep_ec fs a) pm (of_nat n + 1) ! (8 - d)
    = (if copied n d (as_ec_level a) \<and> \<not> was_local_acked (of_nat n + 1 - of_nat d) pm
       then Some (Some (fs ! (length fs - d))) else None)"
proof -
  have "d - 8 + (8 - (8 - d)) = d" using assms by simp
  moreover have "min (length fs) 8 - d + (length fs - 8) = length fs - d" using assms by (simp add: min_def)
  ultimately show ?thesis
    using max_ec_copied [OF assms(1-5)] kept_frames [OF assms(1), of fs] assms
    by (auto simp: ec_slots_def Let_def min_def)
qed

fun put_copies :: "env \<Rightarrow> (nat \<Rightarrow> byte list) \<Rightarrow> nat list \<Rightarrow> jbuf \<Rightarrow> jbuf option" where
  "put_copies env f [] j = Some j"
| "put_copies env f (k # ks) j = (case handle_input (now env) (f k) (of_nat k) True j of
     None \<Rightarrow> None | Some j1 \<Rightarrow> put_copies env f ks j1)"

lemma slot_absent: "n mod 256 < 8 - i \<Longrightarrow> as_ec a = [] \<Longrightarrow> length fs = n \<Longrightarrow> i < 8 \<Longrightarrow> ec_slots (fold keep_ec fs a) pm (of_nat n + 1) ! i = None"
  using max_ec_copied [of a fs n "8 - i"] by (auto simp: ec_slots_def Let_def copied_def)

lemma put_ec_slots:
  assumes "as_ec a = []" "length fs = n" "\<forall>f \<in> set fs. f \<noteq> []" "i \<le> 8"
  shows "put_ec env (of_nat n) i (drop i (ec_slots (fold keep_ec fs a) pm (of_nat n + 1))) j
    = put_copies env (\<lambda>k. fs ! k) (filter (\<lambda>k. copied n (n - k) (as_ec_level a)
          \<and> \<not> was_local_acked (of_nat k + 1) pm) [n - (8 - i)..<n]) j"
  using assms(4)
proof (induction i arbitrary: j rule: inc_induct)
  case base
  then show ?case by (simp add: ec_slots_def)
next
  case (step i)
  let ?ws = "ec_slots (fold keep_ec fs a) pm (of_nat n + 1)" and ?d = "8 - i"
  have d: "drop i ?ws = ?ws ! i # drop (Suc i) ?ws"
    using step.hyps by (intro Cons_nth_drop_Suc [symmetric]) (simp add: ec_slots_def)
  show ?case
  proof (cases "?d \<le> n")
    case True
    have r: "[n - ?d..<n] = (n - ?d) # [n - (8 - Suc i)..<n]"
    proof -
      have "n - ?d < n" "Suc (n - ?d) = n - (8 - Suc i)" using True step.hyps by auto
      then show ?thesis using upt_conv_Cons [of "n - ?d" n] by simp
    qed
    have k: "of_nat (n - ?d) = (of_nat n - of_nat ?d :: u32)" "n - (n - ?d) = ?d" using True by simp_all
    have w: "?ws ! i = (if copied n ?d (as_ec_level a) \<and> \<not> was_local_acked (of_nat n + 1 - of_nat ?d) pm
        then Some (Some (fs ! (n - ?d))) else None)"
      using ec_slot [OF assms(1), of fs n ?d pm] assms(2) step.hyps True by simp
    have ne: "fs ! (n - ?d) \<noteq> []" using assms(2,3) True step.hyps by (simp add: nth_mem)
    have q: "of_nat n + 1 - of_nat ?d = (of_nat (n - ?d) + 1 :: u32)" by (simp only: k(1) diff_add_eq)
    show ?thesis unfolding d r put_ec.simps filter.simps w q
      using ne k step.IH by (auto simp: bytes_bool_def wrapped_bool_def split: option.split)
  next
    case False
    then have "?ws ! i = None" using slot_absent [OF _ assms(1,2)] step.hyps by simp
    moreover have "n - ?d = n - (8 - Suc i) \<or> n = 7 - i" using False by auto
    ultimately show ?thesis unfolding d using step.IH False by (simp add: wrapped_bool_def)
  qed
qed


definition sample_sender :: audio_sender where
  "sample_sender = \<lparr>as_shitty = True, as_ec_level = 4, as_loss = Fin 9, as_resend = 1, as_ec = []\<rparr>"

definition sample_jitter :: jbuf where
  "sample_jitter = jb_new (\<lambda>_ d. d) (\<lambda>_ d. d) 60"

lemma sample_sender_simps [simp]: "as_ec sample_sender = []" "as_ec_level sample_sender = 4"
  by (simp_all add: sample_sender_def)

lemma new_pm_acked [simp]: "was_local_acked n (pm_new m i) \<longleftrightarrow> n = 0"
  by (cases "n = 0") (simp_all add: was_local_acked_def pm_new_def word_gt_0)


text \<open>
  A gap in the low-bitrate versions puts copies under the wrong numbers. The frames kept
  are not forgotten when the encoder stops making such versions. When it makes them again after
  \<open>k\<close> packets without one, the next packet repeats the frames from before the gap, and the
  receiver files each of them \<open>k\<close> numbers after its own.
\<close>

definition keep_version :: "byte list \<Rightarrow> audio_sender \<Rightarrow> audio_sender" where
  "keep_version f a = (if length f > 0 then keep_ec f a else a)"

lemma keep_versions: "\<forall>f \<in> set fs. f \<noteq> [] \<Longrightarrow> fold keep_version fs a = fold keep_ec fs a"
  by (induction fs arbitrary: a) (auto simp: keep_version_def)

lemma keep_none: "fold keep_version (replicate k []) a = a"
  by (induction k) (auto simp: keep_version_def)

theorem copies_after_gap:
  assumes "as_ec a = []" "\<forall>f \<in> set fs. f \<noteq> []" "8 \<le> length fs"
    and "1 \<le> d" "d \<le> 8" "d \<le> (length fs + k) mod 256" "d \<le> unat (as_ec_level a)"
    and "\<not> was_local_acked (of_nat (length fs + k) + 1 - of_nat d) pm"
  shows "ec_slots (fold keep_version (fs @ replicate k []) a) pm (of_nat (length fs + k) + 1) ! (8 - d)
      = Some (Some (fs ! (length fs - d)))
    \<and> (of_nat (length fs + k) - of_nat (8 - (8 - d)) :: u32) = of_nat (length fs - d) + of_nat k"
proof
  have e: "fold keep_version (fs @ replicate k []) a = fold keep_ec fs a"
    unfolding fold_append o_apply keep_none by (rule keep_versions [OF assms(2)])
  show "ec_slots (fold keep_version (fs @ replicate k []) a) pm (of_nat (length fs + k) + 1) ! (8 - d)
      = Some (Some (fs ! (length fs - d)))"
    unfolding e using ec_slot [OF assms(1), of fs "length fs + k" d pm] assms(3-) by (simp add: copied_def)
  show "(of_nat (length fs + k) - of_nat (8 - (8 - d)) :: u32) = of_nat (length fs - d) + of_nat k"
    using assms(3-5) by simp
qed

theorem copies_after_gap_witness:
  "ec_slots (fold keep_version ([[1], [2], [3], [4], [5], [6], [7], [8]] @ replicate 100 []) sample_sender) (pm_new 0 1) 109 ! 7
   = Some (Some [8])"
  using copies_after_gap [of sample_sender "[[1], [2], [3], [4], [5], [6], [7], [8]]" 1 100 "pm_new 0 1"] by simp

text \<open>
  The flags of an audio stream. The flag for error correction overlaps the one that says
  that the stream is on. So the peer of a stream that is on always expects error correction, and
  for a stream that is off but has error correction it sees an enabled one.
\<close>

theorem flags_overlap:
  fixes x :: out_stream and y :: in_stream
  assumes "os_type x = TYPE_AUDIO" "is_type y = TYPE_AUDIO"
  shows "is_enabled (apply_flags (stream_flags_of x) y) = (os_enabled x \<or> os_extra_ec x)
    \<and> is_extra_ec (apply_flags (stream_flags_of x) y) = (os_enabled x \<or> os_extra_ec x)
    \<and> is_paused (apply_flags (stream_flags_of x) y) = os_paused x"
  using assms by (cases "os_enabled x"; cases "os_extra_ec x"; cases "os_paused x")
    (simp_all add: apply_flags_def stream_flags_of_def set_extra_ec_def)

theorem flags_overlap_witness:
  "\<exists>(x :: out_stream) (y :: in_stream). \<not> os_extra_ec x \<and> \<not> is_extra_ec y \<and> is_extra_ec (apply_flags (stream_flags_of x) y)"
proof -
  define x where "x = outgoing_init 0 ! 1"
  define y :: in_stream where "y = \<lparr>is_id = 1, is_type = TYPE_AUDIO, is_enabled = True, is_paused = False, is_codec = Opus,
    is_frame = 60, is_extra_ec = False, is_jitter = None, is_reassembler = None,
    is_width = 0, is_height = 0, is_csd = [], is_csd_valid = False\<rparr>"
  have "is_extra_ec (apply_flags (stream_flags_of x) y) = (os_enabled x \<or> os_extra_ec x)"
    using flags_overlap [of x y] by (simp add: x_def y_def outgoing_init_def)
  then show ?thesis by (intro exI [of _ x] exI [of _ y]) (simp add: x_def y_def outgoing_init_def)
qed

end
