(* ===== verification/Sockets.thy ===== *)
theory Sockets
  imports Delivery
begin

section \<open>Sockets on top of sockets (NetworkSocket.cpp)\<close>

text \<open>
  The two sockets that the library puts on top of those of the operating system: the obfuscated TCP
  connection to a relay, which sends framed packets through a stream cipher, and the client side
  of a SOCKS5 proxy. A TCP connection delivers the sent bytes in pieces of any size: the model of
  what waits to be received is a list of pieces, each being what one call can find.
\<close>

subsection \<open>The cipher of the obfuscated connection\<close>

record o2_state =
  o2_key :: "byte list"
  o2_iv :: "byte list"
  o2_ecount :: "byte list"
  o2_num :: u32

text \<open>
  \<^verbatim>\<open>aes_ctr_encrypt\<close> is a parameter: it encrypts in place and moves the state on. Counter mode
  is a stream cipher: encryption of two parts is that of the whole, encryption a second time from the
  same state gives back the text, and the next state depends on the number of bytes alone.
\<close>

type_synonym stream_cipher = "o2_state \<Rightarrow> byte list \<Rightarrow> byte list \<times> o2_state"

definition ctr_ok :: "stream_cipher \<Rightarrow> bool" where
  "ctr_ok c \<longleftrightarrow>
     (\<forall>st xs ys. c st (xs @ ys) = (case c st xs of (a, st1) \<Rightarrow> case c st1 ys of (b, st2) \<Rightarrow> (a @ b, st2)))
   \<and> (\<forall>st xs. length (fst (c st xs)) = length xs)
   \<and> (\<forall>st xs. c st (fst (c st xs)) = (xs, snd (c st xs)))
   \<and> (\<forall>st xs ys. length xs = length ys \<longrightarrow> snd (c st xs) = snd (c st ys))"

definition o2_fresh :: "byte list \<Rightarrow> byte list \<Rightarrow> o2_state" where
  "o2_fresh key iv = \<lparr>o2_key = key, o2_iv = iv, o2_ecount = replicate 16 0, o2_num = 0\<rparr>"

definition word_at :: "nat \<Rightarrow> byte list \<Rightarrow> u32" where
  "word_at i b = un32 (b ! i) (b ! (i + 1)) (b ! (i + 2)) (b ! (i + 3))"

definition nonce_ok :: "byte list \<Rightarrow> bool" where
  "nonce_ok n \<longleftrightarrow> word_at 0 n \<notin> {0x44414548, 0x54534f50, 0x20544547, 0xeeeeeeee} \<and> word_at 4 n \<noteq> 0 \<and> n ! 0 \<noteq> 0xef"

text \<open>Random nonces are drawn until one cannot be taken for another protocol: the draws are an argument.\<close>

definition generate_tcpo2_states :: "stream_cipher \<Rightarrow> byte list list \<Rightarrow> (byte list \<times> o2_state \<times> o2_state) option" where
  "generate_tcpo2_states c draws = (case find nonce_ok draws of None \<Rightarrow> None
   | Some n \<Rightarrow>
       let send = o2_fresh (piece 8 32 n) (piece 40 16 n);
           back = rev (piece 8 48 n);
           recv = o2_fresh (piece 0 32 back) (piece 32 16 back);
           marked = take 56 n @ replicate 4 0xef @ drop 60 n
       in (case c send marked of (enc, send1) \<Rightarrow> Some (take 56 n @ piece 56 8 enc, recv, send1)))"

subsection \<open>Packets on the obfuscated connection\<close>

fun tcp_recv :: "nat \<Rightarrow> byte list list \<Rightarrow> byte list \<times> byte list list" where
  "tcp_recv n [] = ([], [])"
| "tcp_recv n (c # cs) = (take n c, if length c \<le> n then cs else drop n c # cs)"

text \<open>The length is sent in units of four bytes.\<close>

definition o2_header :: "byte list \<Rightarrow> byte list" where
  "o2_header d = (let n = length d div 4 in
     if n < 0x7F then [of_nat n]
     else [0x7F, of_nat n, of_nat (n div 256), of_nat (n div 65536)])"

definition o2_send :: "stream_cipher \<Rightarrow> byte list \<Rightarrow> o2_state \<Rightarrow> byte list \<times> o2_state" where
  "o2_send c d st = c st (o2_header d @ d)"

text \<open>
  The body is collected by a loop that passes the start of the buffer to each call, not the place
  reached. (\<open>junk\<close> stands for memory that is not initialized.)
\<close>

function o2_body :: "nat \<Rightarrow> byte list \<Rightarrow> byte list list \<Rightarrow> byte list option \<times> byte list list" where
  "o2_body n buf cs = (if n = 0 then (Some buf, cs)
     else (case tcp_recv n cs of (d, cs1) \<Rightarrow>
       if d = [] then (None, cs1) else o2_body (n - length d) (d @ drop (length d) buf) cs1))"
  by pat_completeness auto
termination by (relation "measure fst") (auto simp: neq_Nil_conv)

declare o2_body.simps [simp del]

definition o2_length :: "stream_cipher \<Rightarrow> byte list \<Rightarrow> o2_state \<Rightarrow> byte list list
    \<Rightarrow> (nat \<times> o2_state \<times> byte list list) option" where
  "o2_length c junk st cs = (case tcp_recv 1 cs of (h, cs1) \<Rightarrow>
     if h = [] then None
     else (case c st h of (h1, st1) \<Rightarrow>
       if h1 ! 0 < 0x7F then Some (unat (h1 ! 0) * 4, st1, cs1)
       else (case tcp_recv 3 cs1 of (l, cs2) \<Rightarrow>
         if l = [] then None
         else (case c st1 (l @ drop (length l) (take 3 junk)) of (l1, st2) \<Rightarrow>
           Some ((unat (l1 ! 0) + 256 * unat (l1 ! 1) + 65536 * unat (l1 ! 2)) * 4, st2, cs2)))))"

definition o2_receive :: "stream_cipher \<Rightarrow> byte list \<Rightarrow> o2_state \<Rightarrow> byte list list
    \<Rightarrow> (byte list \<times> o2_state \<times> byte list list) option" where
  "o2_receive c junk st cs = (case o2_length c junk st cs of None \<Rightarrow> None
   | Some (n, st1, cs1) \<Rightarrow>
       if n > 1500 then None
       else (case o2_body n (take n junk) cs1 of
               (None, _) \<Rightarrow> None
             | (Some buf, cs2) \<Rightarrow> (case c st1 buf of (d, st2) \<Rightarrow> Some (d, st2, cs2))))"

subsection \<open>The client of a SOCKS5 proxy\<close>

datatype socks_state = Sk_Initial | Sk_Auth_Method | Sk_Auth_Result | Sk_Command_Result | Sk_Connected

text \<open>What was sent on the TCP connection to the proxy is recorded.\<close>

record socks5 =
  sk_udp :: bool
  sk_user :: "byte list"
  sk_pass :: "byte list"
  sk_state :: socks_state
  sk_addr :: naddr
  sk_port :: u16
  sk_failed :: bool
  sk_ready :: bool
  sk_obfuscated :: bool
  sk_out :: "byte list list"

definition socks_new :: "bool \<Rightarrow> byte list \<Rightarrow> byte list \<Rightarrow> u16 \<Rightarrow> socks5" where
  "socks_new udp user pass port0 = \<lparr>sk_udp = udp, sk_user = user, sk_pass = pass, sk_state = Sk_Initial,
     sk_addr = no_address, sk_port = port0, sk_failed = False, sk_ready = False, sk_obfuscated = False, sk_out = []\<rparr>"

definition socks_connect :: "naddr \<Rightarrow> u16 \<Rightarrow> socks5 \<Rightarrow> socks5" where
  "socks_connect a p s = s\<lparr>sk_addr := a, sk_port := p\<rparr>"

definition sk_send :: "byte list \<Rightarrow> socks5 \<Rightarrow> socks5" where
  "sk_send m s = s\<lparr>sk_out := sk_out s @ [m]\<rparr>"

definition sk_fail :: "socks5 \<Rightarrow> socks5" where
  "sk_fail s = s\<lparr>sk_failed := True\<rparr>"

text \<open>\<^verbatim>\<open>htons\<close>, on a machine that stores the low byte first.\<close>

definition htons :: "u16 \<Rightarrow> u16" where
  "htons w = push_bit 8 w OR drop_bit 8 w"

fun addr_field :: "naddr \<Rightarrow> byte list" where
  "addr_field (IPv4 a) = 1 # le32 a"
| "addr_field (IPv6 a) = 4 # a"

definition send_connection_command :: "socks5 \<Rightarrow> socks5" where
  "send_connection_command s = (sk_send
     (if sk_udp s then [5, 3, 0, 1] @ le32 0 @ le16 0
      else [5, 1, 0] @ addr_field (sk_addr s) @ le16 (htons (sk_port s))) s)\<lparr>sk_state := Sk_Command_Result\<rparr>"

text \<open>
  The sockets below are asked for their answer when there is nothing to do here (\<open>inner\<close>).
\<close>

definition on_ready_to_send :: "bool \<Rightarrow> socks5 \<Rightarrow> bool \<times> socks5" where
  "on_ready_to_send inner s = (if sk_state s = Sk_Initial
     then (False, (sk_send ([5] @ (if sk_user s \<noteq> [] then [2, 0, 2] else [1, 0])) s)\<lparr>sk_state := Sk_Auth_Method\<rparr>)
     else (inner, s))"

definition sk_credentials :: "socks5 \<Rightarrow> byte list" where
  "sk_credentials s = (let u = take 255 (sk_user s); p = take 255 (sk_pass s)
     in [1, of_nat (length u)] @ u @ [of_nat (length p)] @ p)"

definition on_auth_method :: "byte list \<Rightarrow> bool \<Rightarrow> socks5 \<Rightarrow> socks5" where
  "on_auth_method d broken s = (if length d < 2 \<or> broken then sk_fail s
     else if d ! 0 \<noteq> 5 then sk_fail s
     else if d ! 1 = 0 then send_connection_command s
     else if d ! 1 = 2 \<and> sk_user s \<noteq> [] then (sk_send (sk_credentials s) s)\<lparr>sk_state := Sk_Auth_Result\<rparr>
     else sk_fail s)"

definition on_auth_result :: "byte list \<Rightarrow> bool \<Rightarrow> socks5 \<Rightarrow> socks5" where
  "on_auth_result d broken s = (if length d < 2 \<or> broken then sk_fail s
     else if d ! 0 \<noteq> 1 then sk_fail s
     else if d ! 1 \<noteq> 0 then sk_fail s
     else send_connection_command s)"

text \<open>
  After the command for a TCP connection, the connection to the proxy becomes the connection to the
  relay, and its obfuscation starts at once (with the 64 bytes \<open>start\<close>).
\<close>

definition on_connected :: "byte list \<Rightarrow> byte list \<Rightarrow> bool \<Rightarrow> socks5 \<Rightarrow> socks5" where
  "on_connected start d broken s = (if length d < 2 \<or> broken then sk_fail s
     else if d ! 0 \<noteq> 5 then sk_fail s
     else if d ! 1 \<noteq> 0 then sk_fail s
     else sk_send start (s\<lparr>sk_state := Sk_Connected, sk_obfuscated := True, sk_ready := True\<rparr>))"

text \<open>
  The address in the answer to UDP ASSOCIATE: \<open>None\<close> for an unknown type. The names are resolved by the
  operating system.
\<close>

definition reply_address :: "(byte list \<Rightarrow> naddr) \<Rightarrow> byte \<Rightarrow> istream \<Rightarrow> exn + naddr option \<times> istream" where
  "reply_address resolve ty i =
    (if ty = 1 then bind_res (read_int32 i) (\<lambda>(a, i1). Inr (Some (IPv4 a), i1))
     else if ty = 3 then bind_res (read_byte i) (\<lambda>(n, i1). bind_res (read_bytes (unat n) i1)
       (\<lambda>(d, i2). Inr (Some (resolve (takeWhile (\<lambda>b. b \<noteq> 0) d)), i2)))
     else if ty = 4 then bind_res (read_bytes 16 i) (\<lambda>(a, i1). Inr (Some (IPv6 a), i1))
     else Inr (None, i))"

definition on_associated :: "(byte list \<Rightarrow> naddr) \<Rightarrow> byte list \<Rightarrow> bool \<Rightarrow> socks5 \<Rightarrow> socks5" where
  "on_associated resolve d broken s = (if length d < 2 \<or> broken then sk_fail s
     else if d ! 0 \<noteq> 5 then sk_fail s
     else if d ! 1 \<noteq> 0 then sk_fail s
     else (case bind_res (read_byte ((istream_of d)\<lparr>ioff := 2\<rparr>)) (\<lambda>(_, i1). bind_res (read_byte i1) (\<lambda>(ty, i2).
               bind_res (reply_address resolve ty i2) (\<lambda>(r, i3). Inr (ty, r, i3)))) of
         Inl _ \<Rightarrow> sk_fail s
       | Inr (ty, None, _) \<Rightarrow> sk_fail s
       | Inr (ty, Some a, i) \<Rightarrow>
           let s1 = s\<lparr>sk_addr := a\<rparr> in
           if ty = 3 \<and> addr_empty a then sk_fail s1
           else (case read_int16 i of
               Inl _ \<Rightarrow> sk_fail s1
             | Inr (p, _) \<Rightarrow> s1\<lparr>sk_port := htons p, sk_state := Sk_Connected, sk_ready := True\<rparr>)))"

definition on_ready_to_receive :: "(byte list \<Rightarrow> naddr) \<Rightarrow> byte list \<Rightarrow> byte list \<Rightarrow> bool \<Rightarrow> socks5 \<Rightarrow> socks5" where
  "on_ready_to_receive resolve start d broken s = (case sk_state s of
     Sk_Auth_Method \<Rightarrow> on_auth_method d broken s
   | Sk_Auth_Result \<Rightarrow> on_auth_result d broken s
   | Sk_Command_Result \<Rightarrow> if sk_udp s then on_associated resolve d broken s else on_connected start d broken s
   | _ \<Rightarrow> s)"

definition need_select_for_sending :: "socks5 \<Rightarrow> bool" where
  "need_select_for_sending s \<longleftrightarrow> sk_state s = Sk_Initial \<or> sk_state s = Sk_Connected"

subsection \<open>Datagrams through the proxy\<close>

definition socks_wrap :: "naddr \<Rightarrow> u16 \<Rightarrow> byte list \<Rightarrow> byte list" where
  "socks_wrap a p d = [0, 0, 0] @ addr_field a @ le16 (htons p) @ d"

text \<open>
  A datagram that came from the proxy: the payload is copied before the port is read. (A type
  other than these leaves the address empty, and the receive thread drops the packet.)
\<close>

definition socks_unwrap :: "byte list \<Rightarrow> exn + byte list \<times> naddr \<times> u16" where
  "socks_unwrap b =
    bind_res (read_int16 (istream_of b)) (\<lambda>(_, i1). bind_res (read_byte i1) (\<lambda>(_, i2). bind_res (read_byte i2) (\<lambda>(ty, i3).
    bind_res (if ty = 1 then bind_res (read_int32 i3) (\<lambda>(a, i4). Inr (IPv4 a, i4))
              else if ty = 4 then bind_res (read_bytes 16 i3) (\<lambda>(a, i4). Inr (IPv6 a, i4))
              else Inr (no_address, i3)) (\<lambda>(a, i4).
    bind_res (read_int16 i4) (\<lambda>(p, _). Inr (rest i4, a, htons p))))))"

definition socks_receive :: "socks5 \<Rightarrow> net_packet \<Rightarrow> exn + net_packet option" where
  "socks_receive s np = (if np_data np \<noteq> [] \<and> np_port np \<noteq> 0 \<and> \<not> addr_empty (np_addr np)
       \<and> np_addr np = sk_addr s \<and> np_port np = sk_port s
     then bind_res (socks_unwrap (np_data np)) (\<lambda>(d, a, p).
            Inr (Some \<lparr>np_data = d, np_addr = a, np_port = p, np_tcp = \<not> sk_udp s\<rparr>))
     else Inr None)"

subsection \<open>The obfuscated connection\<close>

lemma ctr_append: "ctr_ok c \<Longrightarrow> c st (xs @ ys) = (case c st xs of (a, st1) \<Rightarrow> case c st1 ys of (b, st2) \<Rightarrow> (a @ b, st2))"
  unfolding ctr_ok_def by blast

lemma ctr_length [simp]: "ctr_ok c \<Longrightarrow> length (fst (c st xs)) = length xs"
  unfolding ctr_ok_def by blast

lemma ctr_again: "ctr_ok c \<Longrightarrow> c st (fst (c st xs)) = (xs, snd (c st xs))"
  unfolding ctr_ok_def by blast

lemma ctr_state: "ctr_ok c \<Longrightarrow> length xs = length ys \<Longrightarrow> snd (c st xs) = snd (c st ys)"
  unfolding ctr_ok_def by blast

lemma piece_prefix: "off + l \<le> m \<Longrightarrow> m \<le> length xs \<Longrightarrow> piece off l (take m xs @ ys) = piece off l xs"
  by (simp add: piece_def drop_take)

text \<open>
  The far end of an obfuscated connection can follow. From the 64 bytes that start the
  connection it takes a key and an initial value; with these it decrypts the same bytes, finds the
  marker of the protocol in them, and is then in step with the sender. The key for the other direction is that
  part of the 64 bytes backwards.
\<close>

theorem o2_far_end_follows:
  assumes "ctr_ok c" "generate_tcpo2_states c draws = Some (start, recv, send)" "\<forall>n \<in> set draws. length n = 64"
  defines "far \<equiv> o2_fresh (piece 8 32 start) (piece 40 16 start)"
  shows "length start = 64 \<and> piece 56 4 (fst (c far start)) = replicate 4 0xef \<and> snd (c far start) = send
    \<and> recv = o2_fresh (piece 0 32 (rev (piece 8 48 start))) (piece 32 16 (rev (piece 8 48 start)))"
proof -
  have find_SomeD: "find P xs = Some x \<Longrightarrow> x \<in> set xs" for P and x :: "byte list" and xs
    by (auto simp: find_Some_iff)
  obtain n where n: "find nonce_ok draws = Some n" "n \<in> set draws"
    using assms(2) find_SomeD by (fastforce simp: generate_tcpo2_states_def split: option.splits)
  then have len: "length n = 64" using assms(3) by simp
  let ?m = "replicate 4 0xef @ drop 60 n"
  let ?send = "o2_fresh (piece 8 32 n) (piece 40 16 n)"
  obtain a st1 b st2 where e: "c ?send (take 56 n) = (a, st1)" "c st1 ?m = (b, st2)" by (metis prod.exhaust)
  have m: "c ?send (take 56 n @ ?m) = (a @ b, st2)" using ctr_append [OF assms(1)] e by simp
  have la: "length a = 56" using ctr_length [OF assms(1), of ?send "take 56 n"] e len by simp
  have lb: "length b = 8" using ctr_length [OF assms(1), of st1 ?m] e len by simp
  have st: "start = take 56 n @ b" "send = st2"
    "recv = o2_fresh (piece 0 32 (rev (piece 8 48 n))) (piece 32 16 (rev (piece 8 48 n)))"
    using assms(2) n(1) m la lb by (auto simp: generate_tcpo2_states_def Let_def piece_def)
  have far: "far = ?send" unfolding far_def st(1) by (simp add: piece_prefix len)
  have p: "piece 8 48 start = piece 8 48 n" unfolding st(1) by (simp add: piece_prefix len)
  have "c st1 b = (?m, st2)" using ctr_again [OF assms(1), of st1 ?m] e by simp
  then have "c far start = (a @ ?m, st2)" unfolding far st(1) using ctr_append [OF assms(1)] e by simp
  then show ?thesis using st la len p lb by (simp add: piece_def)
qed

definition plain_ctr :: stream_cipher where
  "plain_ctr st xs = (map (\<lambda>x. x XOR 85) xs, st)"

lemma plain_ctr_ok: "ctr_ok plain_ctr"
  by (simp add: ctr_ok_def plain_ctr_def xor.assoc split_def o_def)

theorem o2_far_end_follows_witness:
  "\<exists>start recv send. generate_tcpo2_states plain_ctr [replicate 64 1] = Some (start, recv, send)
     \<and> piece 56 4 (fst (plain_ctr (o2_fresh (piece 8 32 start) (piece 40 16 start)) start)) = replicate 4 0xef"
proof -
  have "nonce_ok (replicate 64 1)"
    by (simp add: nonce_ok_def word_at_def un32_def)
  then have "\<exists>start recv send. generate_tcpo2_states plain_ctr [replicate 64 1] = Some (start, recv, send)"
    by (simp add: generate_tcpo2_states_def Let_def plain_ctr_def)
  then obtain start recv send where g: "generate_tcpo2_states plain_ctr [replicate 64 1] = Some (start, recv, send)"
    by blast
  show ?thesis using o2_far_end_follows [OF plain_ctr_ok g] g by auto
qed

subsection \<open>Framing\<close>

lemma o2_body_whole: "xs \<noteq> [] \<Longrightarrow> length buf \<le> length xs \<Longrightarrow> o2_body (length xs) buf (xs # cs) = (Some xs, cs)"
  by (subst o2_body.simps) (simp add: o2_body.simps)

text \<open>The three bytes of a length, and the header read back from the start of a piece.\<close>

lemma unat_length_bytes:
  "n < 2 ^ 24 \<Longrightarrow> unat (of_nat n :: byte) + 256 * unat (of_nat (n div 256) :: byte) + 65536 * unat (of_nat (n div 65536) :: byte) = n"
proof -
  assume n: "n < 2 ^ 24"
  have "n mod 256 + 256 * (n div 256 mod 256) = n mod 65536" using mod_mult2_eq [of n 256 256] by simp
  moreover have "n div 65536 < 256" using n by simp
  ultimately show ?thesis using mult_div_mod_eq [of 65536 n] by (simp add: unat_of_nat)
qed

lemma o2_length_whole:
  assumes c: "ctr_ok c" and d: "length d < 2 ^ 24"
    and w: "c st (o2_header d) = (h, st1)" "b \<noteq> []"
  shows "o2_length c junk st ((h @ b) # cs) = Some (length d div 4 * 4, st1, b # cs)"
proof -
  let ?n = "length d div 4"
  show ?thesis
  proof (cases "?n < 0x7F")
    case True
    then have o: "o2_header d = [of_nat ?n]" by (simp add: o2_header_def)
    obtain x where h: "h = [x]" using ctr_length [OF c, of st "[of_nat ?n]"] w(1) o by (cases h) auto
    have "c st [x] = ([of_nat ?n], st1)" using ctr_again [OF c, of st "[of_nat ?n]"] w(1) o h by simp
    moreover have "unat (of_nat ?n :: byte) = ?n" "(of_nat ?n :: byte) < 0x7F"
      using True by (simp_all add: unat_of_nat word_less_nat_alt)
    ultimately show ?thesis using w(2) by (simp add: o2_length_def h)
  next
    case False
    let ?l = "[of_nat ?n, of_nat (?n div 256), of_nat (?n div 65536)] :: byte list"
    have o: "o2_header d = [0x7F] @ ?l" using False by (simp add: o2_header_def Let_def)
    obtain x sx where x: "c st [0x7F] = ([x], sx)"
      using ctr_length [OF c, of st "[0x7F]"] by (cases "c st [0x7F]"; cases "fst (c st [0x7F])") auto
    obtain l sl where l: "c sx ?l = (l, sl)" by (cases "c sx ?l") auto
    have len: "length l = 3" using ctr_length [OF c, of sx ?l] l by simp
    have "c st (o2_header d) = ([x] @ l, sl)" unfolding o ctr_append [OF c] x using l by simp
    then have h: "h = [x] @ l" "st1 = sl" using w(1) by auto
    have "c st [x] = ([0x7F], sx)" using ctr_again [OF c, of st "[0x7F]"] x by simp
    moreover have "c sx l = (?l, sl)" using ctr_again [OF c, of sx ?l] l by simp
    moreover have "l \<noteq> []" "\<not> (0x7F :: byte) < 0x7F" using len by auto
    moreover have "unat (?l ! 0) + 256 * unat (?l ! 1) + 65536 * unat (?l ! 2) = ?n"
      using unat_length_bytes [of ?n] d by simp
    ultimately show ?thesis using w(2) len by (simp add: o2_length_def h)
  qed
qed

lemma o2_wire:
  assumes "ctr_ok c" "o2_send c d st = (wire, st2)"
  obtains h st1 b where "c st (o2_header d) = (h, st1)" "c st1 d = (b, st2)" "wire = h @ b"
  using assms(2) unfolding o2_send_def ctr_append [OF assms(1)] by (auto split: prod.splits)

text \<open>
  C35: a packet that arrives in one piece is received as it was sent, with the two ends in step
  again. The length of a packet is sent in units of four bytes, so it has to be a multiple of four.
\<close>

theorem o2_packet_in_one_piece:
  assumes c: "ctr_ok c" and d: "d \<noteq> []" "length d mod 4 = 0" "length d \<le> 1500"
    and w: "o2_send c d st = (wire, st2)"
  shows "o2_receive c junk st (wire # cs) = Some (d, st2, cs)"
proof -
  obtain h st1 b where p: "c st (o2_header d) = (h, st1)" "c st1 d = (b, st2)" "wire = h @ b"
    using o2_wire [OF c w] .
  have l: "length b = length d" "length d div 4 * 4 = length d" using ctr_length [OF c, of st1 d] p(2) d by auto
  have bne: "b \<noteq> []" using l(1) d(1) by (metis length_0_conv)
  have "o2_length c junk st ((h @ b) # cs) = Some (length d, st1, b # cs)"
    using o2_length_whole [OF c _ p(1) bne] d(3) l by simp
  moreover have "o2_body (length b) (take (length d) junk) (b # cs) = (Some b, cs)"
    using l d(1) by (intro o2_body_whole) auto
  moreover have "c st1 b = (d, st2)" using ctr_again [OF c, of st1 d] p(2) by simp
  ultimately show ?thesis using d(3) by (simp add: o2_receive_def p(3) l)
qed

theorem o2_packet_in_one_piece_witness:
  "o2_receive plain_ctr [] (o2_fresh [] []) [fst (o2_send plain_ctr (replicate 508 7) (o2_fresh [] []))]
   = Some (replicate 508 7, o2_fresh [] [], [])"
  using o2_packet_in_one_piece [OF plain_ctr_ok, of "replicate 508 7" "o2_fresh [] []"]
  by (simp add: o2_send_def plain_ctr_def)

text \<open>
  A packet that arrives in two pieces is garbled. Each call writes to the start of the
  buffer, so the second piece overwrites the first; the result is the packet that was sent only if the
  encrypted second piece happens to repeat the start of the encrypted packet.
\<close>

theorem o2_packet_in_two_pieces:
  assumes c: "ctr_ok c" and d: "length d mod 4 = 0" "length d \<le> 1500" "length d \<le> length junk"
    and w: "o2_send c d st = (wire, st2)" "wire = h @ a @ b" "length h = length (o2_header d)" "a \<noteq> []" "b \<noteq> []"
  shows "\<exists>p. o2_receive c junk st ((h @ a) # b # cs) = Some (p, st2, cs)
    \<and> (p = d \<longrightarrow> b = take (length b) (a @ b))"
proof -
  have ne: "d \<noteq> []" using w(2,3,4) ctr_length [OF c, of st "o2_header d @ d"] w(1) by (auto simp: o2_send_def)
  obtain h1 st1 e where p: "c st (o2_header d) = (h1, st1)" "c st1 d = (e, st2)" "wire = h1 @ e"
    using o2_wire [OF c w(1)] .
  have "length h1 = length h" using ctr_length [OF c, of st "o2_header d"] p(1) w(3) by simp
  then have hh: "h1 = h" "e = a @ b" using p(3) w(2) by auto
  have l: "length a + length b = length d" "length d div 4 * 4 = length d"
    using ctr_length [OF c, of st1 d] p(2) hh d by auto
  let ?buf = "b @ drop (length b) (a @ drop (length a) (take (length d) junk))"
  have body: "o2_body (length d) (take (length d) junk) (a # b # cs) = (Some ?buf, cs)"
  proof -
    have "0 < length b" "0 < length a" using w(4,5) by simp_all
    then have "length a < length d" "length b = length d - length a" "length d \<noteq> 0" using l(1) by linarith+
    then show ?thesis using w(4,5) by (subst o2_body.simps) (simp add: o2_body.simps)
  qed
  have "length ?buf = length d" using l d(3) by simp
  then have st: "snd (c st1 ?buf) = st2" using ctr_state [OF c, of ?buf d st1] p(2) by simp
  have len: "o2_length c junk st ((h @ a) # b # cs) = Some (length d, st1, a # b # cs)"
    using o2_length_whole [OF c _ p(1) w(4)] d(2) l hh by simp
  have "o2_receive c junk st ((h @ a) # b # cs) = Some (fst (c st1 ?buf), st2, cs)"
    using d(2) st by (simp add: o2_receive_def len body split_def)
  moreover have "b = take (length b) (a @ b)" if "fst (c st1 ?buf) = d"
  proof -
    have "c st1 d = (?buf, snd (c st1 ?buf))" using ctr_again [OF c, of st1 ?buf] that by simp
    then have "?buf = a @ b" using p(2) hh by simp
    then show ?thesis by (metis append_eq_conv_conj)
  qed
  ultimately show ?thesis by blast
qed

theorem o2_packet_in_two_pieces_witness:
  "\<exists>p. o2_receive plain_ctr (replicate 8 0) (o2_fresh [] []) [[87, 84, 87, 86, 81], [80, 83, 82, 93]] = Some (p, o2_fresh [] [], [])
     \<and> p \<noteq> [1, 2, 3, 4, 5, 6, 7, 8]"
proof -
  have "o2_send plain_ctr [1, 2, 3, 4, 5, 6, 7, 8] (o2_fresh [] []) = ([87] @ [84, 87, 86, 81] @ [80, 83, 82, 93], o2_fresh [] [])"
    by (simp add: o2_send_def o2_header_def plain_ctr_def)
  then show ?thesis
    using o2_packet_in_two_pieces [OF plain_ctr_ok, of "[1, 2, 3, 4, 5, 6, 7, 8]" "replicate 8 0" "o2_fresh [] []"
        "[87] @ [84, 87, 86, 81] @ [80, 83, 82, 93]" "o2_fresh [] []" "[87]" "[84, 87, 86, 81]" "[80, 83, 82, 93]" "[]"]
    by (simp add: o2_header_def)
qed

subsection \<open>The conversation with the proxy\<close>

text \<open>What the client has said in each state.\<close>

definition sk_greeting :: "socks5 \<Rightarrow> byte list" where
  "sk_greeting s = [5] @ (if sk_user s \<noteq> [] then [2, 0, 2] else [1, 0])"

definition sk_command :: "socks5 \<Rightarrow> byte list" where
  "sk_command s = (if sk_udp s then [5, 3, 0, 1] @ le32 0 @ le16 0
     else [5, 1, 0] @ addr_field (sk_addr s) @ le16 (htons (sk_port s)))"

text \<open>The progress of a conversation.\<close>

fun sk_rank :: "socks_state \<Rightarrow> nat" where
  "sk_rank Sk_Initial = 0" | "sk_rank Sk_Auth_Method = 1" | "sk_rank Sk_Auth_Result = 2"
| "sk_rank Sk_Command_Result = 3" | "sk_rank Sk_Connected = 4"

definition logins :: "socks5 \<Rightarrow> byte list list set" where
  "logins s = {[]} \<union> (if sk_user s \<noteq> [] then {[sk_credentials s]} else {})"

definition said :: "socks5 \<Rightarrow> bool" where
  "said s \<longleftrightarrow> (case sk_state s of
     Sk_Initial \<Rightarrow> sk_out s = []
   | Sk_Auth_Method \<Rightarrow> sk_out s = [sk_greeting s]
   | Sk_Auth_Result \<Rightarrow> sk_user s \<noteq> [] \<and> sk_out s = [sk_greeting s, sk_credentials s]
   | Sk_Command_Result \<Rightarrow> (\<exists>login \<in> logins s. sk_out s = [sk_greeting s] @ login @ [sk_command s])
   | Sk_Connected \<Rightarrow> (\<exists>login \<in> logins s. \<exists>start. sk_out s = [sk_greeting s] @ login @ [sk_command s] @ start
       \<and> length start = (if sk_udp s then 0 else 1)))"

definition talk_ok :: "socks5 \<Rightarrow> bool" where
  "talk_ok s \<longleftrightarrow> said s \<and> (sk_ready s \<longleftrightarrow> sk_state s = Sk_Connected)
     \<and> (sk_obfuscated s \<longleftrightarrow> sk_state s = Sk_Connected \<and> \<not> sk_udp s)"

inductive socks_run :: "socks5 \<Rightarrow> bool" where
  new: "socks_run (socks_connect a p (socks_new udp user pass port0))"
| ready_to_send: "socks_run s \<Longrightarrow> on_ready_to_send inner s = (r, t) \<Longrightarrow> socks_run t"
| ready_to_receive: "socks_run s \<Longrightarrow> socks_run (on_ready_to_receive resolve start d broken s)"

lemmas talk_defs = talk_ok_def said_def sk_greeting_def sk_command_def logins_def sk_credentials_def
lemmas sk_defs = sk_send_def sk_fail_def send_connection_command_def

lemma talk_fail [simp]: "talk_ok (sk_fail s) = talk_ok s"
  by (simp add: talk_defs sk_fail_def cong: socks_state.case_cong)

lemma talk_command: "talk_ok s \<Longrightarrow> sk_state s = Sk_Auth_Method \<or> sk_state s = Sk_Auth_Result
    \<Longrightarrow> talk_ok (send_connection_command s)"
  by (auto simp: talk_defs sk_send_def send_connection_command_def Let_def)

lemma talk_receive: "talk_ok s \<Longrightarrow> talk_ok (on_ready_to_receive resolve start d broken s)"
proof (cases "sk_state s")
  case Sk_Auth_Method
  assume a: "talk_ok s"
  have "talk_ok ((sk_send (sk_credentials s) s)\<lparr>sk_state := Sk_Auth_Result\<rparr>)" if "sk_user s \<noteq> []"
    using a that Sk_Auth_Method by (simp add: talk_defs sk_send_def Let_def)
  then show ?thesis using a Sk_Auth_Method talk_command [OF a]
    by (simp add: on_ready_to_receive_def on_auth_method_def)
next
  case Sk_Auth_Result
  assume a: "talk_ok s"
  then show ?thesis using Sk_Auth_Result talk_command [OF a]
    by (simp add: on_ready_to_receive_def on_auth_result_def)
next
  case Sk_Command_Result
  assume a: "talk_ok s"
  have con: "talk_ok (sk_send start (s\<lparr>sk_state := Sk_Connected, sk_obfuscated := True, sk_ready := True\<rparr>))" if "\<not> sk_udp s"
    using a that Sk_Command_Result by (auto simp: talk_defs sk_send_def Let_def)
  have ass: "talk_ok (s\<lparr>sk_addr := x, sk_port := p, sk_state := Sk_Connected, sk_ready := True\<rparr>)"
    and par: "talk_ok (s\<lparr>sk_addr := x\<rparr>)" if "sk_udp s" for x p
    using a that Sk_Command_Result by (auto simp: talk_defs Let_def)
  show ?thesis using a Sk_Command_Result con ass par
    by (auto simp: on_ready_to_receive_def on_connected_def on_associated_def Let_def
        split: sum.split option.split)
qed (auto simp: on_ready_to_receive_def)

lemma talk_run: "socks_run s \<Longrightarrow> talk_ok s"
proof (induction rule: socks_run.induct)
  case (new a p udp user pass port0)
  then show ?case by (simp add: talk_defs socks_connect_def socks_new_def)
next
  case (ready_to_send s inner r t)
  then show ?case by (auto simp: on_ready_to_send_def talk_defs sk_send_def Let_def split: if_splits)
next
  case (ready_to_receive s resolve start d broken)
  then show ?case by (blast intro: talk_receive)
qed

text \<open>
  C22: the conversation with a proxy follows the protocol, whatever the proxy answers and when. In every
  state that the client reaches it has said exactly: the greeting, the credentials if it has any and was
  asked for them, and one command, in this order, and for a TCP connection the 64 bytes that start
  the connection to the relay. It counts as ready when, and only when, the command was answered with success.
\<close>

theorem socks_conversation:
  assumes "socks_run s"
  shows "said s \<and> (sk_ready s \<longleftrightarrow> sk_state s = Sk_Connected)
    \<and> (sk_obfuscated s \<longleftrightarrow> sk_state s = Sk_Connected \<and> \<not> sk_udp s) \<and> length (sk_out s) \<le> 4"
proof -
  have t: "talk_ok s" using talk_run [OF assms] .
  then have "length (sk_out s) \<le> 4"
    by (cases "sk_state s") (auto simp: talk_ok_def said_def logins_def split: if_splits)
  then show ?thesis using t by (simp add: talk_ok_def)
qed

theorem socks_conversation_witness:
  "sk_out (on_ready_to_receive (\<lambda>_. no_address) [] [5, 0] False (snd (on_ready_to_send True
      (socks_connect (IPv4 1) 80 (socks_new False [] [] 0))))) = [[5, 1, 0], [5, 1, 0, 1, 1, 0, 0, 0, 0, 80]]
   \<and> said (snd (on_ready_to_send True (socks_connect (IPv4 1) 80 (socks_new False [] [] 0))))"
proof
  have "socks_run (snd (on_ready_to_send True (socks_connect (IPv4 1) 80 (socks_new False [] [] 0))))"
    using ready_to_send [OF new] by (metis prod.collapse)
  then show "said (snd (on_ready_to_send True (socks_connect (IPv4 1) 80 (socks_new False [] [] 0))))"
    using socks_conversation by blast
  show "sk_out (on_ready_to_receive (\<lambda>_. no_address) [] [5, 0] False (snd (on_ready_to_send True
      (socks_connect (IPv4 1) 80 (socks_new False [] [] 0))))) = [[5, 1, 0], [5, 1, 0, 1, 1, 0, 0, 0, 0, 80]]"
    by (simp add: on_ready_to_send_def socks_connect_def socks_new_def sk_defs on_ready_to_receive_def
        on_auth_method_def htons_def le32_def le16_def)
qed

definition sk_answers :: "(byte list \<Rightarrow> naddr) \<Rightarrow> byte list \<Rightarrow> (byte list \<times> bool) list \<Rightarrow> socks5 \<Rightarrow> socks5" where
  "sk_answers resolve start ds s = fold (\<lambda>(d, broken). on_ready_to_receive resolve start d broken) ds s"

lemma sk_step:
  assumes "t = on_ready_to_receive resolve start d broken s"
  shows "(sk_failed t \<and> sk_state t = sk_state s \<and> sk_out t = sk_out s) \<or> sk_rank (sk_state t) > sk_rank (sk_state s)
    \<or> sk_state s = Sk_Initial \<and> t = s \<or> sk_state s = Sk_Connected \<and> t = s"
  unfolding assms
  by (cases "sk_state s")
    (auto simp: on_ready_to_receive_def on_auth_method_def on_auth_result_def on_connected_def on_associated_def sk_defs Let_def
      split: sum.split option.split)

lemma sk_failed_stays: "sk_failed s \<Longrightarrow> sk_failed (on_ready_to_receive resolve start d broken s)"
  by (cases "sk_state s")
    (auto simp: on_ready_to_receive_def on_auth_method_def on_auth_result_def on_connected_def on_associated_def sk_defs Let_def
      split: sum.split option.split)

lemma sk_rank_4: "sk_rank st \<le> 4" "4 \<le> sk_rank st \<longleftrightarrow> st = Sk_Connected" "0 < sk_rank st \<longleftrightarrow> st \<noteq> Sk_Initial"
  by (cases st; simp)+

lemma sk_answers_failed: "sk_failed s \<Longrightarrow> sk_failed (sk_answers resolve start ds s)"
  by (induction ds arbitrary: s) (auto simp: sk_answers_def sk_failed_stays)

lemma sk_answers_rank:
  "sk_state s \<noteq> Sk_Initial \<Longrightarrow> \<not> sk_failed (sk_answers resolve start ds s)
    \<Longrightarrow> min 4 (sk_rank (sk_state s) + length ds) \<le> sk_rank (sk_state (sk_answers resolve start ds s))"
proof (induction ds arbitrary: s)
  case (Cons x ds)
  obtain d broken where x: "x = (d, broken)" by fastforce
  define t where "t = on_ready_to_receive resolve start d broken s"
  have a: "sk_answers resolve start (x # ds) s = sk_answers resolve start ds t"
    by (simp add: sk_answers_def x t_def)
  then have nf: "\<not> sk_failed t" using Cons.prems(2) sk_answers_failed by metis
  have "sk_rank (sk_state t) > sk_rank (sk_state s) \<or> sk_rank (sk_state t) = 4"
    using sk_step [OF t_def] nf Cons.prems(1) by fastforce
  then have r: "min 4 (sk_rank (sk_state s) + 1) \<le> sk_rank (sk_state t)" by linarith
  then have "0 < sk_rank (sk_state t)" by linarith
  then have "sk_state t \<noteq> Sk_Initial" using sk_rank_4(3) by blast
  then have "min 4 (sk_rank (sk_state t) + length ds) \<le> sk_rank (sk_state (sk_answers resolve start ds t))"
    using Cons.IH [of t] Cons.prems(2) by (simp only: a simp_thms)
  then show ?case using r by (simp only: a list.size)
qed (simp add: sk_answers_def)

text \<open>
  The conversation with a proxy ends. Each answer that is waited for either fails the
  connection or brings it forward, so once the greeting is sent, three answers decide: the
  connection is made or has failed, and a failure is final.
\<close>

theorem socks_talk_ends:
  assumes "sk_state s \<noteq> Sk_Initial" "3 \<le> length ds"
  shows "sk_failed (sk_answers resolve start ds s) \<or> sk_state (sk_answers resolve start ds s) = Sk_Connected"
proof (cases "sk_failed (sk_answers resolve start ds s)")
  case False
  have "0 < sk_rank (sk_state s)" using assms(1) sk_rank_4(3) by blast
  then have "4 \<le> min 4 (sk_rank (sk_state s) + length ds)" using assms(2) by simp
  then show ?thesis using sk_answers_rank [OF assms(1) False] sk_rank_4(2) by (metis order_trans)
qed simp

theorem socks_talk_ends_witness:
  "let t = sk_answers (\<lambda>_. no_address) [] [([5, 0], False), ([5, 0], False), ([], False)]
      (snd (on_ready_to_send True (socks_connect (IPv4 1) 80 (socks_new False [] [] 0))))
   in sk_failed t \<or> sk_state t = Sk_Connected"
  unfolding Let_def
  by (rule socks_talk_ends) (simp_all add: on_ready_to_send_def socks_connect_def socks_new_def sk_defs)

definition sk_reply :: "naddr \<Rightarrow> u16 \<Rightarrow> byte list" where
  "sk_reply a p = [5, 0, 0] @ addr_field a @ le16 (htons p)"

definition sk_good :: "byte \<Rightarrow> naddr \<Rightarrow> u16 \<Rightarrow> (byte list \<times> bool) list" where
  "sk_good m a p = [([5, m], False)] @ (if m = 2 then [([1, 0], False)] else []) @ [(sk_reply a p, False)]"

lemma htons_twice [simp]: "htons (htons w) = w"
  unfolding htons_def by (rule bit_word_eqI) (auto simp: bit_simps)

lemma length_addr_field: "(\<forall>b. a = IPv6 b \<longrightarrow> length b = 16) \<Longrightarrow> length (addr_field a) = (case a of IPv4 _ \<Rightarrow> 5 | IPv6 _ \<Rightarrow> 17)"
  by (cases a) auto

lemma rest_from_2: "rest ((istream_of d)\<lparr>ioff := 2\<rparr>) = drop 2 d"
  by (simp add: rest_def istream_of_def)

lemma associated_reply:
  assumes "\<forall>b. a = IPv6 b \<longrightarrow> length b = 16"
  shows "on_associated resolve (sk_reply a q) False s = s\<lparr>sk_addr := a, sk_port := q, sk_state := Sk_Connected, sk_ready := True\<rparr>"
proof -
  define i where "i = (istream_of (sk_reply a q))\<lparr>ioff := 2\<rparr>"
  have r: "rest i = 0 # addr_field a @ le16 (htons q)" by (simp add: i_def rest_from_2 sk_reply_def)
  show ?thesis
  proof (cases a)
    case (IPv4 x)
    have "read_byte i = Inr (0, adv 1 i)" "read_byte (adv 1 i) = Inr (1, adv 1 (adv 1 i))"
      "read_int32 (adv 1 (adv 1 i)) = Inr (x, adv 4 (adv 1 (adv 1 i)))"
      "read_int16 (adv 4 (adv 1 (adv 1 i))) = Inr (htons q, adv 2 (adv 4 (adv 1 (adv 1 i))))"
      using r IPv4 read_byte_Cons [of i] read_byte_Cons [of "adv 1 i"]
      by (auto intro!: read_int32_le [where xs = "le16 (htons q)"] read_int16_le [where xs = "[]"] simp: rest_adv)
    then show ?thesis unfolding on_associated_def i_def [symmetric]
      by (simp add: IPv4 reply_address_def sk_reply_def)
  next
    case (IPv6 x)
    have "read_byte i = Inr (0, adv 1 i)" "read_byte (adv 1 i) = Inr (4, adv 1 (adv 1 i))"
      "read_bytes 16 (adv 1 (adv 1 i)) = Inr (x, adv 16 (adv 1 (adv 1 i)))"
      "read_int16 (adv 16 (adv 1 (adv 1 i))) = Inr (htons q, adv 2 (adv 16 (adv 1 (adv 1 i))))"
      using r IPv6 assms read_byte_Cons [of i] read_byte_Cons [of "adv 1 i"]
      by (auto intro!: read_bytes_append [where xs = "le16 (htons q)"] read_int16_le [where xs = "[]"] simp: rest_adv)
    then show ?thesis unfolding on_associated_def i_def [symmetric]
      by (simp add: IPv6 reply_address_def sk_reply_def)
  qed
qed

text \<open>
  With a proxy that follows the protocol the connection is made. The proxy chooses a method that was
  offered, accepts the credentials, and answers the command with success: then the client is ready,
  has sent the greeting, the credentials if asked, and the command; and for UDP it takes
  the address and the port from the answer.
\<close>

theorem socks_handshake_succeeds:
  assumes s: "s = socks_connect a p (socks_new udp user pass port0)"
    and "m = 0 \<or> m = 2 \<and> user \<noteq> []" "\<forall>b. b' = IPv6 b \<longrightarrow> length b = 16"
  shows "let t = sk_answers resolve start (sk_good m b' q) (snd (on_ready_to_send inner s))
    in sk_state t = Sk_Connected \<and> sk_ready t \<and> \<not> sk_failed t
      \<and> sk_out t = [sk_greeting s] @ (if m = 2 then [sk_credentials s] else []) @ [sk_command s] @ (if udp then [] else [start])
      \<and> (if udp then sk_addr t = b' \<and> sk_port t = q else sk_addr t = a \<and> sk_port t = p)"
proof -
  have len: "length (sk_reply b' q) \<ge> 2" "sk_reply b' q ! 0 = 5" "sk_reply b' q ! 1 = 0"
    by (simp_all add: sk_reply_def)
  note defs = s sk_answers_def sk_good_def on_ready_to_send_def socks_connect_def socks_new_def on_ready_to_receive_def
    on_auth_method_def on_auth_result_def sk_send_def send_connection_command_def sk_greeting_def sk_command_def sk_credentials_def
  show ?thesis
  proof (cases udp)
    case True
    then show ?thesis using assms(2) by (auto simp: defs associated_reply [OF assms(3)] Let_def)
  next
    case False
    then show ?thesis using assms(2) len by (auto simp: defs on_connected_def Let_def)
  qed
qed

theorem socks_handshake_succeeds_witness:
  "sk_port (sk_answers (\<lambda>_. no_address) [] (sk_good 2 (IPv4 7) 1080)
      (snd (on_ready_to_send True (socks_connect (IPv4 1) 80 (socks_new True [65] [66] 0))))) = 1080"
  using socks_handshake_succeeds [OF refl, of 2 "[65]" "IPv4 7" "\<lambda>_. no_address" "[]" 1080 True "IPv4 1" 80 True "[66]" 0]
  by (simp add: Let_def)

subsection \<open>Datagrams through the proxy\<close>

text \<open>
  Datagrams that come through a proxy are shifted. The proxy puts in front of the payload what the
  client itself puts there; the client finds the address and the port, but its
  payload begins with the two bytes of the port. So no packet of a relay passes the comparison of its tag,
  unless the tag goes on after the port just as it begins, and is dropped without any effect.
\<close>

lemma socks_unwrap_wrap:
  assumes "\<forall>b. a = IPv6 b \<longrightarrow> length b = 16"
  shows "socks_unwrap (socks_wrap a p d) = Inr (le16 (htons p) @ d, a, p)"
proof -
  define i where "i = istream_of (socks_wrap a p d)"
  have r: "rest i = le16 0 @ 0 # addr_field a @ le16 (htons p) @ d" by (simp add: i_def socks_wrap_def le16_def rest_istream_of)
  then have h: "read_int16 i = Inr (0, adv 2 i)" "read_byte (adv 2 i) = Inr (0, adv 1 (adv 2 i))"
    using read_byte_Cons [of "adv 2 i"] by (auto intro!: read_int16_le simp: rest_adv)
  show ?thesis
  proof (cases a)
    case (IPv4 x)
    let ?j = "adv 1 (adv 1 (adv 2 i))"
    have "read_byte (adv 1 (adv 2 i)) = Inr (1, ?j)" "read_int32 ?j = Inr (x, adv 4 ?j)"
      "read_int16 (adv 4 ?j) = Inr (htons p, adv 2 (adv 4 ?j))" "rest (adv 4 ?j) = le16 (htons p) @ d"
      using r IPv4 read_byte_Cons [of "adv 1 (adv 2 i)"]
      by (auto intro!: read_int32_le read_int16_le [where xs = d] simp: rest_adv)
    then show ?thesis unfolding socks_unwrap_def i_def [symmetric] by (simp add: h IPv4)
  next
    case (IPv6 x)
    let ?j = "adv 1 (adv 1 (adv 2 i))"
    have "read_byte (adv 1 (adv 2 i)) = Inr (4, ?j)" "read_bytes 16 ?j = Inr (x, adv 16 ?j)"
      "read_int16 (adv 16 ?j) = Inr (htons p, adv 2 (adv 16 ?j))" "rest (adv 16 ?j) = le16 (htons p) @ d"
      using r IPv6 assms read_byte_Cons [of "adv 1 (adv 2 i)"]
      by (auto intro!: read_bytes_append read_int16_le [where xs = d] simp: rest_adv)
    then show ?thesis unfolding socks_unwrap_def i_def [symmetric] by (simp add: h IPv6)
  qed
qed

theorem socks_datagrams_shifted:
  assumes "\<forall>b. a = IPv6 b \<longrightarrow> length b = 16" "np_data np = socks_wrap a p d"
    "np_addr np = sk_addr s" "np_port np = sk_port s" "np_port np \<noteq> 0" "\<not> addr_empty (np_addr np)"
    and "at_endpoint k c = Inr e" "is_reflector e" "d = peer_tag e @ x" "length (peer_tag e) = 16"
  shows "\<exists>np'. socks_receive s np = Inr (Some np') \<and> np_addr np' = a \<and> np_port np' = p
    \<and> np_data np' = le16 (htons p) @ d \<and> np_data np' \<noteq> d
    \<and> (peer_tag e = le16 (htons p) @ take 14 (peer_tag e) \<or> process_datagram env k np' c = Inr c)"
proof -
  let ?np = "\<lparr>np_data = le16 (htons p) @ d, np_addr = a, np_port = p, np_tcp = \<not> sk_udp s\<rparr>"
  have "socks_wrap a p d \<noteq> []" by (simp add: socks_wrap_def)
  then have "socks_receive s np = Inr (Some ?np)"
    using assms(2-6) socks_unwrap_wrap [OF assms(1)] by (simp add: socks_receive_def)
  moreover have "le16 (htons p) @ d \<noteq> d" by (simp add: le16_def)
  moreover have "take 16 (le16 (htons p) @ d) = le16 (htons p) @ take 14 (peer_tag e)" using assms(9,10) by simp
  then have "skip_tag e ?np c = None" if "peer_tag e \<noteq> le16 (htons p) @ take 14 (peer_tag e)"
    using that assms(8-10) by (simp add: skip_tag_def remaining_rest Let_def)
  ultimately show ?thesis using assms(7)
    by (intro exI [of _ ?np]) (cases "peer_tag e = le16 (htons p) @ take 14 (peer_tag e)"; simp add: process_datagram_def)
qed

definition via_proxy :: "net_packet \<Rightarrow> net_packet" where
  "via_proxy np = \<lparr>np_data = socks_wrap (np_addr np) (np_port np) (np_data np), np_addr = IPv4 9, np_port = 1080, np_tcp = False\<rparr>"

definition proxied :: socks5 where
  "proxied = (socks_connect (IPv4 9) 1080 (socks_new True [] [] 0))\<lparr>sk_state := Sk_Connected, sk_ready := True\<rparr>"

theorem socks_datagrams_shifted_witness:
  "\<exists>np'. socks_receive proxied (via_proxy (sample_datagram packet_new)) = Inr (Some np')
    \<and> np_data np' = le16 (htons 443) @ np_data (sample_datagram packet_new)
    \<and> process_datagram sample_env 5 np' (sample_side False) = Inr (sample_side False)"
proof -
  have "le16 (htons 443) = [1, 187]" by (simp add: htons_def le16_def)
  then have second: "(le16 (htons 443) @ take 14 (replicate 16 1)) ! 1 = 187" "replicate 16 (1::byte) ! 1 = 1" by simp_all
  have ne: "replicate 16 1 \<noteq> le16 (htons 443) @ take 14 (replicate 16 (1::byte))"
  proof
    assume "replicate 16 1 = le16 (htons 443) @ take 14 (replicate 16 (1::byte))"
    then have "(1::byte) = 187" using second by (simp only:)
    then show False by simp
  qed
  obtain x where x: "np_data (sample_datagram packet_new) = peer_tag sample_relay @ x" by (simp add: sample_datagram_def)
  show ?thesis
    using socks_datagrams_shifted [of "IPv4 3" "via_proxy (sample_datagram packet_new)" 443 "np_data (sample_datagram packet_new)"
        proxied 5 "sample_side False" sample_relay x sample_env] ne x
    by (auto simp: via_proxy_def proxied_def socks_connect_def sample_datagram_def)
qed

end
