(* ===== verification/Threads.thy ===== *)
theory Threads
  imports Calls
begin

section \<open>The threads around the message thread (Loop.cpp)\<close>

text \<open>
  What the receive thread posts and in which order, how both threads end when the call is
  stopped, and how the send thread can end before.
\<close>

subsection \<open>What is posted for immediate delivery\<close>

definition immediate :: "'z session_scheme \<Rightarrow> task option list" where
  "immediate s = map func (takeWhile (\<lambda>m. deliver_at m \<le> 0) (mt_queue s))"

lemma takeWhile_again: "takeWhile P (takeWhile P xs @ ys) = takeWhile P xs @ takeWhile P ys"
  by (induction xs) auto

lemma takeWhile_rest: "takeWhile P (dropWhile P xs) = []"
  by (induction xs) auto

lemma post_now: "post_only env f 0 0 s = mt_insert \<lparr>msg_id = last_message_id s, deliver_at = 0, interval = 0, func = Some f\<rparr>
    (s\<lparr>last_message_id := last_message_id s + 1\<rparr>)"
  by (simp add: post_only_def post_def mt_post_def Let_def)

lemma immediate_post: "by_time (mt_queue s) \<Longrightarrow> immediate (post_only env f 0 0 s) = immediate s @ [Some f]
    \<and> by_time (mt_queue (post_only env f 0 0 s))"
  by (simp add: post_now mt_insert_def by_time_insert immediate_def)
    (simp add: insert_message_sorted takeWhile_again takeWhile_rest)

definition usable :: "net_packet \<Rightarrow> bool" where
  "usable np \<longleftrightarrow> \<not> addr_empty (np_addr np) \<and> np_data np \<noteq> []"

lemma immediate_received: "by_time (mt_queue s) \<Longrightarrow>
    immediate (fold (post_received env) nps s) = immediate s @ map (Some \<circ> Run_Received) (filter usable nps)
    \<and> by_time (mt_queue (fold (post_received env) nps s))"
proof (induction nps arbitrary: s)
  case (Cons np nps)
  then show ?case using immediate_post [OF Cons.prems, of env "Run_Received np"] Cons.IH [of "post_received env np s"]
    by (auto simp: post_received_def usable_def)
qed simp

lemma immediate_record: "immediate (s\<lparr>recv_thread := x\<rparr>) = immediate s"
  by (simp add: immediate_def)

text \<open>
  C15: what a pass of the receive thread does with what it reads. When no socket failed, the datagrams that
  have a source and a content are handed to the message thread completely, once each and in the
  order in which they were read, behind everything posted before and before the retry of
  the packets that wait for a socket; when a socket failed, nothing that was read is handed over.
\<close>

theorem datagrams_in_order:
  assumes "call_running s"
  shows "immediate (end_select env r s) = immediate s
    @ (if sel_cancelled r \<or> \<not> run_receiver s then []
       else if sel_udp_failed r then [Some (Notify_State Failed)]
       else if sel_tcp_failed r \<noteq> [] then []
       else map (Some \<circ> Run_Received) (filter usable (sel_received r)) @ (if sel_writable r then [Some Run_Try_Send] else []))"
proof -
  have q: "by_time (mt_queue s)" using running_ok [OF assms(1)] by (simp add: call_ok_def)
  have close: "immediate (fold close_failed ks t) = immediate t" for ks and t :: controller
    by (induction ks arbitrary: t)
      (auto simp: close_failed_def modify_endpoint_def call_out_def immediate_def split: option.split)
  have fail: "immediate (set_state env Failed s) = immediate s @ [Some (Notify_State Failed)]"
    using immediate_post [of "s\<lparr>call_state := Failed, state_change_time := now env\<rparr>" env "Notify_State Failed"] q
    by (simp add: set_state_def enter_state_def Let_def) (simp add: immediate_def)
  show ?thesis
    using immediate_received [OF q, of env "sel_received r"] close fail
      immediate_post [of "fold (post_received env) (sel_received r) s" env Run_Try_Send]
    by (auto simp: end_select_def Let_def immediate_record)
qed

theorem datagrams_in_order_witness:
  "\<exists>s np. call_running s \<and> Some (Run_Received np) \<in> set (immediate (end_select sample_env
     \<lparr>sel_cancelled = False, sel_udp_failed = False, sel_tcp_failed = [], sel_received = [np], sel_writable = True\<rparr> s))"
proof -
  obtain s where s: "call_running s" "run_receiver s" using sample_running by blast
  let ?np = "\<lparr>np_data = [1], np_addr = IPv4 3, np_port = 443, np_tcp = False\<rparr>"
  have "usable ?np" by (simp add: usable_def)
  then show ?thesis using datagrams_in_order [OF s(1), of sample_env "\<lparr>sel_cancelled = False, sel_udp_failed = False,
      sel_tcp_failed = [], sel_received = [?np], sel_writable = True\<rparr>"] s
    by (intro exI [of _ s] exI [of _ ?np]) simp
qed

subsection \<open>The send thread\<close>

lemma lan_id: "ID_LANv4 \<noteq> 0"
  by (simp add: ID_LANv4_def id_of_name_def fourcc_def)

text \<open>
  C38: a peer that names a port of 0 for its address in the local network silences the other
  side. The address is stored; the first packet that is handed over for it, such as a ping, counts as the
  empty packet that stops a call, so the send thread ends, and nothing starts it again.
\<close>

theorem port_zero_ends_sending:
  assumes "allow_p2p s" "lan_port d = 0" "pp_endpoint p = ID_LANv4" "udp_ready env" "use_udp s" "\<not> stopping s"
    and "bq_items (raw_queue s) = []" "\<not> send_ended s"
    and "send_or_enqueue env p b (on_lan_endpoint env d s) = Inr t"
  shows "\<exists>u. send_pass t = Some u \<and> send_ended u \<and> (\<forall>v :: controller. send_ended v \<longrightarrow> send_pass v = None)"
proof -
  have lan: "get_endpoint_by_id ID_LANv4 (on_lan_endpoint env d s)
      = Inr (Some (endpoint_new env ID_LANv4 0 (lan_address d) no_address UDP_P2P_LAN (replicate 16 0)))"
    using assms(1,2) by (simp add: get_endpoint_by_id_def on_lan_endpoint_def put_endpoint_def om_get_put lan_id)
  have same: "raw_queue (on_lan_endpoint env d s) = raw_queue s" "stopping (on_lan_endpoint env d s) = stopping s"
      "use_udp (on_lan_endpoint env d s) = use_udp s" "send_ended (on_lan_endpoint env d s) = send_ended s"
    by (simp_all add: on_lan_endpoint_def put_endpoint_def)
  let ?e = "endpoint_new env ID_LANv4 0 (lan_address d) no_address UDP_P2P_LAN (replicate 16 0)"
  have ty: "ep_type ?e = UDP_P2P_LAN" "ep_port ?e = 0" by (simp_all add: endpoint_new_def)
  have "hand_over env ID_LANv4 ?e p (on_lan_endpoint env d s) = Inr t"
    using assms(3-6,9) lan same ty by (simp add: send_or_enqueue_def find_endpoint_def open_socket_def can_send_def lan_id)
  then obtain q where q: "bq_put (raw_of ID_LANv4 ?e p) (raw_queue s) = Some q" "raw_queue t = q" "send_ended t = send_ended s"
    using same by (auto simp: hand_over_def bind_res_Inr_conv on_stream_def Let_def split: option.splits if_splits)
  have "raw_empty (raw_of ID_LANv4 ?e p)" using ty by (simp add: raw_empty_def raw_of_def)
  moreover have "bq_items q = [raw_of ID_LANv4 ?e p]" "bq_sem q > 0"
    using q(1) assms(7) by (auto simp: bq_put_def Let_def split: if_splits)
  ultimately show ?thesis using q(2,3) assms(8) by (simp add: send_pass_def bq_acquire_def bq_get_internal_def)
qed

lemma sample_side_queue [simp]:
  "raw_queue (sample_side out) = \<lparr>bq_items = [], bq_capacity = 64, bq_sem = 0\<rparr>" "\<not> send_ended (sample_side out)"
  "\<not> stopping (sample_side out)" "cong (sample_side out) = cc_new (\<lambda>_ d. d)" "crashed (sample_side out) = None"
  "current_endpoint (sample_side out) = 5" "endpoints (sample_side out) = [(5, sample_relay)]"
  by (simp_all add: sample_side_def controller_init_def flow_init_def routing_init_def flow.defs routing.defs bq_new_def)

definition lan_call :: controller where
  "lan_call = (sample_side True)\<lparr>allow_p2p := True, use_udp := True\<rparr>"

definition lan_ping :: pending_packet where
  "lan_ping = \<lparr>pp_packet = [1], pp_info = \<lparr>ccp_seq = 0, ccp_stream_id = 0\<rparr>, pp_endpoint = ID_LANv4\<rparr>"

theorem port_zero_ends_sending_witness:
  "\<exists>t u. send_or_enqueue sample_env lan_ping True (on_lan_endpoint sample_env \<lparr>lan_address = IPv4 9, lan_port = 0\<rparr> lan_call) = Inr t
    \<and> send_pass t = Some u \<and> send_ended u"
proof -
  let ?d = "\<lparr>lan_address = IPv4 9, lan_port = 0\<rparr>"
  have s: "allow_p2p lan_call" "use_udp lan_call" "\<not> stopping lan_call" "bq_items (raw_queue lan_call) = []"
      "\<not> send_ended lan_call" "pp_endpoint lan_ping = ID_LANv4" "udp_ready sample_env"
    by (simp_all add: lan_call_def lan_ping_def sample_env_def)
  have "\<exists>t. send_or_enqueue sample_env lan_ping True (on_lan_endpoint sample_env ?d lan_call) = Inr t"
    by (simp add: send_or_enqueue_def find_endpoint_def get_endpoint_by_id_def on_lan_endpoint_def put_endpoint_def om_get_put
        lan_id lan_ping_def lan_call_def open_socket_def can_send_def hand_over_def packet_sent_def bq_put_def
        cc_new_def endpoint_new_def sample_env_def Let_def seqgt_def)
  then obtain t where "send_or_enqueue sample_env lan_ping True (on_lan_endpoint sample_env ?d lan_call) = Inr t" by blast
  with port_zero_ends_sending [OF s(1) _ s(6,7,2,3,4,5) this] show ?thesis by auto
qed

subsection \<open>Stopping a call\<close>

fun send_passes :: "nat \<Rightarrow> 'z controller_scheme \<Rightarrow> 'z controller_scheme option" where
  "send_passes 0 s = Some s"
| "send_passes (Suc n) s = (case send_pass s of None \<Rightarrow> None | Some t \<Rightarrow> send_passes n t)"

lemma send_drains:
  assumes "\<not> send_ended s" "bq_items (raw_queue s) = xs" "bq_sem (raw_queue s) = length xs" "\<exists>x \<in> set xs. raw_empty x"
  shows "\<exists>n u. n \<le> length xs \<and> send_passes n s = Some u \<and> send_ended u"
  using assms
proof (induction xs arbitrary: s)
  case (Cons x xs)
  then obtain t where t: "send_pass s = Some t" "send_ended t = raw_empty x" "bq_items (raw_queue t) = xs"
      "bq_sem (raw_queue t) = length xs"
    by (cases "raw_empty x"; cases "is_mobile (network s)") (auto simp: send_pass_def bq_acquire_def bq_get_internal_def Let_def)
  show ?case
  proof (cases "raw_empty x")
    case True
    then show ?thesis using t by (intro exI [of _ 1]) simp
  next
    case False
    then obtain n u where "n \<le> length xs" "send_passes n t = Some u" "send_ended u"
      using Cons.IH [of t] Cons.prems(4) t by auto
    then show ?thesis using t(1) by (intro exI [of _ "Suc n"]) auto
  qed
qed simp

text \<open>
  C28: both threads end when the call is stopped, so that the application, which waits for them, can go
  on. The send thread ends after it has sent at most what was waiting, and the receive thread at the
  latest at the beginning of its next pass, whatever its wait comes back with.
\<close>

theorem threads_end_after_stop:
  assumes "\<not> send_ended s" "bq_sem (raw_queue s) = length (bq_items (raw_queue s))" "crashed (stop_call s) = None"
  shows "(\<exists>n u. n \<le> length (bq_items (raw_queue s)) + 1 \<and> send_passes n (stop_call s) = Some u \<and> send_ended u)
    \<and> recv_thread (begin_select env wanted (stop_call s)) = Recv_Ended
    \<and> (recv_thread (end_select env r (stop_call s)) = Recv_Ended
       \<or> recv_thread (begin_select env wanted (end_select env r (stop_call s))) = Recv_Ended)"
proof -
  let ?x = "\<lparr>rw_data = [], rw_addr = no_address, rw_port = 0, rw_tcp = False, rw_socket = None\<rparr>"
  obtain q where q: "bq_put ?x (raw_queue s) = Some q" "raw_queue (stop_call s) = q" "send_ended (stop_call s) = send_ended s"
    using assms(3) by (auto simp: stop_call_def call_out_def Let_def split: option.splits)
  have "bq_items q = bq_items (raw_queue s) @ [?x]" "bq_sem q = bq_sem (raw_queue s) + 1"
    using q(1) by (auto simp: bq_put_def Let_def split: if_splits)
  then have "\<exists>n u. n \<le> length (bq_items (raw_queue s) @ [?x]) \<and> send_passes n (stop_call s) = Some u \<and> send_ended u"
    using assms(1,2) q by (intro send_drains) (simp_all add: raw_empty_def)
  moreover have "\<not> run_receiver (stop_call s)" by (auto simp: stop_call_def call_out_def Let_def split: option.split)
  ultimately show ?thesis by (auto simp: begin_select_def end_select_def)
qed

theorem threads_end_after_stop_witness:
  "\<exists>n u. n \<le> 1 \<and> send_passes n (stop_call (sample_side True)) = Some u \<and> send_ended u"
proof -
  have s: "\<not> send_ended (sample_side True)" "bq_items (raw_queue (sample_side True)) = []"
      "bq_sem (raw_queue (sample_side True)) = length (bq_items (raw_queue (sample_side True)))"
      "crashed (stop_call (sample_side True)) = None"
    by (simp_all add: stop_call_def call_out_def bq_put_def Let_def)
  show ?thesis using threads_end_after_stop [OF s(1,3,4), THEN conjunct1] s(2) by simp
qed

end
