(* ===== verification/Sound.thy ===== *)
theory Sound
  imports Jitter "HOL-Library.Multiset"
begin

section \<open>Operations on samples (Resampler.cpp, MediaStreamItf.cpp, EchoCanceller.cpp)\<close>

text \<open>
  What happens to samples on their way: frames are stretched or shortened by cross-fading, rates
  are converted by interpolation, inputs are mixed, the volume is changed and the level is measured. A
  sample is a 16-bit word that is read as a signed number. Floating point values are exact reals.
\<close>

type_synonym sample = "16 word"

subsection \<open>Stretching and shortening a frame (Resampler.cpp)\<close>

definition hann :: "int list" where
  "hann = [
   0, 0, 0, 1, 1, 2, 3, 4, 6, 7, 9, 11, 13, 15, 17, 20, 22, 25, 28, 32,
   35, 39, 42, 46, 51, 55, 59, 64, 69, 74, 79, 84, 90, 96, 101, 107, 114, 120, 127, 133,
   140, 147, 155, 162, 170, 178, 185, 194, 202, 210, 219, 228, 237, 246, 255, 265, 275, 284, 295, 305,
   315, 326, 336, 347, 358, 370, 381, 393, 404, 416, 428, 441, 453, 466, 479, 492, 505, 518, 531, 545,
   559, 573, 587, 601, 616, 630, 645, 660, 675, 691, 706, 722, 738, 754, 770, 786, 803, 819, 836, 853,
   870, 888, 905, 923, 941, 959, 977, 995, 1014, 1032, 1051, 1070, 1089, 1109, 1128, 1148, 1168, 1188, 1208, 1228,
   1248, 1269, 1290, 1311, 1332, 1353, 1375, 1396, 1418, 1440, 1462, 1484, 1506, 1529, 1552, 1575, 1598, 1621, 1644, 1668,
   1691, 1715, 1739, 1763, 1788, 1812, 1837, 1861, 1886, 1911, 1937, 1962, 1987, 2013, 2039, 2065, 2091, 2117, 2144, 2170,
   2197, 2224, 2251, 2278, 2306, 2333, 2361, 2389, 2417, 2445, 2473, 2502, 2530, 2559, 2588, 2617, 2646, 2675, 2705, 2734,
   2764, 2794, 2824, 2854, 2884, 2915, 2945, 2976, 3007, 3038, 3069, 3101, 3132, 3164, 3195, 3227, 3259, 3292, 3324, 3356,
   3389, 3422, 3455, 3488, 3521, 3554, 3588, 3621, 3655, 3689, 3723, 3757, 3791, 3825, 3860, 3895, 3929, 3964, 3999, 4034,
   4070, 4105, 4141, 4177, 4212, 4248, 4284, 4321, 4357, 4394, 4430, 4467, 4504, 4541, 4578, 4615, 4653, 4690, 4728, 4765,
   4803, 4841, 4879, 4918, 4956, 4995, 5033, 5072, 5111, 5150, 5189, 5228, 5268, 5307, 5347, 5386, 5426, 5466, 5506, 5546,
   5587, 5627, 5667, 5708, 5749, 5790, 5831, 5872, 5913, 5954, 5996, 6037, 6079, 6121, 6163, 6205, 6247, 6289, 6331, 6374,
   6416, 6459, 6501, 6544, 6587, 6630, 6673, 6717, 6760, 6803, 6847, 6891, 6935, 6978, 7022, 7066, 7111, 7155, 7199, 7244,
   7288, 7333, 7378, 7423, 7468, 7513, 7558, 7603, 7648, 7694, 7739, 7785, 7831, 7876, 7922, 7968, 8014, 8060, 8107, 8153,
   8199, 8246, 8293, 8339, 8386, 8433, 8480, 8527, 8574, 8621, 8669, 8716, 8763, 8811, 8858, 8906, 8954, 9002, 9050, 9098,
   9146, 9194, 9242, 9291, 9339, 9387, 9436, 9485, 9533, 9582, 9631, 9680, 9729, 9778, 9827, 9876, 9925, 9975, 10024, 10074,
   10123, 10173, 10222, 10272, 10322, 10372, 10422, 10472, 10522, 10572, 10622, 10672, 10723, 10773, 10823, 10874, 10924, 10975, 11026, 11076,
   11127, 11178, 11229, 11280, 11331, 11382, 11433, 11484, 11535, 11587, 11638, 11689, 11741, 11792, 11844, 11895, 11947, 11999, 12050, 12102,
   12154, 12206, 12258, 12310, 12362, 12414, 12466, 12518, 12570, 12622, 12674, 12727, 12779, 12831, 12884, 12936, 12989, 13041, 13094, 13146,
   13199, 13251, 13304, 13357, 13409, 13462, 13515, 13568, 13621, 13674, 13727, 13780, 13832, 13885, 13939, 13992, 14045, 14098, 14151, 14204,
   14257, 14310, 14364, 14417, 14470, 14523, 14577, 14630, 14683, 14737, 14790, 14844, 14897, 14950, 15004, 15057, 15111, 15164, 15218, 15271,
   15325, 15378, 15432, 15485, 15539, 15593, 15646, 15700, 15753, 15807, 15861, 15914, 15968, 16021, 16075, 16129, 16182, 16236, 16290, 16343,
   16397, 16451, 16504, 16558, 16611, 16665, 16719, 16772, 16826, 16880, 16933, 16987, 17040, 17094, 17148, 17201, 17255, 17308, 17362, 17415,
   17469, 17522, 17576, 17629, 17683, 17736, 17790, 17843, 17897, 17950, 18004, 18057, 18110, 18164, 18217, 18270, 18323, 18377, 18430, 18483,
   18536, 18590, 18643, 18696, 18749, 18802, 18855, 18908, 18961, 19014, 19067, 19120, 19173, 19226, 19278, 19331, 19384, 19437, 19489, 19542,
   19595, 19647, 19700, 19752, 19805, 19857, 19910, 19962, 20014, 20067, 20119, 20171, 20223, 20275, 20327, 20379, 20431, 20483, 20535, 20587,
   20639, 20691, 20742, 20794, 20846, 20897, 20949, 21000, 21052, 21103, 21155, 21206, 21257, 21308, 21359, 21411, 21462, 21513, 21563, 21614,
   21665, 21716, 21767, 21817, 21868, 21918, 21969, 22019, 22070, 22120, 22170, 22220, 22270, 22320, 22370, 22420, 22470, 22520, 22569, 22619,
   22669, 22718, 22768, 22817, 22866, 22916, 22965, 23014, 23063, 23112, 23161, 23209, 23258, 23307, 23355, 23404, 23452, 23501, 23549, 23597,
   23645, 23693, 23741, 23789, 23837, 23885, 23932, 23980, 24027, 24075, 24122, 24169, 24217, 24264, 24311, 24358, 24404, 24451, 24498, 24544,
   24591, 24637, 24683, 24730, 24776, 24822, 24868, 24914, 24959, 25005, 25051, 25096, 25141, 25187, 25232, 25277, 25322, 25367, 25412, 25456,
   25501, 25546, 25590, 25634, 25678, 25723, 25767, 25811, 25854, 25898, 25942, 25985, 26029, 26072, 26115, 26158, 26201, 26244, 26287, 26330,
   26372, 26415, 26457, 26499, 26541, 26583, 26625, 26667, 26709, 26750, 26792, 26833, 26875, 26916, 26957, 26998, 27039, 27079, 27120, 27160,
   27201, 27241, 27281, 27321, 27361, 27401, 27440, 27480, 27519, 27558, 27598, 27637, 27676, 27714, 27753, 27792, 27830, 27868, 27907, 27945,
   27983, 28020, 28058, 28096, 28133, 28170, 28208, 28245, 28282, 28318, 28355, 28392, 28428, 28464, 28501, 28537, 28573, 28608, 28644, 28680,
   28715, 28750, 28785, 28820, 28855, 28890, 28924, 28959, 28993, 29027, 29061, 29095, 29129, 29163, 29196, 29230, 29263, 29296, 29329, 29362,
   29394, 29427, 29459, 29491, 29524, 29556, 29587, 29619, 29651, 29682, 29713, 29744, 29775, 29806, 29837, 29867, 29898, 29928, 29958, 29988,
   30018, 30048, 30077, 30107, 30136, 30165, 30194, 30223, 30251, 30280, 30308, 30336, 30364, 30392, 30420, 30448, 30475, 30502, 30529, 30556,
   30583, 30610, 30636, 30663, 30689, 30715, 30741, 30767, 30792, 30818, 30843, 30868, 30893, 30918, 30943, 30967, 30992, 31016, 31040, 31064,
   31088, 31111, 31135, 31158, 31181, 31204, 31227, 31249, 31272, 31294, 31316, 31338, 31360, 31382, 31403, 31425, 31446, 31467, 31488, 31508,
   31529, 31549, 31569, 31589, 31609, 31629, 31649, 31668, 31687, 31706, 31725, 31744, 31763, 31781, 31799, 31817, 31835, 31853, 31871, 31888,
   31905, 31922, 31939, 31956, 31973, 31989, 32005, 32021, 32037, 32053, 32069, 32084, 32099, 32114, 32129, 32144, 32159, 32173, 32187, 32201,
   32215, 32229, 32242, 32256, 32269, 32282, 32295, 32308, 32320, 32332, 32345, 32357, 32369, 32380, 32392, 32403, 32414, 32425, 32436, 32447,
   32457, 32467, 32478, 32487, 32497, 32507, 32516, 32526, 32535, 32544, 32552, 32561, 32569, 32577, 32586, 32593, 32601, 32609, 32616, 32623,
   32630, 32637, 32644, 32650, 32656, 32663, 32669, 32674, 32680, 32685, 32691, 32696, 32701, 32705, 32710, 32714, 32719, 32723, 32726, 32730,
   32734, 32737, 32740, 32743, 32746, 32749, 32751, 32753, 32755, 32757, 32759, 32761, 32762, 32763, 32764, 32765, 32766, 32766, 32767, 32767]"

text \<open>The right shift of a negative number rounds down.\<close>

definition fade :: "sample \<Rightarrow> int \<Rightarrow> sample \<Rightarrow> int \<Rightarrow> sample" where
  "fade a g b h = word_of_int (sint a * g div 32768 + sint b * h div 32768)"

definition rescale_60_to_80 :: "sample list \<Rightarrow> sample list" where
  "rescale_60_to_80 x = take 960 x
     @ map (\<lambda>i. fade (x ! (960 + i)) (hann ! (959 - i)) (x ! (480 + i)) (hann ! i)) [0..<960]
     @ map (\<lambda>i. fade (x ! (1440 + i)) (hann ! (959 - i)) (x ! (960 + i)) (hann ! i)) [0..<960]
     @ take 960 (drop 1920 x)"

definition rescale_60_to_40 :: "sample list \<Rightarrow> sample list" where
  "rescale_60_to_40 x =
     map (\<lambda>i. fade (x ! i) (hann ! (959 - i)) (x ! (480 + i)) (hann ! i)) [0..<960]
     @ map (\<lambda>i. fade (x ! (1920 + i)) (hann ! i) (x ! (1440 + i)) (hann ! (959 - i))) [0..<960]"

subsection \<open>Conversion of the rate\<close>

text \<open>
  \<^verbatim>\<open>Convert48To44\<close> is the case of 147 and 160, \<^verbatim>\<open>Convert44To48\<close> that of 160 and 147. The
  result is \<open>None\<close> when a sample behind the end of the input is read. A conversion to an integer drops
  the fraction.
\<close>

definition interpolate :: "sample list \<Rightarrow> real \<Rightarrow> sample option" where
  "interpolate x r = (let f = r - of_int \<lfloor>r\<rfloor>; i = nat \<lfloor>r\<rfloor>; j = nat \<lceil>r\<rceil> in
     if i < length x \<and> j < length x
     then Some (word_of_int (trunc (of_int (sint (x ! i)) * (1 - f) + of_int (sint (x ! j)) * f))) else None)"

fun interpolate_all :: "nat \<Rightarrow> nat \<Rightarrow> sample list \<Rightarrow> nat \<Rightarrow> nat \<Rightarrow> sample list option" where
  "interpolate_all num denom x k 0 = Some []"
| "interpolate_all num denom x k (Suc n) = (case interpolate x (real k * real denom / real num) of
     None \<Rightarrow> None
   | Some y \<Rightarrow> map_option ((#) y) (interpolate_all num denom x (k + 1) n))"

definition convert :: "nat \<Rightarrow> nat \<Rightarrow> sample list \<Rightarrow> nat \<Rightarrow> sample list option" where
  "convert num denom x to_len = interpolate_all num denom x 0 (min to_len (length x * num div denom))"

definition convert_48_to_44 :: "sample list \<Rightarrow> nat \<Rightarrow> sample list option" where
  "convert_48_to_44 = convert 147 160"

definition convert_44_to_48 :: "sample list \<Rightarrow> nat \<Rightarrow> sample list option" where
  "convert_44_to_48 = convert 160 147"

subsection \<open>Volume and mixing\<close>

definition saturate :: "real \<Rightarrow> sample" where
  "saturate r = (if r > 32767 then 32767 else if r < - 32768 then - 32768 else word_of_int (trunc r))"

record volume =
  vol_level :: real
  vol_mult :: real
  vol_pass :: bool

definition volume_new :: volume where
  "volume_new = \<lparr>vol_level = 1, vol_mult = 1, vol_pass = False\<rparr>"

definition volume_set :: "real \<Rightarrow> volume \<Rightarrow> volume" where
  "volume_set l v = (let db = (if l < 1 then - 50 * (1 - l) else if l > 1 \<and> l \<le> 2 then 10 * (l - 1) else 0)
     in v\<lparr>vol_level := l, vol_mult := exp (db / 20 * ln 10)\<rparr>)"

definition volume_process :: "volume \<Rightarrow> sample list \<Rightarrow> sample list" where
  "volume_process v x = (if vol_level v = 1 \<or> vol_pass v then x
     else map (\<lambda>a. saturate (of_int (sint a) * vol_mult v)) x)"

text \<open>
  The mixer: its sources are opaque (\<open>'s\<close>), \<open>'e\<close> is the state in which they live, and \<open>pull\<close> calls one for
  a frame (the callback's result is the number of bytes, 0 for silence).
\<close>

record 's mixer =
  mx_inputs :: "('s \<times> real) list"
  mx_queue :: "sample list list"
  mx_sem :: nat

definition mixer_new :: "'s mixer" where
  "mixer_new = \<lparr>mx_inputs = [], mx_queue = [], mx_sem = 0\<rparr>"

definition add_input :: "'s \<Rightarrow> 's mixer \<Rightarrow> 's mixer" where
  "add_input src m = m\<lparr>mx_inputs := mx_inputs m @ [(src, 1)]\<rparr>"

fun remove_first :: "'s \<Rightarrow> ('s \<times> real) list \<Rightarrow> ('s \<times> real) list" where
  "remove_first src [] = []"
| "remove_first src (x # xs) = (if fst x = src then xs else x # remove_first src xs)"

definition remove_input :: "'s \<Rightarrow> 's mixer \<Rightarrow> 's mixer" where
  "remove_input src m = m\<lparr>mx_inputs := remove_first src (mx_inputs m)\<rparr>"

text \<open>The volume is in decibels, \<open>None\<close> for minus infinity.\<close>

fun set_first :: "'s \<Rightarrow> real \<Rightarrow> ('s \<times> real) list \<Rightarrow> ('s \<times> real) list" where
  "set_first src k [] = []"
| "set_first src k (x # xs) = (if fst x = src then (fst x, k) # xs else x # set_first src k xs)"

definition set_input_volume :: "'s \<Rightarrow> real option \<Rightarrow> 's mixer \<Rightarrow> 's mixer" where
  "set_input_volume src v m = m\<lparr>mx_inputs :=
     set_first src (case v of None \<Rightarrow> 0 | Some db \<Rightarrow> exp (db / 20 * ln 10)) (mx_inputs m)\<rparr>"

fun mix_in :: "('s \<Rightarrow> 'e \<Rightarrow> (nat \<times> sample list) \<times> 'e) \<Rightarrow> ('s \<times> real) list \<Rightarrow> real list \<times> nat \<Rightarrow> 'e
    \<Rightarrow> (real list \<times> nat) \<times> 'e" where
  "mix_in pull [] (acc, used) e = ((acc, used), e)"
| "mix_in pull ((src, k) # xs) (acc, used) e = (case pull src e of ((res, x), e1) \<Rightarrow>
     if res = 0 \<or> k = 0 then mix_in pull xs (acc, used) e1
     else mix_in pull xs (map2 (\<lambda>a s. a + of_int (sint s) * k) acc x, used + 1) e1)"

definition mix_frame :: "('s \<Rightarrow> 'e \<Rightarrow> (nat \<times> sample list) \<times> 'e) \<Rightarrow> ('s \<times> real) list \<Rightarrow> 'e \<Rightarrow> sample list \<times> 'e" where
  "mix_frame pull ins e = (case mix_in pull ins (replicate 960 0, 0) e of ((acc, used), e1) \<Rightarrow>
     (if used > 0 then map saturate acc else replicate 960 0, e1))"

text \<open>
  The output asks for a frame (\<open>mixer_request\<close>) and waits until there is one (\<open>mixer_take\<close>); in between the
  thread of the mixer makes frames, one per permit of the semaphore.
\<close>

definition mixer_request :: "'s mixer \<Rightarrow> 's mixer" where
  "mixer_request m = m\<lparr>mx_sem := mx_sem m + (if mx_queue m = [] then 2 else 1)\<rparr>"

definition mixer_take :: "'s mixer \<Rightarrow> (sample list \<times> 's mixer) option" where
  "mixer_take m = (case mx_queue m of [] \<Rightarrow> None | f # fs \<Rightarrow> Some (f, m\<lparr>mx_queue := fs\<rparr>))"

definition mixer_pass :: "('s \<Rightarrow> 'e \<Rightarrow> (nat \<times> sample list) \<times> 'e) \<Rightarrow> 's mixer \<Rightarrow> 'e \<Rightarrow> ('s mixer \<times> 'e) option" where
  "mixer_pass pull m e = (if mx_sem m = 0 then None
     else if length (mx_queue m) \<ge> 16 then Some (m\<lparr>mx_sem := mx_sem m - 1\<rparr>, e)
     else (case mix_frame pull (mx_inputs m) e of (f, e1) \<Rightarrow>
       Some (m\<lparr>mx_sem := mx_sem m - 1, mx_queue := mx_queue m @ [f]\<rparr>, e1)))"

subsection \<open>The level of a signal\<close>

record level_meter =
  lm_max :: sample
  lm_count :: sample
  lm_level :: byte
  lm_full :: sample

definition level_new :: level_meter where
  "level_new = \<lparr>lm_max = 0, lm_count = 0, lm_level = 0, lm_full = 0\<rparr>"

definition permutation :: "byte list" where
  "permutation = [0, 1, 2, 3, 4, 4, 5, 5, 5, 5, 6, 6, 6, 6, 6, 7, 7, 7, 7, 8, 8, 8, 9, 9, 9, 9, 9, 9, 9, 9, 9, 9, 9]"

definition get_level :: "level_meter \<Rightarrow> real" where
  "get_level m = of_int (sint (lm_level m)) / 9"

text \<open>The absolute value is taken in 32 bits and cast to 16.\<close>

definition abs_sample :: "sample \<Rightarrow> sample" where
  "abs_sample a = word_of_int \<bar>sint a\<bar>"

definition louder :: "sample \<Rightarrow> sample \<Rightarrow> sample" where
  "louder a m = (if sint a > sint m then a else m)"

definition loudest :: "sample list \<Rightarrow> sample" where
  "loudest x = fold (\<lambda>a. louder (abs_sample a)) x 0"

definition level_update :: "sample list \<Rightarrow> level_meter \<Rightarrow> level_meter" where
  "level_update x m = (let top = louder (loudest x) (lm_max m) in
     if lm_count m = 10
     then m\<lparr>lm_max := signed_drop_bit 2 top, lm_count := 0, lm_level := permutation ! nat (sint top div 1000), lm_full := top\<rparr>
     else m\<lparr>lm_max := top, lm_count := lm_count m + 1\<rparr>)"

subsection \<open>Stretching and shortening\<close>

lemma length_hann [simp]: "length hann = 960"
  by (simp add: hann_def)

lemma hann_pairs: "list_all (\<lambda>(g, h). 0 \<le> g \<and> 32740 \<le> g + h \<and> g + h \<le> 32767) (zip hann (rev hann))"
  unfolding rev_conv_fold hann_def by simp

lemma hann_pair:
  assumes "i < 960"
  shows "0 \<le> hann ! i" "0 \<le> hann ! (959 - i)" "32740 \<le> hann ! i + hann ! (959 - i)" "hann ! i + hann ! (959 - i) \<le> 32767"
  using hann_pairs assms by (auto simp: list_all_length rev_nth)


lemma sint_exact: "- 32768 \<le> y \<Longrightarrow> y \<le> 32767 \<Longrightarrow> sint (word_of_int y :: sample) = y"
  by (simp add: sint_sbintrunc' signed_take_bit_int_eq_self)

lemma sint_range: "- 32768 \<le> sint (a :: sample)" "sint (a :: sample) \<le> 32767"
  using sint_greater_eq [of a] sint_less [of a] by simp_all

lemma fade_exact:
  assumes "0 \<le> g" "0 \<le> h" "g + h \<le> 32767" "\<bar>sint a\<bar> \<le> M" "\<bar>sint b\<bar> \<le> M" "M \<le> 32768"
  shows "sint (fade a g b h) = sint a * g div 32768 + sint b * h div 32768" "\<bar>sint (fade a g b h)\<bar> \<le> M + 1"
proof -
  have up: "x * k div 32768 * 32768 \<le> M * k" and low: "- (M * k) - 32767 \<le> x * k div 32768 * 32768"
    if "\<bar>x\<bar> \<le> M" "0 \<le> k" for x k :: int
  proof -
    have "- (M * k) \<le> x * k" "x * k \<le> M * k"
      using that mult_right_mono [of "- M" x k] mult_right_mono [of x M k] by auto
    then show "x * k div 32768 * 32768 \<le> M * k" "- (M * k) - 32767 \<le> x * k div 32768 * 32768"
      by linarith+
  qed
  let ?y = "sint a * g div 32768 + sint b * h div 32768"
  have "M * (g + h) \<le> M * 32767" using assms by (intro mult_left_mono) auto
  then have "?y * 32768 \<le> M * 32767" "- (M * 32767) - 65534 \<le> ?y * 32768"
    using up [of "sint a" g] up [of "sint b" h] low [of "sint a" g] low [of "sint b" h] assms by (auto simp: algebra_simps)
  moreover have "y \<le> M \<and> - M - 1 \<le> y \<and> - 32768 \<le> y \<and> y \<le> 32767 \<and> \<bar>y\<bar> \<le> M + 1"
    if "y * 32768 \<le> M * 32767" "- (M * 32767) - 65534 \<le> y * 32768" for y
    using that assms(4,6) by auto
  ultimately have y: "?y \<le> M" "- M - 1 \<le> ?y" "- 32768 \<le> ?y" "?y \<le> 32767" "\<bar>?y\<bar> \<le> M + 1" by blast+
  have "sint (word_of_int ?y :: sample) = ?y"
    using y(3,4) by (intro sint_exact)
  then show "sint (fade a g b h) = ?y" "\<bar>sint (fade a g b h)\<bar> \<le> M + 1" using y(5) by (simp_all only: fade_def)
qed

text \<open>
  Stretching or shortening a frame does not make it louder and never overflows. If no sample of a
  frame of 60 ms exceeds a bound, no sample of the new frame of 80 or 40 ms exceeds it by more than
  one.
\<close>

theorem rescale_keeps_loudness:
  assumes "length x = 2880" "\<forall>a \<in> set x. \<bar>sint a\<bar> \<le> M" "M \<le> 32768"
  shows "length (rescale_60_to_80 x) = 3840 \<and> length (rescale_60_to_40 x) = 1920
    \<and> (\<forall>a \<in> set (rescale_60_to_80 x) \<union> set (rescale_60_to_40 x). \<bar>sint a\<bar> \<le> M + 1)"
proof -
  have x: "\<bar>sint (x ! i)\<bar> \<le> M" if "i < 2880" for i using assms(1,2) that by simp
  have f: "\<bar>sint (fade (x ! i) (hann ! k) (x ! j) (hann ! (959 - k)))\<bar> \<le> M + 1"
      "\<bar>sint (fade (x ! i) (hann ! (959 - k)) (x ! j) (hann ! k))\<bar> \<le> M + 1"
    if "i < 2880" "j < 2880" "k < 960" for i j k
    using that hann_pair [of k] x assms(3) by (auto intro!: fade_exact(2))
  have same: "\<bar>sint a\<bar> \<le> M + 1" if "a \<in> set x" for a using assms(2) that by fastforce
  show ?thesis using assms(1) f same
    by (auto simp: rescale_60_to_80_def rescale_60_to_40_def dest!: in_set_takeD in_set_dropD)
qed

theorem rescale_keeps_loudness_witness:
  "\<forall>a \<in> set (rescale_60_to_80 (replicate 2880 (- 32768))) \<union> set (rescale_60_to_40 (replicate 2880 (- 32768))). \<bar>sint a\<bar> \<le> 32769"
  using rescale_keeps_loudness [of "replicate 2880 (- 32768)" 32768] by simp

lemma hann_ends: "hann ! 0 = 0" "hann ! 959 = 32767"
  by (simp_all add: hann_def)

lemma fade_end: "\<bar>sint (fade a 32767 b 0) - sint a\<bar> \<le> 1" "\<bar>sint (fade a 0 b 32767) - sint b\<bar> \<le> 1"
proof -
  have b: "\<bar>sint (c :: sample)\<bar> \<le> 32768" for c using sint_range [of c] by auto
  have d: "\<bar>v * 32767 div 32768 - v\<bar> \<le> 1" if "\<bar>v\<bar> \<le> 32768" for v :: int using that by linarith
  show "\<bar>sint (fade a 32767 b 0) - sint a\<bar> \<le> 1" "\<bar>sint (fade a 0 b 32767) - sint b\<bar> \<le> 1"
    using d [OF b [of a]] d [OF b [of b]] fade_exact(1) [of 32767 0 a 32768 b] fade_exact(1) [of 0 32767 a 32768 b] b by auto
qed

text \<open>
  A stretched or shortened frame begins and ends like the frame, and its joins are seamless.
  At every place where a cross-fade begins or ends, two neighbouring samples of the result are
  within one of two neighbouring samples of the frame.
\<close>

theorem rescale_seamless:
  assumes "length x = 2880"
  shows "let y = rescale_60_to_80 x; z = rescale_60_to_40 x in
    take 960 y = take 960 x \<and> drop 2880 y = drop 1920 x
    \<and> (\<forall>(i, j) \<in> {(960, 960), (1919, 1439), (1920, 1440), (2879, 1919)}. \<bar>sint (y ! i) - sint (x ! j)\<bar> \<le> 1)
    \<and> (\<forall>(i, j) \<in> {(0, 0), (959, 1439), (960, 1440), (1919, 2879)}. \<bar>sint (z ! i) - sint (x ! j)\<bar> \<le> 1)"
  using assms
  by (simp add: Let_def rescale_60_to_80_def rescale_60_to_40_def nth_append hann_ends fade_end)

theorem rescale_seamless_witness: "take 960 (rescale_60_to_80 (replicate 2880 5)) = replicate 960 5"
  using rescale_seamless [of "replicate 2880 5"] by (simp add: Let_def)

subsection \<open>Conversion of the rate\<close>

lemma interpolate_inside: "nat \<lceil>r\<rceil> < length x \<Longrightarrow> \<exists>y. interpolate x r = Some y"
proof -
  assume "nat \<lceil>r\<rceil> < length x"
  moreover have "nat \<lfloor>r\<rfloor> \<le> nat \<lceil>r\<rceil>" by (intro nat_mono) (simp add: floor_le_ceiling)
  ultimately show ?thesis by (auto simp: interpolate_def Let_def)
qed

lemma interpolate_all_inside:
  "(\<And>i. i < n \<Longrightarrow> nat \<lceil>real (k + i) * real denom / real num\<rceil> < length x)
    \<Longrightarrow> \<exists>ys. interpolate_all num denom x k n = Some ys \<and> length ys = n"
proof (induction n arbitrary: k)
  case (Suc n)
  obtain y where y: "interpolate x (real k * real denom / real num) = Some y"
    using interpolate_inside Suc.prems [of 0] by auto
  have "\<And>i. i < n \<Longrightarrow> nat \<lceil>real (k + 1 + i) * real denom / real num\<rceil> < length x"
    using Suc.prems [of "Suc _"] by (simp add: algebra_simps)
  then obtain ys where "interpolate_all num denom x (k + 1) n = Some ys" "length ys = n" using Suc.IH by blast
  then show ?case using y by auto
qed simp

lemma interpolate_all_outside:
  "i < n \<Longrightarrow> length x \<le> nat \<lceil>real (k + i) * real denom / real num\<rceil> \<Longrightarrow> interpolate_all num denom x k n = None"
proof (induction n arbitrary: k i)
  case (Suc n)
  show ?case
  proof (cases i)
    case 0
    then have "interpolate x (real k * real denom / real num) = None" using Suc.prems(2) by (auto simp: interpolate_def Let_def)
    then show ?thesis by simp
  next
    case (Suc j)
    then have "interpolate_all num denom x (k + 1) n = None"
      using Suc.IH [of j "k + 1"] Suc.prems by (simp add: algebra_simps)
    then show ?thesis by (simp split: option.split)
  qed
qed simp

text \<open>
  A conversion to a lower rate reads only samples of its input, for all lengths, and fills the
  output as far as the input goes. The conversion from 44.1 to 48 kHz does not: for every whole
  number of periods (147 samples that become 160) the last sample of the output is interpolated with a
  sample behind the end of the input.
\<close>

theorem convert_reads:
  "(\<exists>y. convert_48_to_44 x n = Some y \<and> length y = min n (length x * 147 div 160))
   \<and> (\<forall>m. length x = 147 * (m + 1) \<longrightarrow> length x * 160 div 147 \<le> n \<longrightarrow> convert_44_to_48 x n = None)"
proof
  let ?n = "min n (length x * 147 div 160)"
  have "nat \<lceil>real (0 + i) * real 160 / real 147\<rceil> < length x" if "i < ?n" for i
  proof -
    have "i + 1 \<le> length x * 147 div 160" using that by simp
    then have "(i + 1) * 160 \<le> length x * 147" by (metis less_eq_div_iff_mult_less_eq zero_less_numeral)
    then have "real i * 160 / 147 \<le> real (length x) - 1" by (simp add: field_simps)
    then have "\<lceil>real i * 160 / 147\<rceil> \<le> int (length x) - 1" unfolding ceiling_le_iff by simp
    moreover have "0 < length x" using that by (cases x) auto
    ultimately have "nat \<lceil>real i * 160 / 147\<rceil> < length x" by linarith
    then show ?thesis by simp
  qed
  then show "\<exists>y. convert_48_to_44 x n = Some y \<and> length y = ?n"
    using interpolate_all_inside [of ?n 0 160 147 x] by (simp add: convert_48_to_44_def convert_def)
  show "\<forall>m. length x = 147 * (m + 1) \<longrightarrow> length x * 160 div 147 \<le> n \<longrightarrow> convert_44_to_48 x n = None"
  proof (intro allI impI)
    fix m assume m: "length x = 147 * (m + 1)" "length x * 160 div 147 \<le> n"
    let ?i = "160 * (m + 1) - 1"
    have "min n (length x * 160 div 147) = 160 * (m + 1)" using m by simp
    moreover have "int (length x) \<le> \<lceil>real (0 + ?i) * real 147 / real 160\<rceil>"
      by (simp add: m(1) le_ceiling_iff field_simps of_nat_diff)
    ultimately show "convert_44_to_48 x n = None"
      using interpolate_all_outside [of ?i "160 * (m + 1)" x 0 147 160] by (simp add: convert_44_to_48_def convert_def)
  qed
qed

theorem convert_reads_witness:
  "convert_44_to_48 (replicate 147 0) 160 = None \<and> (\<exists>y. convert_48_to_44 (replicate 160 0) 160 = Some y \<and> length y = 147)"
  using convert_reads [of "replicate 147 0" 160] convert_reads [of "replicate 160 0" 160]
  by (auto dest: spec [of _ 0])

subsection \<open>Volume and mixing\<close>

lemma trunc_mono: "r \<le> q \<Longrightarrow> trunc r \<le> trunc q"
  by (auto simp: trunc_def intro: ceiling_mono floor_mono order_trans [of _ 0])

lemma trunc_between: "of_int a \<le> r \<Longrightarrow> r \<le> of_int b \<Longrightarrow> a \<le> trunc r \<and> trunc r \<le> b"
  unfolding trunc_def by (auto simp: le_floor_iff ceiling_le_iff) linarith+

lemma trunc_of_int [simp]: "trunc (of_int a) = a"
  by (simp add: trunc_def)

declare of_int_sint [simp del]

lemma saturate_clamps: "sint (saturate r) = max (- 32768) (min 32767 (trunc r))"
proof -
  consider "r > 32767" | "r < - 32768" | "- 32768 \<le> r" "r \<le> 32767" by linarith
  then show ?thesis
  proof cases
    case 1
    then have "32767 \<le> trunc r" using trunc_mono [of "of_int 32767" r] unfolding trunc_of_int by simp
    then show ?thesis using 1 by (simp add: saturate_def)
  next
    case 2
    then have "trunc r \<le> - 32768" using trunc_mono [of r "of_int (- 32768)"] unfolding trunc_of_int by simp
    then show ?thesis using 2 by (simp add: saturate_def)
  next
    case 3
    then show ?thesis using trunc_between [of "- 32768" r 32767] by (simp add: saturate_def sint_exact)
  qed
qed

lemma saturate_sample [simp]: "saturate (of_int (sint a)) = a"
proof -
  have "word_of_int (sint a) = a" by (metis of_int_sint scast_id)
  then show ?thesis using sint_range [of a] by (simp add: saturate_def)
qed

lemma saturate_mono: "r \<le> q \<Longrightarrow> sint (saturate r) \<le> sint (saturate q)"
  using trunc_mono [of r q] by (auto simp: saturate_clamps)

text \<open>
  A change of the volume saturates and never wraps. Samples keep their order, and so silence and
  the sign; a level below 1 makes no sample louder, one between 1 and 2 none quieter, and a level
  above 2 is not louder still: it changes nothing.
\<close>

theorem volume_effect:
  assumes "vol_pass v = False" "x ! i = a" "x ! j = b" "i < length x" "j < length x"
  shows "let y = volume_process (volume_set l v) x in length y = length x
    \<and> (sint a \<le> sint b \<longrightarrow> sint (y ! i) \<le> sint (y ! j)) \<and> (a = 0 \<longrightarrow> y ! i = 0)
    \<and> (l \<le> 1 \<longrightarrow> \<bar>sint (y ! i)\<bar> \<le> \<bar>sint a\<bar>) \<and> (1 \<le> l \<longrightarrow> \<bar>sint a\<bar> \<le> \<bar>sint (y ! i)\<bar>) \<and> (2 < l \<longrightarrow> y = x)"
proof -
  define db :: real where "db = (if l < 1 then - 50 * (1 - l) else if l > 1 \<and> l \<le> 2 then 10 * (l - 1) else 0)"
  define k where "k = exp (db / 20 * ln 10)"
  have k: "0 < k" "l \<le> 1 \<longrightarrow> k \<le> 1" "1 \<le> l \<longrightarrow> 1 \<le> k" "l = 1 \<or> 2 < l \<longrightarrow> k = 1"
    by (auto simp: k_def db_def mult_le_0_iff)
  have y: "volume_process (volume_set l v) x = map (\<lambda>a. saturate (of_int (sint a) * k)) x"
    using assms(1) k(4) by (auto simp: volume_process_def volume_set_def Let_def k_def db_def)
  have shrink: "\<bar>sint (saturate (of_int (sint a) * k))\<bar> \<le> \<bar>sint a\<bar>" if "k \<le> 1"
  proof -
    have "\<bar>of_int (sint a) * k\<bar> \<le> \<bar>real_of_int (sint a)\<bar>"
      using that k(1) by (simp add: abs_mult mult_left_le)
    then have "- \<bar>sint a\<bar> \<le> trunc (of_int (sint a) * k) \<and> trunc (of_int (sint a) * k) \<le> \<bar>sint a\<bar>"
      by (intro trunc_between) auto
    then show ?thesis unfolding saturate_clamps by auto
  qed
  have grow: "\<bar>sint a\<bar> \<le> \<bar>sint (saturate (of_int (sint a) * k))\<bar>" if "1 \<le> k"
  proof (cases "0 \<le> sint a")
    case True
    then have "real_of_int (sint a) \<le> of_int (sint a) * k" using that by (simp add: mult_le_cancel_left1)
    then show ?thesis using saturate_mono [of "of_int (sint a)" "of_int (sint a) * k"] True by simp
  next
    case False
    then have "of_int (sint a) * k \<le> real_of_int (sint a)" using that by (simp add: mult_le_cancel_left2)
    then show ?thesis using saturate_mono [of "of_int (sint a) * k" "of_int (sint a)"] False by simp
  qed
  have "saturate 0 = 0" using saturate_sample [of 0] by simp
  then show ?thesis using assms k shrink grow
    by (simp add: y Let_def saturate_mono mult_right_mono)
qed

theorem volume_effect_witness: "volume_process (volume_set 3 volume_new) [7] = [7]"
  using volume_effect [of volume_new "[7]" 0 7 0 7 3] by (simp add: Let_def volume_new_def)

text \<open>What is heard of the inputs, when the sources are functions.\<close>

definition audible :: "('s \<Rightarrow> nat \<times> sample list) \<Rightarrow> ('s \<times> real) list \<Rightarrow> ('s \<times> real) list" where
  "audible f ins = filter (\<lambda>(src, k). fst (f src) \<noteq> 0 \<and> k \<noteq> 0) ins"

lemma mix_in_sum:
  assumes "\<And>src. length (snd (f src)) = n" "length acc = n"
  shows "mix_in (\<lambda>src e. (f src, e)) ins (acc, used) e =
    ((map (\<lambda>i. acc ! i + (\<Sum>(src, k)\<leftarrow>audible f ins. of_int (sint (snd (f src) ! i)) * k)) [0..<n],
      used + length (audible f ins)), e)"
  using assms(2)
proof (induction ins arbitrary: acc used)
  case Nil
  then show ?case by (auto simp: audible_def intro!: nth_equalityI)
next
  case (Cons x ins)
  obtain src k where x: "x = (src, k)" by fastforce
  obtain res y where f: "f src = (res, y)" by fastforce
  then have y: "length y = n" using assms(1) [of src] by simp
  show ?case
  proof (cases "res = 0 \<or> k = 0")
    case True
    then show ?thesis using Cons f by (auto simp: x audible_def)
  next
    case False
    let ?acc = "map2 (\<lambda>a s. a + of_int (sint s) * k) acc y"
    have "length ?acc = n" "\<And>i. i < n \<Longrightarrow> ?acc ! i = acc ! i + of_int (sint (y ! i)) * k" using Cons.prems y by auto
    then show ?thesis using Cons.IH [of ?acc "used + 1"] False f by (simp add: x audible_def)
  qed
qed

text \<open>
  C40: mixing is the saturated sum of the inputs that are not silent, each with its factor,
  whatever their order; a single input at full volume is passed on unchanged.
\<close>

theorem mix_is_saturated_sum:
  assumes "\<And>src. length (snd (f src)) = 960" "mset ins' = mset ins"
  shows "fst (mix_frame (\<lambda>src e. (f src, e)) ins e) = fst (mix_frame (\<lambda>src e. (f src, e)) ins' e')
    \<and> (audible f ins \<noteq> [] \<longrightarrow> fst (mix_frame (\<lambda>src e. (f src, e)) ins e)
         = map (\<lambda>i. saturate (\<Sum>(src, k)\<leftarrow>audible f ins. of_int (sint (snd (f src) ! i)) * k)) [0..<960])
    \<and> (\<forall>src. audible f ins = [(src, 1)] \<longrightarrow> fst (mix_frame (\<lambda>src e. (f src, e)) ins e) = snd (f src))"
proof -
  have frame: "fst (mix_frame (\<lambda>src e. (f src, e)) xs e1) = (if audible f xs = [] then replicate 960 0 else
      map (\<lambda>i. saturate (\<Sum>(src, k)\<leftarrow>audible f xs. of_int (sint (snd (f src) ! i)) * k)) [0..<960])" for xs e1
    unfolding mix_frame_def by (subst mix_in_sum [where n = 960]) (auto simp: assms(1))
  have m: "mset (audible f ins') = mset (audible f ins)" using assms(2) by (simp add: audible_def mset_filter)
  then have "(\<Sum>(src, k)\<leftarrow>audible f ins'. g src k) = (\<Sum>(src, k)\<leftarrow>audible f ins. g src k)" for g :: "_ \<Rightarrow> _ \<Rightarrow> real"
    by (metis sum_mset_sum_list mset_map)
  moreover have "audible f ins' = [] \<longleftrightarrow> audible f ins = []" using m by (metis mset_zero_iff)
  moreover have "map (\<lambda>i. saturate (of_int (sint (snd (f src) ! i)))) [0..<960] = snd (f src)" for src
    using assms(1) by (auto intro!: nth_equalityI)
  ultimately show ?thesis unfolding frame by auto
qed

theorem mix_is_saturated_sum_witness:
  "fst (mix_frame (\<lambda>src e. ((1920, replicate 960 src), e)) [(7, 1)] ()) = replicate 960 7"
proof -
  let ?f = "\<lambda>src :: sample. (1920 :: nat, replicate 960 src)"
  have "audible ?f [(7, 1)] = [(7, 1)]" by (simp add: audible_def)
  then show ?thesis using mix_is_saturated_sum [of ?f "[(7, 1)]" "[(7, 1)]" "()" "()"] by (metis length_replicate snd_conv)
qed

text \<open>
  A thread that is late once per frame lets the delay of the mixer grow: a request that finds no frame
  ready asks for two and takes one. After \<open>n\<close> such rounds there are \<open>n\<close> permits too many, and as soon as
  the thread catches up \<open>n\<close> frames wait.
\<close>

fun late_rounds :: "('s \<Rightarrow> 'e \<Rightarrow> (nat \<times> sample list) \<times> 'e) \<Rightarrow> nat \<Rightarrow> 's mixer \<Rightarrow> 'e \<Rightarrow> ('s mixer \<times> 'e) option" where
  "late_rounds pull 0 m e = Some (m, e)"
| "late_rounds pull (Suc n) m e = Option.bind (mixer_pass pull (mixer_request m) e) (\<lambda>(m1, e1).
     Option.bind (mixer_take m1) (\<lambda>(_, m2). late_rounds pull n m2 e1))"

fun passes :: "('s \<Rightarrow> 'e \<Rightarrow> (nat \<times> sample list) \<times> 'e) \<Rightarrow> nat \<Rightarrow> 's mixer \<Rightarrow> 'e \<Rightarrow> ('s mixer \<times> 'e) option" where
  "passes pull 0 m e = Some (m, e)"
| "passes pull (Suc n) m e = Option.bind (mixer_pass pull m e) (\<lambda>(m1, e1). passes pull n m1 e1)"

lemma late_rounds_sem:
  "mx_queue m = [] \<Longrightarrow> \<exists>e1. late_rounds pull n m e = Some (m\<lparr>mx_sem := mx_sem m + n\<rparr>, e1)"
proof (induction n arbitrary: m e)
  case (Suc n)
  obtain f e1 where f: "mix_frame pull (mx_inputs m) e = (f, e1)" by fastforce
  have "mx_queue (m\<lparr>mx_sem := mx_sem m + 1\<rparr>) = []" using Suc.prems by simp
  from Suc.IH [OF this, of e1] show ?case using Suc.prems f
    by (cases m) (simp add: mixer_pass_def mixer_request_def mixer_take_def)
qed simp

lemma passes_queue:
  "n \<le> mx_sem m \<Longrightarrow> length (mx_queue m) + n \<le> 16
    \<Longrightarrow> \<exists>m1 e1. passes pull n m e = Some (m1, e1) \<and> length (mx_queue m1) = length (mx_queue m) + n"
proof (induction n arbitrary: m e)
  case (Suc n)
  obtain f e1 where f: "mix_frame pull (mx_inputs m) e = (f, e1)" by fastforce
  show ?case using Suc.IH [of "m\<lparr>mx_sem := mx_sem m - 1, mx_queue := mx_queue m @ [f]\<rparr>" e1] Suc.prems f
    by (auto simp: mixer_pass_def)
qed simp

theorem mixer_delay_grows:
  assumes "mx_queue m = []" "n \<le> 16"
  shows "\<exists>m1 e1 m2 e2. late_rounds pull n m e = Some (m1, e1) \<and> passes pull n m1 e1 = Some (m2, e2)
    \<and> length (mx_queue m2) = n"
proof -
  obtain e1 where l: "late_rounds pull n m e = Some (m\<lparr>mx_sem := mx_sem m + n\<rparr>, e1)"
    using late_rounds_sem [OF assms(1), of pull n e] by blast
  moreover obtain m2 e2 where "passes pull n (m\<lparr>mx_sem := mx_sem m + n\<rparr>) e1 = Some (m2, e2)" "length (mx_queue m2) = n"
    using passes_queue [of n "m\<lparr>mx_sem := mx_sem m + n\<rparr>" pull e1] assms by auto
  ultimately show ?thesis by blast
qed

subsection \<open>The level of a signal\<close>

definition level_ok :: "level_meter \<Rightarrow> bool" where
  "level_ok m \<longleftrightarrow> 0 \<le> sint (lm_max m) \<and> unat (lm_count m) \<le> 10 \<and> unat (lm_level m) \<le> 9"

lemma louder_nonneg: "0 \<le> sint m \<Longrightarrow> 0 \<le> sint (louder a m)" "0 \<le> sint m \<Longrightarrow> sint m \<le> sint (louder a m)"
  by (auto simp: louder_def)

lemma loudest_nonneg: "0 \<le> sint m \<Longrightarrow> 0 \<le> sint (fold (\<lambda>a. louder (abs_sample a)) x m)"
  by (induction x arbitrary: m) (simp_all add: louder_nonneg)

lemma permutation_le: "i < 33 \<Longrightarrow> unat (permutation ! i) \<le> 9"
proof -
  have "list_all (\<lambda>b. unat b \<le> 9) permutation" by (simp add: permutation_def)
  moreover assume "i < 33"
  ultimately show ?thesis by (simp add: list_all_length) (simp add: permutation_def)
qed

text \<open>
  The level meter stays in its table. After any number of frames with any samples the
  level shown is between 0 and 9, and the index into the table is always one of its 33.
\<close>

theorem level_meter_safe:
  "let m = fold level_update frames level_new; top = louder (loudest x) (lm_max m) in
    level_ok m \<and> 0 \<le> get_level m \<and> get_level m \<le> 1 \<and> 0 \<le> sint top \<and> nat (sint top div 1000) < length permutation"
proof -
  have top: "0 \<le> sint (louder (loudest x) (lm_max m)) \<and> nat (sint (louder (loudest x) (lm_max m)) div 1000) < 33"
    if "level_ok m" for m x
    using that louder_nonneg [of "lm_max m" "loudest x"] sint_range(2) [of "louder (loudest x) (lm_max m)"]
    by (simp add: level_ok_def)
  have step: "level_ok (level_update x m)" if ok: "level_ok m" for x m
  proof (cases "lm_count m = 10")
    case True
    have "sint (signed_drop_bit 2 (louder (loudest x) (lm_max m))) \<ge> 0"
      using top [OF ok, of x] by (simp add: sint_signed_drop_bit_eq)
    then show ?thesis using True top [OF ok, of x] permutation_le by (simp add: level_update_def Let_def level_ok_def)
  next
    case False
    then have "unat (lm_count m) \<noteq> unat (10 :: sample)" by (metis word_unat_eq_iff)
    then have "unat (lm_count m) < 10" using ok by (simp add: level_ok_def)
    then have "unat (lm_count m + 1) \<le> 10" by (simp add: unat_word_ariths)
    then show ?thesis using False top [OF ok, of x] ok by (simp add: level_update_def Let_def level_ok_def)
  qed
  have "level_ok (fold level_update frames m)" if "level_ok m" for m
    using that by (induction frames arbitrary: m) (simp_all add: step)
  then have ok: "level_ok (fold level_update frames level_new)" by (simp add: level_ok_def level_new_def)
  moreover have "0 \<le> sint b \<and> sint b \<le> 9" if "unat b \<le> 9" for b :: byte
  proof -
    have "int (unat b) \<le> 9" using that by linarith
    then have u: "uint b \<le> 9" by simp
    have "sint b = signed_take_bit 7 (uint b)" by (simp add: sint_uint)
    also have "\<dots> = uint b" 
      by (rule signed_take_bit_int_eq_self) (use u in \<open>auto intro: order_trans [OF _ uint_ge_0]\<close>)
    finally have "sint b = uint b" .
    then show ?thesis using u by simp
  qed
  ultimately show ?thesis using top [OF ok, of x] by (simp add: Let_def get_level_def level_ok_def permutation_def)
qed

text \<open>The smallest sample has no absolute value in 16 bits: the loudest of all signals is shown as silence.\<close>

theorem level_ignores_minimum:
  assumes "\<forall>x \<in> set frames. set x \<subseteq> {- 32768}"
  shows "lm_level (fold level_update frames level_new) = 0"
proof -
  have quiet: "loudest x = 0" if "set x \<subseteq> {- 32768}" for x
  proof -
    have "fold (\<lambda>a. louder (abs_sample a)) x 0 = 0" using that
      by (induction x) (simp_all add: louder_def abs_sample_def)
    then show ?thesis by (simp add: loudest_def)
  qed
  have "lm_max (fold level_update frames m) = 0 \<and> lm_level (fold level_update frames m) = 0"
    if "lm_max m = 0" "lm_level m = 0" for m
    using that assms
  proof (induction frames arbitrary: m)
    case (Cons x xs)
    then have "loudest x = 0" using quiet by simp
    then have "lm_max (level_update x m) = 0" "lm_level (level_update x m) = 0"
      using Cons.prems by (simp_all add: level_update_def louder_def permutation_def)
    then show ?case using Cons by simp
  qed simp
  then show ?thesis by (simp add: level_new_def)
qed

end
