(* ===== verification/Decoder.thy ===== *)
theory Decoder
  imports Sound
begin

section \<open>The decoder (OpusDecoder.cpp)\<close>

text \<open>
  From the jitter buffer to the device: the choice between the main frame and the copy with error
  correction, the concealment of losses, the change of the playback time, and the two ways to hand samples to
  the device, from its own callback or from a thread that decodes ahead.
\<close>

subsection \<open>The state\<close>

text \<open>
  The Opus library is a parameter: given its state, a packet (or none), the room for samples and
  the flag for in-band error correction, it returns a size or a negative error, the samples it
  wrote, and its new state. It writes as many samples as it returns, and no more than there is room for.
\<close>

type_synonym 'd opus = "'d \<Rightarrow> byte list option \<Rightarrow> nat \<Rightarrow> bool \<Rightarrow> (int \<times> sample list) \<times> 'd"

definition opus_ok :: "'d opus \<Rightarrow> bool" where
  "opus_ok opus \<longleftrightarrow> (\<forall>d p n fec. case opus d p n fec of ((r, x), _) \<Rightarrow>
     length x = nat r \<and> length x \<le> n)"

text \<open>Where \<^verbatim>\<open>processedBuffer\<close> points.\<close>

datatype processed = No_Buffer | In_Buffer | In_Decode

record 'd decoder =
  dec_main :: 'd
  dec_ec :: "'d option"
  dec_jitter :: jbuf
  frame_buf :: "sample list"
  next_buf :: "sample list"
  decode_buf :: "sample list"
  dec_processed :: processed
  remaining_len :: int
  per_frame :: nat
  lost_run :: int
  dec_dtx :: bool
  silent_count :: nat
  prev_ec :: bool
  dec_effects :: "(sample list \<Rightarrow> sample list) list"
  dec_meter :: "level_meter option"

text \<open>The buffers have 8192 bytes; they and the number of packets per frame are not initialized.\<close>

definition decoder_new :: "'d \<Rightarrow> bool \<Rightarrow> jbuf \<Rightarrow> sample list \<Rightarrow> sample list \<Rightarrow> sample list \<Rightarrow> nat \<Rightarrow> 'd decoder" where
  "decoder_new d need_ec j junk1 junk2 junk3 n = \<lparr>dec_main = d, dec_ec = (if need_ec then Some d else None),
     dec_jitter = j, frame_buf = junk1, next_buf = junk2, decode_buf = junk3, dec_processed = No_Buffer,
     remaining_len = 0, per_frame = n, lost_run = 0, dec_dtx = False, silent_count = 0, prev_ec = False,
     dec_effects = [], dec_meter = None\<rparr>"

definition set_frame_duration :: "u32 \<Rightarrow> 'd decoder \<Rightarrow> 'd decoder" where
  "set_frame_duration n d = d\<lparr>per_frame := unat (n div 20)\<rparr>"

definition set_dtx :: "bool \<Rightarrow> 'd decoder \<Rightarrow> 'd decoder" where
  "set_dtx b d = d\<lparr>dec_dtx := b\<rparr>"

definition add_effect :: "(sample list \<Rightarrow> sample list) \<Rightarrow> 'd decoder \<Rightarrow> 'd decoder" where
  "add_effect f d = d\<lparr>dec_effects := dec_effects d @ [f]\<rparr>"

text \<open>An effect is removed by its place in the list, where the code compares pointers.\<close>

definition remove_effect :: "nat \<Rightarrow> 'd decoder \<Rightarrow> 'd decoder" where
  "remove_effect i d = d\<lparr>dec_effects := take i (dec_effects d) @ drop (i + 1) (dec_effects d)\<rparr>"

definition set_jitter_buffer :: "jbuf \<Rightarrow> 'd decoder \<Rightarrow> 'd decoder" where
  "set_jitter_buffer j d = d\<lparr>dec_jitter := j\<rparr>"

definition set_decoder_meter :: "level_meter option \<Rightarrow> 'd decoder \<Rightarrow> 'd decoder" where
  "set_decoder_meter m d = d\<lparr>dec_meter := m\<rparr>"

text \<open>What a call of the library writes to the start of a buffer.\<close>

definition overwrite :: "sample list \<Rightarrow> sample list \<Rightarrow> sample list" where
  "overwrite x buf = x @ drop (length x) buf"

subsection \<open>The next frame\<close>

text \<open>A decoder that was not created is the null pointer.\<close>

definition decode_with_ec :: "'d opus \<Rightarrow> byte list option \<Rightarrow> bool \<Rightarrow> 'd decoder \<Rightarrow> exn + int \<times> 'd decoder" where
  "decode_with_ec opus p fec d = (case dec_ec d of None \<Rightarrow> Inl Undefined
   | Some e \<Rightarrow> (case opus e p (per_frame d * 960) fec of ((r, x), e1) \<Rightarrow>
       Inr (r, d\<lparr>dec_ec := Some e1, decode_buf := overwrite x (decode_buf d)\<rparr>)))"

definition decode_main :: "'d opus \<Rightarrow> byte list \<Rightarrow> bool \<Rightarrow> 'd decoder \<Rightarrow> int \<times> 'd decoder" where
  "decode_main opus p heard d = (case opus (dec_main d) (Some p) (per_frame d * 960) True of ((r, x), e1) \<Rightarrow>
     (r, if heard then d\<lparr>dec_main := e1, decode_buf := overwrite x (decode_buf d)\<rparr>
         else d\<lparr>dec_main := e1, next_buf := overwrite x (next_buf d)\<rparr>))"

definition conceal_loss :: "'d opus \<Rightarrow> 'd decoder \<Rightarrow> exn + int \<times> 'd decoder" where
  "conceal_loss opus d = (let d1 = d\<lparr>lost_run := lost_run d + 1\<rparr> in
     if lost_run d1 > 2 \<and> dec_dtx d1
     then Inr (int (per_frame d1 * 960), d1\<lparr>silent_count := silent_count d1 + per_frame d1\<rparr>)
     else if prev_ec d1 then decode_with_ec opus None False d1
     else (case opus (dec_main d1) None (per_frame d1 * 960) False of ((r, x), e1) \<Rightarrow>
       Inr (r, d1\<lparr>dec_main := e1, decode_buf := overwrite x (decode_buf d1)\<rparr>)))"

definition choose_frame :: "'d opus \<Rightarrow> byte list option \<Rightarrow> byte list option \<Rightarrow> 'd decoder \<Rightarrow> exn + int \<times> 'd decoder" where
  "choose_frame opus m e d = (case m of
     Some p \<Rightarrow>
       bind_res (case e of None \<Rightarrow> Inr (0, d) | Some q \<Rightarrow> decode_with_ec opus (Some q) True d) (\<lambda>(ec_size, d1).
         let heard = (have_next False (dec_jitter d1) \<or> \<not> prev_ec d1 \<or> e = None) in
         case decode_main opus p heard d1 of (main_size, d2) \<Rightarrow>
           Inr (if heard then (main_size, d2\<lparr>prev_ec := False\<rparr>) else (ec_size, d2\<lparr>prev_ec := True\<rparr>)))
   | None \<Rightarrow> (case e of
       Some q \<Rightarrow> decode_with_ec opus (Some q) True (d\<lparr>prev_ec := True\<rparr>)
     | None \<Rightarrow> conceal_loss opus d))"

definition scale_frame :: "int \<Rightarrow> 'd decoder \<Rightarrow> 'd decoder" where
  "scale_frame dur d =
    (if dur = 80 then d\<lparr>dec_processed := In_Buffer, frame_buf := overwrite (rescale_60_to_80 (decode_buf d)) (frame_buf d)\<rparr>
     else if dur = 40 then d\<lparr>dec_processed := In_Buffer, frame_buf := overwrite (rescale_60_to_40 (decode_buf d)) (frame_buf d)\<rparr>
     else d\<lparr>dec_processed := In_Decode\<rparr>)"

definition decode_next_frame :: "'d opus \<Rightarrow> 'd decoder \<Rightarrow> exn + int \<times> 'd decoder" where
  "decode_next_frame opus d = (case handle_output (dec_jitter d) of
     None \<Rightarrow> Inl Undefined
   | Some ((dur, m, e), j) \<Rightarrow> bind_res (choose_frame opus m e (d\<lparr>dec_jitter := j\<rparr>)) (\<lambda>(n, d1).
       Inr (dur, scale_frame dur (d1\<lparr>remaining_len := n\<rparr>))))"

definition processed_samples :: "'d decoder \<Rightarrow> sample list" where
  "processed_samples d = (case dec_processed d of No_Buffer \<Rightarrow> [] | In_Buffer \<Rightarrow> frame_buf d | In_Decode \<Rightarrow> decode_buf d)"

definition set_processed :: "sample list \<Rightarrow> 'd decoder \<Rightarrow> 'd decoder" where
  "set_processed x d = (case dec_processed d of No_Buffer \<Rightarrow> d | In_Buffer \<Rightarrow> d\<lparr>frame_buf := x\<rparr> | In_Decode \<Rightarrow> d\<lparr>decode_buf := x\<rparr>)"

subsection \<open>Decoding in the callback of the device\<close>

text \<open>
  The result: the samples for the device and the number that the callback returns. The device
  asks for the 1920 bytes of one packet, which the callback writes whatever it is asked for.
\<close>

definition measure_level :: "sample list \<Rightarrow> 'd decoder \<Rightarrow> 'd decoder" where
  "measure_level x d = d\<lparr>dec_meter := map_option (level_update x) (dec_meter d)\<rparr>"

definition next_piece :: "nat \<Rightarrow> 'd decoder \<Rightarrow> (sample list \<times> nat) \<times> 'd decoder" where
  "next_piece len d =
    (if silent_count d > 0 \<or> remaining_len d = 0 \<or> dec_processed d = No_Buffer
     then ((replicate 960 0, 0), measure_level [] (d\<lparr>silent_count := silent_count d - 1\<rparr>))
     else let p = processed_samples d; rest = remaining_len d - 1920; n = nat rest div 2;
              d1 = d\<lparr>remaining_len := rest\<rparr>;
              d2 = (if rest > 0 then set_processed (take n (drop 960 p) @ drop n p) d1 else d1)
          in ((take 960 p, len), measure_level (take 960 p) d2))"

definition handle_callback_sync :: "'d opus \<Rightarrow> nat \<Rightarrow> 'd decoder \<Rightarrow> exn + (sample list \<times> nat) \<times> 'd decoder" where
  "handle_callback_sync opus len d = bind_res
     (if remaining_len d = 0 \<and> silent_count d = 0
      then bind_res (decode_next_frame opus d) (\<lambda>(dur, d1). Inr (d1\<lparr>remaining_len := dur div 20 * 960 * 2\<rparr>))
      else Inr d) (\<lambda>d1. Inr (next_piece len d1))"

subsection \<open>Decoding ahead on a thread\<close>

text \<open>
  The thread of the decoder and the callback of the device meet at a semaphore and a queue. The
  callback gives permits and waits for a packet, the thread takes a permit for each packet. The model
  interleaves them at these points. \<open>pl_made\<close> and \<open>pl_heard\<close> record what was put into the queue and what
  was given to the device, with the number returned.
\<close>

datatype dec_pc = At_Top | In_Frame nat int | Exited

record 'd player =
  pl_dec :: "'d decoder"
  pl_running :: bool
  pl_out_size :: nat
  pl_sem :: nat
  pl_queue :: "sample list list"
  pl_pc :: dec_pc
  pl_waiting :: bool
  pl_made :: "sample list list"
  pl_heard :: "(sample list \<times> nat) list"

definition player_start :: "'d decoder \<Rightarrow> 'd player" where
  "player_start d = \<lparr>pl_dec = d, pl_running = True, pl_out_size = 0, pl_sem = 0, pl_queue = [], pl_pc = At_Top,
     pl_waiting = False, pl_made = [], pl_heard = []\<rparr>"

definition player_stop :: "'d player \<Rightarrow> 'd player" where
  "player_stop s = (if pl_running s then s\<lparr>pl_running := False, pl_sem := pl_sem s + 1\<rparr> else s)"

text \<open>A callback of the device, up to where it waits for a packet. When the decoder is stopped, it gives silence.\<close>

definition begin_callback :: "nat \<Rightarrow> 'd player \<Rightarrow> exn + 'd player" where
  "begin_callback len s = (if \<not> pl_running s then Inr s
     else let s1 = (if pl_out_size s = 0
                    then s\<lparr>pl_out_size := len, pl_sem := pl_sem s + 2 * (if len > 1920 then len div 1920 else 1)\<rparr>
                    else s)
          in if pl_out_size s1 \<noteq> len then Inl AssertFail
             else if len \<noteq> 1920 then Inl AssertFail
             else Inr (s1\<lparr>pl_waiting := True\<rparr>))"

definition end_callback :: "'d player \<Rightarrow> 'd player option" where
  "end_callback s = (if \<not> pl_waiting s then None
     else case pl_queue s of [] \<Rightarrow> None
     | b # q \<Rightarrow>
         let s1 = s\<lparr>pl_queue := q, pl_sem := pl_sem s + 1, pl_waiting := False\<rparr>; d = pl_dec s in
         Some (if silent_count d > 0
           then s1\<lparr>pl_dec := measure_level [] (d\<lparr>silent_count := silent_count d - 1\<rparr>), pl_heard := pl_heard s @ [(b, 0)]\<rparr>
           else s1\<lparr>pl_dec := measure_level b d, pl_heard := pl_heard s @ [(b, 1920)]\<rparr>))"

text \<open>
  The thread. Effects work in place, on the piece of the decoded frame that is copied to the
  queue. The pool has 32 buffers.
\<close>

definition make_piece :: "nat \<Rightarrow> 'd decoder \<Rightarrow> sample list \<times> 'd decoder" where
  "make_piece i d = (if remaining_len d > 0
     then let p = processed_samples d;
              x = fold (\<lambda>f. f) (dec_effects d) (take 960 (drop (960 * i) p))
          in (x, set_processed (take (960 * i) p @ x @ drop (960 * i + 960) p) d)
     else (replicate 960 0, d))"

definition thread_pass :: "'d opus \<Rightarrow> 'd player \<Rightarrow> (exn + 'd player) option" where
  "thread_pass opus s = (case pl_pc s of
     Exited \<Rightarrow> None
   | At_Top \<Rightarrow> Some (if pl_running s
       then bind_res (decode_next_frame opus (pl_dec s)) (\<lambda>(dur, d). Inr (s\<lparr>pl_dec := d, pl_pc := In_Frame 0 dur\<rparr>))
       else Inr (s\<lparr>pl_pc := Exited\<rparr>))
   | In_Frame i dur \<Rightarrow>
       if int i < dur div 20
       then (if pl_sem s = 0 then None
             else let s1 = s\<lparr>pl_sem := pl_sem s - 1\<rparr> in
               Some (Inr (if \<not> pl_running s then s1\<lparr>pl_pc := Exited\<rparr>
                 else if length (pl_queue s) \<ge> 32 then s1\<lparr>pl_pc := In_Frame (i + 1) dur\<rparr>
                 else case make_piece i (pl_dec s) of (x, d) \<Rightarrow>
                   s1\<lparr>pl_dec := d, pl_queue := pl_queue s @ [x], pl_made := pl_made s @ [x], pl_pc := In_Frame (i + 1) dur\<rparr>)))
       else Some (Inr (s\<lparr>pl_pc := At_Top\<rparr>)))"

inductive player_step :: "'d opus \<Rightarrow> 'd player \<Rightarrow> 'd player \<Rightarrow> bool" for opus where
  ask: "\<not> pl_waiting s \<Longrightarrow> begin_callback len s = Inr t \<Longrightarrow> player_step opus s t"
| hear: "end_callback s = Some t \<Longrightarrow> player_step opus s t"
| work: "thread_pass opus s = Some (Inr t) \<Longrightarrow> player_step opus s t"
| stop: "player_step opus s (player_stop s)"

inductive player_reach :: "'d opus \<Rightarrow> 'd decoder \<Rightarrow> 'd player \<Rightarrow> bool" for opus d where
  start: "player_reach opus d (player_start d)"
| step: "player_reach opus d s \<Longrightarrow> player_step opus s t \<Longrightarrow> player_reach opus d t"

subsection \<open>Which frame is heard\<close>

lemma output_duration:
  "handle_output j = Some ((dur, m, e), j1) \<Longrightarrow> dur = 40 \<or> dur = 60 \<or> dur = 80"
  by (auto simp: handle_output_def scale_playback_def Let_def split: if_splits prod.splits option.splits bind_splits)

lemma overwrite_take: "length x = n \<Longrightarrow> take n (overwrite x buf) = x"
  by (simp add: overwrite_def)

lemma opus_fits:
  assumes "opus_ok opus"
  shows "length (snd (fst (opus d p n fec))) = nat (fst (fst (opus d p n fec)))"
    and "length (snd (fst (opus d p n fec))) \<le> n"
  using assms unfolding opus_ok_def split_beta by blast+

lemma with_ec_conv: "decode_with_ec opus p fec d = Inr (n, d') \<longleftrightarrow> (\<exists>e. dec_ec d = Some e
    \<and> n = fst (fst (opus e p (per_frame d * 960) fec))
    \<and> d' = d\<lparr>dec_ec := Some (snd (opus e p (per_frame d * 960) fec)),
             decode_buf := overwrite (snd (fst (opus e p (per_frame d * 960) fec))) (decode_buf d)\<rparr>)"
  by (auto simp: decode_with_ec_def split: option.split prod.splits)

lemma main_conv: "decode_main opus p heard d = (fst (fst (opus (dec_main d) (Some p) (per_frame d * 960) True)),
    let (r, x) = (snd (opus (dec_main d) (Some p) (per_frame d * 960) True), snd (fst (opus (dec_main d) (Some p) (per_frame d * 960) True)))
    in if heard then d\<lparr>dec_main := r, decode_buf := overwrite x (decode_buf d)\<rparr>
       else d\<lparr>dec_main := r, next_buf := overwrite x (next_buf d)\<rparr>)"
  by (simp add: decode_main_def split: prod.split)

text \<open>
  Which of two frames is heard. When the main frame and a copy with error correction are both
  there, both are decoded, each by its own decoder, and the main frame is heard unless the last
  frame heard was a copy and the next main frame has not arrived; with one of them, that one is heard.
\<close>

theorem frame_heard:
  assumes "opus_ok opus" "m \<noteq> None \<or> e \<noteq> None" "choose_frame opus m e d = Inr (n, d')"
  shows "let main = (m \<noteq> None \<and> (have_next False (dec_jitter d) \<or> \<not> prev_ec d \<or> e = None));
             from_main = opus (dec_main d) m (per_frame d * 960) True; from_ec = opus (the (dec_ec d)) e (per_frame d * 960) True
    in (n, take (nat n) (decode_buf d')) = fst (if main then from_main else from_ec) \<and> (prev_ec d' \<longleftrightarrow> \<not> main)
      \<and> dec_main d' = (if m = None then dec_main d else snd from_main)
      \<and> dec_ec d' = (if e = None then dec_ec d else Some (snd from_ec))"
proof -
  have fits: "take (nat (fst (fst (opus a p k fec)))) (overwrite (snd (fst (opus a p k fec))) buf) = snd (fst (opus a p k fec))"
    for a p k fec buf using opus_fits(1) [OF assms(1)] by (intro overwrite_take)
  show ?thesis
  proof (cases m)
    case None
    then show ?thesis using assms(2,3) fits by (auto simp: choose_frame_def with_ec_conv Let_def prod_eq_iff)
  next
    case (Some p)
    then show ?thesis using assms(3) fits
      by (cases e) (auto simp: choose_frame_def with_ec_conv main_conv Let_def bind_res_Inr_conv prod_eq_iff)
  qed
qed

text \<open>A decoder for the examples: the samples are the bytes.\<close>

definition plain_opus :: "unit opus" where
  "plain_opus d p n fec = (case p of None \<Rightarrow> ((0, []), ()) | Some b \<Rightarrow>
     ((int (length (take n b)), map ucast (take n b)), ()))"

lemma plain_opus_ok: "opus_ok plain_opus"
  by (simp add: opus_ok_def plain_opus_def split: option.split)

definition sample_decoder :: "unit decoder" where
  "sample_decoder = set_frame_duration 60 (decoder_new () True (jb_new (\<lambda>_ x. x) (\<lambda>_ x. x) 60)
     (replicate 4096 0) (replicate 4096 0) (replicate 4096 0) 0)"

theorem frame_heard_witness:
  "\<exists>n d'. choose_frame plain_opus (Some [7]) (Some [8]) sample_decoder = Inr (n, d') \<and> take (nat n) (decode_buf d') = [7]"
proof -
  obtain n d' where c: "choose_frame plain_opus (Some [7]) (Some [8]) sample_decoder = Inr (n, d')"
    by (simp add: choose_frame_def decode_with_ec_def decode_main_def sample_decoder_def set_frame_duration_def decoder_new_def
        plain_opus_def Let_def)
  show ?thesis using frame_heard [OF plain_opus_ok _ c] c
    by (auto simp add: Let_def sample_decoder_def set_frame_duration_def decoder_new_def plain_opus_def)
qed

lemma length_rescale [simp]: "2880 \<le> length x \<Longrightarrow> length (rescale_60_to_80 x) = 3840" "length (rescale_60_to_40 x) = 1920"
  by (simp_all add: rescale_60_to_80_def rescale_60_to_40_def)

lemma length_overwrite [simp]: "length x \<le> length buf \<Longrightarrow> length (overwrite x buf) = length buf"
  by (simp add: overwrite_def)

subsection \<open>What the callback of the device plays\<close>

fun callbacks :: "'d opus \<Rightarrow> nat \<Rightarrow> 'd decoder \<Rightarrow> exn + (sample list \<times> nat) list \<times> 'd decoder" where
  "callbacks opus 0 d = Inr ([], d)"
| "callbacks opus (Suc n) d = bind_res (handle_callback_sync opus 1920 d) (\<lambda>(x, d1).
     bind_res (callbacks opus n d1) (\<lambda>(xs, d2). Inr (x # xs, d2)))"

definition pieces :: "nat \<Rightarrow> sample list \<Rightarrow> (sample list \<times> nat) list" where
  "pieces n p = map (\<lambda>i. (take 960 (drop (960 * i) p), 1920)) [0..<n]"

lemma pieces_Suc: "960 * Suc n \<le> length p
    \<Longrightarrow> pieces (Suc n) p = (take 960 p, 1920) # pieces n (take (960 * n) (drop 960 p) @ drop (960 * n) p)"
proof -
  assume len: "960 * Suc n \<le> length p"
  have "take 960 (drop (960 * i) (take (960 * n) (drop 960 p) @ r)) = take 960 (drop (960 * Suc i) p)" if "i < n" for i r
  proof -
    have i: "960 * i + 960 \<le> 960 * n" using that by auto
    then have "take 960 (drop (960 * i) (take (960 * n) (drop 960 p) @ r)) = take 960 (drop (960 * i) (take (960 * n) (drop 960 p)))"
      using len by simp
    also have "\<dots> = take 960 (drop (960 * i) (drop 960 p))" using i by (simp add: drop_take)
    finally show ?thesis by (simp add: add.commute)
  qed
  then have "map (\<lambda>i. (take 960 (drop (960 * Suc i) p), 1920 :: nat)) [0..<n]
      = map (\<lambda>i. (take 960 (drop (960 * i) (take (960 * n) (drop 960 p) @ drop (960 * n) p)), 1920)) [0..<n]"
    by (intro map_cong refl) (metis atLeastLessThan_iff set_upt)
  then show ?thesis unfolding pieces_def map_upt_Suc by (simp only: mult_0_right drop_0)
qed

lemma processed_measure [simp]: "processed_samples (measure_level x d) = processed_samples d"
  "processed_samples (d\<lparr>remaining_len := r\<rparr>) = processed_samples d"
  by (simp_all add: processed_samples_def measure_level_def split: processed.split)

lemma processed_set: "dec_processed d \<noteq> No_Buffer \<Longrightarrow> processed_samples (set_processed x d) = x"
  by (cases "dec_processed d") (simp_all add: processed_samples_def set_processed_def)

lemma set_processed_fields [simp]: "remaining_len (set_processed x d) = remaining_len d"
  "silent_count (set_processed x d) = silent_count d" "dec_processed (set_processed x d) = dec_processed d"
  "dec_jitter (set_processed x d) = dec_jitter d"
  by (cases "dec_processed d"; simp add: set_processed_def)+

lemma measure_fields [simp]: "remaining_len (measure_level x d) = remaining_len d"
  "silent_count (measure_level x d) = silent_count d" "dec_processed (measure_level x d) = dec_processed d"
  "dec_jitter (measure_level x d) = dec_jitter d"
  by (simp_all add: measure_level_def)

lemma callbacks_rest:
  "silent_count d = 0 \<Longrightarrow> dec_processed d \<noteq> No_Buffer \<Longrightarrow> remaining_len d = 1920 * int n
    \<Longrightarrow> 960 * n \<le> length (processed_samples d)
    \<Longrightarrow> \<exists>d'. callbacks opus n d = Inr (pieces n (processed_samples d), d')
        \<and> remaining_len d' = 0 \<and> silent_count d' = 0 \<and> dec_jitter d' = dec_jitter d"
proof (induction n arbitrary: d)
  case 0
  then show ?case by (simp add: pieces_def)
next
  case (Suc n)
  let ?p = "processed_samples d"
  obtain x d1 where np: "next_piece 1920 d = (x, d1)" by fastforce
  have d1: "x = (take 960 ?p, 1920)" "remaining_len d1 = 1920 * int n" "silent_count d1 = 0" "dec_jitter d1 = dec_jitter d"
    "dec_processed d1 \<noteq> No_Buffer" "n \<noteq> 0 \<longrightarrow> processed_samples d1 = take (960 * n) (drop 960 ?p) @ drop (960 * n) ?p"
    using np Suc.prems by (auto simp: next_piece_def Let_def processed_set nat_mult_distrib algebra_simps split: if_splits)
  have h: "handle_callback_sync opus 1920 d = Inr (x, d1)"
    using Suc.prems np by (simp add: handle_callback_sync_def)
  show ?case
  proof (cases n)
    case 0
    then show ?thesis using h d1 by (simp add: pieces_def)
  next
    case (Suc m)
    then have p: "processed_samples d1 = take (960 * n) (drop 960 ?p) @ drop (960 * n) ?p" using d1(6) by simp
    then have "960 * n \<le> length (processed_samples d1)" using Suc.prems(4) by simp
    from Suc.IH [OF d1(3,5,2) this] show ?thesis using h d1(1,4) pieces_Suc [OF Suc.prems(4)] p by auto
  qed
qed

text \<open>
  The callback of the device plays every decoded frame completely and once. When nothing is left
  and a frame of 40, 60 or 80 ms is decoded, the next callbacks, one for each 20 ms, give its
  pieces in order; only then the next frame is taken from the jitter buffer.
\<close>

theorem frame_played_once:
  assumes "remaining_len d = 0" "silent_count d = 0" "decode_next_frame opus d = Inr (dur, d1)"
    and "silent_count d1 = 0" "length (processed_samples d1) = 4096"
  shows "\<exists>d'. callbacks opus (nat (dur div 20)) d = Inr (pieces (nat (dur div 20)) (processed_samples d1), d')
    \<and> dur \<in> {40, 60, 80} \<and> remaining_len d' = 0 \<and> silent_count d' = 0 \<and> dec_jitter d' = dec_jitter d1"
proof -
  define n where "n = nat (dur div 20) - 1"
  have dur: "dur \<in> {40, 60, 80}" using assms(3) output_duration
    by (auto simp: decode_next_frame_def bind_res_Inr_conv split: option.splits prod.splits) blast
  then have n: "nat (dur div 20) = Suc n" "n \<le> 3" "dur div 20 = 1 + int n" by (auto simp: n_def)
  let ?d = "d1\<lparr>remaining_len := 1920 * int (Suc n)\<rparr>"
  have pr: "dec_processed d1 \<noteq> No_Buffer" using assms(5) by (auto simp: processed_samples_def)
  have first: "handle_callback_sync opus 1920 d = handle_callback_sync opus 1920 ?d"
    using assms(1-4) n by (simp add: handle_callback_sync_def algebra_simps)
  then have "callbacks opus (Suc n) d = callbacks opus (Suc n) ?d" by simp
  moreover have "960 * Suc n \<le> length (processed_samples ?d)" using assms(5) n(2) by simp
  ultimately show ?thesis using callbacks_rest [of ?d "Suc n" opus] assms(4) pr dur n(1) by auto
qed

lemma sample_decoder_first:
  "decode_next_frame plain_opus sample_decoder = Inr (80, sample_decoder\<lparr>dec_jitter := (dec_jitter sample_decoder)\<lparr>jb_first := False,
     next_fetch := 1\<rparr>, lost_run := 1, dec_processed := In_Buffer,
     frame_buf := overwrite (rescale_60_to_80 (replicate 4096 0)) (replicate 4096 0)\<rparr>)"
proof -
  have e: "ja_get 0 (ja_clear (ja_new b)) = None" "ja_count (ja_clear (ja_new b)) = Some 0" for b
    by (simp_all add: ja_get_def ja_new_def ja_count_def ja_clear_def ja_empty_def)
  show ?thesis
    by (simp add: decode_next_frame_def sample_decoder_def set_frame_duration_def decoder_new_def handle_output_def catch_up_def
        scale_playback_def current_delay_def jb_new_def jb_reset_def e note_loss_def choose_frame_def conceal_loss_def
        plain_opus_def scale_frame_def overwrite_def)
qed

theorem frame_played_once_witness:
  "\<exists>d'. callbacks plain_opus 4 sample_decoder
     = Inr (pieces 4 (overwrite (rescale_60_to_80 (replicate 4096 0)) (replicate 4096 0)), d')"
  using frame_played_once [OF _ _ sample_decoder_first]
  by (auto simp: sample_decoder_def set_frame_duration_def decoder_new_def processed_samples_def)

subsection \<open>The thread and the device\<close>

definition balanced :: "'d player \<Rightarrow> bool" where
  "balanced s \<longleftrightarrow> map fst (pl_heard s) @ pl_queue s = pl_made s \<and> length (pl_queue s) \<le> 2
     \<and> (pl_running s \<longrightarrow> pl_pc s \<noteq> Exited \<and>
          (if pl_out_size s = 0 then pl_sem s = 0 \<and> pl_queue s = [] \<and> \<not> pl_waiting s
           else pl_out_size s = 1920 \<and> pl_sem s + length (pl_queue s) = 2))"

lemma balanced_pass: "balanced s \<Longrightarrow> thread_pass opus s = Some (Inr t) \<Longrightarrow> balanced t"
  by (auto simp: balanced_def thread_pass_def Let_def bind_res_Inr_conv split: dec_pc.splits if_splits prod.splits)

lemma balanced_step: "player_step opus s t \<Longrightarrow> balanced s \<Longrightarrow> balanced t"
proof (induction rule: player_step.induct)
  case (ask s len t)
  then show ?case by (auto simp: balanced_def begin_callback_def Let_def split: if_splits)
next
  case (hear s t)
  then show ?case by (auto simp: balanced_def end_callback_def Let_def split: if_splits list.splits)
next
  case (work s t)
  then show ?case using balanced_pass by blast
next
  case (stop s)
  then show ?case by (auto simp: balanced_def player_stop_def split: if_splits)
qed

lemma balanced_reach: "player_reach opus d s \<Longrightarrow> balanced s"
  by (induction rule: player_reach.induct) (auto simp: balanced_step, simp add: balanced_def player_start_def)

text \<open>
  C21: decoding ahead keeps exactly two packets on the way. In every interleaving of the thread, the
  callbacks of the device and the call that stops the decoder: what was heard and what waits is
  what was made, in this order; never more than two packets wait, so no buffer is ever missing;
  and while the decoder runs, the permits and the packets that wait are two together, so that
  thread and device are never both blocked.
\<close>

theorem two_packets_ahead:
  assumes "player_reach opus d s"
  shows "map fst (pl_heard s) @ pl_queue s = pl_made s \<and> length (pl_queue s) \<le> 2
    \<and> (pl_running s \<and> pl_out_size s \<noteq> 0 \<longrightarrow> pl_sem s + length (pl_queue s) = 2)
    \<and> (pl_running s \<and> pl_waiting s \<longrightarrow> pl_queue s \<noteq> [] \<or> pl_sem s = 2 \<and> thread_pass opus s \<noteq> None)"
  using balanced_reach [OF assms]
  by (auto simp: balanced_def thread_pass_def split: dec_pc.splits if_splits)

fun thread_run :: "'d opus \<Rightarrow> nat \<Rightarrow> 'd player \<Rightarrow> (exn + 'd player) option" where
  "thread_run opus 0 s = Some (Inr s)"
| "thread_run opus (Suc n) s = (case thread_pass opus s of
     None \<Rightarrow> None | Some (Inl e) \<Rightarrow> Some (Inl e) | Some (Inr t) \<Rightarrow> thread_run opus n t)"

lemma frame_pass:
  assumes "pl_pc s = In_Frame i dur" "int i < dur div 20" "pl_running s" "pl_sem s > 0" "length (pl_queue s) \<le> 2"
  shows "\<exists>t. thread_pass opus s = Some (Inr t) \<and> pl_queue t \<noteq> []"
  using assms by (auto simp: thread_pass_def split: prod.split)

lemma top_passes:
  assumes "pl_pc s = At_Top" "pl_running s" "pl_sem s > 0" "length (pl_queue s) \<le> 2"
  shows "\<exists>r. thread_run opus 2 s = Some r \<and> (case r of Inl e \<Rightarrow> True | Inr t \<Rightarrow> pl_queue t \<noteq> [])"
proof (cases "decode_next_frame opus (pl_dec s)")
  case (Inl e)
  then show ?thesis using assms by (auto simp: thread_pass_def eval_nat_numeral)
next
  case (Inr r)
  obtain dur d1 where r: "r = (dur, d1)" by fastforce
  let ?t = "s\<lparr>pl_dec := d1, pl_pc := In_Frame 0 dur\<rparr>"
  have "dur \<in> {40, 60, 80}" using Inr r output_duration
    by (auto simp: decode_next_frame_def bind_res_Inr_conv split: option.splits prod.splits) blast
  then have "int 0 < dur div 20" by auto
  then obtain t where "thread_pass opus ?t = Some (Inr t)" "pl_queue t \<noteq> []"
    using frame_pass [of ?t 0 dur opus] assms by auto
  moreover have "thread_pass opus s = Some (Inr ?t)" using assms Inr r by (simp add: thread_pass_def)
  ultimately show ?thesis by (auto simp: eval_nat_numeral)
qed

text \<open>
  C29: a callback that waits is served. While the decoder runs, either a packet is there, or the
  thread puts one into the queue within three steps of its own, unless decoding itself fails.
\<close>

theorem waiting_callback_served:
  assumes "player_reach opus d s" "pl_running s" "pl_waiting s" "pl_queue s = []"
  shows "\<exists>n r. n \<le> 3 \<and> thread_run opus n s = Some r \<and> (case r of Inl e \<Rightarrow> True | Inr t \<Rightarrow> pl_queue t \<noteq> [])"
proof -
  have b: "pl_sem s > 0" "pl_pc s \<noteq> Exited" using balanced_reach [OF assms(1)] assms(2-4)
    by (auto simp: balanced_def split: if_splits)
  show ?thesis
  proof (cases "pl_pc s")
    case At_Top
    then show ?thesis using top_passes [of s opus] b assms by (intro exI [of _ 2]) auto
  next
    case (In_Frame i dur)
    show ?thesis
    proof (cases "int i < dur div 20")
      case True
      then obtain t where "thread_pass opus s = Some (Inr t)" "pl_queue t \<noteq> []"
        using frame_pass [OF In_Frame True] b assms by auto
      then show ?thesis by (intro exI [of _ 1]) auto
    next
      case False
      let ?t = "s\<lparr>pl_pc := At_Top\<rparr>"
      have "thread_pass opus s = Some (Inr ?t)" using In_Frame False by (simp add: thread_pass_def)
      then have "thread_run opus 3 s = thread_run opus 2 ?t" by (simp add: numeral_3_eq_3 numeral_2_eq_2)
      then show ?thesis using top_passes [of ?t opus] b assms by (intro exI [of _ 3]) auto
    qed
  qed (use b in simp)
qed

definition asked :: "unit player" where
  "asked = (player_start sample_decoder)\<lparr>pl_out_size := 1920, pl_sem := 2, pl_waiting := True\<rparr>"

lemma asked_reach: "player_reach plain_opus sample_decoder asked"
  by (rule player_reach.step [OF player_reach.start], rule player_step.ask [where len = 1920])
    (simp_all add: asked_def player_start_def begin_callback_def)

theorem two_packets_ahead_witness: "pl_sem asked = 2 \<and> thread_pass plain_opus asked \<noteq> None"
  using two_packets_ahead [OF asked_reach] by (auto simp: asked_def player_start_def)

theorem waiting_callback_served_witness:
  "\<exists>n r. n \<le> 3 \<and> thread_run plain_opus n asked = Some r \<and> (case r of Inl e \<Rightarrow> True | Inr t \<Rightarrow> pl_queue t \<noteq> [])"
  by (rule waiting_callback_served [OF asked_reach]) (simp_all add: asked_def player_start_def)

subsection \<open>The buffers\<close>

definition fits :: "'d decoder \<Rightarrow> bool" where
  "fits d \<longleftrightarrow> length (frame_buf d) = 4096 \<and> length (next_buf d) = 4096 \<and> length (decode_buf d) = 4096
     \<and> per_frame d = 3 \<and> (\<forall>f \<in> set (dec_effects d). \<forall>x. length (f x) = length x)"

lemma opus_length [simp]: "opus_ok opus \<Longrightarrow> fits d \<Longrightarrow> length (snd (fst (opus a p (per_frame d * 960) fec))) \<le> 4096"
  using opus_fits(2) [of opus a p "per_frame d * 960" fec] by (auto simp: fits_def)

lemma fits_ec: "opus_ok opus \<Longrightarrow> fits d \<Longrightarrow> decode_with_ec opus p fec d = Inr (n, d') \<Longrightarrow> fits d'"
  using opus_length [of opus d] by (auto simp: with_ec_conv fits_def)

lemma fits_main: "opus_ok opus \<Longrightarrow> fits d \<Longrightarrow> fits (snd (decode_main opus p heard d))"
  using opus_length [of opus d] by (auto simp: main_conv fits_def)

lemma fits_update [simp]: "fits (d\<lparr>prev_ec := b\<rparr>) = fits d" "fits (d\<lparr>lost_run := i\<rparr>) = fits d"
  "fits (d\<lparr>silent_count := k\<rparr>) = fits d" "fits (d\<lparr>remaining_len := l\<rparr>) = fits d" "fits (d\<lparr>dec_jitter := j\<rparr>) = fits d"
  "fits (measure_level x d) = fits d"
  by (simp_all add: fits_def measure_level_def)

lemma fits_conceal: "opus_ok opus \<Longrightarrow> fits d \<Longrightarrow> conceal_loss opus d = Inr (n, d') \<Longrightarrow> fits d'"
proof -
  assume a: "opus_ok opus" "fits d" "conceal_loss opus d = Inr (n, d')"
  let ?d = "d\<lparr>lost_run := lost_run d + 1\<rparr>"
  have "fits ?d" using a(2) by simp
  from fits_ec [OF a(1) this] opus_length [OF a(1) this, of "dec_main d" None False] show ?thesis using a(2,3)
    by (auto simp: conceal_loss_def Let_def fits_def split: if_splits prod.splits)
qed

lemma fits_choose: "opus_ok opus \<Longrightarrow> fits d \<Longrightarrow> choose_frame opus m e d = Inr (n, d') \<Longrightarrow> fits d'"
proof (cases m)
  case None
  assume a: "opus_ok opus" "fits d" "choose_frame opus m e d = Inr (n, d')"
  then show ?thesis using None fits_conceal [OF a(1,2)] fits_ec [OF a(1), of "d\<lparr>prev_ec := True\<rparr>"]
    by (auto simp: choose_frame_def split: option.splits)
next
  case (Some p)
  assume a: "opus_ok opus" "fits d" "choose_frame opus m e d = Inr (n, d')"
  show ?thesis using a(2,3) Some fits_main [OF a(1)] fits_ec [OF a(1,2)]
    by (cases e) (auto simp: choose_frame_def bind_res_Inr_conv Let_def split_beta split: if_splits)
qed

lemma fits_scale: "fits d \<Longrightarrow> fits (scale_frame dur d) \<and> dec_processed (scale_frame dur d) \<noteq> No_Buffer"
  by (simp add: scale_frame_def fits_def)

lemma fits_next: "opus_ok opus \<Longrightarrow> fits d \<Longrightarrow> decode_next_frame opus d = Inr (dur, d')
    \<Longrightarrow> fits d' \<and> dec_processed d' \<noteq> No_Buffer \<and> dur \<in> {40, 60, 80}"
proof -
  assume a: "opus_ok opus" "fits d" "decode_next_frame opus d = Inr (dur, d')"
  then obtain m e j n d1 where "handle_output (dec_jitter d) = Some ((dur, m, e), j)"
      "choose_frame opus m e (d\<lparr>dec_jitter := j\<rparr>) = Inr (n, d1)" "d' = scale_frame dur (d1\<lparr>remaining_len := n\<rparr>)"
    by (auto simp: decode_next_frame_def bind_res_Inr_conv split: option.splits prod.splits)
  then show ?thesis using a(2) fits_choose [OF a(1)] fits_scale output_duration by (metis fits_update(4,5) insert_iff)
qed

lemma fold_effects_length:
  "\<forall>f \<in> set fs. \<forall>x. length (f x) = length x \<Longrightarrow> length (fold (\<lambda>f. f) fs x) = length x"
  by (induction fs arbitrary: x) auto

lemma fits_piece:
  assumes "fits d" "dec_processed d \<noteq> No_Buffer" "i < 4" "make_piece i d = (x, d')"
  shows "length x = 960 \<and> fits d' \<and> dec_processed d' \<noteq> No_Buffer"
proof -
  have p: "length (processed_samples d) = 4096" using assms(1,2)
    by (cases "dec_processed d") (simp_all add: processed_samples_def fits_def)
  let ?x = "fold (\<lambda>f. f) (dec_effects d) (take 960 (drop (960 * i) (processed_samples d)))"
  have len: "length ?x = 960" using fold_effects_length [of "dec_effects d"] assms(1,3) p by (simp add: fits_def)
  let ?p = "take (960 * i) (processed_samples d) @ ?x @ drop (960 * i + 960) (processed_samples d)"
  have "length ?p = 4096" using len p assms(3) by simp
  then have "fits (set_processed ?p d)" using assms(1) by (cases "dec_processed d") (auto simp: set_processed_def fits_def)
  then show ?thesis using assms len by (auto simp: make_piece_def Let_def split: if_splits)
qed

definition player_fits :: "'d player \<Rightarrow> bool" where
  "player_fits s \<longleftrightarrow> fits (pl_dec s) \<and> (\<forall>x \<in> set (pl_made s). length x = 960)
     \<and> (\<forall>i dur. pl_pc s = In_Frame i dur \<longrightarrow> dec_processed (pl_dec s) \<noteq> No_Buffer \<and> dur \<in> {40, 60, 80})"

lemma player_fits_pass:
  assumes "opus_ok opus" "player_fits s" "thread_pass opus s = Some (Inr t)"
  shows "player_fits t"
proof (cases "pl_pc s")
  case At_Top
  then consider "t = s\<lparr>pl_pc := Exited\<rparr>" | dur d where "decode_next_frame opus (pl_dec s) = Inr (dur, d)"
      "t = s\<lparr>pl_dec := d, pl_pc := In_Frame 0 dur\<rparr>"
    using assms(3) by (auto simp: thread_pass_def bind_res_Inr_conv split: if_splits)
  then show ?thesis
  proof cases
    case 2
    then show ?thesis using fits_next [OF assms(1) _ 2(1)] assms(2) by (simp add: player_fits_def)
  qed (use assms(2) in \<open>simp add: player_fits_def\<close>)
next
  case (In_Frame i dur)
  obtain x d where x: "make_piece i (pl_dec s) = (x, d)" by fastforce
  have "i < 4" if "int i < dur div 20" using that assms(2) In_Frame by (auto simp: player_fits_def)
  then show ?thesis using assms In_Frame x fits_piece [of "pl_dec s" i x d]
    by (auto simp: thread_pass_def player_fits_def Let_def split: if_splits)
qed (use assms in \<open>simp add: thread_pass_def\<close>)

text \<open>
  C34: no sample is written or read outside the buffers. With the frames of 60 ms that every call uses,
  and effects that keep the number of samples, all buffers keep their 4096 samples in every state of the thread and
  the device, and every packet that is made has 960 samples.
\<close>

theorem decoder_buffers_fit:
  assumes "opus_ok opus" "fits d" "player_reach opus d s"
  shows "fits (pl_dec s) \<and> (\<forall>x \<in> set (pl_made s). length x = 960)
    \<and> (\<forall>i dur. pl_pc s = In_Frame i dur \<longrightarrow> 960 * nat (dur div 20) \<le> length (processed_samples (pl_dec s)))"
proof -
  have "player_fits s" using assms(3)
  proof (induction rule: player_reach.induct)
    case start
    then show ?case using assms(2) by (simp add: player_fits_def player_start_def)
  next
    case (step s t)
    from step.hyps(2) step.IH show ?case
    proof (induction rule: player_step.induct)
      case (work s t)
      then show ?case using player_fits_pass [OF assms(1)] by blast
    qed (auto simp: player_fits_def begin_callback_def end_callback_def player_stop_def Let_def
        split: if_splits list.splits)
  qed
  moreover have "length (processed_samples (pl_dec s)) = 4096"
    if "dec_processed (pl_dec s) \<noteq> No_Buffer" "fits (pl_dec s)"
    using that by (cases "dec_processed (pl_dec s)") (simp_all add: processed_samples_def fits_def)
  ultimately show ?thesis by (auto simp: player_fits_def)
qed

theorem decoder_buffers_fit_witness: "fits (pl_dec asked)"
  using decoder_buffers_fit [OF plain_opus_ok _ asked_reach]
  by (simp add: fits_def sample_decoder_def set_frame_duration_def decoder_new_def)

end
