(* ===== verification/Encoder.thy ===== *)
theory Encoder
  imports Sound
begin

section \<open>The encoder (OpusEncoder.cpp)\<close>

text \<open>
  From the device to the packet sender: the captured packets of 20 ms wait in a queue, a thread
  processes them, collects those of one frame, and has Opus encode it, with a second encoder for the
  copies with error correction.
\<close>

subsection \<open>The state\<close>

text \<open>
  What the library is told with \<^verbatim>\<open>opus_encoder_ctl\<close>. \<open>None\<close> is the automatic bitrate.
\<close>

record enc_ctl =
  ctl_bitrate :: "u32 option"
  ctl_complexity :: int
  ctl_loss :: int
  ctl_fec :: bool
  ctl_dtx :: bool

text \<open>
  Opus is a parameter: from its state, the settings, the samples and the room for bytes to the
  size or a negative error, the bytes, and its new state. Echo canceller and voice detection
  are another one: they change a packet and tell whether there is voice in it.
\<close>

type_synonym 'e opus_enc = "'e \<Rightarrow> enc_ctl \<Rightarrow> sample list \<Rightarrow> nat \<Rightarrow> (int \<times> byte list) \<times> 'e"

record 'e opus_encoder =
  en_main :: 'e
  en_ctl :: enc_ctl
  en_second :: "('e \<times> enc_ctl) option"
  en_requested :: u32
  en_current :: u32
  en_current_second :: u32
  en_second_on :: bool
  en_vad :: bool
  en_no_voice :: u32
  en_complexity :: int
  en_running :: bool
  en_thread :: bool
  en_duration :: u32
  en_loss :: int
  en_effects :: "(sample list \<Rightarrow> sample list) list"
  en_meter :: "level_meter option"
  en_queue :: "sample list list"
  en_given :: "sample list list"
  en_out :: "(byte list \<times> byte list) list"

text \<open>\<open>en_thread\<close> tells whether the thread is in its loop; \<open>en_given\<close> records what Opus was asked to encode, \<open>en_out\<close> what the packet sender was given.
  The percentage of losses is not initialized.\<close>

definition encoder_new :: "'e \<Rightarrow> bool \<Rightarrow> (string \<Rightarrow> u32 \<Rightarrow> u32) \<Rightarrow> int \<Rightarrow> 'e opus_encoder" where
  "encoder_new e second cfg loss0 = \<lparr>en_main = e,
     en_ctl = \<lparr>ctl_bitrate = None, ctl_complexity = 10, ctl_loss = 1, ctl_fec = True, ctl_dtx = False\<rparr>,
     en_second = (if second then Some (e, \<lparr>ctl_bitrate = Some 8000, ctl_complexity = 10, ctl_loss = 0, ctl_fec = False,
        ctl_dtx = False\<rparr>) else None),
     en_requested = 20000, en_current = 20000, en_current_second = 8000, en_second_on = False, en_vad = False,
     en_no_voice = cfg ''audio_vad_no_voice_bitrate'' 6000, en_complexity = 10, en_running = False, en_thread = False, en_duration = 20,
     en_loss = loss0, en_effects = [], en_meter = None, en_queue = [], en_given = [],
     en_out = []\<rparr>"

definition set_bitrate :: "u32 \<Rightarrow> 'e opus_encoder \<Rightarrow> 'e opus_encoder" where
  "set_bitrate b n = n\<lparr>en_requested := b\<rparr>"

definition set_encoder_loss :: "int \<Rightarrow> 'e opus_encoder \<Rightarrow> 'e opus_encoder" where
  "set_encoder_loss p n = n\<lparr>en_loss := min 20 p,
     en_ctl := (en_ctl n)\<lparr>ctl_loss := min 20 p, ctl_fec := (p > 0 \<and> \<not> en_second_on n)\<rparr>\<rparr>"

definition set_encoder_dtx :: "bool \<Rightarrow> 'e opus_encoder \<Rightarrow> 'e opus_encoder" where
  "set_encoder_dtx b n = n\<lparr>en_ctl := (en_ctl n)\<lparr>ctl_dtx := b\<rparr>\<rparr>"

definition set_output_duration :: "u32 \<Rightarrow> 'e opus_encoder \<Rightarrow> 'e opus_encoder" where
  "set_output_duration d n = n\<lparr>en_duration := d\<rparr>"

definition set_second_enabled :: "bool \<Rightarrow> 'e opus_encoder \<Rightarrow> 'e opus_encoder" where
  "set_second_enabled b n = n\<lparr>en_second_on := b\<rparr>"

definition set_vad_mode :: "bool \<Rightarrow> 'e opus_encoder \<Rightarrow> 'e opus_encoder" where
  "set_vad_mode b n = n\<lparr>en_vad := b\<rparr>"

definition add_encoder_effect :: "(sample list \<Rightarrow> sample list) \<Rightarrow> 'e opus_encoder \<Rightarrow> 'e opus_encoder" where
  "add_encoder_effect f n = n\<lparr>en_effects := en_effects n @ [f]\<rparr>"

text \<open>An effect is removed by its place in the list, where the code compares pointers.\<close>

definition remove_encoder_effect :: "nat \<Rightarrow> 'e opus_encoder \<Rightarrow> 'e opus_encoder" where
  "remove_encoder_effect i n = n\<lparr>en_effects := take i (en_effects n) @ drop (i + 1) (en_effects n)\<rparr>"

text \<open>The settings of the bitrate for both encoders.\<close>

definition tell_bitrates :: "u32 \<Rightarrow> u32 \<Rightarrow> 'e opus_encoder \<Rightarrow> 'e opus_encoder" where
  "tell_bitrates b b2 n = n\<lparr>en_ctl := (en_ctl n)\<lparr>ctl_bitrate := Some b\<rparr>,
     en_second := map_option (\<lambda>(e, c). (e, c\<lparr>ctl_bitrate := Some b2\<rparr>)) (en_second n)\<rparr>"

subsection \<open>Encoding a frame\<close>

text \<open>
  An error of the second encoder is a negative length, which becomes a huge one when it is passed on: the
  packet sender cannot allocate that much.
\<close>

definition encode_second :: "'e opus_enc \<Rightarrow> sample list \<Rightarrow> 'e opus_encoder \<Rightarrow> exn + byte list \<times> 'e opus_encoder" where
  "encode_second opus x n = (case en_second n of
     Some (e, c) \<Rightarrow> if en_second_on n
       then (case opus e c x 128 of ((r, b), e1) \<Rightarrow>
         if r < 0 then Inl BadAlloc else Inr (b, n\<lparr>en_second := Some (e1, c)\<rparr>))
       else Inr ([], n)
   | None \<Rightarrow> Inr ([], n))"

definition encode :: "'e opus_enc \<Rightarrow> sample list \<Rightarrow> 'e opus_encoder \<Rightarrow> exn + 'e opus_encoder" where
  "encode opus x n =
    (let n1 = (if en_requested n \<noteq> en_current n
               then n\<lparr>en_ctl := (en_ctl n)\<lparr>ctl_bitrate := Some (en_requested n)\<rparr>, en_current := en_requested n\<rparr> else n);
         n2 = n1\<lparr>en_meter := map_option (level_update x) (en_meter n1), en_given := en_given n1 @ [x]\<rparr>
     in case opus (en_main n2) (en_ctl n2) x 4096 of ((r, b), e) \<Rightarrow>
       let n3 = n2\<lparr>en_main := e\<rparr> in
       if r \<le> 1 \<or> \<not> en_running n3 then Inr n3
       else bind_res (encode_second opus x n3) (\<lambda>(b2, n4). Inr (n4\<lparr>en_out := en_out n4 @ [(b, b2)]\<rparr>)))"

subsection \<open>The device and the thread\<close>

text \<open>
  The pool has ten buffers; \<open>held\<close> tells whether the thread has one. When none is left, the
  complexity is lowered.
\<close>

definition capture :: "bool \<Rightarrow> sample list \<Rightarrow> 'e opus_encoder \<Rightarrow> 'e opus_encoder" where
  "capture held x n = (if length (en_queue n) + (if held then 1 else 0) < 10
     then n\<lparr>en_queue := en_queue n @ [x]\<rparr>
     else if en_complexity n > 1
     then n\<lparr>en_complexity := en_complexity n - 1, en_ctl := (en_ctl n)\<lparr>ctl_complexity := en_complexity n - 1\<rparr>\<rparr>
     else n)"

text \<open>
  An empty packet wakes the thread when the encoder is stopped. The caller then waits until the
  thread is at its end. The queue holds ten packets: an eleventh ends the process (\<open>None\<close>).
\<close>

definition encoder_start :: "'e opus_encoder \<Rightarrow> 'e opus_encoder" where
  "encoder_start n = (if en_running n then n else n\<lparr>en_running := True, en_thread := True\<rparr>)"

definition encoder_stop :: "'e opus_encoder \<Rightarrow> 'e opus_encoder option" where
  "encoder_stop n = (if \<not> en_running n then Some n
     else if length (en_queue n) \<ge> 10 then None
     else Some (n\<lparr>en_running := False, en_queue := en_queue n @ [[]]\<rparr>))"

text \<open>The locals of the thread: the number of packets per frame, those collected, whether there was voice.\<close>

record collect =
  co_per_frame :: nat
  co_count :: nat
  co_frame :: "sample list"
  co_voice :: bool
  co_was_vad :: bool

definition collect_new :: "sample list \<Rightarrow> 'e opus_encoder \<Rightarrow> collect" where
  "collect_new junk n = \<lparr>co_per_frame = unat (en_duration n div 20), co_count = 0,
     co_frame = take (960 * unat (en_duration n div 20)) junk, co_voice = False, co_was_vad = False\<rparr>"

definition adapt_to_voice :: "collect \<Rightarrow> 'e opus_encoder \<Rightarrow> collect \<times> 'e opus_encoder" where
  "adapt_to_voice c n = (if en_vad n
     then (c\<lparr>co_was_vad := True\<rparr>,
           if co_voice c then tell_bitrates (en_current n) (en_current_second n) n
           else tell_bitrates (en_no_voice n) (en_no_voice n) n)
     else if co_was_vad c
     then (c\<lparr>co_was_vad := False\<rparr>, tell_bitrates (en_current n) (en_current_second n) n)
     else (c, n))"

text \<open>A packet is copied to its place in the frame; a copy behind the end of the frame is undefined.\<close>

definition processed_packet :: "(sample list \<Rightarrow> sample list \<times> bool) option \<Rightarrow> 'e opus_encoder \<Rightarrow> sample list \<Rightarrow> sample list \<times> bool" where
  "processed_packet canceller n x = (case (case canceller of None \<Rightarrow> (x, True) | Some f \<Rightarrow> f x) of (y, voice) \<Rightarrow>
     (fold (\<lambda>f. f) (en_effects n) y, voice))"

definition encoder_packet :: "'e opus_enc \<Rightarrow> (sample list \<Rightarrow> sample list \<times> bool) option \<Rightarrow> sample list \<Rightarrow> collect
    \<Rightarrow> 'e opus_encoder \<Rightarrow> exn + collect \<times> 'e opus_encoder" where
  "encoder_packet opus canceller x0 c n =
    (case processed_packet canceller n x0 of (x, voice) \<Rightarrow>
     if co_per_frame c = 1 then bind_res (encode opus x n) (\<lambda>n1. Inr (c, n1))
     else if co_count c \<ge> co_per_frame c then Inl Undefined
     else let c1 = c\<lparr>co_frame := take (960 * co_count c) (co_frame c) @ x @ drop (960 * co_count c + 960) (co_frame c),
                    co_voice := (co_voice c \<or> voice), co_count := co_count c + 1\<rparr>
          in if co_count c1 = co_per_frame c1
             then (case adapt_to_voice c1 n of (c2, n1) \<Rightarrow>
               bind_res (encode opus (co_frame c2) n1) (\<lambda>n2. Inr (c2\<lparr>co_count := 0, co_voice := False\<rparr>, n2)))
             else Inr (c1, n))"

definition encoder_pass :: "'e opus_enc \<Rightarrow> (sample list \<Rightarrow> sample list \<times> bool) option \<Rightarrow> collect
    \<Rightarrow> 'e opus_encoder \<Rightarrow> exn + collect \<times> 'e opus_encoder" where
  "encoder_pass opus canceller c n =
    (if \<not> en_thread n then Inr (c, n)
     else if \<not> en_running n then Inr (c, n\<lparr>en_thread := False\<rparr>)
     else case en_queue n of
       [] \<Rightarrow> Inr (c, n)
     | x # q \<Rightarrow> if x = [] then Inr (c, n\<lparr>en_queue := q, en_thread := False\<rparr>)
         else encoder_packet opus canceller x c (n\<lparr>en_queue := q\<rparr>))"

subsection \<open>Frames are groups of packets\<close>

text \<open>What waits in the frame.\<close>

definition collected :: "collect \<Rightarrow> sample list" where
  "collected c = (if co_per_frame c = 1 then [] else take (960 * co_count c) (co_frame c))"

definition collect_ok :: "collect \<Rightarrow> bool" where
  "collect_ok c \<longleftrightarrow> 1 \<le> co_per_frame c \<and> length (co_frame c) = 960 * co_per_frame c \<and> (co_per_frame c = 1 \<or> co_count c < co_per_frame c)"

lemma encode_given: "encode opus x n = Inr n' \<Longrightarrow> en_given n' = en_given n @ [x] \<and> en_effects n' = en_effects n"
  by (auto simp: encode_def encode_second_def Let_def bind_res_Inr_conv split: prod.splits if_splits option.splits)

lemma encode_no_overrun: "encode opus x n \<noteq> Inl Undefined"
  by (auto simp: encode_def encode_second_def Let_def split: prod.splits option.splits)

lemma adapt_keeps: "adapt_to_voice c n = (c', n') \<Longrightarrow> en_given n' = en_given n \<and> en_effects n' = en_effects n
    \<and> co_frame c' = co_frame c \<and> co_per_frame c' = co_per_frame c"
  by (auto simp: adapt_to_voice_def tell_bitrates_def split: if_splits)

lemma packet_collected:
  assumes "collect_ok c" "length (fst (processed_packet canceller n x)) = 960" "encoder_packet opus canceller x c n = Inr (c', n')"
  shows "collect_ok c' \<and> en_effects n' = en_effects n \<and> co_per_frame c' = co_per_frame c
    \<and> concat (en_given n') @ collected c' = concat (en_given n) @ collected c @ fst (processed_packet canceller n x)
    \<and> (\<exists>gs. en_given n' = en_given n @ gs \<and> (\<forall>g \<in> set gs. length g = 960 * co_per_frame c))"
proof -
  obtain y voice where y: "processed_packet canceller n x = (y, voice)" by fastforce
  let ?f = "take (960 * co_count c) (co_frame c) @ y @ drop (960 * co_count c + 960) (co_frame c)"
  show ?thesis
  proof (cases "co_per_frame c = 1")
    case True
    then show ?thesis using assms y encode_given [of opus y n]
      by (auto simp: encoder_packet_def bind_res_Inr_conv collected_def)
  next
    case False
    then have lt: "co_count c < co_per_frame c" and len: "length (co_frame c) = 960 * co_per_frame c"
      using assms(1) by (auto simp: collect_ok_def)
    have fl: "length ?f = 960 * co_per_frame c" using lt len y assms(2) by simp
    have ft: "take (960 * (co_count c + 1)) ?f = take (960 * co_count c) (co_frame c) @ y"
      using lt len y assms(2) by simp
    show ?thesis
    proof (cases "co_count c + 1 = co_per_frame c")
      case full: True
      then have "?f = take (960 * co_count c) (co_frame c) @ y" using ft fl by (metis order_refl take_all)
      then show ?thesis using assms y False lt full fl
        by (auto simp: encoder_packet_def Let_def bind_res_Inr_conv collected_def collect_ok_def
            dest!: encode_given adapt_keeps split: prod.splits)
    next
      case part: False
      then show ?thesis using assms y False lt fl ft
        by (auto simp: encoder_packet_def Let_def collected_def collect_ok_def split: prod.splits)
    qed
  qed
qed

lemma processed_effects: "en_effects n' = en_effects n \<Longrightarrow> processed_packet canceller n' = processed_packet canceller n"
  by (rule ext) (simp add: processed_packet_def)

lemma encode_queue: "encode opus x n = Inr n' \<Longrightarrow> en_queue n' = en_queue n \<and> en_running n' = en_running n
    \<and> en_thread n' = en_thread n"
  by (auto simp: encode_def encode_second_def Let_def bind_res_Inr_conv split: prod.splits if_splits option.splits)

lemma packet_queue: "encoder_packet opus canceller x c n = Inr (c', n') \<Longrightarrow> en_queue n' = en_queue n
    \<and> en_running n' = en_running n \<and> en_thread n' = en_thread n"
  by (auto simp: encoder_packet_def adapt_to_voice_def tell_bitrates_def Let_def bind_res_Inr_conv
      dest!: encode_queue split: prod.splits if_splits)

lemma packet_no_overrun: "collect_ok c \<Longrightarrow> encoder_packet opus canceller x c n \<noteq> Inl Undefined"
proof -
  have b: "bind_res (encode opus y n1) (\<lambda>n2. Inr (g n2)) \<noteq> Inl Undefined" for y n1 and g :: "_ \<Rightarrow> collect \<times> _"
    using encode_no_overrun [of opus y n1] by (cases "encode opus y n1") auto
  assume "collect_ok c"
  then show ?thesis using b by (auto simp: encoder_packet_def collect_ok_def Let_def split: prod.split)
qed

fun encoder_passes :: "'e opus_enc \<Rightarrow> (sample list \<Rightarrow> sample list \<times> bool) option \<Rightarrow> nat \<Rightarrow> collect
    \<Rightarrow> 'e opus_encoder \<Rightarrow> exn + collect \<times> 'e opus_encoder" where
  "encoder_passes opus canceller 0 c n = Inr (c, n)"
| "encoder_passes opus canceller (Suc m) c n =
     bind_res (encoder_pass opus canceller c n) (\<lambda>(c1, n1). encoder_passes opus canceller m c1 n1)"


definition sample_encoder :: "unit opus_encoder" where
  "sample_encoder = (encoder_new () False (\<lambda>_ x. x) 0)\<lparr>en_duration := 60, en_queue := replicate 4 (replicate 960 5),
     en_running := True, en_thread := True\<rparr>"


end
