(* ===== verification/Scream.thy ===== *)
theory Scream
  imports Jitter
begin

section \<open>Rate control for video (ScreamCongestionController.cpp)\<close>

text \<open>
  A congestion controller after RFC 8298: from acknowledgments with their one-way delays it
  estimates the queueing delay and its trend, and adapts the congestion window, the target of
  the delay and the bitrate. Floating point values are exact reals, sums over a history are independent
  of the order of summation. An operation reads the clock once. A conversion to 32 bits of a value that does not fit is
  undefined: the result is \<open>None\<close>.
\<close>

subsection \<open>The state\<close>

record scream =
  sc_qtarget :: real
  sc_frac_avg :: real
  sc_frac_hist :: "real hist"
  sc_trend :: real
  sc_trend_mem :: real
  sc_norm_hist :: "real hist"
  sc_fast :: bool
  sc_cwnd :: u32
  sc_newly :: u32
  sc_max_flight :: u32
  sc_send_wnd :: u32
  sc_bitrate :: u32
  sc_last_max :: u32
  sc_rate_sent :: real
  sc_rate_acked :: real
  sc_rate_media :: real
  sc_media_median :: real
  sc_srtt :: real
  sc_rtp_queue :: u32
  sc_rtp_size :: u32
  sc_loss_rate :: real
  sc_loss_pending :: bool
  sc_prev_delay :: real
  sc_ignore_until :: real
  sc_prev_losses :: u32
  sc_last_high :: real
  sc_last_vars :: real
  sc_last_rate :: real
  sc_last_cwnd :: real
  sc_flight :: u32
  sc_flight_hist :: "(u32 \<times> real) list"
  sc_sent :: u32
  sc_acked :: u32
  sc_media :: u32
  sc_sent_time :: real
  sc_media_time :: real
  sc_media_hist :: "real hist"

definition scream_new :: scream where
  "scream_new = \<lparr>sc_qtarget = 1/10, sc_frac_avg = 0, sc_frac_hist = hist_new 20, sc_trend = 0, sc_trend_mem = 0,
     sc_norm_hist = hist_new 100, sc_fast = True, sc_cwnd = 3000, sc_newly = 0, sc_max_flight = 0, sc_send_wnd = 0,
     sc_bitrate = 0, sc_last_max = 1, sc_rate_sent = 0, sc_rate_acked = 0, sc_rate_media = 0, sc_media_median = 0,
     sc_srtt = 0, sc_rtp_queue = 0, sc_rtp_size = 1024, sc_loss_rate = 0, sc_loss_pending = False, sc_prev_delay = 0,
     sc_ignore_until = 0, sc_prev_losses = 0, sc_last_high = 0, sc_last_vars = 0, sc_last_rate = 0, sc_last_cwnd = 0,
     sc_flight = 0, sc_flight_hist = [], sc_sent = 0, sc_acked = 0, sc_media = 0, sc_sent_time = 0, sc_media_time = 0,
     sc_media_hist = hist_new 25\<rparr>"

subsection \<open>The delay\<close>

text \<open>
  A history that is constant gives 0/0: comparisons with what is not a number are false, and the trend
  becomes 0, as the quotient here.
\<close>

definition update_variables :: "real \<Rightarrow> real \<Rightarrow> scream \<Rightarrow> scream" where
  "update_variables now qdelay s =
    (let f = qdelay / sc_qtarget s;
         favg = 9/10 * sc_frac_avg s + f * (1/10);
         h = hist_add f (sc_frac_hist s);
         avg = hist_average h;
         vs = map (\<lambda>v. v - avg) (hlist h);
         r0 = (\<Sum>v\<leftarrow>vs. v * v);
         r1 = (\<Sum>(v1, v2)\<leftarrow>zip (tl vs) vs. v1 * v2);
         trend = min 1 (max 0 (r1 / r0 * favg));
         s1 = s\<lparr>sc_frac_avg := favg, sc_frac_hist := h, sc_trend := trend,
                sc_trend_mem := max (99/100 * sc_trend_mem s) trend\<rparr>
     in if trend > 2/10 then s1\<lparr>sc_last_high := now\<rparr> else s1)"

definition adjust_qtarget :: "real \<Rightarrow> scream \<Rightarrow> scream" where
  "adjust_qtarget qdelay s =
    (let h = hist_add (qdelay / (1/10)) (sc_norm_hist s);
         avg = hist_average h;
         var = (\<Sum>v\<leftarrow>hlist h. (v - avg) * (v - avg)) / real (length (hdata h));
         new = (avg + sqrt var) * (1/10);
         t = (if sc_loss_rate s > 2/1000 then 3/2 * new
              else if var < 2/10 then new
              else if new < 1/10 then max (sc_qtarget s * (1/2)) new
              else sc_qtarget s * (9/10))
     in s\<lparr>sc_norm_hist := h, sc_qtarget := max (1/10) (min (4/10) t)\<rparr>)"

subsection \<open>The window\<close>

definition update_cwnd :: "real \<Rightarrow> scream \<Rightarrow> scream option" where
  "update_cwnd qdelay s =
    (if sc_fast s \<and> \<not> sc_trend s \<ge> 2/10
     then Some (if real (unat (sc_flight s)) * (3/2) + real (unat (sc_newly s)) > real (unat (sc_cwnd s))
                then s\<lparr>sc_cwnd := sc_cwnd s + sc_newly s\<rparr> else s)
     else let off = (sc_qtarget s - qdelay) / sc_qtarget s;
              delta = (if off > 0 \<and> real (unat (sc_flight s)) * (5/4) + real (unat (sc_newly s)) \<le> real (unat (sc_cwnd s))
                       then 0 else off * real (unat (sc_newly s)) * 1024 / real (unat (sc_cwnd s)))
          in do { w \<leftarrow> to_uint32 (real (unat (sc_cwnd s)) + delta);
                  m \<leftarrow> to_uint32 (real (unat (sc_max_flight s)) * (11/10));
                  Some (s\<lparr>sc_fast := False, sc_cwnd := max (min w m) 3000\<rparr>) })"

definition calculate_send_window :: "real \<Rightarrow> scream \<Rightarrow> scream" where
  "calculate_send_window qdelay s = s\<lparr>sc_send_wnd :=
     (if qdelay \<le> sc_qtarget s then sc_cwnd s + 1024 - sc_flight s else sc_cwnd s - sc_flight s)\<rparr>"

text \<open>The bytes in flight of the last five seconds.\<close>

definition update_flight_history :: "real \<Rightarrow> scream \<Rightarrow> scream" where
  "update_flight_history now s = (let h = filter (\<lambda>(n, t). now - t < 5) (sc_flight_hist s @ [(sc_flight s, now)])
     in s\<lparr>sc_flight_hist := h, sc_max_flight := fold max (map fst h) 0\<rparr>)"

subsection \<open>The bitrate\<close>

text \<open>With a rate of 0 the delay of a queue that is not empty is infinite.\<close>

definition queue_too_long :: "real \<Rightarrow> scream \<Rightarrow> bool" where
  "queue_too_long rate s \<longleftrightarrow> (if rate = 0 then sc_rtp_queue s \<noteq> 0 else real (unat (sc_rtp_queue s)) / rate > 2/100)"

definition ramp_scale :: "scream \<Rightarrow> real" where
  "ramp_scale s = (let x = real (unat (sc_bitrate s - sc_last_max s)) / real (unat (sc_last_max s))
     in max (2/10) (min 1 ((x * 4) * (x * 4))))"

definition ramp_bitrate :: "scream \<Rightarrow> u32 option" where
  "ramp_bitrate s =
    (let ramp = real (unat (min (1024 * 1024) (sc_bitrate s div 2)));
         rate = max (sc_rate_sent s) (sc_rate_acked s);
         b = real (unat (sc_bitrate s))
     in if sc_fast s then to_uint32 (b + ramp * (2/10) * ramp_scale s)
        else let d = rate * (1 - 1/10 * sc_trend s) - real (unat (sc_rtp_queue s));
                 d1 = (if d > 0 then min (d * ramp_scale s) (ramp * (2/10)) else d)
             in do { b1 \<leftarrow> to_uint32 (b + d1);
                     if queue_too_long rate s then to_uint32 (real (unat b1) * (95/100)) else Some b1 })"

definition adjust_bitrate :: "scream \<Rightarrow> scream option" where
  "adjust_bitrate s = (if sc_loss_pending s
     then do { b \<leftarrow> to_uint32 (9/10 * real (unat (sc_bitrate s)));
               Some (s\<lparr>sc_loss_pending := False, sc_bitrate := max b 51200\<rparr>) }
     else do { b \<leftarrow> ramp_bitrate s;
               l \<leftarrow> to_uint32 (max (max (sc_rate_sent s) (sc_rate_acked s)) (max (sc_rate_media s) (sc_media_median s))
                      * (2 - sc_trend_mem s));
               Some (s\<lparr>sc_bitrate := min 512000 (max 51200 (min b l))\<rparr>) })"

subsection \<open>What happens to packets\<close>

definition packet_sent_at :: "real \<Rightarrow> u32 \<Rightarrow> scream \<Rightarrow> scream" where
  "packet_sent_at now n s =
    (let s1 = s\<lparr>sc_flight := sc_flight s + n, sc_rtp_queue := sc_rtp_queue s + n * 8, sc_sent := sc_sent s + n\<rparr>;
         d = now - sc_sent_time s1;
         s2 = (if d \<ge> 2/10
               then s1\<lparr>sc_rate_sent := real (unat (sc_sent s1 * 8)) / d, sc_rate_acked := real (unat (sc_acked s1 * 8)) / d,
                       sc_sent_time := now, sc_sent := 0, sc_acked := 0\<rparr>
               else s1)
     in update_flight_history now s2)"

definition packet_lost_at :: "real \<Rightarrow> u32 \<Rightarrow> scream \<Rightarrow> scream" where
  "packet_lost_at now n s = update_flight_history now
     (s\<lparr>sc_flight := sc_flight s - n, sc_rtp_queue := sc_rtp_queue s - n * 8\<rparr>)"

definition loss_event :: "real \<Rightarrow> real \<Rightarrow> real \<Rightarrow> scream \<Rightarrow> scream option" where
  "loss_event now rtt qdelay s = do { w \<leftarrow> to_uint32 (real (unat (sc_cwnd s)) * (9/10));
     Some ((calculate_send_window qdelay (adjust_qtarget qdelay
       (s\<lparr>sc_ignore_until := now + rtt, sc_fast := False, sc_cwnd := max 3000 w\<rparr>)))
         \<lparr>sc_loss_pending := True, sc_last_high := now\<rparr>) }"

definition no_loss_event :: "real \<Rightarrow> u32 \<Rightarrow> real \<Rightarrow> scream \<Rightarrow> scream option" where
  "no_loss_event now n qdelay s =
    (let s1 = s\<lparr>sc_newly := sc_newly s + n\<rparr> in
     do { s2 \<leftarrow> (if now - sc_last_cwnd s1 \<ge> 15/100
                 then map_option (\<lambda>t. t\<lparr>sc_newly := 0\<rparr>) (update_cwnd qdelay (s1\<lparr>sc_last_cwnd := now\<rparr>)) else Some s1);
          let s3 = calculate_send_window qdelay (adjust_qtarget qdelay s2);
          Some (if \<not> sc_fast s3 \<and> now - sc_last_high s3 \<ge> 5 then s3\<lparr>sc_fast := True\<rparr> else s3) })"

definition process_acks :: "real \<Rightarrow> real \<Rightarrow> u32 \<Rightarrow> u32 \<Rightarrow> real \<Rightarrow> scream \<Rightarrow> scream option" where
  "process_acks now delay n losses rtt s =
    (if sc_prev_delay s \<noteq> 0 then
       (let qdelay = delay - sc_prev_delay s;
            s1 = update_flight_history now (s\<lparr>sc_srtt := rtt, sc_flight := sc_flight s - n, sc_rtp_queue := sc_rtp_queue s - n * 8\<rparr>);
            s2 = s1\<lparr>sc_acked := sc_acked s1 + n\<rparr>;
            s3 = (if now - sc_last_vars s2 \<ge> 5/100 then update_variables now qdelay (s2\<lparr>sc_last_vars := now\<rparr>) else s2)
        in do { s4 \<leftarrow> (if now - sc_last_rate s3 \<ge> 2/10 then adjust_bitrate (s3\<lparr>sc_last_rate := now\<rparr>) else Some s3);
                s5 \<leftarrow> (if losses > sc_prev_losses s4 \<and> now > sc_ignore_until s4
                      then loss_event now rtt qdelay s4 else no_loss_event now n qdelay s4);
                Some (s5\<lparr>sc_prev_losses := losses, sc_prev_delay := delay\<rparr>) })
     else Some (s\<lparr>sc_prev_delay := delay\<rparr>))"

text \<open>The division by the round trip time is by 0 until the first acknowledgment: the interval is then 0 bytes over infinity.\<close>

definition pacing_interval :: "scream \<Rightarrow> real" where
  "pacing_interval s = (if sc_srtt s = 0 \<and> sc_cwnd s \<noteq> 0 then 0
     else min (10/1000) (real (unat (sc_rtp_size s)) * 8 / max 50000 (real (unat (sc_cwnd s)) * 8 / sc_srtt s)))"

definition update_media_rate :: "real \<Rightarrow> u32 \<Rightarrow> scream \<Rightarrow> scream" where
  "update_media_rate now n s = (let s1 = s\<lparr>sc_media := sc_media s + n\<rparr>; d = now - sc_media_time s1 in
     if d \<ge> 5/10
     then let r = real (unat (sc_media s1 * 8)) / d; h = hist_add r (sc_media_hist s1)
          in s1\<lparr>sc_rate_media := r, sc_media := 0, sc_media_time := now, sc_media_hist := h,
                sc_media_median := hist_nonzero_average h\<rparr>
     else s1)"

subsection \<open>What always holds\<close>

text \<open>
  A run: what was sent, what was taken out of the bytes in flight, and what was acknowledged while no
  delay was known, which is not taken out.
\<close>

inductive scream_run :: "u32 \<Rightarrow> u32 \<Rightarrow> u32 \<Rightarrow> scream \<Rightarrow> bool" where
  new: "scream_run 0 0 0 scream_new"
| sent: "scream_run a b c s \<Longrightarrow> scream_run (a + n) b c (packet_sent_at now n s)"
| lost: "scream_run a b c s \<Longrightarrow> scream_run a (b + n) c (packet_lost_at now n s)"
| acked: "scream_run a b c s \<Longrightarrow> process_acks now delay n losses rtt s = Some t
    \<Longrightarrow> scream_run a (if sc_prev_delay s = 0 then b else b + n) (if sc_prev_delay s = 0 then c + n else c) t"
| media: "scream_run a b c s \<Longrightarrow> scream_run a b c (update_media_rate now n s)"

definition scream_ok :: "scream \<Rightarrow> bool" where
  "scream_ok s \<longleftrightarrow> 1/10 \<le> sc_qtarget s \<and> sc_qtarget s \<le> 4/10 \<and> 0 \<le> sc_trend s \<and> sc_trend s \<le> 1
     \<and> 0 \<le> sc_trend_mem s \<and> sc_trend_mem s \<le> 1 \<and> sc_last_max s = 1
     \<and> (sc_bitrate s = 0 \<or> 51200 \<le> sc_bitrate s \<and> sc_bitrate s \<le> 512000)"

lemma ok_flight [simp]: "scream_ok (update_flight_history now s) = scream_ok s"
  "sc_flight (update_flight_history now s) = sc_flight s"
  by (simp_all add: scream_ok_def update_flight_history_def Let_def)

lemma ok_variables: "scream_ok s \<Longrightarrow> scream_ok (update_variables now q s) \<and> sc_flight (update_variables now q s) = sc_flight s"
  by (auto simp: scream_ok_def update_variables_def Let_def)

lemma ok_qtarget: "scream_ok s \<Longrightarrow> scream_ok (adjust_qtarget q s) \<and> sc_flight (adjust_qtarget q s) = sc_flight s"
  by (auto simp: scream_ok_def adjust_qtarget_def Let_def)

lemma ok_window [simp]: "scream_ok (calculate_send_window q s) = scream_ok s"
  "sc_flight (calculate_send_window q s) = sc_flight s"
  by (simp_all add: scream_ok_def calculate_send_window_def)

lemma ok_cwnd: "scream_ok s \<Longrightarrow> update_cwnd q s = Some t \<Longrightarrow> scream_ok t \<and> sc_flight t = sc_flight s"
  by (auto simp: scream_ok_def update_cwnd_def Let_def split: if_splits bind_splits)

declare of_nat_unat [simp del]

lemma to_uint32_value: "to_uint32 r = Some b \<Longrightarrow> 0 \<le> r \<Longrightarrow> int (unat b) = \<lfloor>r\<rfloor>"
  by (auto simp: to_uint32_def trunc_def of_nat_unat uint_word_of_int take_bit_int_eq_self unsigned_of_int split: if_splits)

lemma to_uint32_negative: "r \<le> - 1 \<Longrightarrow> to_uint32 r = None"
  using ceiling_mono [of r "- 1"] by (simp add: to_uint32_def trunc_def)

lemma to_uint32_le: "to_uint32 r = Some b \<Longrightarrow> 0 \<le> r \<Longrightarrow> r \<le> real n \<Longrightarrow> unat b \<le> n"
proof -
  assume a: "to_uint32 r = Some b" "0 \<le> r" "r \<le> real n"
  have "int (unat b) \<le> int n" using to_uint32_value [OF a(1,2)] a(3) by (simp add: floor_le_iff)
  then show ?thesis by linarith
qed

lemma ok_bitrate:
  assumes "scream_ok s" "adjust_bitrate s = Some t"
  shows "scream_ok t \<and> sc_flight t = sc_flight s"
proof (cases "sc_loss_pending s")
  case True
  then obtain b where b: "to_uint32 (9/10 * real (unat (sc_bitrate s))) = Some b" "t = s\<lparr>sc_loss_pending := False, sc_bitrate := max b 51200\<rparr>"
    using assms(2) by (auto simp: adjust_bitrate_def split: bind_splits)
  have "unat (sc_bitrate s) \<le> 512000" using assms(1) by (auto simp: scream_ok_def word_le_nat_alt)
  then have "unat b \<le> 512000" by (intro to_uint32_le [OF b(1)]) auto
  then have "b \<le> 512000" by (simp add: word_le_nat_alt)
  then show ?thesis using assms(1) b(2) by (auto simp: scream_ok_def max_def)
next
  case False
  then show ?thesis using assms
    by (auto simp: adjust_bitrate_def scream_ok_def min_def max_def split: bind_splits)
qed

lemma ok_loss: "scream_ok s \<Longrightarrow> loss_event now rtt q s = Some t \<Longrightarrow> scream_ok t \<and> sc_flight t = sc_flight s"
proof -
  assume a: "scream_ok s" "loss_event now rtt q s = Some t"
  then obtain w where t: "t = (calculate_send_window q (adjust_qtarget q
       (s\<lparr>sc_ignore_until := now + rtt, sc_fast := False, sc_cwnd := max 3000 w\<rparr>)))\<lparr>sc_loss_pending := True, sc_last_high := now\<rparr>"
    by (auto simp: loss_event_def split: bind_splits)
  have "scream_ok (s\<lparr>sc_ignore_until := now + rtt, sc_fast := False, sc_cwnd := max 3000 w\<rparr>)" using a(1) by (simp add: scream_ok_def)
  from ok_qtarget [OF this, of q] show ?thesis unfolding t by (simp add: scream_ok_def calculate_send_window_def)
qed

lemma ok_no_loss: "scream_ok s \<Longrightarrow> no_loss_event now n q s = Some t \<Longrightarrow> scream_ok t \<and> sc_flight t = sc_flight s"
proof -
  assume a: "scream_ok s" "no_loss_event now n q s = Some t"
  then obtain s2 where s2: "(if now - sc_last_cwnd s \<ge> 15/100
        then map_option (\<lambda>t. t\<lparr>sc_newly := 0\<rparr>) (update_cwnd q (s\<lparr>sc_newly := sc_newly s + n, sc_last_cwnd := now\<rparr>))
        else Some (s\<lparr>sc_newly := sc_newly s + n\<rparr>)) = Some s2"
      "t = calculate_send_window q (adjust_qtarget q s2) \<or> t = (calculate_send_window q (adjust_qtarget q s2))\<lparr>sc_fast := True\<rparr>"
    by (auto simp: no_loss_event_def Let_def split: bind_splits if_splits)
  have "scream_ok (s\<lparr>sc_newly := sc_newly s + n, sc_last_cwnd := now\<rparr>)" "scream_ok (s\<lparr>sc_newly := sc_newly s + n\<rparr>)"
    using a(1) by (simp_all add: scream_ok_def)
  moreover have "scream_ok (t1\<lparr>sc_newly := 0\<rparr>) = scream_ok t1" for t1 by (simp add: scream_ok_def)
  ultimately have "scream_ok s2 \<and> sc_flight s2 = sc_flight s"
    using s2(1) ok_cwnd [of "s\<lparr>sc_newly := sc_newly s + n, sc_last_cwnd := now\<rparr>" q] by (auto split: if_splits)
  then show ?thesis using ok_qtarget [of s2 q] s2(2) by (auto simp: scream_ok_def calculate_send_window_def)
qed

lemma ok_acks: "scream_ok s \<Longrightarrow> process_acks now delay n losses rtt s = Some t
    \<Longrightarrow> scream_ok t \<and> sc_flight t = (if sc_prev_delay s = 0 then sc_flight s else sc_flight s - n)"
proof (cases "sc_prev_delay s = 0")
  case True
  assume "scream_ok s" "process_acks now delay n losses rtt s = Some t"
  then show ?thesis using True by (auto simp: process_acks_def scream_ok_def)
next
  case False
  assume a: "scream_ok s" "process_acks now delay n losses rtt s = Some t"
  define q where "q = delay - sc_prev_delay s"
  define s1 where "s1 = update_flight_history now (s\<lparr>sc_srtt := rtt, sc_flight := sc_flight s - n, sc_rtp_queue := sc_rtp_queue s - n * 8\<rparr>)"
  define s2 where "s2 = s1\<lparr>sc_acked := sc_acked s1 + n\<rparr>"
  define s3 where "s3 = (if now - sc_last_vars s2 \<ge> 5/100 then update_variables now q (s2\<lparr>sc_last_vars := now\<rparr>) else s2)"
  obtain s4 s5 where s4: "(if now - sc_last_rate s3 \<ge> 2/10 then adjust_bitrate (s3\<lparr>sc_last_rate := now\<rparr>) else Some s3) = Some s4"
    and s5: "(if losses > sc_prev_losses s4 \<and> now > sc_ignore_until s4 then loss_event now rtt q s4 else no_loss_event now n q s4) = Some s5"
    and t: "t = s5\<lparr>sc_prev_losses := losses, sc_prev_delay := delay\<rparr>"
    using a(2) False unfolding process_acks_def q_def [symmetric] Let_def s1_def [symmetric] s2_def [symmetric] s3_def [symmetric]
    by (auto split: bind_splits)
  have "scream_ok s2" "sc_flight s2 = sc_flight s - n" using a(1) by (simp_all add: s2_def s1_def scream_ok_def update_flight_history_def Let_def)
  then have "scream_ok s3" "sc_flight s3 = sc_flight s - n"
    using ok_variables [of "s2\<lparr>sc_last_vars := now\<rparr>" now q] by (auto simp: s3_def scream_ok_def)
  then have "scream_ok s4" "sc_flight s4 = sc_flight s - n"
    using ok_bitrate [of "s3\<lparr>sc_last_rate := now\<rparr>" s4] s4 by (auto simp: scream_ok_def split: if_splits)
  then have "scream_ok s5" "sc_flight s5 = sc_flight s - n"
    using ok_loss [of s4 now rtt q s5] ok_no_loss [of s4 now n q s5] s5 by (auto split: if_splits)
  then show ?thesis using False t by (simp add: scream_ok_def)
qed

lemma ok_run: "scream_run a b c s \<Longrightarrow> scream_ok s \<and> sc_flight s = a - b"
proof (induction rule: scream_run.induct)
  case new
  then show ?case by (simp add: scream_ok_def scream_new_def)
next
  case (sent a b c s n now)
  then show ?case by (simp add: packet_sent_at_def Let_def scream_ok_def update_flight_history_def)
next
  case (lost a b c s n now)
  then show ?case by (simp add: packet_lost_at_def Let_def scream_ok_def update_flight_history_def)
next
  case (acked a b c s now delay n losses rtt t)
  then show ?case using ok_acks [of s now delay n losses rtt t] by (auto simp: algebra_simps)
next
  case (media a b c s now n)
  then show ?case by (simp add: update_media_rate_def Let_def scream_ok_def)
qed

text \<open>
  C39: the rate control for video keeps its bounds. In every run the target of the delay is between
  0.1 and 0.4 seconds, the trend between 0 and 1, the bitrate 0 until the first adjustment and then between 50 and
  500 kilobits per second; the bitrate is never scaled down on the way to the last maximum, because that is never
  set. The bytes in flight are what was sent less what was lost or acknowledged, except for
  what was acknowledged while no delay was known, as by the first acknowledgment: that stays in flight.
\<close>

theorem scream_bounds:
  assumes "scream_run a b c s"
  shows "1/10 \<le> sc_qtarget s \<and> sc_qtarget s \<le> 4/10 \<and> 0 \<le> sc_trend s \<and> sc_trend s \<le> 1
    \<and> (sc_bitrate s = 0 \<or> 51200 \<le> sc_bitrate s \<and> sc_bitrate s \<le> 512000) \<and> ramp_scale s = 1 \<and> sc_flight s = a - b
    \<and> (sc_prev_delay s = 0 \<longrightarrow> (\<exists>t. process_acks now delay n losses rtt s = Some t \<and> sc_flight t = sc_flight s))"
proof -
  have ok: "scream_ok s" "sc_flight s = a - b" using ok_run [OF assms] by simp_all
  have "1 \<le> unat (sc_bitrate s - 1)"
  proof -
    have "sc_bitrate s \<noteq> 1" using ok(1) by (auto simp: scream_ok_def word_le_nat_alt)
    then have "sc_bitrate s - 1 \<noteq> 0" by simp
    then show ?thesis by (simp add: Suc_le_eq unat_gt_0)
  qed
  then have x: "1 \<le> real (unat (sc_bitrate s - 1))" by simp
  then have "1 * 1 \<le> (real (unat (sc_bitrate s - 1)) * 4) * (real (unat (sc_bitrate s - 1)) * 4)"
    by (intro mult_mono) auto
  then have "ramp_scale s = 1" using ok(1) by (simp add: ramp_scale_def scream_ok_def Let_def)
  then show ?thesis using ok by (simp add: scream_ok_def process_acks_def)
qed

theorem scream_bounds_witness:
  "sc_flight (packet_sent_at 1 1000 scream_new) = 1000
   \<and> (\<exists>t. process_acks 2 (1/2) 1000 0 (1/10) (packet_sent_at 1 1000 scream_new) = Some t \<and> sc_flight t = 1000)"
proof -
  have r: "scream_run (0 + 1000) 0 0 (packet_sent_at 1 1000 scream_new)" by (intro scream_run.sent scream_run.new)
  have "sc_prev_delay (packet_sent_at 1 1000 scream_new) = 0"
    by (simp add: packet_sent_at_def Let_def update_flight_history_def scream_new_def)
  then show ?thesis using scream_bounds [OF r, of 2 "1/2" 1000 0 "1/10"] by auto
qed

text \<open>
  The adjustment of the bitrate can be undefined. Outside of the fast increase, when the
  bits that are sent and not acknowledged exceed the bitrate and the rate together, a negative value is converted to
  an unsigned number.
\<close>

theorem bitrate_undefined:
  assumes "\<not> sc_loss_pending s" "\<not> sc_fast s"
    "max (sc_rate_sent s) (sc_rate_acked s) * (1 - 1/10 * sc_trend s) + real (unat (sc_bitrate s)) + 1 \<le> real (unat (sc_rtp_queue s))"
  shows "adjust_bitrate s = None"
proof -
  let ?d = "max (sc_rate_sent s) (sc_rate_acked s) * (1 - 1/10 * sc_trend s) - real (unat (sc_rtp_queue s))"
  have d: "real (unat (sc_bitrate s)) + ?d \<le> - 1" "\<not> ?d > 0" using assms(3) by linarith+
  then have "to_uint32 (real (unat (sc_bitrate s)) + ?d) = None" by (intro to_uint32_negative)
  then have "ramp_bitrate s = None" using assms(2) d(2) by (simp add: ramp_bitrate_def Let_def)
  then show ?thesis using assms(1) by (simp add: adjust_bitrate_def)
qed

theorem bitrate_undefined_witness:
  "adjust_bitrate (scream_new\<lparr>sc_fast := False, sc_bitrate := 51200, sc_rtp_queue := 80000\<rparr>) = None"
  by (rule bitrate_undefined) (simp_all add: scream_new_def)

end
