(* ===== verification/Video_Sender.thy ===== *)
theory Video_Sender
  imports Scream Receiving
begin

section \<open>The sender of video (VideoPacketSender.cpp)\<close>

text \<open>
  What the sender of a video stream does with acknowledgments and losses of its packets, and how it
  chooses the resolution. The part of the code that cuts a frame into packets is commented out in
  this version, so that only these remain; frames that were sent are a parameter of the state.
\<close>

record sent_frame =
  sf_seq :: u32
  sf_fragments :: u32
  sf_unacked :: "u32 list"
  sf_in_queue :: u32

text \<open>
  The source is outside (\<open>'s\<close>); \<open>vs_key_requests\<close> counts the key frames that were requested from it,
  \<open>vs_resets\<close> records the bitrate and the resolution it was reset with.
\<close>

record 's video_sender =
  vs_source :: "'s option"
  vs_scream :: scream
  vs_frames :: "sent_frame list"
  vs_key_requested :: bool
  vs_key_requests :: nat
  vs_losses :: u32
  vs_bitrate :: u32
  vs_last_change :: real
  vs_source_change :: real
  vs_codec :: u32
  vs_resolution :: int
  vs_resets :: "(u32 \<times> int) list"

definition codec_Vp9 :: u32 where "codec_Vp9 = fourcc 86 80 57 48"

definition VIDEO_RES_360 :: int where "VIDEO_RES_360 = 2"
definition VIDEO_RES_480 :: int where "VIDEO_RES_480 = 3"
definition VIDEO_RES_720 :: int where "VIDEO_RES_720 = 4"
definition VIDEO_RES_1080 :: int where "VIDEO_RES_1080 = 5"

definition video_resolution :: "real \<Rightarrow> int \<Rightarrow> 's video_sender \<Rightarrow> int" where
  "video_resolution time peer_max v =
    (let h264 = (vs_codec v = codec_Avc \<or> vs_codec v = codec_Vp8);
         h265 = (vs_codec v = codec_Hevc \<or> vs_codec v = codec_Vp9);
         b = vs_bitrate v
     in min peer_max
       (if time - vs_source_change v > 10
        then (if h264 then (if b > 400000 then VIDEO_RES_720 else if b > 250000 then VIDEO_RES_480 else VIDEO_RES_360)
              else if h265 then (if b > 400000 then VIDEO_RES_1080 else if b > 250000 then VIDEO_RES_720
                                 else if b > 100000 then VIDEO_RES_480 else VIDEO_RES_360)
              else VIDEO_RES_1080)
        else (if h264 then VIDEO_RES_720 else VIDEO_RES_1080)))"

definition set_source :: "real \<Rightarrow> int \<Rightarrow> 's option \<Rightarrow> 's video_sender \<Rightarrow> 's video_sender" where
  "set_source time peer_max src v = (if vs_source v = src then v
     else let v1 = v\<lparr>vs_source := src\<rparr> in
       case src of None \<Rightarrow> v1
       | Some _ \<Rightarrow>
           let v2 = v1\<lparr>vs_source_change := time, vs_last_change := time, vs_bitrate := sc_bitrate (vs_scream v1)\<rparr>;
               r = video_resolution time peer_max v2
           in v2\<lparr>vs_resolution := r, vs_resets := vs_resets v2 @ [(vs_bitrate v2, r)]\<rparr>)"

definition video_sender_new :: "real \<Rightarrow> int \<Rightarrow> u32 \<Rightarrow> 's option \<Rightarrow> 's video_sender" where
  "video_sender_new time peer_max c src = set_source time peer_max src \<lparr>vs_source = None, vs_scream = scream_new,
     vs_frames = [], vs_key_requested = False, vs_key_requests = 0, vs_losses = 0, vs_bitrate = 0, vs_last_change = 0,
     vs_source_change = 0, vs_codec = c, vs_resolution = 0, vs_resets = []\<rparr>"

text \<open>An acknowledgment takes the packet out of every frame that waits for it, and reports its size once.\<close>

definition finished :: "sent_frame \<Rightarrow> bool" where
  "finished f \<longleftrightarrow> sf_unacked f = [] \<and> sf_in_queue f = 0"

definition without :: "u32 \<Rightarrow> sent_frame \<Rightarrow> sent_frame" where
  "without q f = f\<lparr>sf_unacked := remove1 q (sf_unacked f)\<rparr>"

definition video_acknowledged :: "real \<Rightarrow> real \<Rightarrow> real \<Rightarrow> recent_packet \<Rightarrow> 's video_sender \<Rightarrow> 's video_sender option" where
  "video_acknowledged time init_time rtt p v =
    (let q = ccp_seq (rp_pkt p);
         found = (\<exists>f \<in> set (vs_frames v). q \<in> set (sf_unacked f));
         n = (if found then of_nat (rp_size p) else 0);
         v1 = v\<lparr>vs_frames := filter (\<lambda>f. \<not> finished f) (map (without q) (vs_frames v))\<rparr>
     in if n = 0 then Some v1
        else map_option (\<lambda>s. v1\<lparr>vs_scream := s\<rparr>)
          (process_acks time (rp_ack_time p - (rp_send_time p - init_time)) n (vs_losses v1) rtt (vs_scream v1)))"

fun lose_in_frames :: "u32 \<Rightarrow> sent_frame list \<Rightarrow> sent_frame list option" where
  "lose_in_frames q [] = None"
| "lose_in_frames q (f # fs) = (if q \<in> set (sf_unacked f)
     then Some (if finished (without q f) then fs else without q f # fs)
     else map_option ((#) f) (lose_in_frames q fs))"

text \<open>A key frame is requested from the source, which is dereferenced: without one this is undefined.\<close>

definition video_lost :: "real \<Rightarrow> recent_packet \<Rightarrow> 's video_sender \<Rightarrow> exn + 's video_sender" where
  "video_lost time p v = (case lose_in_frames (ccp_seq (rp_pkt p)) (vs_frames v) of
     None \<Rightarrow> Inr v
   | Some fs \<Rightarrow>
       let v1 = v\<lparr>vs_losses := vs_losses v + 1, vs_scream := packet_lost_at time (of_nat (rp_size p)) (vs_scream v)\<rparr> in
       if \<not> vs_key_requested v1 \<and> vs_source v1 = None then Inl Undefined
       else Inr (if vs_key_requested v1 then v1\<lparr>vs_frames := fs\<rparr>
         else v1\<lparr>vs_frames := fs, vs_key_requested := True, vs_key_requests := vs_key_requests v1 + 1\<rparr>))"

subsection \<open>The frames that wait\<close>

definition waiting_for :: "u32 \<Rightarrow> 's video_sender \<Rightarrow> nat" where
  "waiting_for q v = (\<Sum>f\<leftarrow>vs_frames v. count_list (sf_unacked f) q)"

lemma count_without: "count_list (remove1 q xs) q' = count_list xs q' - (if q = q' then 1 else 0)"
  by (induction xs) auto

lemma count_pos: "q \<in> set xs \<Longrightarrow> 0 < count_list xs q"
  by (metis count_list_0_iff gr0I)

lemma sum_filter_finished: "(\<Sum>f\<leftarrow>filter (\<lambda>f. \<not> finished f) fs. count_list (sf_unacked f) q) = (\<Sum>f\<leftarrow>fs. count_list (sf_unacked f) q)"
  by (induction fs) (auto simp: finished_def)

lemma lose_counts:
  "lose_in_frames q fs = Some gs \<Longrightarrow> (\<Sum>f\<leftarrow>fs. count_list (sf_unacked f) q') =
    (\<Sum>f\<leftarrow>gs. count_list (sf_unacked f) q') + (if q = q' then 1 else 0)"
proof (induction fs arbitrary: gs)
  case (Cons f fs)
  show ?case
  proof (cases "q \<in> set (sf_unacked f)")
    case True
    then have "count_list (sf_unacked f) q' = count_list (remove1 q (sf_unacked f)) q' + (if q = q' then 1 else 0)"
      using count_pos by (fastforce simp: count_without)
    moreover have "sf_unacked f = [q]" if "remove1 q (sf_unacked f) = []"
      using that True by (cases "sf_unacked f") (auto split: if_splits)
    ultimately show ?thesis using True Cons.prems by (auto simp: without_def finished_def split: if_splits)
  next
    case False
    then show ?thesis using Cons by auto
  qed
qed simp

lemma sum_without: "(\<Sum>f\<leftarrow>map (without q) fs. count_list (sf_unacked f) q')
    = (\<Sum>f\<leftarrow>fs. count_list (sf_unacked f) q' - (if q = q' then 1 else 0))"
  by (induction fs) (simp_all add: without_def count_without)

lemma sum_minus_one: "(\<Sum>f\<leftarrow>fs. count_list (sf_unacked f) q) \<le> 1 \<Longrightarrow> (\<Sum>f\<leftarrow>fs. count_list (sf_unacked f) q - 1) = 0"
  by (induction fs) auto

lemma acknowledged_frames: "video_acknowledged t i r p v = Some v'
    \<Longrightarrow> vs_frames v' = filter (\<lambda>f. \<not> finished f) (map (without (ccp_seq (rp_pkt p))) (vs_frames v))"
  by (auto simp: video_acknowledged_def Let_def split: if_splits)

lemma lose_none: "lose_in_frames q fs = None \<longleftrightarrow> (\<Sum>f\<leftarrow>fs. count_list (sf_unacked f) q) = 0"
  by (induction fs) (auto simp: count_list_0_iff)

lemma lost_frames: "video_lost t p v = Inr v' \<Longrightarrow> lose_in_frames (ccp_seq (rp_pkt p)) (vs_frames v) = Some (vs_frames v')
    \<or> lose_in_frames (ccp_seq (rp_pkt p)) (vs_frames v) = None \<and> v' = v"
  by (auto simp: video_lost_def Let_def split: option.splits if_splits)

text \<open>
  Every packet of a video frame is settled once. If it waits at most once, then after its
  acknowledgment or its loss it waits no longer, and all others wait as before; a packet that does not
  wait is not counted as lost, and a packet that was acknowledged is never counted as lost later.
\<close>

theorem video_packet_settled:
  assumes "waiting_for (ccp_seq (rp_pkt p)) v \<le> 1"
  shows "(video_acknowledged t i r p v = Some v' \<or> video_lost t p v = Inr v' \<longrightarrow>
      waiting_for q v' = (if q = ccp_seq (rp_pkt p) then 0 else waiting_for q v) \<and> video_lost t' p v' = Inr v')
    \<and> (waiting_for (ccp_seq (rp_pkt p)) v = 0 \<longrightarrow> video_lost t p v = Inr v)"
proof -
  let ?q = "ccp_seq (rp_pkt p)"
  have gone: "video_lost t' p w = Inr w" if "waiting_for ?q w = 0" for w and t'
    using that lose_none [of ?q "vs_frames w"] by (simp add: video_lost_def waiting_for_def)
  have ack: "waiting_for q v' = (if q = ?q then 0 else waiting_for q v)" if "video_acknowledged t i r p v = Some v'" for q
    using assms sum_minus_one [of ?q "vs_frames v"]
    by (simp add: waiting_for_def acknowledged_frames [OF that] sum_filter_finished sum_without del: map_map)
  have lost: "waiting_for q v' = (if q = ?q then 0 else waiting_for q v)" if "video_lost t p v = Inr v'" for q
    using lost_frames [OF that]
  proof
    assume l: "lose_in_frames ?q (vs_frames v) = Some (vs_frames v')"
    show ?thesis using lose_counts [OF l, of q] lose_counts [OF l, of ?q] assms by (auto simp: waiting_for_def)
  next
    assume l: "lose_in_frames ?q (vs_frames v) = None \<and> v' = v"
    then show ?thesis using lose_none [of ?q "vs_frames v"] by (simp add: waiting_for_def)
  qed
  show ?thesis using ack lost gone by auto
qed

theorem video_packet_settled_witness:
  "waiting_for 5 (the (video_acknowledged 1 0 1 (recent_packet_new \<lparr>pp_packet = [], pp_info = \<lparr>ccp_seq = 5, ccp_stream_id = 1\<rparr>, pp_endpoint = 0\<rparr> 0)
     ((video_sender_new 0 5 codec_Avc (None :: unit option))\<lparr>vs_frames := [\<lparr>sf_seq = 1, sf_fragments = 1, sf_unacked = [5, 6], sf_in_queue = 0\<rparr>]\<rparr>))) = 0"
proof -
  let ?p = "recent_packet_new \<lparr>pp_packet = [], pp_info = \<lparr>ccp_seq = 5, ccp_stream_id = 1\<rparr>, pp_endpoint = 0\<rparr> 0"
  let ?v = "(video_sender_new 0 5 codec_Avc (None :: unit option))\<lparr>vs_frames := [\<lparr>sf_seq = 1, sf_fragments = 1, sf_unacked = [5, 6], sf_in_queue = 0\<rparr>]\<rparr>"
  obtain v' where v: "video_acknowledged 1 0 1 ?p ?v = Some v'" "ccp_seq (rp_pkt ?p) = 5"
    by (simp add: video_acknowledged_def recent_packet_new_def Let_def)
  have "waiting_for (ccp_seq (rp_pkt ?p)) ?v \<le> 1" by (simp add: waiting_for_def recent_packet_new_def)
  from video_packet_settled [OF this, of 1 0 1 v' 5 0] show ?thesis using v by simp
qed

text \<open>
  The resolution never exceeds what the peer can show, does not go down when the bitrate goes
  up, and is at most 1080 lines.
\<close>

theorem resolution_follows_bitrate:
  assumes "vs_bitrate v \<le> vs_bitrate w" "vs_codec v = vs_codec w" "vs_source_change v = vs_source_change w"
  shows "video_resolution t m v \<le> video_resolution t m w \<and> video_resolution t m w \<le> min m VIDEO_RES_1080"
proof -
  have o: "k < vs_bitrate w" if "k < vs_bitrate v" for k using that assms(1) by (rule less_le_trans)
  show ?thesis using assms(2,3) o
    by (auto simp: video_resolution_def Let_def VIDEO_RES_360_def VIDEO_RES_480_def VIDEO_RES_720_def VIDEO_RES_1080_def)
qed

end
