(* ===== verification/Video_In.thy ===== *)
theory Video_In
  imports Buffers Blocking_Queue
begin

section \<open>Received video (controller/media/Video.cpp, os/android/VideoRendererAndroid)\<close>

text \<open>
  What \<^verbatim>\<open>ProcessIncomingVideoFrame\<close> does with a reassembled frame, the calls of the renderer in their order,
  and the renderer for Android, which hands the calls to its decoder thread through a bounded queue.
\<close>

subsection \<open>The stream and the calls of the renderer\<close>

record video_in =
  vi_codec :: u32
  vi_width :: u32
  vi_height :: u32
  vi_rotation :: u16
  vi_csd :: "byte list list"
  vi_csd_valid :: bool

definition video_in_new :: "u32 \<Rightarrow> video_in" where
  "video_in_new codec = \<lparr>vi_codec = codec, vi_width = 0, vi_height = 0, vi_rotation = 0, vi_csd = [], vi_csd_valid = False\<rparr>"

datatype render = RReset u32 u32 u32 "byte list list" | RRotation u16 | RDecode "byte list" u32

record video_frame =
  vf_bytes :: "byte list"
  vf_pts :: u32
  vf_key :: bool
  vf_rotation :: u16

text \<open>No frame was received yet: \<^verbatim>\<open>UINT32_MAX\<close>.\<close>

abbreviation NO_FRAME :: u32 where
  "NO_FRAME \<equiv> 0xFFFFFFFF"

subsection \<open>The header of a key frame\<close>

primrec read_csd :: "nat \<Rightarrow> istream \<Rightarrow> exn + byte list list \<times> istream" where
  "read_csd 0 s = Inr ([], s)"
| "read_csd (Suc n) s = bind_res (read_byte s) (\<lambda>(l, s1). bind_res (read_bytes (unat l) s1) (\<lambda>(b, s2).
     bind_res (read_csd n s2) (\<lambda>(bs, s3). Inr (b # bs, s3))))"

primrec skip_csd :: "nat \<Rightarrow> istream \<Rightarrow> exn + istream" where
  "skip_csd 0 s = Inr s"
| "skip_csd (Suc n) s = bind_res (read_byte s) (\<lambda>(l, s1). bind_res (seek (ioff s1 + unat l) s1) (skip_csd n))"

text \<open>The offset behind the header, and the stream with what the header says. A stream that does not exist is a null pointer.\<close>

definition read_key_header :: "byte list \<Rightarrow> video_in option \<Rightarrow> exn + nat \<times> video_in option" where
  "read_key_header bs st = bind_res (read_int16 (istream_of bs)) (\<lambda>(w, s1). bind_res (read_int16 s1) (\<lambda>(h, s2).
     bind_res (read_byte s2) (\<lambda>(sf, s3). case st of None \<Rightarrow> Inl Undefined | Some v \<Rightarrow>
       if bit sf 7 \<or> \<not> vi_csd_valid v \<or> vi_width v \<noteq> ucast w \<or> vi_height v \<noteq> ucast h
       then bind_res (read_csd (unat (sf AND 15)) s3) (\<lambda>(csd, s4).
         Inr (ioff s4, Some (v\<lparr>vi_width := ucast w, vi_height := ucast h, vi_csd := csd, vi_csd_valid := False\<rparr>)))
       else bind_res (skip_csd (unat (sf AND 15)) s3) (\<lambda>s4. Inr (ioff s4, Some v)))))"

subsection \<open>A received frame\<close>

text \<open>
  The state is the stream and the number of the frame shown last. Nothing catches what is thrown, so the
  partly changed stream of a bad header is never seen. Frames whose predecessor is missing are skipped, key frames
  excepted.
\<close>

definition reset_renderer :: "video_in \<Rightarrow> render list \<times> video_in" where
  "reset_renderer v = (if \<not> vi_csd_valid v \<and> vi_width v \<noteq> 0 \<and> vi_height v \<noteq> 0
     then ([RReset (vi_codec v) (vi_width v) (vi_height v) (vi_csd v)], v\<lparr>vi_csd_valid := True\<rparr>) else ([], v))"

definition show_frame :: "video_frame \<Rightarrow> nat \<Rightarrow> video_in \<Rightarrow> u32 \<Rightarrow> render list \<times> video_in \<times> u32" where
  "show_frame f off v prev =
     (if prev = NO_FRAME \<or> prev = vf_pts f - 1 \<or> vf_key f
      then ((if vi_rotation v \<noteq> vf_rotation f then [RRotation (vf_rotation f)] else [])
              @ [RDecode (drop off (vf_bytes f)) (vf_pts f)], v\<lparr>vi_rotation := vf_rotation f\<rparr>, vf_pts f)
      else ([], v, prev))"

definition process_incoming_video_frame ::
  "bool \<Rightarrow> video_frame \<Rightarrow> video_in option \<times> u32 \<Rightarrow> exn + render list \<times> (video_in option \<times> u32)" where
  "process_incoming_video_frame has_renderer f = (\<lambda>(st, prev).
     if \<not> has_renderer then Inr ([], (st, prev))
     else bind_res (if vf_key f then read_key_header (vf_bytes f) st else Inr (0, st)) (\<lambda>(off, st').
       case st' of None \<Rightarrow> Inl Undefined
       | Some v \<Rightarrow> (case reset_renderer v of (rs, v1) \<Rightarrow>
           (case show_frame f off v1 prev of (ds, v2, prev') \<Rightarrow> Inr (rs @ ds, (Some v2, prev'))))))"

fun video_run :: "video_frame list \<Rightarrow> video_in option \<times> u32 \<Rightarrow> exn + render list \<times> (video_in option \<times> u32)" where
  "video_run [] s = Inr ([], s)"
| "video_run (f # fs) s = bind_res (process_incoming_video_frame True f s) (\<lambda>(rs, s1).
     bind_res (video_run fs s1) (\<lambda>(qs, s2). Inr (rs @ qs, s2)))"

subsection \<open>What is to be seen\<close>

text \<open>
  A frame of the encoder and its bytes on the wire, as \<^verbatim>\<open>VideoPacketSender\<close> means to write them: a key frame carries its
  size, the codec specific data and a flag that these have changed.
\<close>

datatype video_content = Key u16 u16 bool "byte list list" "byte list" | Delta "byte list"

record sent_video =
  sv_content :: video_content
  sv_pts :: u32
  sv_rotation :: u16

definition csd_bytes :: "byte list list \<Rightarrow> byte list" where
  "csd_bytes csd = concat (map (\<lambda>c. word_of_nat (length c) # c) csd)"

fun wire_bytes :: "video_content \<Rightarrow> byte list" where
  "wire_bytes (Key w h changed csd bs) = le16 w @ le16 h
     @ [word_of_nat (length csd) OR (if changed then 0x80 else 0)] @ csd_bytes csd @ bs"
| "wire_bytes (Delta bs) = bs"

fun is_key :: "video_content \<Rightarrow> bool" where
  "is_key (Key _ _ _ _ _) = True"
| "is_key (Delta _) = False"

definition on_wire :: "sent_video \<Rightarrow> video_frame" where
  "on_wire f = \<lparr>vf_bytes = wire_bytes (sv_content f), vf_pts = sv_pts f, vf_key = is_key (sv_content f), vf_rotation = sv_rotation f\<rparr>"

type_synonym vconfig = "u32 \<times> u32 \<times> byte list list"

text \<open>A renderer that follows its calls: what it shows, with the configuration and the rotation at that time.\<close>

fun play :: "vconfig option \<Rightarrow> u16 \<Rightarrow> render list \<Rightarrow> (vconfig option \<times> u16 \<times> byte list \<times> u32) list" where
  "play c r [] = []"
| "play c r (RReset _ w h csd # rs) = play (Some (w, h, csd)) r rs"
| "play c r (RRotation r' # rs) = play c r' rs"
| "play c r (RDecode bs n # rs) = (c, r, bs, n) # play c r rs"

text \<open>The frames that should be seen: key frames, and those whose predecessor was seen, each in its own configuration.\<close>

fun expected :: "vconfig option \<Rightarrow> u32 option \<Rightarrow> sent_video list \<Rightarrow> (vconfig option \<times> u16 \<times> byte list \<times> u32) list" where
  "expected c prev [] = []"
| "expected c prev (f # fs) = (case sv_content f of
     Key w h _ csd bs \<Rightarrow> (let c' = Some (ucast w, ucast h, csd) in
       (c', sv_rotation f, bs, sv_pts f) # expected c' (Some (sv_pts f)) fs)
   | Delta bs \<Rightarrow> if prev = None \<or> prev = Some (sv_pts f - 1)
       then (c, sv_rotation f, bs, sv_pts f) # expected c (Some (sv_pts f)) fs
       else expected c prev fs)"

text \<open>
  What the sender has to keep: sizes that fit the header, and a flag on every key frame whose parameters differ from
  those of the key frame received before it.
\<close>

fun sender_ok :: "vconfig option \<Rightarrow> sent_video list \<Rightarrow> bool" where
  "sender_ok c [] = True"
| "sender_ok c (f # fs) = (sv_pts f \<noteq> NO_FRAME \<and> (case sv_content f of
     Key w h changed csd bs \<Rightarrow> w \<noteq> 0 \<and> h \<noteq> 0 \<and> length csd < 16 \<and> list_all (\<lambda>b. length b < 256) csd
       \<and> (changed \<or> c = None \<or> c = Some (ucast w, ucast h, csd)) \<and> sender_ok (Some (ucast w, ucast h, csd)) fs
   | Delta bs \<Rightarrow> sender_ok c fs))"

subsection \<open>Reading the header\<close>

lemma read_csd_bytes:
  assumes "list_all (\<lambda>b. length b < 256) csd" "rest s = csd_bytes csd @ xs"
  shows "read_csd (length csd) s = Inr (csd, adv (length (csd_bytes csd)) s)"
  using assms
proof (induction csd arbitrary: s)
  case (Cons c csd)
  have s: "rest s = word_of_nat (length c) # c @ csd_bytes csd @ xs" using Cons.prems by (simp add: csd_bytes_def)
  have n: "unat (word_of_nat (length c) :: byte) = length c" using Cons.prems(1) by (simp add: unat_of_nat)
  have "rest (adv (1 + length c) s) = csd_bytes csd @ xs" using s by (simp add: buf_simps)
  then have "read_csd (length csd) (adv (1 + length c) s) = Inr (csd, adv (length (csd_bytes csd)) (adv (1 + length c) s))"
    using Cons by simp
  moreover have "read_bytes (length c) (adv 1 s) = Inr (c, adv (length c) (adv 1 s))"
    by (rule read_bytes_append [of _ _ "csd_bytes csd @ xs"]) (simp_all add: buf_simps s)
  ultimately show ?case using s n by (simp add: read_byte_Cons buf_simps csd_bytes_def add.commute)
qed (simp add: csd_bytes_def buf_simps)

lemma seek_forward: "iok s \<Longrightarrow> n \<le> length (rest s) \<Longrightarrow> seek (ioff s + n) s = Inr (adv n s)"
  by (auto simp: seek_def iok_def rest_def adv_def)

lemma skip_csd_bytes:
  assumes "list_all (\<lambda>b. length b < 256) csd" "rest s = csd_bytes csd @ xs" "iok s"
  shows "skip_csd (length csd) s = Inr (adv (length (csd_bytes csd)) s)"
  using assms
proof (induction csd arbitrary: s)
  case (Cons c csd)
  have s: "rest s = word_of_nat (length c) # c @ csd_bytes csd @ xs" using Cons.prems by (simp add: csd_bytes_def)
  have n: "unat (word_of_nat (length c) :: byte) = length c" using Cons.prems(1) by (simp add: unat_of_nat)
  have ok: "iok (adv 1 s)" "iok (adv (1 + length c) s)" using Cons.prems(3) s by (simp_all add: iok_adv)
  have "rest (adv (1 + length c) s) = csd_bytes csd @ xs" using s by (simp add: buf_simps)
  then have "skip_csd (length csd) (adv (1 + length c) s) = Inr (adv (length (csd_bytes csd)) (adv (1 + length c) s))"
    using Cons ok by simp
  moreover have "seek (ioff (adv 1 s) + length c) (adv 1 s) = Inr (adv (length c) (adv 1 s))"
    by (rule seek_forward) (use ok s in \<open>simp_all add: buf_simps\<close>)
  ultimately show ?case using s n by (simp add: read_byte_Cons buf_simps csd_bytes_def add.commute)
qed (simp add: csd_bytes_def buf_simps)

lemma size_and_flag:
  assumes "n < 16"
  shows "unat ((word_of_nat n OR (if b then 0x80 else 0) :: byte) AND 15) = n"
    "bit (word_of_nat n OR (if b then 0x80 else 0) :: byte) 7 = b"
proof -
  have "n \<in> {0..<16}" using assms by simp
  then have "n \<in> set [0..<16]" by simp
  then have "unat ((word_of_nat n OR (if b then 0x80 else 0) :: byte) AND 15) = n
      \<and> bit (word_of_nat n OR (if b then 0x80 else 0) :: byte) 7 = b"
    by (cases b) (auto simp: upt_rec)
  then show "unat ((word_of_nat n OR (if b then 0x80 else 0) :: byte) AND 15) = n"
    "bit (word_of_nat n OR (if b then 0x80 else 0) :: byte) 7 = b" by simp_all
qed

lemma header_bytes:
  assumes "unat (sf AND 15) = length csd" "list_all (\<lambda>b. length b < 256) csd"
    and X: "X = le16 w @ le16 h @ [sf] @ csd_bytes csd @ bs"
  shows "read_key_header X (Some v) = Inr (5 + length (csd_bytes csd),
      Some (if bit sf 7 \<or> \<not> vi_csd_valid v \<or> vi_width v \<noteq> ucast w \<or> vi_height v \<noteq> ucast h
        then v\<lparr>vi_width := ucast w, vi_height := ucast h, vi_csd := csd, vi_csd_valid := False\<rparr> else v))"
proof -
  let ?s = "istream_of X"
  have s: "rest ?s = le16 w @ le16 h @ [sf] @ csd_bytes csd @ bs" using X by (simp add: buf_simps)
  have ok: "iok (adv 5 ?s)" by (rule iok_adv) (simp_all add: X buf_simps le16_def)
  have s2: "rest (adv 2 ?s) = le16 h @ [sf] @ csd_bytes csd @ bs"
    and s4: "rest (adv 4 ?s) = sf # csd_bytes csd @ bs" and s5: "rest (adv 5 ?s) = csd_bytes csd @ bs"
    by (simp_all only: rest_adv s) (simp_all add: le16_def)
  have "ioff (adv (5 + length (csd_bytes csd)) ?s) = 5 + length (csd_bytes csd)" by (simp add: adv_def istream_of_def)
  then show ?thesis
    using read_int16_le [OF s] read_int16_le [OF s2] read_byte_Cons [OF s4] read_csd_bytes [OF assms(2) s5]
      skip_csd_bytes [OF assms(2) s5 ok]
    by (simp add: read_key_header_def adv_adv assms(1))
qed

lemma key_header:
  assumes "length csd < 16" "list_all (\<lambda>b. length b < 256) csd"
  shows "read_key_header (wire_bytes (Key w h changed csd bs)) (Some v) = Inr (5 + length (csd_bytes csd),
      Some (if changed \<or> \<not> vi_csd_valid v \<or> vi_width v \<noteq> ucast w \<or> vi_height v \<noteq> ucast h
        then v\<lparr>vi_width := ucast w, vi_height := ucast h, vi_csd := csd, vi_csd_valid := False\<rparr> else v))"
    and "drop (5 + length (csd_bytes csd)) (wire_bytes (Key w h changed csd bs)) = bs"
  using header_bytes [OF size_and_flag(1) [OF assms(1), of changed] assms(2) wire_bytes.simps(1), where v = v]
    size_and_flag(2) [OF assms(1), of changed]
  by (simp only: simp_thms) (simp add: le16_def eval_nat_numeral)

lemma wider_0 [simp]: "(ucast (w :: u16) :: u32) = 0 \<longleftrightarrow> w = 0"
proof -
  have "unat (ucast w :: u32) = unat w"
    using unsigned_less [of w, where ?'a = nat] by (simp add: unsigned_ucast_eq take_bit_nat_eq_self)
  then show ?thesis by (metis unat_eq_zero)
qed

subsection \<open>The renderer shows what should be seen\<close>

definition follows :: "vconfig option \<Rightarrow> u16 \<Rightarrow> video_in \<Rightarrow> bool" where
  "follows c r v \<longleftrightarrow> vi_rotation v = r \<and> (case c of None \<Rightarrow> \<not> vi_csd_valid v \<and> vi_width v = 0
     | Some (w, h, csd) \<Rightarrow> vi_csd_valid v \<and> vi_width v = w \<and> vi_height v = h \<and> vi_csd v = csd)"

definition seen_as :: "u32 option \<Rightarrow> u32" where
  "seen_as prev = (case prev of None \<Rightarrow> NO_FRAME | Some n \<Rightarrow> n)"

lemma process_key:
  assumes "follows c r v" "sender_ok c (f # fs)" "sv_content f = Key w h changed csd bs"
  obtains rs v' where "process_incoming_video_frame True (on_wire f) (Some v, prev) = Inr (rs, (Some v', sv_pts f))"
    "follows (Some (ucast w, ucast h, csd)) (sv_rotation f) v'"
    "\<And>qs. play c r (rs @ qs) = (Some (ucast w, ucast h, csd), sv_rotation f, bs, sv_pts f)
       # play (Some (ucast w, ucast h, csd)) (sv_rotation f) qs"
proof -
  have sizes: "length csd < 16" "list_all (\<lambda>b. length b < 256) csd" "(ucast w :: u32) \<noteq> 0" "(ucast h :: u32) \<noteq> 0"
    using assms(2,3) by simp_all
  note header = key_header [OF sizes(1,2), where w = w and h = h and changed = changed and bs = bs]
  note read = key_header(1) [OF sizes(1,2), of w h changed bs v]
  have wire: "vf_bytes (on_wire f) = wire_bytes (Key w h changed csd bs)" "vf_key (on_wire f)"
    "vf_pts (on_wire f) = sv_pts f" "vf_rotation (on_wire f) = sv_rotation f"
    using assms(3) by (simp_all add: on_wire_def)
  let ?c = "Some (ucast w, ucast h, csd) :: vconfig option"
  obtain v0 rr v1 where v0: "read_key_header (wire_bytes (Key w h changed csd bs)) (Some v) = Inr (5 + length (csd_bytes csd), Some v0)"
    and v1: "reset_renderer v0 = (rr, v1)" and f: "follows ?c r v1" and rr: "\<And>qs. play c r (rr @ qs) = play ?c r qs"
  proof (cases "changed \<or> \<not> vi_csd_valid v \<or> vi_width v \<noteq> ucast w \<or> vi_height v \<noteq> ucast h")
    case True
    show thesis by (rule that [OF read [unfolded if_P [OF True]]])
      (use assms(1) sizes in \<open>auto simp: reset_renderer_def follows_def\<close>)
  next
    case False
    then have c: "c = ?c" and v: "vi_csd_valid v"
      using assms by (cases c; auto simp: follows_def)+
    show thesis by (rule that [OF read [unfolded if_not_P [OF False]], of "[]" v])
      (use assms(1) c v in \<open>simp_all add: reset_renderer_def\<close>)
  qed
  let ?rs = "rr @ (if r \<noteq> sv_rotation f then [RRotation (sv_rotation f)] else []) @ [RDecode bs (sv_pts f)]"
  have "process_incoming_video_frame True (on_wire f) (Some v, prev)
      = Inr (?rs, (Some (v1\<lparr>vi_rotation := sv_rotation f\<rparr>), sv_pts f))"
    using f header(2) by (simp add: process_incoming_video_frame_def wire v0 v1 show_frame_def follows_def del: wire_bytes.simps)
  then show ?thesis
    by (rule that) (use f in \<open>simp_all add: follows_def rr\<close>)
qed

lemma process_delta:
  assumes "follows c r v" "sv_content f = Delta bs" "sv_pts f \<noteq> NO_FRAME" "prev \<noteq> Some NO_FRAME"
  shows "process_incoming_video_frame True (on_wire f) (Some v, seen_as prev) = Inr
      (if prev = None \<or> prev = Some (sv_pts f - 1)
       then ((if r \<noteq> sv_rotation f then [RRotation (sv_rotation f)] else []) @ [RDecode bs (sv_pts f)],
         (Some (v\<lparr>vi_rotation := sv_rotation f\<rparr>), sv_pts f))
       else ([], (Some v, seen_as prev)))"
proof -
  have "reset_renderer v = ([], v)" using assms(1) by (auto simp: reset_renderer_def follows_def split: option.splits)
  then show ?thesis
    using assms by (cases prev)
      (auto simp: process_incoming_video_frame_def on_wire_def show_frame_def follows_def seen_as_def)
qed

lemma renderer_follows:
  assumes "follows c r v" "sender_ok c fs" "prev \<noteq> Some NO_FRAME"
  shows "\<exists>rs s. video_run (map on_wire fs) (Some v, seen_as prev) = Inr (rs, s) \<and> play c r rs = expected c prev fs"
  using assms
proof (induction fs arbitrary: c r v prev)
  case (Cons f fs)
  show ?case
  proof (cases "sv_content f")
    case (Key w h changed csd bs)
    obtain rs v' where p: "process_incoming_video_frame True (on_wire f) (Some v, seen_as prev) = Inr (rs, (Some v', sv_pts f))"
      and f: "follows (Some (ucast w, ucast h, csd)) (sv_rotation f) v'"
      and rs: "\<And>qs. play c r (rs @ qs) = (Some (ucast w, ucast h, csd), sv_rotation f, bs, sv_pts f)
        # play (Some (ucast w, ucast h, csd)) (sv_rotation f) qs"
      by (rule process_key [OF Cons.prems(1,2) Key]) blast
    have "sender_ok (Some (ucast w, ucast h, csd)) fs" "Some (sv_pts f) \<noteq> Some NO_FRAME" using Cons.prems(2) Key by simp_all
    from Cons.IH [OF f this] obtain qs s where "video_run (map on_wire fs) (Some v', sv_pts f) = Inr (qs, s)"
      "play (Some (ucast w, ucast h, csd)) (sv_rotation f) qs = expected (Some (ucast w, ucast h, csd)) (Some (sv_pts f)) fs"
      by (auto simp: seen_as_def)
    then show ?thesis by (intro exI [of _ "rs @ qs"] exI [of _ s]) (simp add: p rs Key Let_def)
  next
    case (Delta bs)
    have ok: "sender_ok c fs" "sv_pts f \<noteq> NO_FRAME" using Cons.prems(2) Delta by simp_all
    note p = process_delta [OF Cons.prems(1) Delta ok(2) Cons.prems(3)]
    have f: "follows c (sv_rotation f) (v\<lparr>vi_rotation := sv_rotation f\<rparr>)" using Cons.prems(1) by (cases c) (auto simp: follows_def)
    show ?thesis
    proof (cases "prev = None \<or> prev = Some (sv_pts f - 1)")
      case True
      have "Some (sv_pts f) \<noteq> Some NO_FRAME" using ok by simp
      from Cons.IH [OF f ok(1) this] obtain qs s
        where "video_run (map on_wire fs) (Some (v\<lparr>vi_rotation := sv_rotation f\<rparr>), sv_pts f) = Inr (qs, s)"
          "play c (sv_rotation f) qs = expected c (Some (sv_pts f)) fs" by (auto simp: seen_as_def)
      then show ?thesis using True by (simp add: p Delta)
    next
      case False
      from Cons.IH [OF Cons.prems(1) ok(1) Cons.prems(3)] show ?thesis using False by (auto simp: p Delta)
    qed
  qed
qed simp


definition example_video :: "sent_video list" where
  "example_video = [\<lparr>sv_content = Key 640 480 True [[1, 2], [3]] [10, 11], sv_pts = 0, sv_rotation = 0\<rparr>,
     \<lparr>sv_content = Delta [12], sv_pts = 1, sv_rotation = 0\<rparr>, \<lparr>sv_content = Delta [13], sv_pts = 3, sv_rotation = 0\<rparr>,
     \<lparr>sv_content = Key 640 480 False [[1, 2], [3]] [14], sv_pts = 4, sv_rotation = 90\<rparr>]"


text \<open>
  A delta frame that arrives first is shown although the renderer has no configuration: the number \<^verbatim>\<open>UINT32_MAX\<close> that stands for
  no frame lets it pass. A header that is too short, or a stream that does not exist, ends the process.
\<close>

lemma first_delta_shown:
  "sv_content f = Delta bs \<Longrightarrow> expected None None [f] = [(None, sv_rotation f, bs, sv_pts f)]"
  by simp

lemma short_header: "length bs < 5 \<Longrightarrow> read_key_header bs st = Inl OutOfRange"
  by (auto simp: read_key_header_def read_int16_conv read_byte_conv try_u16_conv buf_simps
      split: list.splits option.splits prod.splits)

subsection \<open>The source and the codec specific data of the own video\<close>

text \<open>The stream of the own video: whether it is enabled, whether it has a packet sender, its codec specific data.\<close>

record video_out =
  vo_enabled :: bool
  vo_sender :: bool
  vo_csd :: "byte list list"

datatype source_call = PostStreamFlags | CreateSender | ChangeSource bool

definition set_video_source :: "bool \<Rightarrow> video_out option \<Rightarrow> video_out option \<times> source_call list" where
  "set_video_source source st = (case st of None \<Rightarrow> (None, [])
     | Some v \<Rightarrow> if source
         then (Some (v\<lparr>vo_enabled := True, vo_sender := True\<rparr>), (if \<not> vo_enabled v then [PostStreamFlags] else [])
                @ [if \<not> vo_sender v then CreateSender else ChangeSource True])
         else (Some (v\<lparr>vo_enabled := False\<rparr>), (if vo_enabled v then [PostStreamFlags] else [])
                @ (if vo_sender v then [ChangeSource False] else [])))"

definition set_video_csd :: "byte list list \<Rightarrow> video_out option \<Rightarrow> exn + video_out option" where
  "set_video_csd csd st = (case st of None \<Rightarrow> Inl Undefined | Some v \<Rightarrow> Inr (Some (v\<lparr>vo_csd := csd\<rparr>)))"

text \<open>The peer is told of every change, and of nothing else.\<close>

lemma flags_when_enabled_changes:
  "set_video_source source (Some v) = (Some v', cs) \<Longrightarrow>
    vo_enabled v' = source \<and> (PostStreamFlags \<in> set cs \<longleftrightarrow> vo_enabled v \<noteq> vo_enabled v')"
  by (auto simp: set_video_source_def split: if_splits)

subsection \<open>The renderer of Android\<close>

text \<open>
  The calls only note their values and put requests into a queue of 50, from which a thread, started by the first
  reset, calls the decoder of the system. A full queue ends the process (\<open>None\<close>).
\<close>

datatype request = DecodeFrame "byte list" | ResetDecoder | UpdateStreamState | Shutdown

record android_renderer =
  ar_config :: "u32 \<times> u32 \<times> u32 \<times> byte list list"
  ar_rotation :: u16
  ar_enabled :: bool
  ar_paused :: bool
  ar_queue :: "request bqueue"
  ar_thread :: bool
  ar_last_rotation :: u16

datatype decoder_call = DReset u32 u32 u32 "byte list list" | DRotation u16 | DDecode "byte list" | DState bool bool

definition android_new :: "u32 \<times> u32 \<times> u32 \<times> byte list list \<Rightarrow> android_renderer" where
  "android_new junk = \<lparr>ar_config = junk, ar_rotation = 0, ar_enabled = True, ar_paused = False,
     ar_queue = bq_new 50, ar_thread = False, ar_last_rotation = 0\<rparr>"

definition android_put :: "request \<Rightarrow> android_renderer \<Rightarrow> android_renderer option" where
  "android_put q s = map_option (\<lambda>b. s\<lparr>ar_queue := b\<rparr>) (bq_put q (ar_queue s))"

fun android_render :: "render \<Rightarrow> android_renderer \<Rightarrow> android_renderer option" where
  "android_render (RReset codec w h csd) s = Option.bind (android_put ResetDecoder (s\<lparr>ar_config := (codec, w, h, csd)\<rparr>)) (\<lambda>s1.
     map_option (\<lambda>s2. s2\<lparr>ar_thread := True\<rparr>) (android_put UpdateStreamState s1))"
| "android_render (RRotation r) s = Some (s\<lparr>ar_rotation := r\<rparr>)"
| "android_render (RDecode bs _) s = android_put (DecodeFrame bs) s"

definition android_stream_enabled :: "bool \<Rightarrow> android_renderer \<Rightarrow> android_renderer option" where
  "android_stream_enabled on s = android_put UpdateStreamState (s\<lparr>ar_enabled := on\<rparr>)"

definition android_stream_paused :: "bool \<Rightarrow> android_renderer \<Rightarrow> android_renderer option" where
  "android_stream_paused on s = android_put UpdateStreamState (s\<lparr>ar_paused := on\<rparr>)"

text \<open>One pass of the thread; it sees the values at the time of the pass, not those of the request.\<close>

fun android_request :: "request \<Rightarrow> android_renderer \<Rightarrow> decoder_call list \<times> android_renderer" where
  "android_request Shutdown s = ([], s\<lparr>ar_thread := False\<rparr>)"
| "android_request (DecodeFrame bs) s = (if length bs > 200 * 1024 then ([], s)
     else ((if ar_last_rotation s \<noteq> ar_rotation s then [DRotation (ar_rotation s)] else []) @ [DDecode bs],
       s\<lparr>ar_last_rotation := ar_rotation s\<rparr>))"
| "android_request ResetDecoder s = (case ar_config s of (codec, w, h, csd) \<Rightarrow> ([DReset codec w h csd], s))"
| "android_request UpdateStreamState s = ([DState (ar_enabled s) (ar_paused s)], s)"

definition android_pass :: "android_renderer \<Rightarrow> (decoder_call list \<times> android_renderer) option" where
  "android_pass s = (if \<not> ar_thread s then None else Option.bind (bq_acquire (ar_queue s)) (\<lambda>b.
     Option.bind (bq_get_internal b) (\<lambda>(q, b'). Some (android_request q (s\<lparr>ar_queue := b'\<rparr>)))))"

fun android_renders :: "render list \<Rightarrow> android_renderer \<Rightarrow> android_renderer option" where
  "android_renders [] s = Some s"
| "android_renders (r # rs) s = Option.bind (android_render r s) (android_renders rs)"

text \<open>
  Frames before the first reset wait for a thread that does not exist yet: the fifty-first ends the process. With
  \<open>first_delta_shown\<close> this is what happens when the first key frame of a call is lost.
\<close>

lemma put_frames:
  "ar_queue s = \<lparr>bq_items = qs, bq_capacity = 50, bq_sem = n\<rparr> \<Longrightarrow> length qs \<le> 50 \<Longrightarrow>
    android_renders (map (\<lambda>(bs, k). RDecode bs k) fs) s = None \<longleftrightarrow> length qs + length fs > 50"
proof (induction fs arbitrary: s qs n)
  case (Cons f fs)
  obtain bs k where f: "f = (bs, k)" by (cases f)
  show ?case
  proof (cases "length qs = 50")
    case False
    let ?s = "s\<lparr>ar_queue := \<lparr>bq_items = qs @ [DecodeFrame bs], bq_capacity = 50, bq_sem = Suc n\<rparr>\<rparr>"
    have "android_render (RDecode bs k) s = Some ?s"
      using Cons.prems False by (simp add: android_put_def bq_put_def Let_def)
    then show ?thesis using Cons.IH [of ?s "qs @ [DecodeFrame bs]" "Suc n"] Cons.prems False by (simp add: f)
  qed (use Cons.prems in \<open>simp add: f android_put_def bq_put_def Let_def\<close>)
qed simp

lemma frames_before_reset_abort:
  "android_renders (map (\<lambda>(bs, k). RDecode bs k) fs) (android_new junk) = None \<longleftrightarrow> length fs > 50"
  using put_frames [of "android_new junk" "[]" 0 fs] by (simp add: android_new_def bq_new_def)

text \<open>Two resets before the thread runs: the frames of the first configuration are decoded in the second.\<close>

lemma late_reset:
  assumes "android_renders [RReset 1 640 480 [], RDecode [1] 0, RReset 1 320 240 [], RDecode [2] 1] (android_new junk) = Some s"
    and "android_pass s = Some (cs, t)"
  shows "cs = [DReset 1 320 240 []]"
  using assms by (auto simp: android_new_def bq_new_def android_put_def bq_put_def android_pass_def bq_acquire_def
      bq_get_internal_def Let_def)
end
