(* ===== verification/Posix.thy ===== *)
theory Posix
  imports Control
begin

section \<open>Sockets of the operating system (os/posix/NetworkSocketPosix.cpp)\<close>

text \<open>
  What the library does around the system calls: the translation of addresses with the prefix of
  a NAT64 network, packets that the system does not take at once, and the wait for several sockets. The results of
  the system calls are arguments. A socket has the flag \<^verbatim>\<open>tcp\<close> of its protocol; what the system took
  is recorded, for UDP as datagrams with their destination and for TCP as a stream of bytes.
\<close>

record psocket =
  px_tcp :: bool
  px_fd :: int
  px_failed :: bool
  px_closing :: bool
  px_ready :: bool
  px_update_nat64 :: bool
  px_nat64 :: "byte list option"
  px_switch_at :: real
  px_v4 :: bool
  px_peer :: naddr
  px_peer_port :: u16
  px_pending :: "net_packet option"
  px_timeout :: real
  px_last_ok :: real
  px_datagrams :: "(byte list \<times> u16 \<times> byte list) list"
  px_stream :: "byte list"

definition psocket_new :: "real \<Rightarrow> bool \<Rightarrow> psocket" where
  "psocket_new t tcp = \<lparr>px_tcp = tcp, px_fd = - 1, px_failed = False, px_closing = False, px_ready = False,
     px_update_nat64 = True, px_nat64 = None, px_switch_at = 0, px_v4 = False, px_peer = no_address, px_peer_port = 0,
     px_pending = None, px_timeout = (if tcp then 10 else 0), px_last_ok = t, px_datagrams = [], px_stream = []\<rparr>"

text \<open>The random number is an argument.\<close>

definition generate_local_port :: "u16 \<Rightarrow> u16" where
  "generate_local_port r = r mod (32768 - 16384) + 16384"

subsection \<open>Addresses\<close>

text \<open>
  The name \<^verbatim>\<open>ipv4only.arpa\<close> stands for 192.0.0.170 and 192.0.0.171, so the IPv6 addresses that a resolver
  returns for it show the prefix of the network. \<open>dns\<close> is the list of these addresses, \<open>None\<close> an
  error.
\<close>

definition nat64_prefix :: "byte list list \<Rightarrow> byte list option" where
  "nat64_prefix as = (case (find (\<lambda>a. drop 12 a = [192, 0, 0, 170]) as, find (\<lambda>a. drop 12 a = [192, 0, 0, 171]) as) of
     (Some x, Some y) \<Rightarrow> if take 12 x = take 12 y then Some (take 12 x) else None
   | _ \<Rightarrow> None)"

definition update_nat64 :: "real \<Rightarrow> byte list list option \<Rightarrow> psocket \<Rightarrow> psocket" where
  "update_nat64 t dns s = (if px_update_nat64 s \<and> \<not> px_v4 s \<and> t > px_switch_at s \<and> px_switch_at s \<noteq> 0
     then s\<lparr>px_nat64 := (case dns of None \<Rightarrow> None | Some as \<Rightarrow> nat64_prefix as), px_update_nat64 := False\<rparr> else s)"

definition mapped_prefix :: "byte list" where
  "mapped_prefix = replicate 10 0 @ [255, 255]"

definition socket_address :: "psocket \<Rightarrow> naddr \<Rightarrow> byte list" where
  "socket_address s a = (case a of
     IPv4 x \<Rightarrow> (case px_nat64 s of Some p \<Rightarrow> p | None \<Rightarrow> mapped_prefix) @ le32 x
   | IPv6 b \<Rightarrow> b)"

definition source_address :: "psocket \<Rightarrow> byte list \<Rightarrow> naddr" where
  "source_address s b = (if take 12 b = mapped_prefix \<or> px_nat64 s = Some (take 12 b)
     then IPv4 (un32 (b ! 12) (b ! 13) (b ! 14) (b ! 15)) else IPv6 b)"

subsection \<open>Sending\<close>

datatype send_result = Would_Block | Net_Unreachable | Send_Error | Taken nat

definition np_empty :: "net_packet \<Rightarrow> bool" where
  "np_empty p \<longleftrightarrow> np_data p = [] \<or> \<not> np_tcp p \<and> (np_port p = 0 \<or> addr_empty (np_addr p))"

definition keep_pending :: "net_packet \<Rightarrow> psocket \<Rightarrow> psocket" where
  "keep_pending p s = (if px_pending s \<noteq> None then s\<lparr>px_failed := True\<rparr> else s\<lparr>px_pending := Some p, px_ready := False\<rparr>)"

definition transmit :: "net_packet \<Rightarrow> nat \<Rightarrow> psocket \<Rightarrow> psocket" where
  "transmit p n s = (if px_tcp s then s\<lparr>px_stream := px_stream s @ take n (np_data p)\<rparr>
     else s\<lparr>px_datagrams := px_datagrams s @ [(socket_address s (np_addr p), np_port p, take n (np_data p))]\<rparr>)"

definition posix_send :: "real \<Rightarrow> byte list list option \<Rightarrow> send_result \<Rightarrow> net_packet \<Rightarrow> psocket \<Rightarrow> psocket" where
  "posix_send t dns r p s = (if np_empty p \<or> \<not> px_tcp s \<and> np_port p = 0 then s
     else let s1 = (if \<not> px_tcp s \<and> (\<exists>a. np_addr p = IPv4 a) then update_nat64 t dns s else s) in
       (case r of
          Would_Block \<Rightarrow> keep_pending p s1
        | Net_Unreachable \<Rightarrow> if \<not> px_v4 s1 \<and> t < px_switch_at s1 then s1\<lparr>px_switch_at := t\<rparr> else s1
        | Send_Error \<Rightarrow> s1
        | Taken n \<Rightarrow> let s2 = transmit p n s1 in if n \<noteq> length (np_data p) \<and> np_tcp p then keep_pending p s2 else s2))"

text \<open>
  When the system is ready again. The packet that waits is sent again while it still counts as waiting, and is
  forgotten afterwards.
\<close>

definition ready_to_send :: "real \<Rightarrow> byte list list option \<Rightarrow> send_result \<Rightarrow> psocket \<Rightarrow> bool \<times> psocket" where
  "ready_to_send t dns r s = (case px_pending s of
     Some p \<Rightarrow> (False, (posix_send t dns r p s)\<lparr>px_pending := None\<rparr>)
   | None \<Rightarrow> (True, s\<lparr>px_ready := True\<rparr>))"

subsection \<open>Receiving\<close>

text \<open>
  The result of the system call: the bytes with, for UDP, the source; \<open>None\<close> is an error or the end of the stream. The
  buffer has 2048 bytes, and \<open>limit\<close> is the number asked for (0: no limit).
\<close>

definition posix_receive :: "nat \<Rightarrow> (byte list \<times> byte list \<times> u16) option \<Rightarrow> psocket \<Rightarrow> net_packet option \<times> psocket" where
  "posix_receive limit r s =
    (let n = (if limit = 0 then 2048 else min 2048 limit) in
     if px_failed s then (None, s)
     else if \<not> px_tcp s then
       (case r of
          Some (x # xs, b, port) \<Rightarrow>
            let s1 = (if \<not> px_v4 s \<and> take 12 b = mapped_prefix then s\<lparr>px_v4 := True\<rparr> else s)
            in (Some \<lparr>np_data = take n (x # xs), np_addr = source_address s1 b, np_port = port, np_tcp = False\<rparr>, s1)
        | _ \<Rightarrow> (None, s))
     else (case r of
          Some (x # xs, _, _) \<Rightarrow>
            (Some \<lparr>np_data = take n (x # xs), np_addr = px_peer s, np_port = px_peer_port s, np_tcp = True\<rparr>, s)
        | _ \<Rightarrow> (None, s\<lparr>px_failed := True\<rparr>)))"

subsection \<open>Opening, closing, connecting\<close>

text \<open>
  The outcomes: the descriptor (negative on failure), whether the options could be set, which of the attempts to
  bind to a random port succeeded, and whether the last one, to any port, did.
\<close>

definition fallback_in :: "real \<Rightarrow> real \<Rightarrow> psocket \<Rightarrow> psocket" where
  "fallback_in t d s = s\<lparr>px_update_nat64 := True, px_v4 := False, px_switch_at := t + d\<rparr>"

definition posix_open :: "real \<Rightarrow> real \<Rightarrow> int \<Rightarrow> bool \<Rightarrow> bool \<Rightarrow> bool list \<Rightarrow> bool \<Rightarrow> psocket \<Rightarrow> psocket" where
  "posix_open t d fd dual nonblock binds last_bind s =
    (if px_tcp s then s
     else let s1 = s\<lparr>px_fd := fd\<rparr> in
       if fd < 0 \<or> \<not> dual \<or> \<not> nonblock then s1\<lparr>px_failed := True\<rparr>
       else if True \<notin> set (take 10 binds) \<and> \<not> last_bind then s1\<lparr>px_failed := True\<rparr>
       else fallback_in t d s1)"

definition posix_close :: "psocket \<Rightarrow> psocket" where
  "posix_close s = (if px_closing s then s else s\<lparr>px_closing := True, px_failed := True, px_fd := (if px_fd s \<ge> 0 then - 1 else px_fd s)\<rparr>)"

text \<open>After a failed \<^verbatim>\<open>connect\<close> the descriptor is closed, and keeps its number.\<close>

definition posix_connect :: "int \<Rightarrow> bool \<Rightarrow> naddr \<Rightarrow> u16 \<Rightarrow> psocket \<Rightarrow> psocket" where
  "posix_connect fd ok a port s =
    (let s1 = s\<lparr>px_fd := fd\<rparr> in
     if fd < 0 \<or> \<not> ok then s1\<lparr>px_failed := True\<rparr> else s1\<lparr>px_peer := a, px_peer_port := port\<rparr>)"

definition interface_changed :: "real \<Rightarrow> real \<Rightarrow> psocket \<Rightarrow> psocket" where
  "interface_changed = fallback_in"

text \<open>The first IPv4 address that the resolver returns.\<close>

fun resolve_domain_name :: "naddr list option \<Rightarrow> naddr" where
  "resolve_domain_name None = no_address"
| "resolve_domain_name (Some []) = no_address"
| "resolve_domain_name (Some (IPv4 a # as)) = IPv4 a"
| "resolve_domain_name (Some (IPv6 b # as)) = resolve_domain_name (Some as)"

text \<open>
  The interface in use: of those that are up, running and not the loopback, the last one with an
  address that is not link-local (the test for IPv6 takes everything under \<^verbatim>\<open>f0\<close>), with the last addresses.
\<close>

record netif =
  if_name :: string
  if_up :: bool
  if_running :: bool
  if_loopback :: bool
  if_addr :: "naddr option"

definition passed_over :: "naddr \<Rightarrow> bool" where
  "passed_over a = (case a of
     IPv4 x \<Rightarrow> take 2 (le32 x) = [169, 254]
   | IPv6 b \<Rightarrow> hd b AND 0xF0 = 0xF0)"

definition note_interface :: "netif \<Rightarrow> string \<times> naddr option \<times> naddr option \<Rightarrow> string \<times> naddr option \<times> naddr option" where
  "note_interface i acc = (case acc of (name, v4, v6) \<Rightarrow>
     if \<not> if_up i \<or> \<not> if_running i \<or> if_loopback i then acc
     else case if_addr i of
       None \<Rightarrow> acc
     | Some a \<Rightarrow> if passed_over a then acc
         else (case a of IPv4 _ \<Rightarrow> (if_name i, Some a, v6) | IPv6 _ \<Rightarrow> (if_name i, v4, Some a)))"

definition local_interface :: "netif list \<Rightarrow> string \<times> naddr option \<times> naddr option" where
  "local_interface is = fold note_interface is ('''', None, None)"

subsection \<open>Waiting for several sockets\<close>

text \<open>
  Sockets are named by \<open>'k\<close> and live in a state \<open>'s\<close>. These are the methods that \<^verbatim>\<open>Select\<close> calls: the descriptor
  (that of the wrapped socket, 0 for one without), whether the socket failed or its time is over, what marks it
  as failed or as successful, and what it does when it is ready.
\<close>

record ('k, 's) sock_ops =
  so_fd :: "'k \<Rightarrow> 's \<Rightarrow> int"
  so_failed :: "'k \<Rightarrow> 's \<Rightarrow> bool"
  so_timed_out :: "real \<Rightarrow> 'k \<Rightarrow> 's \<Rightarrow> bool"
  so_fail :: "'k \<Rightarrow> 's \<Rightarrow> 's"
  so_touch :: "real \<Rightarrow> 'k \<Rightarrow> 's \<Rightarrow> 's"
  so_receive :: "'k \<Rightarrow> 's \<Rightarrow> bool \<times> 's"
  so_send :: "'k \<Rightarrow> 's \<Rightarrow> bool \<times> 's"

fun check_failed :: "('k, 's) sock_ops \<Rightarrow> real \<Rightarrow> 'k list \<Rightarrow> 's \<Rightarrow> bool \<times> 's" where
  "check_failed ops t [] s = (False, s)"
| "check_failed ops t (k # ks) s = (if so_fd ops k s \<le> 0 then check_failed ops t ks s
     else let s1 = (if so_timed_out ops t k s then so_fail ops k s else s) in
       case check_failed ops t ks s1 of (b, s2) \<Rightarrow> (so_failed ops k s1 \<or> b, s2))"

text \<open>A closed socket has the descriptor -1, which the test of a set of descriptors does not allow: \<open>None\<close>.\<close>

fun sweep :: "('k, 's) sock_ops \<Rightarrow> real \<Rightarrow> ('k \<Rightarrow> bool) \<Rightarrow> ('k \<Rightarrow> 's \<Rightarrow> bool \<times> 's) \<Rightarrow> 'k list \<Rightarrow> 's
    \<Rightarrow> ('k list \<times> 's) option" where
  "sweep ops t ready f [] s = Some ([], s)"
| "sweep ops t ready f (k # ks) s = (if so_fd ops k s < 0 then None
     else if so_fd ops k s = 0 \<or> \<not> ready k then sweep ops t ready f ks s
     else case f k (so_touch ops t k s) of (b, s1) \<Rightarrow>
       map_option (\<lambda>(r, s2). (if b then k # r else r, s2)) (sweep ops t ready f ks s1))"

definition failed_ones :: "('k, 's) sock_ops \<Rightarrow> ('k \<Rightarrow> bool) \<Rightarrow> 'k list \<Rightarrow> 's \<Rightarrow> 'k list option" where
  "failed_ones ops err ks s = (if \<exists>k \<in> set ks. so_fd ops k s < 0 then None
     else Some (filter (\<lambda>k. so_fd ops k s \<noteq> 0 \<and> err k \<or> so_failed ops k s) ks))"

text \<open>
  The outcome of the system call: whether the pipe of the canceller has a byte, and which sockets can be read,
  can be written and are in error.
\<close>

definition posix_select :: "('k, 's) sock_ops \<Rightarrow> real \<Rightarrow> bool \<Rightarrow> ('k \<Rightarrow> bool) \<Rightarrow> ('k \<Rightarrow> bool) \<Rightarrow> ('k \<Rightarrow> bool)
    \<Rightarrow> 'k list \<Rightarrow> 'k list \<Rightarrow> 'k list \<Rightarrow> 's \<Rightarrow> (bool \<times> 'k list \<times> 'k list \<times> 'k list \<times> 's) option" where
  "posix_select ops t cancelled can_read can_write err rs ws es s =
    (case check_failed ops t es s of (any, s1) \<Rightarrow>
       if cancelled \<and> \<not> any then Some (False, rs, ws, es, s1)
       else (case sweep ops t (\<lambda>k. can_read k \<and> \<not> any) (so_receive ops) rs s1 of None \<Rightarrow> None | Some (rs1, s2) \<Rightarrow>
         (case sweep ops t (\<lambda>k. can_write k \<and> \<not> any) (so_send ops) ws s2 of None \<Rightarrow> None | Some (ws1, s3) \<Rightarrow>
           (case failed_ones ops err es s3 of None \<Rightarrow> None | Some es1 \<Rightarrow>
             Some (rs1 \<noteq> [] \<or> es1 \<noteq> [] \<or> ws1 \<noteq> [], rs1, ws1, es1, s3)))))"

text \<open>The methods of sockets that are not wrapped; OnReadyToReceive is true.\<close>

definition plain_ops :: "real \<Rightarrow> byte list list option \<Rightarrow> ('k \<Rightarrow> send_result) \<Rightarrow> ('k, 'k \<Rightarrow> psocket) sock_ops" where
  "plain_ops t dns res = \<lparr>so_fd = (\<lambda>k m. px_fd (m k)), so_failed = (\<lambda>k m. px_failed (m k)),
     so_timed_out = (\<lambda>t k m. px_timeout (m k) > 0 \<and> t - px_last_ok (m k) > px_timeout (m k)),
     so_fail = (\<lambda>k m. m(k := (m k)\<lparr>px_failed := True\<rparr>)), so_touch = (\<lambda>t k m. m(k := (m k)\<lparr>px_last_ok := t\<rparr>)),
     so_receive = (\<lambda>k m. (True, m)),
     so_send = (\<lambda>k m. case ready_to_send t dns (res k) (m k) of (b, s) \<Rightarrow> (b, m(k := s)))\<rparr>"

subsection \<open>Addresses there and back\<close>

lemma nat64_prefix_length: "nat64_prefix as = Some p \<Longrightarrow> \<forall>a \<in> set as. length a = 16 \<Longrightarrow> length p = 12"
  by (auto simp: nat64_prefix_def find_Some_iff split: option.splits if_splits)

text \<open>
  Addresses survive the translation. A datagram from the place to which one was sent is taken to come
  from the address that was given, with and without a NAT64 prefix, unless an IPv6
  address lies under one of the two prefixes itself.
\<close>

theorem address_translation:
  assumes "\<forall>p. px_nat64 s = Some p \<longrightarrow> length p = 12"
    and "\<forall>b. a = IPv6 b \<longrightarrow> take 12 b \<noteq> mapped_prefix \<and> px_nat64 s \<noteq> Some (take 12 b)"
  shows "source_address s (socket_address s a) = a"
proof (cases a)
  case (IPv4 x)
  have "length mapped_prefix = 12" by (simp add: mapped_prefix_def)
  then obtain p where p: "socket_address s a = p @ le32 x" "length p = 12" "p = mapped_prefix \<or> px_nat64 s = Some p"
    using assms(1) IPv4 by (cases "px_nat64 s") (auto simp: socket_address_def)
  then have "take 12 (socket_address s a) = p" by simp
  then show ?thesis using p IPv4 by (auto simp: source_address_def nth_append le32_def un32_le32)
next
  case (IPv6 b)
  then show ?thesis using assms(2) by (simp add: source_address_def socket_address_def)
qed

theorem address_translation_witness:
  "source_address (update_nat64 5 (Some [replicate 12 7 @ [192, 0, 0, 170], replicate 12 7 @ [192, 0, 0, 171]])
      ((psocket_new 0 False)\<lparr>px_switch_at := 3\<rparr>)) (replicate 12 7 @ le32 9) = IPv4 9"
proof -
  let ?s = "update_nat64 5 (Some [replicate 12 7 @ [192, 0, 0, 170], replicate 12 7 @ [192, 0, 0, 171]])
    ((psocket_new 0 False)\<lparr>px_switch_at := 3\<rparr>)"
  have n: "px_nat64 ?s = Some (replicate 12 7)"
    by (simp add: update_nat64_def psocket_new_def nat64_prefix_def)
  show ?thesis using address_translation [of ?s "IPv4 9"] n by (simp add: socket_address_def)
qed

subsection \<open>A stream of packets\<close>

lemma send_taken: "px_tcp s \<Longrightarrow> np_tcp p \<Longrightarrow> posix_send t dns (Taken (length (np_data p))) p s
    = s\<lparr>px_stream := px_stream s @ np_data p\<rparr>"
  by (simp add: posix_send_def np_empty_def transmit_def)

text \<open>
  What arrives at the other end of a TCP connection. Packets that the system takes completely arrive
  one after the other as they were sent. But when it takes only a part of one, the packet is
  kept as a whole, and after the system is ready again all of it is sent once more, so that the part that was
  taken stands in the stream twice; and when the system does not take it at once then, the
  socket is given up.
\<close>

theorem tcp_stream_content:
  assumes "px_tcp s" "px_pending s = None" "\<not> px_failed s" "\<forall>p \<in> set ps. np_tcp p" "np_tcp p" "0 < n" "n < length (np_data p)"
  shows "px_stream (fold (\<lambda>q. posix_send t dns (Taken (length (np_data q))) q) ps s) = px_stream s @ concat (map np_data ps)
    \<and> (let s1 = posix_send t dns (Taken n) p s; (b, s2) = ready_to_send t' dns (Taken (length (np_data p))) s1 in
      px_pending s1 = Some p \<and> \<not> px_ready s1 \<and> px_pending s2 = None \<and> \<not> px_failed s2
        \<and> px_stream s2 = px_stream s @ take n (np_data p) @ np_data p
        \<and> px_failed (snd (ready_to_send t' dns Would_Block s1)))"
proof (rule conjI)
  have whole: "px_tcp u \<Longrightarrow> px_stream (fold (\<lambda>q. posix_send t dns (Taken (length (np_data q))) q) ps u)
      = px_stream u @ concat (map np_data ps)" for u
    using assms(4) by (induction ps arbitrary: u) (simp_all add: send_taken)
  then show "px_stream (fold (\<lambda>q. posix_send t dns (Taken (length (np_data q))) q) ps s) = px_stream s @ concat (map np_data ps)"
    using whole assms(1) by blast
  have "posix_send t dns (Taken n) p s = s\<lparr>px_stream := px_stream s @ take n (np_data p), px_pending := Some p, px_ready := False\<rparr>"
    using assms by (auto simp: posix_send_def np_empty_def transmit_def keep_pending_def Let_def)
  then show "let s1 = posix_send t dns (Taken n) p s; (b, s2) = ready_to_send t' dns (Taken (length (np_data p))) s1 in
      px_pending s1 = Some p \<and> \<not> px_ready s1 \<and> px_pending s2 = None \<and> \<not> px_failed s2
        \<and> px_stream s2 = px_stream s @ take n (np_data p) @ np_data p
        \<and> px_failed (snd (ready_to_send t' dns Would_Block s1))"
    using assms by (auto simp: ready_to_send_def posix_send_def np_empty_def transmit_def keep_pending_def Let_def)
qed

definition hello :: net_packet where
  "hello = \<lparr>np_data = [1, 2, 3], np_addr = no_address, np_port = 0, np_tcp = True\<rparr>"

theorem tcp_stream_content_witness:
  "px_stream (snd (ready_to_send 2 None (Taken 3) (posix_send 1 None (Taken 2) hello (psocket_new 0 True)))) = [1, 2, 1, 2, 3]"
proof -
  have s: "px_tcp (psocket_new 0 True)" "px_pending (psocket_new 0 True) = None" "\<not> px_failed (psocket_new 0 True)"
      "px_stream (psocket_new 0 True) = []" "np_tcp hello" "np_data hello = [1, 2, 3]"
    by (simp_all add: psocket_new_def hello_def)
  show ?thesis using tcp_stream_content [of "psocket_new 0 True" "[]" hello 2 1 None 2] s
    by (simp add: split_beta Let_def eval_nat_numeral)
qed

subsection \<open>The wait of the receive thread\<close>

lemma sweep_subset: "sweep ops t ready f ks s = Some (r, s1) \<Longrightarrow> set r \<subseteq> set ks \<and> length r \<le> length ks \<and> (\<forall>k \<in> set r. ready k)"
proof (induction ks arbitrary: s r s1)
  case (Cons k ks)
  show ?case
  proof (cases "so_fd ops k s = 0 \<or> \<not> ready k")
    case True
    then have "sweep ops t ready f ks s = Some (r, s1)" using Cons.prems by (auto split: if_splits)
    then show ?thesis using Cons.IH by fastforce
  next
    case False
    obtain b s2 where f: "f k (so_touch ops t k s) = (b, s2)" by fastforce
    with False Cons.prems obtain r2 where "sweep ops t ready f ks s2 = Some (r2, s1)" "r = (if b then k # r2 else r2)"
      by (auto split: if_splits)
    then show ?thesis using Cons.IH [of s2 r2 s1] False by auto
  qed
qed simp

lemma sweep_none: "sweep ops t (\<lambda>k. False) f ks s = Some (r, s1) \<Longrightarrow> r = [] \<and> s1 = s"
  by (induction ks arbitrary: r s1) (auto split: if_splits)

lemma failed_subset: "failed_ones ops err ks s = Some r \<Longrightarrow> set r \<subseteq> set ks"
  by (auto simp: failed_ones_def split: if_splits)

text \<open>
  What \<^verbatim>\<open>Select\<close> relies on: its calls of a socket neither close it nor open another one, and a socket that it marks
  as failed has failed. Then it has a result whenever no socket was closed before, and reports a socket
  whose time is over.
\<close>

locale socket_methods =
  fixes ops :: "('k, 's) sock_ops"
  assumes fd_touch: "so_fd ops k (so_touch ops t j s) = so_fd ops k s"
    and fd_fail: "so_fd ops k (so_fail ops j s) = so_fd ops k s"
    and fd_receive: "so_fd ops k (snd (so_receive ops j s)) = so_fd ops k s"
    and fd_send: "so_fd ops k (snd (so_send ops j s)) = so_fd ops k s"
    and fail_failed: "so_failed ops j (so_fail ops j s)"
begin

lemma check_fd: "so_fd ops k (snd (check_failed ops t ks s)) = so_fd ops k s"
proof (induction ks arbitrary: s)
  case (Cons j ks)
  then show ?case by (simp add: Let_def split_def fd_fail)
qed simp

lemma sweep_defined:
  assumes "\<And>k j u. so_fd ops k (snd (f j u)) = so_fd ops k u"
  shows "\<forall>k \<in> set ks. so_fd ops k s \<ge> 0 \<Longrightarrow>
    \<exists>r s1. sweep ops t ready f ks s = Some (r, s1) \<and> (\<forall>k. so_fd ops k s1 = so_fd ops k s)"
proof (induction ks arbitrary: s)
  case (Cons j ks)
  show ?case
  proof (cases "so_fd ops j s = 0 \<or> \<not> ready j")
    case True
    then show ?thesis using Cons by auto
  next
    case False
    obtain b s2 where f: "f j (so_touch ops t j s) = (b, s2)" by fastforce
    have fd: "so_fd ops k s2 = so_fd ops k s" for k using assms [of k j "so_touch ops t j s"] f fd_touch by simp
    obtain r s1 where "sweep ops t ready f ks s2 = Some (r, s1)" "\<forall>k. so_fd ops k s1 = so_fd ops k s2"
      using Cons.IH [of s2] Cons.prems fd by auto
    then show ?thesis using False f fd Cons.prems by auto
  qed
qed simp

lemma select_defined:
  assumes "\<forall>k \<in> set rs \<union> set ws \<union> set es. so_fd ops k s \<ge> 0"
  shows "posix_select ops t c can_read can_write err rs ws es s \<noteq> None"
proof -
  obtain any s1 where c: "check_failed ops t es s = (any, s1)" by fastforce
  have fd1: "so_fd ops k s1 = so_fd ops k s" for k using check_fd [of k t es s] c by simp
  obtain rs1 s2 where r: "sweep ops t (\<lambda>k. can_read k \<and> \<not> any) (so_receive ops) rs s1 = Some (rs1, s2)"
      "\<forall>k. so_fd ops k s2 = so_fd ops k s1"
    using sweep_defined [where f = "so_receive ops" and ks = rs and s = s1 and t = t and ready = "\<lambda>k. can_read k \<and> \<not> any"]
      fd_receive fd1 assms by auto
  obtain ws1 s3 where w: "sweep ops t (\<lambda>k. can_write k \<and> \<not> any) (so_send ops) ws s2 = Some (ws1, s3)"
      "\<forall>k. so_fd ops k s3 = so_fd ops k s2"
    using sweep_defined [where f = "so_send ops" and ks = ws and s = s2 and t = t and ready = "\<lambda>k. can_write k \<and> \<not> any"]
      fd_send r(2) fd1 assms by auto
  have "failed_ones ops err es s3 \<noteq> None"
    using w(2) r(2) fd1 assms by (fastforce simp: failed_ones_def not_le [symmetric])
  then show ?thesis using c r(1) w(1) by (auto simp: posix_select_def)
qed

end

lemma send_fd: "px_fd (posix_send t dns r p s) = px_fd s"
  by (simp add: posix_send_def update_nat64_def transmit_def keep_pending_def Let_def split: send_result.split)

interpretation plain: socket_methods "plain_ops t dns res" for t dns res
  by unfold_locales (auto simp: plain_ops_def ready_to_send_def send_fd split: option.split)

lemma select_parts:
  assumes "posix_select ops t c can_read can_write err rs ws es s = Some (ok, rs1, ws1, es1, s1)"
  shows "set rs1 \<subseteq> set rs \<and> length rs1 \<le> length rs \<and> set ws1 \<subseteq> set ws \<and> set es1 \<subseteq> set es"
  using assms by (auto simp: posix_select_def split: if_splits prod.splits option.splits dest!: sweep_subset failed_subset)

lemma select_after_failure:
  assumes "posix_select ops t c can_read can_write err rs ws es s = Some (ok, rs1, ws1, es1, s1)" "fst (check_failed ops t es s)"
  shows "rs1 = [] \<and> ws1 = []"
  using assms by (auto simp: posix_select_def split: prod.splits option.splits dest!: sweep_none)

lemma select_not_cancelled:
  assumes "posix_select ops t c can_read can_write err rs ws es s = Some (ok, rs1, ws1, es1, s1)" "\<not> c"
  shows "ok = (rs1 \<noteq> [] \<or> es1 \<noteq> [] \<or> ws1 \<noteq> [])"
  using assms by (auto simp: posix_select_def split: prod.splits option.splits)

text \<open>
  C23: what the receive loop is told is an outcome it can handle. Given the sockets that it waits for, it gets only
  sockets that failed among them, at most one datagram per socket, and readiness for sending only when it asked for it;
  when some socket had failed before, nothing is read and nothing is sent in this pass; and when
the wait was not cancelled, there is something to do exactly when it says so. With sockets that are not
  wrapped there is always a result, unless one was closed during the wait.
\<close>

theorem select_feeds_loop:
  assumes "posix_select ops t c can_read can_write err (None # map Some ks) ((if u then [None] else []) @ map Some ws)
      (None # map Some ks) s = Some (ok, rs1, ws1, es1, s1)" "length nps = length rs1"
  shows "select_possible \<lparr>sel_cancelled = \<not> ok, sel_udp_failed = None \<in> set es1, sel_tcp_failed = List.map_filter (\<lambda>k. k) es1,
       sel_received = nps, sel_writable = ws1 \<noteq> []\<rparr> (Recv_Select ks u ws)
    \<and> (fst (check_failed ops t (None # map Some ks) s) \<longrightarrow> rs1 = [] \<and> ws1 = [])
    \<and> (\<not> c \<longrightarrow> ok = (rs1 \<noteq> [] \<or> es1 \<noteq> [] \<or> ws1 \<noteq> []))
    \<and> ((\<forall>k. px_fd (m k) \<ge> 0) \<longrightarrow> posix_select (plain_ops t dns res) t' c' can_read' can_write' err' rs ws' es m \<noteq> None)"
proof (intro conjI impI)
  note p = select_parts [OF assms(1)]
  have "ws1 \<noteq> [] \<Longrightarrow> u \<or> ws \<noteq> []" using p by (cases ws1; cases u) auto
  then show "select_possible \<lparr>sel_cancelled = \<not> ok, sel_udp_failed = None \<in> set es1, sel_tcp_failed = List.map_filter (\<lambda>k. k) es1,
       sel_received = nps, sel_writable = ws1 \<noteq> []\<rparr> (Recv_Select ks u ws)"
    using p assms(2) by (fastforce simp: select_possible_def List.map_filter_def)
  show "fst (check_failed ops t (None # map Some ks) s) \<Longrightarrow> rs1 = []" "fst (check_failed ops t (None # map Some ks) s) \<Longrightarrow> ws1 = []"
    using select_after_failure [OF assms(1)] by blast+
  show "\<not> c \<Longrightarrow> ok = (rs1 \<noteq> [] \<or> es1 \<noteq> [] \<or> ws1 \<noteq> [])"
    using select_not_cancelled [OF assms(1)] by blast
  show "\<forall>k. px_fd (m k) \<ge> 0 \<Longrightarrow> posix_select (plain_ops t dns res) t' c' can_read' can_write' err' rs ws' es m \<noteq> None"
    by (rule plain.select_defined) (simp add: plain_ops_def)
qed

definition two_sockets :: "int option \<Rightarrow> psocket" where
  "two_sockets k = (case k of None \<Rightarrow> (psocket_new 0 False)\<lparr>px_fd := 5\<rparr> | Some _ \<Rightarrow> (psocket_new 0 True)\<lparr>px_fd := 6\<rparr>)"

theorem select_feeds_loop_witness:
  "\<exists>s1. posix_select (plain_ops 1 None (\<lambda>_. Send_Error)) 1 False (\<lambda>k. k = Some 7) (\<lambda>_. True) (\<lambda>_. False)
      [None, Some 7] [None] [None, Some 7] two_sockets = Some (True, [Some 7], [None], [], s1)
    \<and> select_possible \<lparr>sel_cancelled = False, sel_udp_failed = False, sel_tcp_failed = [], sel_received = [hello],
         sel_writable = True\<rparr> (Recv_Select [7] True [])"
proof -
  obtain s1 where "posix_select (plain_ops 1 None (\<lambda>_. Send_Error)) 1 False (\<lambda>k. k = Some 7) (\<lambda>_. True) (\<lambda>_. False)
      (None # map Some [7]) ((if True then [None] else []) @ map Some []) (None # map Some [7]) two_sockets
      = Some (True, [Some 7], [None], [], s1)"
    by (simp add: posix_select_def plain_ops_def two_sockets_def psocket_new_def ready_to_send_def failed_ones_def)
  from this select_feeds_loop [OF this, of "[hello]", THEN conjunct1] show ?thesis
    by (simp add: List.map_filter_def)
qed

end
