(* ===== verification/Winsock.thy ===== *)
theory Winsock
  imports Posix
begin

section \<open>Sockets on Windows (os/windows/NetworkSocketWinsock.cpp)\<close>

text \<open>
  The same methods as in Posix, written for another system, with the same state; \<open>vista\<close> says whether the system
  is at least Windows Vista, before which only IPv4 is used. The system calls' results are arguments again.
\<close>

subsection \<open>Sending\<close>

text \<open>
  A packet that the system does not take, or of which it takes a part, waits in \<^verbatim>\<open>pendingOutgoingPacket\<close>. Unlike in the Posix
  version only the part that was not taken is kept. For a destination with an IPv6 address the family of the socket
  address is never set: undefined.
\<close>

definition keep_rest :: "net_packet \<Rightarrow> nat \<Rightarrow> psocket \<Rightarrow> psocket" where
  "keep_rest p n s = (if px_pending s \<noteq> None then s\<lparr>px_failed := True\<rparr>
     else s\<lparr>px_pending := Some (p\<lparr>np_data := drop n (np_data p)\<rparr>), px_ready := False\<rparr>)"

definition winsock_send :: "bool \<Rightarrow> real \<Rightarrow> byte list list option \<Rightarrow> send_result \<Rightarrow> net_packet \<Rightarrow> psocket \<Rightarrow> exn + psocket" where
  "winsock_send vista t dns r p s = (if np_empty p \<or> \<not> px_tcp s \<and> addr_empty (np_addr p) then Inr s
     else if \<not> px_tcp s \<and> (\<exists>b. np_addr p = IPv6 b) then Inl Undefined
     else let s1 = (if \<not> px_tcp s \<and> vista then update_nat64 t dns s else s) in
       Inr (case r of
          Would_Block \<Rightarrow> keep_pending p s1
        | Net_Unreachable \<Rightarrow> if \<not> px_v4 s1 \<and> t < px_switch_at s1 then s1\<lparr>px_switch_at := t\<rparr> else s1
        | Send_Error \<Rightarrow> s1
        | Taken n \<Rightarrow> let s2 = transmit p n s1 in if n < length (np_data p) \<and> px_tcp s then keep_rest p n s2 else s2))"

text \<open>
  The waiting packet is passed by reference, so that while it is sent again it still counts as waiting; it is forgotten
  afterwards.
\<close>

definition winsock_ready :: "bool \<Rightarrow> real \<Rightarrow> byte list list option \<Rightarrow> send_result \<Rightarrow> psocket \<Rightarrow> exn + bool \<times> psocket" where
  "winsock_ready vista t dns r s = (case px_pending s of
     Some p \<Rightarrow> bind_res (winsock_send vista t dns r p s) (\<lambda>s1. Inr (False, s1\<lparr>px_pending := None\<rparr>))
   | None \<Rightarrow> Inr (True, s\<lparr>px_ready := True\<rparr>))"

subsection \<open>Receiving, opening, closing, connecting\<close>

text \<open>
  \<open>None\<close> is an error of the system call. An empty TCP read, the end of the stream, is an empty packet and not a failure, and a
  failed socket is read like any other.
\<close>

definition winsock_receive :: "bool \<Rightarrow> nat \<Rightarrow> (byte list \<times> byte list \<times> u16) option \<Rightarrow> psocket \<Rightarrow> net_packet option \<times> psocket" where
  "winsock_receive vista limit r s =
    (let n = (if limit = 0 then 2048 else min 2048 limit) in
     if \<not> px_tcp s then
       (case r of
          None \<Rightarrow> (None, s)
        | Some (bs, b, port) \<Rightarrow>
            if vista then
              let s1 = (if \<not> px_v4 s \<and> take 12 b = mapped_prefix then s\<lparr>px_v4 := True\<rparr> else s)
              in (Some \<lparr>np_data = take n bs, np_addr = source_address s1 b, np_port = port, np_tcp = False\<rparr>, s1)
            else (Some \<lparr>np_data = take n bs, np_addr = IPv4 (un32 (b ! 0) (b ! 1) (b ! 2) (b ! 3)), np_port = port,
              np_tcp = False\<rparr>, s))
     else (case r of
          None \<Rightarrow> (None, s\<lparr>px_failed := True\<rparr>)
        | Some (bs, _, _) \<Rightarrow>
            (Some \<lparr>np_data = take n bs, np_addr = px_peer s, np_port = px_peer_port s, np_tcp = True\<rparr>, s)))"

text \<open>When the last attempt to bind fails, the socket is not marked as failed.\<close>

definition winsock_open :: "bool \<Rightarrow> real \<Rightarrow> real \<Rightarrow> int \<Rightarrow> bool \<Rightarrow> bool list \<Rightarrow> bool \<Rightarrow> psocket \<Rightarrow> psocket" where
  "winsock_open vista t d fd dual binds last_bind s =
    (if px_tcp s then s
     else let s1 = s\<lparr>px_fd := fd\<rparr> in
       if fd = - 1 \<or> vista \<and> \<not> dual then s1\<lparr>px_failed := True\<rparr>
       else if True \<notin> set (take 10 binds) \<and> \<not> last_bind then s1
       else fallback_in t d s1)"

definition winsock_close :: "psocket \<Rightarrow> psocket" where
  "winsock_close s = s\<lparr>px_closing := True, px_failed := True\<rparr>"

definition winsock_connect :: "int \<Rightarrow> bool \<Rightarrow> naddr \<Rightarrow> u16 \<Rightarrow> psocket \<Rightarrow> psocket" where
  "winsock_connect fd ok a port s =
    (let s1 = s\<lparr>px_fd := fd\<rparr> in
     if fd = - 1 \<or> \<not> ok then s1\<lparr>px_failed := True\<rparr> else s1\<lparr>px_peer := a, px_peer_port := port\<rparr>)"

text \<open>
  The interface in use: the one with the greatest metric of those that are up and not the loopback (before Vista, the last one), and the last IPv6 address
  that is not link-local. (Windows prefers the smallest metric.)
\<close>

record adapter =
  ad_name :: string
  ad_up :: bool
  ad_loopback :: bool
  ad_metric :: nat
  ad_addrs :: "naddr list"

definition link_local :: "naddr \<Rightarrow> bool" where
  "link_local a = (case a of
     IPv4 x \<Rightarrow> take 2 (le32 x) = [169, 254]
   | IPv6 b \<Rightarrow> hd b = 0xFE \<and> b ! 1 AND 0xC0 = 0x80)"

type_synonym adapter_choice = "nat \<times> string \<times> naddr option \<times> naddr option"

definition note_address :: "bool \<Rightarrow> adapter \<Rightarrow> naddr \<Rightarrow> adapter_choice \<Rightarrow> adapter_choice" where
  "note_address vista ad a acc = (case acc of (best, name, v4, v6) \<Rightarrow>
     if link_local a then acc
     else case a of
       IPv4 x \<Rightarrow> if \<not> vista then (best, ad_name ad, Some a, v6)
           else if ad_metric ad > best then (ad_metric ad, ad_name ad, Some a, v6) else acc
     | IPv6 b \<Rightarrow> (best, name, v4, Some a))"

definition winsock_interface :: "bool \<Rightarrow> adapter list \<Rightarrow> string \<times> naddr option \<times> naddr option" where
  "winsock_interface vista ads = snd (fold (\<lambda>ad acc. if \<not> ad_up ad \<or> ad_loopback ad then acc
     else fold (note_address vista ad) (ad_addrs ad) acc) ads (0, '''', None, None))"

subsection \<open>Waiting for several sockets\<close>

fun winsock_check :: "('k, 's) sock_ops \<Rightarrow> real \<Rightarrow> 'k list \<Rightarrow> 's \<Rightarrow> bool \<times> 's" where
  "winsock_check ops t [] s = (False, s)"
| "winsock_check ops t (k # ks) s = (if so_fd ops k s = 0 then winsock_check ops t ks s
     else let s1 = (if so_timed_out ops t k s then so_fail ops k s else s) in
       case winsock_check ops t ks s1 of (b, s2) \<Rightarrow> (so_failed ops k s1 \<or> b, s2))"

text \<open>
  The system is asked every 10 milliseconds. For each time: when it is, whether the wait was cancelled in the meantime,
  the answer: nothing, or which sockets can be read, can be written and are in error; and whether it was cancelled while
  the answer was awaited. When the wait was cancelled the
  three sets still hold every socket. \<open>None\<close>: it is still waiting.
\<close>

type_synonym 'k ready = "('k \<Rightarrow> bool) \<times> ('k \<Rightarrow> bool) \<times> ('k \<Rightarrow> bool)"

fun winsock_wait :: "('k, 's) sock_ops \<Rightarrow> 'k list \<Rightarrow> bool \<Rightarrow> (real \<times> bool \<times> 'k ready option \<times> bool) list \<Rightarrow> 's
    \<Rightarrow> (real \<times> bool \<times> bool \<times> 'k ready \<times> 's) option" where
  "winsock_wait ops es any [] s = None"
| "winsock_wait ops es any ((t, cancelled, answer, late) # as) s = (case winsock_check ops t es s of (b, s1) \<Rightarrow>
     if cancelled then Some (t, True, any \<or> b, (\<lambda>_. True, \<lambda>_. True, \<lambda>_. True), s1)
     else case answer of
       None \<Rightarrow> winsock_wait ops es (any \<or> b) as s1
     | Some r \<Rightarrow> Some (t, late, any \<or> b, r, s1))"

fun winsock_sweep :: "('k, 's) sock_ops \<Rightarrow> real \<Rightarrow> ('k \<Rightarrow> bool) \<Rightarrow> ('k \<Rightarrow> 's \<Rightarrow> bool \<times> 's) \<Rightarrow> 'k list \<Rightarrow> 's \<Rightarrow> 'k list \<times> 's" where
  "winsock_sweep ops t ready f [] s = ([], s)"
| "winsock_sweep ops t ready f (k # ks) s = (if so_fd ops k s = 0 \<or> \<not> ready k then winsock_sweep ops t ready f ks s
     else case f k (so_touch ops t k s) of (b, s1) \<Rightarrow>
       case winsock_sweep ops t ready f ks s1 of (r, s2) \<Rightarrow> (if b then k # r else r, s2))"

definition winsock_select :: "('k, 's) sock_ops \<Rightarrow> (real \<times> bool \<times> 'k ready option \<times> bool) list \<Rightarrow> 'k list \<Rightarrow> 'k list \<Rightarrow> 'k list \<Rightarrow> 's
    \<Rightarrow> (bool \<times> 'k list \<times> 'k list \<times> 'k list \<times> 's) option" where
  "winsock_select ops as rs ws es s = (case winsock_wait ops es False as s of
     None \<Rightarrow> None
   | Some (t, cancelled, any, (can_read, can_write, err), s1) \<Rightarrow>
       if cancelled \<and> \<not> any then Some (False, rs, ws, es, s1)
       else let (rs1, s2) = winsock_sweep ops t (\<lambda>k. can_read k \<and> \<not> any) (so_receive ops) rs s1;
           (ws1, s3) = winsock_sweep ops t can_write (so_send ops) ws s2;
           es1 = filter (\<lambda>k. so_fd ops k s3 \<noteq> 0 \<and> err k \<and> \<not> any \<or> so_failed ops k s3) es in
         Some (rs1 \<noteq> [] \<or> es1 \<noteq> [], rs1, ws1, es1, s3))"

subsection \<open>The TCP stream\<close>

datatype wop = WSend net_packet send_result | WReady send_result

text \<open>A run of a TCP socket: packets are only sent when none is waiting, and the system takes some bytes or would block.\<close>

fun wrun :: "wop list \<Rightarrow> psocket \<Rightarrow> exn + psocket" where
  "wrun [] s = Inr s"
| "wrun (WSend p r # ops) s = (if px_pending s \<noteq> None then Inl AssertFail
     else bind_res (winsock_send True 0 None r p s) (wrun ops))"
| "wrun (WReady r # ops) s = bind_res (winsock_ready True 0 None r s) (\<lambda>(_, s1). wrun ops s1)"

fun wop_ok :: "wop \<Rightarrow> bool" where
  "wop_ok (WSend p r) = (np_tcp p \<and> (r = Would_Block \<or> (\<exists>n. r = Taken n)))"
| "wop_ok (WReady r) = (r = Would_Block \<or> (\<exists>n. r = Taken n))"

definition waiting_bytes :: "psocket \<Rightarrow> byte list" where
  "waiting_bytes s = (case px_pending s of None \<Rightarrow> [] | Some p \<Rightarrow> np_data p)"

fun given :: "wop list \<Rightarrow> byte list" where
  "given [] = []"
| "given (WSend p r # ops) = np_data p @ given ops"
| "given (WReady r # ops) = given ops"

definition tcp_ok :: "psocket \<Rightarrow> bool" where
  "tcp_ok s \<longleftrightarrow> px_tcp s \<and> (\<forall>p. px_pending s = Some p \<longrightarrow> np_tcp p)"

lemma wsend_step:
  assumes "tcp_ok s" "px_pending s = None" "wop_ok (WSend p r)" "winsock_send True 0 None r p s = Inr t"
  shows "tcp_ok t \<and> px_stream t @ waiting_bytes t = px_stream s @ np_data p \<and> px_failed t = px_failed s"
  using assms
  by (auto simp: winsock_send_def tcp_ok_def np_empty_def keep_pending_def keep_rest_def transmit_def waiting_bytes_def Let_def
      split: if_splits)

lemma wready_step:
  assumes "tcp_ok s" "wop_ok (WReady r)" "winsock_ready True 0 None r s = Inr (b, t)" "\<not> px_failed t"
  shows "tcp_ok t \<and> px_stream t @ waiting_bytes t = px_stream s @ waiting_bytes s \<and> \<not> px_failed s"
  using assms
  by (cases "px_pending s")
    (auto simp: winsock_ready_def winsock_send_def tcp_ok_def np_empty_def keep_pending_def keep_rest_def transmit_def
      waiting_bytes_def Let_def bind_res_Inr_conv split: if_splits)

lemma failed_stays:
  "winsock_send v d dns r p s = Inr t \<Longrightarrow> px_failed s \<Longrightarrow> px_failed t"
  "winsock_ready v d dns r s = Inr (b, t) \<Longrightarrow> px_failed s \<Longrightarrow> px_failed t"
  by (auto simp: winsock_ready_def winsock_send_def keep_pending_def keep_rest_def transmit_def update_nat64_def Let_def
      bind_res_Inr_conv split: if_splits send_result.splits option.splits)

lemma wrun_failed: "wrun ops s = Inr t \<Longrightarrow> px_failed s \<Longrightarrow> px_failed t"
proof (induction ops s rule: wrun.induct)
  case (3 r ops s)
  then obtain b s1 where s1: "winsock_ready True 0 None r s = Inr (b, s1)" "wrun ops s1 = Inr t"
    by (auto simp: bind_res_Inr_conv)
  with "3.IH" [of "(b, s1)" b s1] failed_stays(2) [OF s1(1)] "3.prems"(2) show ?case by simp
qed (auto simp: bind_res_Inr_conv dest: failed_stays split: if_splits)



text \<open>
  But a packet that waits and is again not taken as a whole makes the socket fail: while it is sent again it is itself the packet that
  waits.
\<close>

lemma windows_second_part_fails:
  assumes "px_tcp s" "px_pending s = Some p" "\<not> np_empty p" "n < length (np_data p)"
  shows "\<exists>t. winsock_ready v d dns (Taken n) s = Inr (False, t) \<and> px_failed t \<and> px_pending t = None"
  using assms by (simp add: winsock_ready_def winsock_send_def transmit_def keep_rest_def Let_def)

text \<open>
  And a wait that ends only because sockets can be written looks like a cancelled one to the caller, which then does
  not use the list of these sockets.
\<close>

lemma windows_select_hides_writers:
  assumes "winsock_select ops as rs ws es s = Some (ok, rs1, ws1, es1, s1)" "rs1 = []" "es1 = []" "rs \<noteq> []"
  shows "\<not> ok"
  using assms by (auto simp: winsock_select_def Let_def split: option.splits prod.splits if_splits)

text \<open>When the wait is cancelled while a socket has failed, every socket of the second list is told that it can be written.\<close>

lemma windows_cancel_writes:
  assumes "winsock_check ops t es s = (True, s1)"
  shows "winsock_select ops ((t, True, None, True) # as) rs ws es s = (let (ws1, s3) = winsock_sweep ops t (\<lambda>_. True) (so_send ops) ws s1;
      es1 = filter (\<lambda>k. so_failed ops k s3) es in Some (es1 \<noteq> [], [], ws1, es1, s3))"
proof -
  have "winsock_sweep ops t (\<lambda>k. False) f ks s = ([], s)" for f ks s by (induction ks) simp_all
  then show ?thesis by (simp add: winsock_select_def assms Let_def case_prod_unfold)
qed

end
