(* ===== verification/Devices.thy ===== *)
theory Devices
  imports Sound Buffers
begin

section \<open>Audio devices (audio/, os/linux, os/android, os/darwin, os/windows)\<close>

text \<open>
  The library works in frames of 960 samples (1920 bytes); a device asks for, or delivers, whatever
  number of bytes it likes. Every adapter keeps the bytes in between in \<^verbatim>\<open>remainingData\<close>: an
  output asks the callback for whole frames until it has enough and keeps what is left, an input
  collects what it gets and hands on whole frames. The arrays have a fixed size, so the model has
  the first \<^verbatim>\<open>remainingDataSize\<close> bytes of the array as a list and returns an error where the
  code writes behind its end or where an \<^verbatim>\<open>assert\<close> stops it. The sound servers and drivers are
  not part of the library: what they ask for and what they deliver are arguments.
\<close>

subsection \<open>Frames\<close>

text \<open>
  \<^verbatim>\<open>InvokeCallback\<close> lets the rest of the library fill 1920 bytes: from its state \<open>c\<close> the callback leaves
  byte \<open>fst (cb c) i\<close> at position \<open>i\<close> and goes to the state \<open>snd (cb c)\<close>.
\<close>

type_synonym 'c callback = "'c \<Rightarrow> (nat \<Rightarrow> byte) \<times> 'c"

definition invoke_callback :: "'c callback \<Rightarrow> 'c \<Rightarrow> byte list \<times> 'c" where
  "invoke_callback cb c = (map (fst (cb c)) [0..<1920], snd (cb c))"

lemma length_frame [simp]: "length (fst (invoke_callback cb c)) = 1920"
  by (simp add: invoke_callback_def)

text \<open>The first \<open>k\<close> frames from a state, one after the other, and the state after them.\<close>

primrec frames_from :: "'c callback \<Rightarrow> nat \<Rightarrow> 'c \<Rightarrow> byte list" where
  "frames_from cb 0 c = []"
| "frames_from cb (Suc k) c = fst (invoke_callback cb c) @ frames_from cb k (snd (invoke_callback cb c))"

primrec state_after :: "'c callback \<Rightarrow> nat \<Rightarrow> 'c \<Rightarrow> 'c" where
  "state_after cb 0 c = c"
| "state_after cb (Suc k) c = state_after cb k (snd (invoke_callback cb c))"

lemma length_frames_from [simp]: "length (frames_from cb k c) = 1920 * k"
  by (induction k arbitrary: c) simp_all

lemma frames_from_add:
  "frames_from cb (j + k) c = frames_from cb j c @ frames_from cb k (state_after cb j c)"
  "state_after cb (j + k) c = state_after cb k (state_after cb j c)"
  by (induction j arbitrary: c) simp_all

subsection \<open>Outputs\<close>

text \<open>
  The loop all outputs share: frames are fetched until \<open>n\<close> bytes are there. \<open>cap\<close> is how many bytes the
  array may hold then, \<open>e\<close> what happens otherwise.
\<close>

function pull :: "exn \<Rightarrow> nat \<Rightarrow> 'c callback \<Rightarrow> nat \<Rightarrow> byte list \<Rightarrow> 'c \<Rightarrow> exn + byte list \<times> 'c" where
  "pull e cap cb n rem c =
     (if n \<le> length rem then Inr (rem, c)
      else if length rem + 1920 > cap then Inl e
      else pull e cap cb n (rem @ fst (invoke_callback cb c)) (snd (invoke_callback cb c)))"
  by pat_completeness auto
termination
  by (relation "measure (\<lambda>(e, cap, cb, n, rem, c). n - length rem)") auto

declare pull.simps [simp del]

record 'c outdev =
  od_playing :: bool
  od_failed :: bool
  od_rem :: "byte list"
  od_source :: 'c

text \<open>Taking the first \<open>n\<close> of the remaining bytes and moving the others to the front.\<close>

definition od_take :: "nat \<Rightarrow> 'c outdev \<Rightarrow> byte list \<times> 'c outdev" where
  "od_take n d = (take n (od_rem d), d\<lparr>od_rem := drop n (od_rem d)\<rparr>)"

definition od_pull :: "exn \<Rightarrow> nat \<Rightarrow> 'c callback \<Rightarrow> nat \<Rightarrow> 'c outdev \<Rightarrow> exn + 'c outdev" where
  "od_pull e cap cb n d = bind_res (pull e cap cb n (od_rem d) (od_source d))
     (\<lambda>(rem, c). Inr (d\<lparr>od_rem := rem, od_source := c\<rparr>))"

text \<open>
  PulseAudio (AudioOutputPulse.cpp): a request that is larger than the array is answered with one
  frame; while nothing is played, zeros are added up to the request. If \<^verbatim>\<open>pa_stream_write\<close> fails, the device has failed and the bytes
  stay where they are.
\<close>

definition pulse_request :: "nat \<Rightarrow> nat" where
  "pulse_request n = (if n > 15360 then 960 * 2 else n)"

definition pulse_write :: "'c callback \<Rightarrow> bool \<Rightarrow> nat \<Rightarrow> 'c outdev \<Rightarrow> exn + byte list \<times> 'c outdev" where
  "pulse_write cb write_ok requested d = (let n = pulse_request requested in
     bind_res (if od_playing d then od_pull Undefined 15360 cb n d
               else Inr (d\<lparr>od_rem := od_rem d @ replicate (n - length (od_rem d)) 0\<rparr>))
       (\<lambda>d1. if write_ok then Inr (od_take n d1) else Inr ([], d1\<lparr>od_failed := True\<rparr>)))"

text \<open>
  OpenSL ES (AudioOutputOpenSLES.cpp, \<^verbatim>\<open>HandleSLCallback\<close>): the buffer of \<open>n\<close> samples that goes back to the
  player; when stopped it is silent and the remaining bytes are kept.
\<close>

definition opensl_write :: "'c callback \<Rightarrow> nat \<Rightarrow> 'c outdev \<Rightarrow> exn + byte list \<times> 'c outdev" where
  "opensl_write cb n d = (if od_playing d
     then bind_res (od_pull AssertFail 10239 cb (n * 2) d) (\<lambda>d1. Inr (od_take (n * 2) d1))
     else Inr (replicate (n * 2) 0, d))"

text \<open>
  WASAPI (AudioOutputWASAPI.cpp, \<^verbatim>\<open>RunThread\<close>): when nothing is played, whole silent frames are added in the place of the
  callback's. Nothing checks the size of the array.
\<close>

definition silence :: "'c callback" where
  "silence c = (\<lambda>_. 0, c)"

definition wasapi_write :: "'c callback \<Rightarrow> nat \<Rightarrow> 'c outdev \<Rightarrow> exn + byte list \<times> 'c outdev" where
  "wasapi_write cb frames d =
     bind_res (od_pull Undefined 10240 (if od_playing d then cb else silence) (frames * 2) d)
       (\<lambda>d1. Inr (od_take (frames * 2) d1))"

text \<open>
  Audio Units (AudioOutputAudioUnit.cpp on iOS, AudioOutputAudioUnitOSX.cpp): several buffers of given
  sizes in one call. When nothing is played, the first is cleared and the function returns, so the others are not
  touched (\<open>None\<close>).
\<close>

fun audiounit_write :: "'c callback \<Rightarrow> nat list \<Rightarrow> 'c outdev \<Rightarrow> exn + byte list option list \<times> 'c outdev" where
  "audiounit_write cb [] d = Inr ([], d)"
| "audiounit_write cb (n # ns) d =
     (if \<not> od_playing d then Inr (Some (replicate n 0) # map (\<lambda>_. None) ns, d)
      else bind_res (od_pull AssertFail 10239 cb n d) (\<lambda>d1.
        let (out, d2) = od_take n d1 in
        bind_res (audiounit_write cb ns d2) (\<lambda>(outs, d3). Inr (Some out # outs, d3))))"

text \<open>
  ALSA (AudioOutputALSA.cpp, \<^verbatim>\<open>RunThread\<close>): frame after frame is fetched and written, whatever part of it the
  driver took. The driver's answers, one per round: how the write ended, and the result of \<^verbatim>\<open>snd_pcm_recover\<close> after a
  failure. The thread ends when the device is stopped (the list ends) or when the
  recovery fails.
\<close>

fun alsa_write :: "'c callback \<Rightarrow> (int \<times> int) list \<Rightarrow> 'c \<Rightarrow> byte list list \<times> 'c" where
  "alsa_write cb [] c = ([], c)"
| "alsa_write cb ((frames, recovered) # rs) c =
     (let (f, c1) = invoke_callback cb c in
      if frames < 0 \<and> recovered < 0 then ([f], c1)
      else let (fs, c2) = alsa_write cb rs c1 in (f # fs, c2))"

subsection \<open>What an output plays\<close>

text \<open>How many more frames are needed to have \<open>n\<close> bytes when there are \<open>r\<close>.\<close>

definition missing_frames :: "nat \<Rightarrow> nat \<Rightarrow> nat" where
  "missing_frames n r = (n - r + 1919) div 1920"

lemma missing_frames_none [simp]: "n \<le> r \<Longrightarrow> missing_frames n r = 0"
  by (simp add: missing_frames_def)

lemma missing_frames_next:
  assumes "r < n"
  shows "missing_frames n r = Suc (missing_frames n (r + 1920))"
proof -
  have "n - r + 1919 = (n - (r + 1) + 1920)" using assms by simp
  then have "missing_frames n r = Suc ((n - (r + 1)) div 1920)"
    by (simp only: missing_frames_def div_add_self2)
  also have "(n - (r + 1)) div 1920 = missing_frames n (r + 1920)"
  proof (cases "n \<le> r + 1920")
    case False
    then have "n - (r + 1920) + 1919 = n - (r + 1)" by simp
    then show ?thesis by (simp only: missing_frames_def)
  qed (use assms in simp)
  finally show ?thesis .
qed

lemma missing_frames_bounds:
  "n \<le> r + 1920 * missing_frames n r"
  "r < n \<Longrightarrow> r + 1920 * missing_frames n r < n + 1920"
  by (auto simp: missing_frames_def)

lemma pull_eq: "pull e cap cb n rem c = (let k = missing_frames n (length rem) in
    if k = 0 \<or> length rem + 1920 * k \<le> cap then Inr (rem @ frames_from cb k c, state_after cb k c) else Inl e)"
proof (induction e cap cb n rem c rule: pull.induct)
  case (1 e cap cb n rem c)
  show ?case
  proof (cases "n \<le> length rem")
    case False
    with 1 [OF False] show ?thesis
      by (subst pull.simps) (auto simp: missing_frames_next Let_def)
  qed (subst pull.simps, simp)
qed

lemma pull_safe: "length rem < 1920 \<Longrightarrow> n + 1919 \<le> cap \<Longrightarrow>
    pull e cap cb n rem c = Inr (rem @ frames_from cb (missing_frames n (length rem)) c,
      state_after cb (missing_frames n (length rem)) c)"
  using missing_frames_bounds(2) [of "length rem" n]
  by (cases "length rem < n") (auto simp: pull_eq Let_def)

text \<open>
  A device that is used again and again: the bytes it plays (or the frames it hands on), all together, until an error.
\<close>

fun run_device :: "('r \<Rightarrow> 's \<Rightarrow> exn + 'x list \<times> 's) \<Rightarrow> 'r list \<Rightarrow> 's \<Rightarrow> exn + 'x list \<times> 's" where
  "run_device step [] s = Inr ([], s)"
| "run_device step (r # rs) s = bind_res (step r s) (\<lambda>(out, s1).
     bind_res (run_device step rs s1) (\<lambda>(outs, s2). Inr (out @ outs, s2)))"

text \<open>
  The answer to a request of \<open>n\<close> bytes continues the stream of the callback: it has that many bytes, and together with
  what the device keeps (less than a frame) it is what the device had, followed by the next frames.
\<close>

definition continues :: "'c callback \<Rightarrow> nat \<Rightarrow> 'c outdev \<Rightarrow> exn + byte list \<times> 'c outdev \<Rightarrow> bool" where
  "continues cb n d r \<longleftrightarrow> (\<exists>out d' k. r = Inr (out, d') \<and> length out = n \<and> od_playing d' \<and> length (od_rem d') < 1920
     \<and> out @ od_rem d' = od_rem d @ frames_from cb k (od_source d) \<and> od_source d' = state_after cb k (od_source d))"

lemma continues_Nil: "od_playing d \<Longrightarrow> length (od_rem d) < 1920 \<Longrightarrow> continues cb 0 d (Inr ([], d))"
  unfolding continues_def by (auto intro!: exI [of _ 0])

lemma continues_append:
  assumes "continues cb n d (Inr (out, d1))" "continues cb m d1 (Inr (outs, d2))"
  shows "continues cb (n + m) d (Inr (out @ outs, d2))"
proof -
  from assms obtain j k where "length out = n" "out @ od_rem d1 = od_rem d @ frames_from cb j (od_source d)"
    "od_source d1 = state_after cb j (od_source d)" "length outs = m" "od_playing d2" "length (od_rem d2) < 1920"
    "outs @ od_rem d2 = od_rem d1 @ frames_from cb k (od_source d1)" "od_source d2 = state_after cb k (od_source d1)"
    by (auto simp: continues_def)
  moreover from this have "(out @ outs) @ od_rem d2 = (out @ od_rem d1) @ frames_from cb k (od_source d1)" by simp
  ultimately show ?thesis
    unfolding continues_def by (intro exI [of _ "out @ outs"] exI [of _ d2] exI [of _ "j + k"]) (simp add: frames_from_add)
qed

lemma continuesE:
  assumes "continues cb n d r"
  obtains out d' where "r = Inr (out, d')" "continues cb n d (Inr (out, d'))" "od_playing d'" "length (od_rem d') < 1920"
  using assms by (auto simp: continues_def)

lemma od_fetch_continues:
  assumes "length (od_rem d) < 1920" "n + 1919 \<le> cap" "od_playing d"
  shows "continues cb n d (bind_res (od_pull e cap cb n d) (\<lambda>d1. Inr (od_take n d1)))"
proof -
  let ?k = "missing_frames n (length (od_rem d))"
  obtain q where q: "q = od_rem d @ frames_from cb ?k (od_source d)" by blast
  have "length q - n < 1920" "n \<le> length q"
    using missing_frames_bounds [of n "length (od_rem d)"] missing_frames_bounds(2) [of "length (od_rem d)" n] assms
    by (cases "length (od_rem d) < n"; simp add: q)+
  then show ?thesis
    unfolding continues_def using assms
    by (intro exI [of _ "take n q"] exI [of _ "d\<lparr>od_rem := drop n q, od_source := state_after cb ?k (od_source d)\<rparr>"]
        exI [of _ ?k]) (simp add: od_pull_def pull_safe od_take_def q [symmetric])
qed

text \<open>
  What an adapter promises to the device: on a request \<open>r\<close> that is not larger than it can bear, it plays the next
  \<open>want r\<close> bytes of the stream.
\<close>

locale frame_puller =
  fixes cb :: "'c callback"
    and step :: "'r \<Rightarrow> 'c outdev \<Rightarrow> exn + byte list \<times> 'c outdev"
    and want :: "'r \<Rightarrow> nat"
    and fits :: "'r \<Rightarrow> bool"
  assumes plays: "fits r \<Longrightarrow> od_playing d \<Longrightarrow> length (od_rem d) < 1920 \<Longrightarrow> continues cb (want r) d (step r d)"
begin

lemma plays_on: "(\<forall>r \<in> set rs. fits r) \<Longrightarrow> od_playing d \<Longrightarrow> length (od_rem d) < 1920 \<Longrightarrow>
    continues cb (\<Sum>r \<leftarrow> rs. want r) d (run_device step rs d)"
proof (induction rs arbitrary: d)
  case (Cons r rs)
  from Cons.prems obtain out d1 where 1: "step r d = Inr (out, d1)" "continues cb (want r) d (Inr (out, d1))"
      "od_playing d1" "length (od_rem d1) < 1920"
    using continuesE [OF plays [of r d]] by auto
  have "\<forall>r \<in> set rs. fits r" using Cons.prems(1) by simp
  from continuesE [OF Cons.IH [OF this 1(3,4)]] obtain outs d2 where "run_device step rs d1 = Inr (outs, d2)"
      "continues cb (\<Sum>r \<leftarrow> rs. want r) d1 (Inr (outs, d2))" .
  with 1(1) continues_append [OF 1(2) this(2)] show ?case by simp
qed (simp add: continues_Nil)

end

interpretation pulse: frame_puller cb "pulse_write cb True" "\<lambda>n. n" "\<lambda>n. n \<le> 13441" for cb :: "'c callback"
  by unfold_locales (simp add: pulse_write_def pulse_request_def od_fetch_continues)

interpretation opensl: frame_puller cb "opensl_write cb" "\<lambda>n. n * 2" "\<lambda>n. n \<le> 4160" for cb :: "'c callback"
  by unfold_locales (simp add: opensl_write_def od_fetch_continues)

interpretation wasapi: frame_puller cb "wasapi_write cb" "\<lambda>n. n * 2" "\<lambda>n. n \<le> 4160" for cb :: "'c callback"
  by unfold_locales (simp add: wasapi_write_def od_fetch_continues)

text \<open>The buffers of one call to an audio unit are filled one after the other.\<close>

definition audiounit_bytes :: "'c callback \<Rightarrow> nat list \<Rightarrow> 'c outdev \<Rightarrow> exn + byte list \<times> 'c outdev" where
  "audiounit_bytes cb ns d = bind_res (audiounit_write cb ns d) (\<lambda>(outs, d'). Inr (concat (map the outs), d'))"

lemma audiounit_write_continues: "(\<forall>n \<in> set ns. n \<le> 8320) \<Longrightarrow> od_playing d \<Longrightarrow> length (od_rem d) < 1920 \<Longrightarrow>
    continues cb (sum_list ns) d (audiounit_bytes cb ns d)"
proof (induction ns arbitrary: d)
  case (Cons n ns)
  then have "continues cb n d (bind_res (od_pull AssertFail 10239 cb n d) (\<lambda>d1. Inr (od_take n d1)))"
    by (intro od_fetch_continues) simp_all
  then obtain d1 where 1: "od_pull AssertFail 10239 cb n d = Inr d1" "continues cb n d (Inr (od_take n d1))"
      "od_playing (snd (od_take n d1))" "length (od_rem (snd (od_take n d1))) < 1920"
    by (cases "od_pull AssertFail 10239 cb n d") (auto simp: continues_def)
  have "\<forall>n \<in> set ns. n \<le> 8320" using Cons.prems(1) by simp
  from continuesE [OF Cons.IH [OF this 1(3,4)]] obtain outs d2 where
      2: "audiounit_bytes cb ns (snd (od_take n d1)) = Inr (outs, d2)"
      "continues cb (sum_list ns) (snd (od_take n d1)) (Inr (outs, d2))" .
  have "audiounit_bytes cb (n # ns) d = Inr (fst (od_take n d1) @ outs, d2)"
    using 1(1) 2(1) Cons.prems(2) by (auto simp: audiounit_bytes_def bind_res_Inr_conv split: prod.splits)
  with continues_append [of cb n d "fst (od_take n d1)" "snd (od_take n d1)"] 1(2) 2(2) show ?case by simp
qed (simp add: audiounit_bytes_def continues_Nil)

interpretation audiounit: frame_puller cb "audiounit_bytes cb" sum_list "\<lambda>ns. \<forall>n \<in> set ns. n \<le> 8320" for cb :: "'c callback"
  by unfold_locales (rule audiounit_write_continues)


definition counting :: "nat callback" where
  "counting c = (\<lambda>i. of_nat (c + i), c + 1920)"

definition fresh_output :: "nat outdev" where
  "fresh_output = \<lparr>od_playing = True, od_failed = False, od_rem = [], od_source = 0\<rparr>"


text \<open>
  The bound for PulseAudio is sharp, and the code's own check does not keep it: it lets requests of up to 15360 bytes
  pass, and for each one above 13441 there is a number of bytes left from the last request with which the
  loop writes the last frame behind the array.
\<close>

lemma pulse_overrun:
  assumes "13441 < n" "n \<le> 15360"
  shows "\<exists>r < 1920. \<forall>d. od_playing d \<and> length (od_rem d) = r \<longrightarrow> pulse_write cb ok n d = Inl Undefined"
proof (intro exI [of _ "(n - 1) mod 1920"] conjI allI impI)
  fix d :: "'a outdev" assume *: "od_playing d \<and> length (od_rem d) = (n - 1) mod 1920"
  obtain r q where rq: "r = (n - 1) mod 1920" "q = (n - 1) div 1920" by simp
  have n: "n = r + 1920 * q + 1" using assms by (simp add: rq mult.commute)
  have "missing_frames n r = Suc q" unfolding missing_frames_def by (rule div_nat_eqI) (simp_all add: n)
  moreover have "od_playing d" "length (od_rem d) = r" using * rq(1) by simp_all
  moreover have "r + 1920 * Suc q > 15360" using n assms(1) by simp
  ultimately show "pulse_write cb ok n d = Inl Undefined"
    using assms(2) by (simp add: pulse_write_def pulse_request_def od_pull_def pull_eq Let_def)
qed simp

subsection \<open>Inputs\<close>

text \<open>
  The loop all inputs share: while there are more than \<open>keep\<close> bytes, the first 1920 are handed on and the
  others move to the front.
\<close>

function chop :: "nat \<Rightarrow> byte list \<Rightarrow> byte list list \<times> byte list" where
  "chop keep rem = (if length rem > keep
     then let (fs, q) = chop keep (drop 1920 rem) in (take 1920 rem # fs, q)
     else ([], rem))"
  by pat_completeness auto
termination
  by (relation "measure (\<lambda>(keep, rem). length rem)") auto

declare chop.simps [simp del]

record indev =
  id_recording :: bool
  id_failed :: bool
  id_rem :: "byte list"

text \<open>
  PulseAudio (AudioInputPulse.cpp, \<^verbatim>\<open>StreamReadCallback\<close>): what the server answers to each \<^verbatim>\<open>pa_stream_peek\<close>: an error, a
  fragment, or a hole without data, and whether the \<^verbatim>\<open>pa_stream_drop\<close> that follows succeeds. A fragment that is too large is only
  logged, then copied behind the array; the data pointer of a hole is null. The 64-bit count of the bytes that
  remain is reduced by the size of the fragment, which the server chooses.
\<close>

datatype peek = PeekFailed | Peeked "byte list" bool | Hole nat bool

definition pulse_fragment :: "byte list \<Rightarrow> indev \<Rightarrow> exn + byte list list \<times> indev" where
  "pulse_fragment bs d = (if \<not> id_recording d then Inr ([], d)
     else if length (id_rem d) + length bs > 15360 then Inl Undefined
     else let (fs, q) = chop 1919 (id_rem d @ bs) in Inr (fs, d\<lparr>id_rem := q\<rparr>))"

fun pulse_read :: "u64 \<Rightarrow> peek list \<Rightarrow> indev \<Rightarrow> exn + byte list list \<times> indev" where
  "pulse_read left [] d = Inr ([], d)"
| "pulse_read left (p # ps) d = (if left = 0 then Inr ([], d) else case p of
     PeekFailed \<Rightarrow> Inr ([], d\<lparr>id_failed := True\<rparr>)
   | Hole n dropped \<Rightarrow>
       if id_recording d \<and> n > 0 then Inl Undefined
       else if \<not> dropped then Inr ([], d\<lparr>id_failed := True\<rparr>)
       else pulse_read (left - of_nat n) ps d
   | Peeked bs dropped \<Rightarrow> bind_res (pulse_fragment bs d) (\<lambda>(fs, d1).
       if \<not> dropped then Inr (fs, d1\<lparr>id_failed := True\<rparr>)
       else bind_res (pulse_read (left - of_nat (length bs)) ps d1) (\<lambda>(gs, d2). Inr (fs @ gs, d2))))"

text \<open>
  WASAPI (AudioInputWASAPI.cpp, \<^verbatim>\<open>RunThread\<close>): here a frame is handed on only when there is more than
  a frame, and frames are dropped while nothing is recorded.
\<close>

definition wasapi_read :: "byte list \<Rightarrow> indev \<Rightarrow> exn + byte list list \<times> indev" where
  "wasapi_read bs d = (if length (id_rem d) + length bs \<ge> 10240 then Inl AssertFail
     else let (fs, q) = chop 1920 (id_rem d @ bs) in Inr (if id_recording d then fs else [], d\<lparr>id_rem := q\<rparr>))"

text \<open>
  Audio Units (AudioInputAudioUnit.cpp on iOS, AudioInputAudioUnitOSX.cpp at a hardware rate of 48000): several buffers
  in one call; whether anything is recorded is not asked.
\<close>

fun audiounit_read :: "byte list list \<Rightarrow> indev \<Rightarrow> exn + byte list list \<times> indev" where
  "audiounit_read [] d = Inr ([], d)"
| "audiounit_read (bs # bss) d =
     (if length (id_rem d) + length bs \<ge> 10240 then Inl AssertFail
      else let (fs, q) = chop 1919 (id_rem d @ bs) in
        bind_res (audiounit_read bss (d\<lparr>id_rem := q\<rparr>)) (\<lambda>(gs, d1). Inr (fs @ gs, d1)))"

text \<open>
  OpenSL ES (AudioInputOpenSLES.cpp): the recorder always fills a buffer of \<open>n\<close> samples. The constructor adjusts
  this number; the callback has three cases. When the buffer is shorter than a frame, it is copied behind
  \<^verbatim>\<open>positionInBuffer\<close>, which counts samples and which the constructor does not set, and the frame is handed on
  at the next call. When it is longer, every started block of 960 samples is handed on.
\<close>

definition opensl_adjust :: "nat \<Rightarrow> exn + nat" where
  "opensl_adjust n = (if n = 0 then Inl Undefined
     else let m = (if n > 960 \<and> n mod 960 \<noteq> 0 then n + n mod 960 else n) in
       Inr (if m = 960 then m * 2 else m))"

record slin =
  sl_buffer :: "byte list"
  sl_pos :: nat

function opensl_blocks :: "nat \<Rightarrow> nat \<Rightarrow> byte list \<Rightarrow> exn + byte list list" where
  "opensl_blocks off n bs = (if off < n
     then if off + 960 > n then Inl Undefined
          else bind_res (opensl_blocks (off + 960) n bs) (\<lambda>fs. Inr (take 1920 (drop (off * 2) bs) # fs))
     else Inr [])"
  by pat_completeness auto
termination
  by (relation "measure (\<lambda>(off, n, bs). n - off)") auto

declare opensl_blocks.simps [simp del]

definition opensl_read :: "nat \<Rightarrow> byte list \<Rightarrow> slin \<Rightarrow> exn + byte list list \<times> slin" where
  "opensl_read n bs d =
     (if n = 960 then Inr ([bs], d)
      else if n < 960 then
        let (fs, pos) = (if sl_pos d \<ge> 960 then ([sl_buffer d], 0) else ([], sl_pos d)) in
        if pos + n > 960 then Inl Undefined
        else Inr (fs, \<lparr>sl_buffer = poke (pos * 2) bs (sl_buffer d), sl_pos = pos + n\<rparr>)
      else bind_res (opensl_blocks 0 n bs) (\<lambda>fs. Inr (fs, d)))"

text \<open>
  ALSA (AudioInputALSA.cpp, \<^verbatim>\<open>RunThread\<close>): the driver's answers, one per round: how many samples it read, what it wrote to the buffer, and the
  result of \<^verbatim>\<open>snd_pcm_recover\<close> after a failure. The whole buffer is handed on, whatever part of it is new.
\<close>

fun alsa_read :: "(int \<times> byte list \<times> int) list \<Rightarrow> byte list \<Rightarrow> byte list list" where
  "alsa_read [] buf = []"
| "alsa_read ((frames, bs, recovered) # rs) buf =
     (if frames < 0 \<and> recovered < 0 then []
      else let buf1 = poke 0 bs buf in buf1 # alsa_read rs buf1)"

text \<open>
  The devices that hand on whole buffers: AudioInputAndroid.cpp and AudioInputWave.cpp (only while recording). The Wave output
  and the Android output fill the buffer of the device the same way.
\<close>

definition whole_buffer_read :: "bool \<Rightarrow> byte list \<Rightarrow> byte list list" where
  "whole_buffer_read recording bs = (if recording then [bs] else [])"

definition whole_buffer_write :: "'c callback \<Rightarrow> bool \<Rightarrow> 'c \<Rightarrow> byte list option \<times> 'c" where
  "whole_buffer_write cb playing c = (if playing then let (f, c1) = invoke_callback cb c in (Some f, c1) else (None, c))"

text \<open>
  Audio that the application supplies and takes itself (AudioIOCallback.cpp), one round of each thread. The application's
  callback reads and writes the same buffer. The input hands its buffer on whether or not it records.
\<close>

definition callback_input_round :: "('a \<Rightarrow> byte list \<Rightarrow> byte list \<times> 'a) \<Rightarrow> 'a \<Rightarrow> byte list \<times> 'a" where
  "callback_input_round app a = app a (replicate 1920 0)"

definition callback_output_round :: "('a \<Rightarrow> byte list \<Rightarrow> byte list \<times> 'a) \<Rightarrow> 'c callback \<Rightarrow> bool \<Rightarrow> 'c \<Rightarrow> 'a \<Rightarrow> byte list \<times> 'c \<times> 'a" where
  "callback_output_round app cb playing c a = (let (buf, c1) = (if playing then invoke_callback cb c else (replicate 1920 0, c));
     (buf1, a1) = app a buf in (buf1, c1, a1))"

text \<open>The level of the microphone test (AudioInputTester.cpp).\<close>

definition tester_update :: "sample list \<Rightarrow> sample \<Rightarrow> sample" where
  "tester_update x m = fold (\<lambda>a. louder (abs_sample a)) x m"

definition tester_level :: "sample \<Rightarrow> real \<times> sample" where
  "tester_level m = (of_int (sint m) / 32767, 0)"

subsection \<open>What an input hands on\<close>

lemma chop_props: "chop keep rem = (fs, q) \<Longrightarrow> 1919 \<le> keep \<Longrightarrow>
    concat fs @ q = rem \<and> length q \<le> keep \<and> (\<forall>f \<in> set fs. length f = 1920)"
proof (induction keep rem arbitrary: fs q rule: chop.induct)
  case (1 keep rem)
  show ?case
  proof (cases "length rem > keep")
    case True
    obtain gs where gs: "chop keep (drop 1920 rem) = (gs, q)" "fs = take 1920 rem # gs"
      using "1.prems"(1) True by (subst (asm) chop.simps) (auto split: prod.splits)
    from "1.IH" [OF True this(1) "1.prems"(2)] have "concat gs @ q = drop 1920 rem"
      "length q \<le> keep" "\<forall>f \<in> set gs. length f = 1920" by auto
    with gs(2) True "1.prems"(2) show ?thesis by simp
  qed (use "1.prems" in \<open>simp add: chop.simps\<close>)
qed

text \<open>
  What an adapter promises to the library when the device delivers the bytes \<open>data r\<close>: it hands on whole frames, and together
  with what it holds afterwards they are what it held before, followed by these bytes.
\<close>

locale frame_pusher =
  fixes step :: "'r \<Rightarrow> 's \<Rightarrow> exn + byte list list \<times> 's"
    and data :: "'r \<Rightarrow> byte list"
    and held :: "'s \<Rightarrow> byte list"
    and fits :: "'r \<Rightarrow> bool"
    and ready :: "'s \<Rightarrow> bool"
  assumes hands_on: "ready d \<Longrightarrow> fits r \<Longrightarrow> \<exists>fs d'. step r d = Inr (fs, d') \<and> ready d'
      \<and> (\<forall>f \<in> set fs. length f = 1920) \<and> concat fs @ held d' = held d @ data r"
begin

lemma hands_on_all: "ready d \<Longrightarrow> (\<forall>r \<in> set rs. fits r) \<Longrightarrow> \<exists>fs d'. run_device step rs d = Inr (fs, d') \<and> ready d'
      \<and> (\<forall>f \<in> set fs. length f = 1920) \<and> concat fs @ held d' = held d @ concat (map data rs)"
proof (induction rs arbitrary: d)
  case (Cons r rs)
  from hands_on [of d r] Cons.prems obtain fs d1 where 1: "step r d = Inr (fs, d1)" "ready d1"
      "\<forall>f \<in> set fs. length f = 1920" "concat fs @ held d1 = held d @ data r" by auto
  from Cons.IH [OF 1(2)] Cons.prems obtain gs d2 where 2: "run_device step rs d1 = Inr (gs, d2)" "ready d2"
      "\<forall>f \<in> set gs. length f = 1920" "concat gs @ held d2 = held d1 @ concat (map data rs)" by auto
  have "concat (fs @ gs) @ held d2 = (concat fs @ held d1) @ concat (map data rs)" using 2(4) by simp
  with 1 2 show ?case by (intro exI [of _ "fs @ gs"] exI [of _ d2]) auto
qed simp

end

definition recording :: "nat \<Rightarrow> indev \<Rightarrow> bool" where
  "recording keep d \<longleftrightarrow> id_recording d \<and> length (id_rem d) \<le> keep"

lemma pulse_fragment_hands_on:
  assumes "recording 1919 d" "length bs \<le> 13441"
  obtains fs d' where "pulse_fragment bs d = Inr (fs, d')" "recording 1919 d'" "\<forall>f \<in> set fs. length f = 1920"
    "concat fs @ id_rem d' = id_rem d @ bs"
proof -
  obtain fs q where c: "chop 1919 (id_rem d @ bs) = (fs, q)" by force
  from chop_props [OF c] assms show thesis
    by (intro that [of fs "d\<lparr>id_rem := q\<rparr>"]) (simp_all add: pulse_fragment_def recording_def c)
qed

lemma pulse_read_hands_on:
  "recording 1919 d \<Longrightarrow> (\<forall>b \<in> set bss. length b \<le> 13441) \<Longrightarrow> length (concat bss) < 2 ^ 64 \<Longrightarrow>
    \<exists>fs d'. pulse_read (of_nat (length (concat bss))) (map (\<lambda>b. Peeked b True) bss) d = Inr (fs, d') \<and> recording 1919 d'
      \<and> (\<forall>f \<in> set fs. length f = 1920) \<and> concat fs @ id_rem d' = id_rem d @ concat bss"
proof (induction bss arbitrary: d)
  case (Cons b bss)
  show ?case
  proof (cases "(of_nat (length (concat (b # bss))) :: u64) = 0")
    case True
    then have "length (concat (b # bss)) = 0"
      using Cons.prems(3) by (simp only: of_nat_eq_0_iff word_of_nat_eq_0_iff) (auto dest: nat_dvd_not_less)
    then show ?thesis using Cons.prems(1) True by auto
  next
    case False
    from pulse_fragment_hands_on [OF Cons.prems(1), of b] Cons.prems(2) obtain fs d1 where
      1: "pulse_fragment b d = Inr (fs, d1)" "recording 1919 d1" "\<forall>f \<in> set fs. length f = 1920"
        "concat fs @ id_rem d1 = id_rem d @ b" by auto
    from Cons.IH [OF 1(2)] Cons.prems obtain gs d2 where
      2: "pulse_read (of_nat (length (concat bss))) (map (\<lambda>b. Peeked b True) bss) d1 = Inr (gs, d2)" "recording 1919 d2"
        "\<forall>f \<in> set gs. length f = 1920" "concat gs @ id_rem d2 = id_rem d1 @ concat bss" by auto
    have "concat (fs @ gs) @ id_rem d2 = (concat fs @ id_rem d1) @ concat bss" using 2(4) by simp
    with 1 2 False show ?thesis by (intro exI [of _ "fs @ gs"] exI [of _ d2]) auto
  qed
qed simp

definition pulse_call :: "byte list list \<Rightarrow> indev \<Rightarrow> exn + byte list list \<times> indev" where
  "pulse_call bss = pulse_read (of_nat (length (concat bss))) (map (\<lambda>b. Peeked b True) bss)"

interpretation pulse_in: frame_pusher pulse_call concat id_rem
    "\<lambda>bss. (\<forall>b \<in> set bss. length b \<le> 13441) \<and> length (concat bss) < 2 ^ 64" "recording 1919"
  by unfold_locales (unfold pulse_call_def, rule pulse_read_hands_on, auto)

interpretation wasapi_in: frame_pusher wasapi_read "\<lambda>bs. bs" id_rem "\<lambda>bs. length bs \<le> 8319" "recording 1920"
proof
  fix d :: indev and bs :: "byte list" assume *: "recording 1920 d" "length bs \<le> 8319"
  obtain fs q where c: "chop 1920 (id_rem d @ bs) = (fs, q)" by force
  from chop_props [OF c] * show "\<exists>fs d'. wasapi_read bs d = Inr (fs, d') \<and> recording 1920 d'
      \<and> (\<forall>f \<in> set fs. length f = 1920) \<and> concat fs @ id_rem d' = id_rem d @ bs"
    by (intro exI [of _ fs] exI [of _ "d\<lparr>id_rem := q\<rparr>"]) (simp add: wasapi_read_def recording_def c)
qed

lemma audiounit_read_hands_on: "length (id_rem d) \<le> 1919 \<Longrightarrow> (\<forall>b \<in> set bss. length b \<le> 8320) \<Longrightarrow>
    \<exists>fs d'. audiounit_read bss d = Inr (fs, d') \<and> length (id_rem d') \<le> 1919
      \<and> (\<forall>f \<in> set fs. length f = 1920) \<and> concat fs @ id_rem d' = id_rem d @ concat bss"
proof (induction bss arbitrary: d)
  case (Cons b bss)
  obtain fs q where c: "chop 1919 (id_rem d @ b) = (fs, q)" by force
  from chop_props [OF c] have q: "length q \<le> 1919" "\<forall>f \<in> set fs. length f = 1920" "concat fs @ q = id_rem d @ b" by auto
  from Cons.IH [of "d\<lparr>id_rem := q\<rparr>"] q(1) Cons.prems obtain gs d2 where
    2: "audiounit_read bss (d\<lparr>id_rem := q\<rparr>) = Inr (gs, d2)" "length (id_rem d2) \<le> 1919"
      "\<forall>f \<in> set gs. length f = 1920" "concat gs @ id_rem d2 = q @ concat bss" by auto
  have "concat (fs @ gs) @ id_rem d2 = (concat fs @ q) @ concat bss" using 2(4) by simp
  with q 2 Cons.prems c show ?case by (intro exI [of _ "fs @ gs"] exI [of _ d2]) auto
qed simp

interpretation audiounit_in: frame_pusher audiounit_read concat id_rem "\<lambda>bss. \<forall>b \<in> set bss. length b \<le> 8320"
    "\<lambda>d. length (id_rem d) \<le> 1919"
  by unfold_locales (rule audiounit_read_hands_on)

definition opensl_ready :: "nat \<Rightarrow> slin \<Rightarrow> bool" where
  "opensl_ready n d \<longleftrightarrow> length (sl_buffer d) = 1920 \<and> sl_pos d \<le> 960 \<and> n dvd sl_pos d"

definition opensl_held :: "slin \<Rightarrow> byte list" where
  "opensl_held d = take (sl_pos d * 2) (sl_buffer d)"

lemma dvd_room:
  assumes "n dvd p" "n dvd (960 :: nat)" "p < 960"
  shows "p + n \<le> 960"
  using dvd_imp_le [of n "960 - p"] assms by (simp add: dvd_diff_nat)

lemma opensl_put:
  assumes "length buf = 1920" "p + n \<le> 960" "length bs = 2 * n"
  shows "take ((p + n) * 2) (poke (p * 2) bs buf) = take (p * 2) buf @ bs" "length (poke (p * 2) bs buf) = 1920"
  using take_poke [of "p * 2" bs buf] assms by (simp_all add: algebra_simps poke_def)

interpretation opensl_in: frame_pusher "opensl_read n" "\<lambda>bs. bs" opensl_held
    "\<lambda>bs. 0 < n \<and> n < 960 \<and> n dvd 960 \<and> length bs = 2 * n" "opensl_ready n" for n
proof
  fix d :: slin and bs :: "byte list" assume *: "opensl_ready n d" "0 < n \<and> n < 960 \<and> n dvd 960 \<and> length bs = 2 * n"
  show "\<exists>fs d'. opensl_read n bs d = Inr (fs, d') \<and> opensl_ready n d'
      \<and> (\<forall>f \<in> set fs. length f = 1920) \<and> concat fs @ opensl_held d' = opensl_held d @ bs"
  proof (cases "sl_pos d \<ge> 960")
    case True
    with * opensl_put [of "sl_buffer d" 0 n bs] show ?thesis
      by (simp add: opensl_read_def opensl_ready_def opensl_held_def)
  next
    case False
    with * dvd_room [of n "sl_pos d"] opensl_put [of "sl_buffer d" "sl_pos d" n bs] show ?thesis
      by (simp add: opensl_read_def opensl_ready_def opensl_held_def)
  qed
qed



subsection \<open>Sizes and answers the inputs do not expect\<close>

text \<open>
  A recorder buffer shorter than a frame that does not divide it is copied behind the frame: this happens at the call after the last one that fits.
\<close>

lemma opensl_small_steps:
  assumes "0 < n" "n < 960" "\<not> n dvd 960" "length (sl_buffer d) = 1920" "sl_pos d = n * k" "k \<le> 960 div n"
    and "\<forall>b \<in> set bs. length b = 2 * n" "length bs > 960 div n - k"
  shows "run_device (opensl_read n) bs d = Inl Undefined"
  using assms(4-)
proof (induction "960 div n - k" arbitrary: k d bs)
  case 0
  then obtain b bs' where bs: "bs = b # bs'" by (cases bs) auto
  have k: "k = 960 div n" using 0 by simp
  have "n * k \<noteq> 960" using assms(3) by (metis dvd_triv_left)
  moreover have "n * k \<le> 960" unfolding k by (metis div_times_less_eq_dividend mult.commute)
  moreover have "n * k + n > 960" using dividend_less_times_div [OF assms(1), of 960] by (simp add: k add.commute)
  ultimately show ?case using 0(3) assms(2) by (simp add: bs opensl_read_def)
next
  case (Suc m)
  then obtain b bs' where bs: "bs = b # bs'" by (cases bs) auto
  have "n * Suc k \<le> n * (960 div n)" using Suc(2) by (intro mult_le_mono2) simp
  also have "\<dots> \<le> 960" by simp
  finally have "n * Suc k \<le> 960" .
  then have k: "n * k + n \<le> 960" "n * k < 960" using assms(1) by simp_all
  let ?d = "\<lparr>sl_buffer = poke (n * k * 2) b (sl_buffer d), sl_pos = n * k + n\<rparr>"
  have "run_device (opensl_read n) bs' ?d = Inl Undefined"
    using Suc.hyps(2) Suc.prems k(1) bs opensl_put(2) [of "sl_buffer d" "n * k" n b]
    by (intro Suc.hyps(1) [of "Suc k"]) auto
  then show ?case using k Suc.prems(2) assms(2) by (simp add: bs opensl_read_def)
qed

text \<open>A longer one is read behind its end unless it is a multiple of a frame.\<close>

lemma opensl_blocks_iff: "off \<le> n \<Longrightarrow> (\<exists>fs. opensl_blocks off n bs = Inr fs) \<longleftrightarrow> 960 dvd (n - off)"
proof (induction off n bs rule: opensl_blocks.induct)
  case (1 off n bs)
  consider "off = n" | "off < n" "off + 960 > n" | "off + 960 \<le> n" using "1.prems" by linarith
  then show ?case
  proof cases
    case 2
    moreover from 2 have "\<not> 960 dvd (n - off)" using nat_dvd_not_less [of "n - off" 960] by auto
    ultimately show ?thesis by (simp add: opensl_blocks.simps)
  next
    case 3
    then obtain j where "n = off + 960 + j" using le_Suc_ex by blast
    then have "960 dvd (n - off) \<longleftrightarrow> 960 dvd (n - (off + 960))"
      by (simp add: add.assoc)
    also have "\<dots> \<longleftrightarrow> (\<exists>fs. opensl_blocks (off + 960) n bs = Inr fs)"
      using "1.IH" 3 by simp
    also have "\<dots> \<longleftrightarrow> (\<exists>fs. opensl_blocks off n bs = Inr fs)"
      using 3 by (simp add: opensl_blocks.simps [of off] bind_res_Inr_conv)
    finally show ?thesis by simp
  qed (simp add: opensl_blocks.simps)
qed

text \<open>
  The constructor means to round the size up to a multiple of a frame, but adds the remainder instead of what is
  missing, so that only sizes in the middle between two multiples become one.
\<close>

lemma opensl_adjust_multiple:
  assumes "n > 960"
  shows "(\<exists>m. opensl_adjust n = Inr m \<and> 960 dvd m) \<longleftrightarrow> n mod 960 = 0 \<or> n mod 960 = 480"
proof (cases "n mod 960 = 0")
  case False
  obtain r q where rq: "r = n mod 960" "q = n div 960" by simp
  have r: "n = 960 * q + r" "r < 960" by (simp_all add: rq)
  have "n + n mod 960 = 960 * q + 2 * r" using r(1) rq(1) by linarith
  then have "960 dvd (n + n mod 960) \<longleftrightarrow> 960 dvd (2 * r)"
    by (simp only: dvd_add_right_iff [OF dvd_triv_left])
  also have "\<dots> \<longleftrightarrow> r = 480"
  proof
    assume "960 dvd (2 * r)"
    then obtain k where "2 * r = 960 * k" by (elim dvdE)
    moreover have "r \<noteq> 0" using False rq(1) by simp
    ultimately have "k \<noteq> 0" "k < 2" using r(2) by auto
    then have "k = 1" by linarith
    with \<open>2 * r = 960 * k\<close> show "r = 480" by simp
  qed simp
  finally have iff: "960 dvd (n + n mod 960) \<longleftrightarrow> n mod 960 = 480" unfolding rq(1) .
  have "opensl_adjust n = Inr (n + n mod 960)" using False assms by (simp add: opensl_adjust_def)
  then show ?thesis using False iff by simp
qed (use assms in \<open>auto simp: opensl_adjust_def dvd_eq_mod_eq_0\<close>)

text \<open>
  After a read error from which it recovers, the ALSA input hands the previous frame on once more. A hole in the
  PulseAudio stream is read through a null pointer, and a fragment that is too large is copied all the same.
\<close>

lemma alsa_read_repeats: "frames \<ge> 0 \<Longrightarrow> recovered \<ge> 0 \<Longrightarrow>
    alsa_read ((frames, bs, 0) # (err, [], recovered) # rs) buf = poke 0 bs buf # poke 0 bs buf # alsa_read rs (poke 0 bs buf)"
  by (simp add: Let_def)

lemma pulse_read_bad:
  assumes "id_recording d" "left \<noteq> 0"
  shows "n > 0 \<Longrightarrow> pulse_read left (Hole n dropped # ps) d = Inl Undefined"
    and "length bs > 15360 \<Longrightarrow> pulse_read left (Peeked bs dropped # ps) d = Inl Undefined"
  using assms by (simp_all add: pulse_fragment_def)

text \<open>
  The level of the microphone test lies between 0 and 1, but a sample of \<open>- 32768\<close>, the loudest of all, does not count: its
  absolute value does not fit into 16 bits.
\<close>

lemma tester_level_bounds: "0 \<le> sint m \<Longrightarrow>
    0 \<le> fst (tester_level (tester_update x m)) \<and> fst (tester_level (tester_update x m)) \<le> 1"
proof -
  assume "0 \<le> sint m"
  then have "0 \<le> sint (tester_update x m)"
    unfolding tester_update_def by (induction x arbitrary: m) (auto simp: louder_def)
  moreover have "sint (tester_update x m) \<le> 32767"
    using sint_lt [of "tester_update x m"] by simp
  moreover have "fst (tester_level (tester_update x m)) = of_int (sint (tester_update x m)) / 32767"
    by (simp add: tester_level_def)
  ultimately show ?thesis by (simp del: of_int_sint)
qed

lemma tester_ignores_minimum: "0 \<le> sint m \<Longrightarrow> tester_update [word_of_int (- 32768)] m = m"
proof -
  have "sint (abs_sample (word_of_int (- 32768))) < 0" by (simp add: abs_sample_def)
  then show "0 \<le> sint m \<Longrightarrow> ?thesis" by (simp add: tester_update_def louder_def)
qed

end
