(* ===== verification/Json.thy ===== *)
theory Json
  imports Complex_Main Prelude "HOL-Library.Monad_Syntax" "HOL-Library.List_Lexorder"
begin

section \<open>JSON (tools/json11.cpp)\<close>

text \<open>
  The JSON library in which the server's configuration and the state that an application keeps between calls
  are written: values, the writer, the parser and the accessors. A string is a list of bytes; reading it at its
  length gives 0, as \<^verbatim>\<open>std::string\<close> does. The parser's position \<^verbatim>\<open>i\<close> is the part of the input that begins there, and a function of the
  parser returns how far it moved. A parse that fails is \<open>None\<close> (the texts of the error messages are not modelled, nor is the
  strategy that allows comments, which nothing uses).
\<close>

type_synonym str = "byte list"

text \<open>
  A number is held as an \<^verbatim>\<open>int\<close> or as a \<^verbatim>\<open>double\<close>; doubles are exact reals. An object is a \<^verbatim>\<open>std::map\<close>: its pairs in the order of the
  keys, which are compared byte by byte.
\<close>

datatype json = JNull | JBool bool | JInt u32 | JDouble real | JString str
  | JArray "json list" | JObject "(str \<times> json) list"

subsection \<open>Objects and accessors\<close>

fun obj_put :: "str \<Rightarrow> 'v \<Rightarrow> (str \<times> 'v) list \<Rightarrow> (str \<times> 'v) list" where
  "obj_put k v [] = [(k, v)]"
| "obj_put k v ((i, w) # m) = (if k < i then (k, v) # (i, w) # m
     else if k = i then (k, v) # m
     else (i, w) # obj_put k v m)"

text \<open>\<^verbatim>\<open>insert\<close> leaves an entry that is there.\<close>

definition obj_insert :: "str \<Rightarrow> 'v \<Rightarrow> (str \<times> 'v) list \<Rightarrow> (str \<times> 'v) list" where
  "obj_insert k v m = (if map_of m k = None then obj_put k v m else m)"

fun object_items :: "json \<Rightarrow> (str \<times> json) list" where
  "object_items (JObject m) = m"
| "object_items _ = []"

fun json_items :: "json \<Rightarrow> json list" where
  "json_items (JArray js) = js"
| "json_items _ = []"

fun string_value :: "json \<Rightarrow> str" where
  "string_value (JString s) = s"
| "string_value _ = []"

fun bool_value :: "json \<Rightarrow> bool" where
  "bool_value (JBool b) = b"
| "bool_value _ = False"

fun number_value :: "json \<Rightarrow> real" where
  "number_value (JInt w) = of_int (sint w)"
| "number_value (JDouble x) = x"
| "number_value _ = 0"

text \<open>The cast of a double that does not fit into an \<^verbatim>\<open>int\<close> is undefined.\<close>

definition truncate_real :: "real \<Rightarrow> int" where
  "truncate_real x = (if x < 0 then \<lceil>x\<rceil> else \<lfloor>x\<rfloor>)"

fun int_value :: "json \<Rightarrow> exn + u32" where
  "int_value (JInt w) = Inr w"
| "int_value (JDouble x) = (if - (2 ^ 31) \<le> truncate_real x \<and> truncate_real x < 2 ^ 31
     then Inr (word_of_int (truncate_real x)) else Inl Undefined)"
| "int_value _ = Inr 0"

fun is_number :: "json \<Rightarrow> bool" where
  "is_number (JInt _) = True"
| "is_number (JDouble _) = True"
| "is_number _ = False"

fun is_bool :: "json \<Rightarrow> bool" where
  "is_bool (JBool _) = True"
| "is_bool _ = False"

fun is_string :: "json \<Rightarrow> bool" where
  "is_string (JString _) = True"
| "is_string _ = False"

fun is_object :: "json \<Rightarrow> bool" where
  "is_object (JObject _) = True"
| "is_object _ = False"

definition json_field :: "json \<Rightarrow> str \<Rightarrow> json" where
  "json_field j key = (case map_of (object_items j) key of None \<Rightarrow> JNull | Some v \<Rightarrow> v)"

definition json_nth :: "json \<Rightarrow> nat \<Rightarrow> json" where
  "json_nth j i = (if i \<ge> length (json_items j) then JNull else json_items j ! i)"

text \<open>\<^verbatim>\<open>operator==\<close>: the kinds have to be the same; numbers are compared by value.\<close>

fun json_eq :: "json \<Rightarrow> json \<Rightarrow> bool" where
  "json_eq JNull JNull = True"
| "json_eq (JBool a) (JBool b) = (a = b)"
| "json_eq (JInt a) j = (is_number j \<and> of_int (sint a) = number_value j)"
| "json_eq (JDouble x) j = (is_number j \<and> x = number_value j)"
| "json_eq (JString s) (JString t) = (s = t)"
| "json_eq (JArray as) (JArray bs) = list_all2 json_eq as bs"
| "json_eq (JObject m) (JObject n) = list_all2 (\<lambda>(k, a) (i, b). k = i \<and> json_eq a b) m n"
| "json_eq _ _ = False"

subsection \<open>The writer\<close>

text \<open>\<^verbatim>\<open>str[i]\<close>: 0 at the end.\<close>

definition at0 :: "str \<Rightarrow> byte" where
  "at0 s = (case s of [] \<Rightarrow> 0 | c # _ \<Rightarrow> c)"

abbreviation QUOTE :: byte where "QUOTE \<equiv> 34"
abbreviation BACKSLASH :: byte where "BACKSLASH \<equiv> 92"
abbreviation MINUS :: byte where "MINUS \<equiv> 45"
abbreviation DOT :: byte where "DOT \<equiv> 46"
abbreviation COMMA :: byte where "COMMA \<equiv> 44"
abbreviation COLON :: byte where "COLON \<equiv> 58"
abbreviation SPACE :: byte where "SPACE \<equiv> 32"
abbreviation LBRACK :: byte where "LBRACK \<equiv> 91"
abbreviation RBRACK :: byte where "RBRACK \<equiv> 93"
abbreviation LBRACE :: byte where "LBRACE \<equiv> 123"
abbreviation RBRACE :: byte where "RBRACE \<equiv> 125"

definition text_null :: str where "text_null = [110, 117, 108, 108]"
definition text_true :: str where "text_true = [116, 114, 117, 101]"
definition text_false :: str where "text_false = [102, 97, 108, 115, 101]"

fun dec_text :: "nat \<Rightarrow> str" where
  "dec_text n = (if n < 10 then [48 + of_nat n] else dec_text (n div 10) @ [48 + of_nat (n mod 10)])"

declare dec_text.simps [simp del]

definition int_text :: "u32 \<Rightarrow> str" where
  "int_text w = (if sint w < 0 then MINUS # dec_text (nat (- sint w)) else dec_text (nat (sint w)))"

definition hex_digit :: "byte \<Rightarrow> byte" where
  "hex_digit d = (if d < 10 then 48 + d else 87 + d)"

text \<open>The two separators U+2028 and U+2029, three bytes in UTF-8, are escaped as well.\<close>

fun dump_chars :: "str \<Rightarrow> str" where
  "dump_chars [] = []"
| "dump_chars (c # s) =
     (if c = BACKSLASH then [BACKSLASH, BACKSLASH] @ dump_chars s
      else if c = QUOTE then [BACKSLASH, QUOTE] @ dump_chars s
      else if c = 8 then [BACKSLASH, 98] @ dump_chars s
      else if c = 12 then [BACKSLASH, 102] @ dump_chars s
      else if c = 10 then [BACKSLASH, 110] @ dump_chars s
      else if c = 13 then [BACKSLASH, 114] @ dump_chars s
      else if c = 9 then [BACKSLASH, 116] @ dump_chars s
      else if c \<le> 31 then [BACKSLASH, 117, 48, 48, hex_digit (c div 16), hex_digit (c mod 16)] @ dump_chars s
      else if c = 226 \<and> at0 s = 128 \<and> at0 (drop 1 s) = 168 then [BACKSLASH, 117, 50, 48, 50, 56] @ dump_chars (drop 2 s)
      else if c = 226 \<and> at0 s = 128 \<and> at0 (drop 1 s) = 169 then [BACKSLASH, 117, 50, 48, 50, 57] @ dump_chars (drop 2 s)
      else c # dump_chars s)"

definition dump_string :: "str \<Rightarrow> str" where
  "dump_string s = [QUOTE] @ dump_chars s @ [QUOTE]"

fun comma_separated :: "str list \<Rightarrow> str" where
  "comma_separated [] = []"
| "comma_separated [t] = t"
| "comma_separated (t # ts) = t @ [COMMA, SPACE] @ comma_separated ts"

text \<open>How a double is printed is the business of the C++ library: the argument \<open>fmt\<close>.\<close>

fun json_dump :: "(real \<Rightarrow> str) \<Rightarrow> json \<Rightarrow> str" where
  "json_dump fmt JNull = text_null"
| "json_dump fmt (JBool b) = (if b then text_true else text_false)"
| "json_dump fmt (JInt w) = int_text w"
| "json_dump fmt (JDouble x) = fmt x"
| "json_dump fmt (JString s) = dump_string s"
| "json_dump fmt (JArray js) = [LBRACK] @ comma_separated (map (json_dump fmt) js) @ [RBRACK]"
| "json_dump fmt (JObject m) = [LBRACE]
     @ comma_separated (map (\<lambda>(k, v). dump_string k @ [COLON, SPACE] @ json_dump fmt v) m) @ [RBRACE]"

subsection \<open>The parser\<close>

definition is_ws :: "byte \<Rightarrow> bool" where
  "is_ws c \<longleftrightarrow> c = SPACE \<or> c = 13 \<or> c = 10 \<or> c = 9"

definition consume_whitespace :: "str \<Rightarrow> nat" where
  "consume_whitespace s = length (takeWhile is_ws s)"

definition get_next_token :: "str \<Rightarrow> (byte \<times> nat) option" where
  "get_next_token s = (let k = consume_whitespace s in
     case drop k s of [] \<Rightarrow> None | c # _ \<Rightarrow> Some (c, Suc k))"

definition encode_utf8 :: "int \<Rightarrow> str" where
  "encode_utf8 pt =
     (if pt < 0 then []
      else if pt < 128 then [word_of_int pt]
      else if pt < 2048 then [word_of_int (drop_bit 6 pt OR 192), word_of_int ((pt AND 63) OR 128)]
      else if pt < 65536 then
        [word_of_int (drop_bit 12 pt OR 224), word_of_int ((drop_bit 6 pt AND 63) OR 128), word_of_int ((pt AND 63) OR 128)]
      else [word_of_int (drop_bit 18 pt OR 240), word_of_int ((drop_bit 12 pt AND 63) OR 128),
        word_of_int ((drop_bit 6 pt AND 63) OR 128), word_of_int ((pt AND 63) OR 128)])"

definition hex_value :: "byte \<Rightarrow> int option" where
  "hex_value c = (if 97 \<le> c \<and> c \<le> 102 then Some (uint c - 87)
     else if 65 \<le> c \<and> c \<le> 70 then Some (uint c - 55)
     else if 48 \<le> c \<and> c \<le> 57 then Some (uint c - 48) else None)"

fun hex4 :: "str \<Rightarrow> int option" where
  "hex4 (a # b # c # d # _) = do {
     x \<leftarrow> hex_value a; y \<leftarrow> hex_value b; z \<leftarrow> hex_value c; w \<leftarrow> hex_value d;
     Some (((x * 16 + y) * 16 + z) * 16 + w)
   }"
| "hex4 _ = None"

definition unescape :: "byte \<Rightarrow> byte option" where
  "unescape c = (if c = 98 then Some 8 else if c = 102 then Some 12 else if c = 110 then Some 10
     else if c = 114 then Some 13 else if c = 116 then Some 9
     else if c = QUOTE \<or> c = BACKSLASH \<or> c = 47 then Some c else None)"

text \<open>
  \<^verbatim>\<open>parse_string\<close>: \<open>held\<close> is the last escaped code point, not yet written because it may be the first half of a
  surrogate pair; a character is signed, so that only the bytes 0 to 31 must be escaped.
\<close>

function parse_string :: "int \<Rightarrow> str \<Rightarrow> str \<Rightarrow> (str \<times> nat) option" where
  "parse_string held out s = (case s of
     [] \<Rightarrow> None
   | c # s1 \<Rightarrow>
     if c = QUOTE then Some (out @ encode_utf8 held, 1)
     else if 0 \<le> sint c \<and> sint c \<le> 31 then None
     else if c \<noteq> BACKSLASH then
       map_option (\<lambda>(t, k). (t, k + 1)) (parse_string (- 1) (out @ encode_utf8 held @ [c]) s1)
     else (case s1 of
       [] \<Rightarrow> None
     | e # s2 \<Rightarrow>
       if e = 117 then (case hex4 s2 of
           None \<Rightarrow> None
         | Some cp \<Rightarrow> map_option (\<lambda>(t, k). (t, k + 6))
             (if 55296 \<le> held \<and> held \<le> 56319 \<and> 56320 \<le> cp \<and> cp \<le> 57343
              then parse_string (- 1)
                (out @ encode_utf8 ((push_bit 10 (held - 55296) OR (cp - 56320)) + 65536)) (drop 4 s2)
              else parse_string cp (out @ encode_utf8 held) (drop 4 s2)))
       else (case unescape e of
           None \<Rightarrow> None
         | Some x \<Rightarrow> map_option (\<lambda>(t, k). (t, k + 2))
             (parse_string (- 1) (out @ encode_utf8 held @ [x]) s2))))"
  by pat_completeness auto
termination
  by (relation "measure (\<lambda>(held, out, s). length s)") auto

declare parse_string.simps [simp del]

definition is_digit :: "byte \<Rightarrow> bool" where
  "is_digit c \<longleftrightarrow> 48 \<le> c \<and> c \<le> 57"

definition digits :: "str \<Rightarrow> nat" where
  "digits s = length (takeWhile is_digit s)"

text \<open>The value of a sequence of digits (\<^verbatim>\<open>atoi\<close>).\<close>

definition dec_value :: "str \<Rightarrow> int" where
  "dec_value t = foldl (\<lambda>n c. 10 * n + (uint c - 48)) 0 t"

text \<open>
  A number with at most nine characters and neither fraction nor exponent is an \<^verbatim>\<open>int\<close>; any other is the
  real number that it denotes.
\<close>

definition parse_number :: "str \<Rightarrow> (json \<times> nat) option" where
  "parse_number s = (let neg = (at0 s = MINUS); p = (if neg then 1 else 0);
       sign = (if neg then - 1 else 1) in
     do {
       p1 \<leftarrow> (if at0 (drop p s) = 48 then (if is_digit (at0 (drop (p + 1) s)) then None else Some (p + 1))
              else if is_digit (at0 (drop p s)) then Some (p + digits (drop p s))
              else None);
       let ip = take (p1 - p) (drop p s);
       let c = at0 (drop p1 s);
       if c \<noteq> DOT \<and> c \<noteq> 101 \<and> c \<noteq> 69 \<and> p1 \<le> 9 then Some (JInt (word_of_int (sign * dec_value ip)), p1)
       else do {
         fl \<leftarrow> (if c = DOT then (if is_digit (at0 (drop (p1 + 1) s)) then Some (digits (drop (p1 + 1) s)) else None)
                else Some 0);
         let p2 = (if c = DOT then p1 + 1 + fl else p1);
         let fp = (if c = DOT then take fl (drop (p1 + 1) s) else []);
         let e = at0 (drop p2 s);
         (ex, p3) \<leftarrow> (if e = 101 \<or> e = 69 then
             let sg = at0 (drop (p2 + 1) s);
                 q = (if sg = 43 \<or> sg = MINUS then p2 + 2 else p2 + 1) in
             if is_digit (at0 (drop q s))
             then Some ((if sg = MINUS then - 1 else 1) * dec_value (take (digits (drop q s)) (drop q s)), q + digits (drop q s))
             else None
           else Some (0, p2));
         Some (JDouble (of_int (sign * dec_value (ip @ fp)) / 10 ^ fl * 10 powi ex), p3)
       }
     })"

definition expect :: "str \<Rightarrow> json \<Rightarrow> str \<Rightarrow> (json \<times> nat) option" where
  "expect text res s = (if take (length text) s = text then Some (res, length text) else None)"

lemma get_next_token_pos: "get_next_token s = Some (c, k) \<Longrightarrow> 0 < k \<and> k \<le> length s"
  by (auto simp: get_next_token_def Let_def split: list.splits)
    (metis Suc_leI drop_eq_Nil linorder_not_le list.simps(3))

text \<open>\<^verbatim>\<open>max_depth\<close> is 200.\<close>

function (sequential) parse_json :: "nat \<Rightarrow> str \<Rightarrow> (json \<times> nat) option"
  and parse_elements :: "nat \<Rightarrow> json list \<Rightarrow> str \<Rightarrow> (json list \<times> nat) option"
  and parse_members :: "nat \<Rightarrow> byte \<Rightarrow> (str \<times> json) list \<Rightarrow> str \<Rightarrow> ((str \<times> json) list \<times> nat) option" where
  "parse_json d s = (if d > 200 then None else case get_next_token s of None \<Rightarrow> None | Some (c, k) \<Rightarrow>
     if c = MINUS \<or> is_digit c then map_option (\<lambda>(v, m). (v, k - 1 + m)) (parse_number (drop (k - 1) s))
     else if c = 116 then map_option (\<lambda>(v, m). (v, k - 1 + m)) (expect text_true (JBool True) (drop (k - 1) s))
     else if c = 102 then map_option (\<lambda>(v, m). (v, k - 1 + m)) (expect text_false (JBool False) (drop (k - 1) s))
     else if c = 110 then map_option (\<lambda>(v, m). (v, k - 1 + m)) (expect text_null JNull (drop (k - 1) s))
     else if c = QUOTE then map_option (\<lambda>(t, m). (JString t, k + m)) (parse_string (- 1) [] (drop k s))
     else if c = LBRACE then (case get_next_token (drop k s) of None \<Rightarrow> None | Some (c1, k1) \<Rightarrow>
       if c1 = RBRACE then Some (JObject [], k + k1)
       else map_option (\<lambda>(m, n). (JObject m, k + k1 + n)) (parse_members d c1 [] (drop (k + k1) s)))
     else if c = LBRACK then (case get_next_token (drop k s) of None \<Rightarrow> None | Some (c1, k1) \<Rightarrow>
       if c1 = RBRACK then Some (JArray [], k + k1)
       else map_option (\<lambda>(js, n). (JArray js, k + (k1 - 1) + n)) (parse_elements d [] (drop (k + (k1 - 1)) s)))
     else None)"
| "parse_elements d acc s = (case parse_json (d + 1) s of None \<Rightarrow> None | Some (v, k) \<Rightarrow>
     (case get_next_token (drop k s) of None \<Rightarrow> None | Some (c, k1) \<Rightarrow>
       if c = RBRACK then Some (acc @ [v], k + k1)
       else if c \<noteq> COMMA then None
       else (case get_next_token (drop (k + k1) s) of None \<Rightarrow> None | Some (_, k2) \<Rightarrow>
         map_option (\<lambda>(js, n). (js, k + k1 + (k2 - 1) + n))
           (parse_elements d (acc @ [v]) (drop (k + k1 + (k2 - 1)) s)))))"
| "parse_members d c acc s = (if c \<noteq> QUOTE then None else case parse_string (- 1) [] s of None \<Rightarrow> None | Some (key, k) \<Rightarrow>
     (case get_next_token (drop k s) of None \<Rightarrow> None | Some (c1, k1) \<Rightarrow>
       if c1 \<noteq> COLON then None
       else (case parse_json (d + 1) (drop (k + k1) s) of None \<Rightarrow> None | Some (v, k2) \<Rightarrow>
         (case get_next_token (drop (k + k1 + k2) s) of None \<Rightarrow> None | Some (c2, k3) \<Rightarrow>
           if c2 = RBRACE then Some (obj_put key v acc, k + k1 + k2 + k3)
           else if c2 \<noteq> COMMA then None
           else (case get_next_token (drop (k + k1 + k2 + k3) s) of None \<Rightarrow> None | Some (c3, k4) \<Rightarrow>
             map_option (\<lambda>(m, n). (m, k + k1 + k2 + k3 + k4 + n))
               (parse_members d c3 (obj_put key v acc) (drop (k + k1 + k2 + k3 + k4) s)))))))"
  by pat_completeness auto
termination
  by (relation "measure (\<lambda>x. case x of Inl (d, s) \<Rightarrow> 2 * length s
      | Inr (Inl (d, acc, s)) \<Rightarrow> 2 * length s + 1 | Inr (Inr (d, c, acc, s)) \<Rightarrow> 2 * length s + 1)")
    (auto dest!: get_next_token_pos)

declare parse_json.simps [simp del] parse_elements.simps [simp del] parse_members.simps [simp del]

text \<open>The whole input has to be one value; otherwise, or on an error, the result is null.\<close>

definition json_parse :: "str \<Rightarrow> json option" where
  "json_parse s = (case parse_json 0 s of None \<Rightarrow> None | Some (j, k) \<Rightarrow>
     if k + consume_whitespace (drop k s) = length s then Some j else None)"

subsection \<open>Strings come back\<close>

lemma small_byte_induct:
  assumes "c \<le> (31 :: byte)" "\<And>n. n < 32 \<Longrightarrow> P (of_nat n)"
  shows "P c"
proof -
  have "unat c < 32" using assms(1) by (simp add: word_le_nat_alt)
  with assms(2) [of "unat c"] show ?thesis by simp
qed

lemma nat_less_32_cases: "n < 32 \<Longrightarrow> n \<in> {0, 1, 2, 3, 4, 5, 6, 7, 8, 9, 10, 11, 12, 13, 14, 15 :: nat}
    \<or> n \<in> {16, 17, 18, 19, 20, 21, 22, 23, 24, 25, 26, 27, 28, 29, 30, 31}"
  by simp arith

lemma control_escape:
  "c \<le> 31 \<Longrightarrow> hex4 (48 # 48 # hex_digit (c div 16) # hex_digit (c mod 16) # r) = Some (uint c)"
proof (erule small_byte_induct)
  fix n :: nat assume "n < 32"
  from nat_less_32_cases [OF this]
  show "hex4 (48 # 48 # hex_digit (of_nat n div 16) # hex_digit (of_nat n mod 16) # r) = Some (uint (of_nat n :: byte))"
    by (elim disjE insertE; simp add: hex_digit_def hex_value_def)
qed

lemma utf8_small: "c \<le> 31 \<Longrightarrow> encode_utf8 (uint c) = [c]"
  by (simp add: encode_utf8_def word_le_def)

lemma utf8_separators: "encode_utf8 8232 = [226, 128, 168]" "encode_utf8 8233 = [226, 128, 169]"
  by (simp_all add: encode_utf8_def)

lemma sint_byte: "sint (c :: byte) = (if uint c < 128 then uint c else uint c - 256)"
proof -
  have c: "0 \<le> uint c" "uint c < 256" using uint_lt2p [of c] by simp_all
  have "bit (uint c) 7 \<longleftrightarrow> odd (uint c div 128)" by (simp add: bit_iff_odd)
  also have "\<dots> \<longleftrightarrow> \<not> uint c < 128"
  proof (cases "uint c < 128")
    case False
    then have "uint c div 128 = 1" using c by (intro div_pos_geq [THEN trans]) simp_all
    then show ?thesis using False by simp
  qed (use c in simp)
  finally have "bit (uint c) 7 \<longleftrightarrow> \<not> uint c < 128" .
  moreover have "sint c = take_bit 8 (uint c) - 256 * of_bool (bit (uint c) 7)"
    using signed_take_bit_eq_take_bit_minus [of 7 "uint c"] by (simp add: sint_uint numeral_eq_Suc)
  ultimately show ?thesis using c by (simp add: take_bit_int_eq_self)
qed

lemma must_escape_iff: "(0 \<le> sint c \<and> sint c \<le> 31) \<longleftrightarrow> c \<le> (31 :: byte)"
  using uint_lt2p [of c] by (auto simp: sint_byte word_le_def)

lemma parse_string_plain:
  assumes "c \<noteq> QUOTE" "\<not> c \<le> 31" "c \<noteq> BACKSLASH"
  shows "parse_string held out (c # s) = map_option (\<lambda>(t, k). (t, k + 1)) (parse_string (- 1) (out @ encode_utf8 held @ [c]) s)"
  using assms must_escape_iff [of c] by (subst parse_string.simps) auto

lemma parse_string_escape: "unescape e = Some x \<Longrightarrow> parse_string held out (BACKSLASH # e # s)
    = map_option (\<lambda>(t, k). (t, k + 2)) (parse_string (- 1) (out @ encode_utf8 held @ [x]) s)"
  by (subst parse_string.simps) (auto simp: unescape_def must_escape_iff split: if_splits)

lemma parse_string_code: "hex4 (a # b # c # d # s) = Some cp \<Longrightarrow> cp < 56320 \<Longrightarrow>
    parse_string held out (BACKSLASH # 117 # a # b # c # d # s)
    = map_option (\<lambda>(t, k). (t, k + 6)) (parse_string cp (out @ encode_utf8 held) s)"
  by (subst parse_string.simps) (simp add: must_escape_iff)

lemma utf8_none [simp]: "encode_utf8 (- 1) = []"
  by (simp add: encode_utf8_def)

lemma at0_sep: "at0 s = 128 \<Longrightarrow> at0 (drop 1 s) = x \<Longrightarrow> x \<noteq> 0 \<Longrightarrow> s = 128 # x # drop 2 s"
  by (cases s; cases "tl s") (auto simp: at0_def split: list.splits)

lemma parse_dump_chars: "parse_string held out (dump_chars t @ QUOTE # rest)
    = Some (out @ encode_utf8 held @ t, length (dump_chars t) + 1)"
proof (induction t arbitrary: held out rule: dump_chars.induct)
  case 1
  show ?case by (subst parse_string.simps) simp
next
  case (2 c s)
  note IH = 2
  consider "c = BACKSLASH" | "c = QUOTE" | "c = 8" | "c = 12" | "c = 10" | "c = 13" | "c = 9"
    | "c \<le> 31" "c \<notin> {BACKSLASH, QUOTE, 8, 12, 10, 13, 9}"
    | "\<not> c \<le> 31" "c \<notin> {BACKSLASH, QUOTE}" "c = 226 \<and> at0 s = 128 \<and> at0 (drop 1 s) = 168"
    | "\<not> c \<le> 31" "c \<notin> {BACKSLASH, QUOTE}" "c = 226 \<and> at0 s = 128 \<and> at0 (drop 1 s) = 169"
    | "\<not> c \<le> 31" "c \<notin> {BACKSLASH, QUOTE}" "\<not> (c = 226 \<and> at0 s = 128 \<and> at0 (drop 1 s) = 168)"
      "\<not> (c = 226 \<and> at0 s = 128 \<and> at0 (drop 1 s) = 169)" by blast
  then show ?case
  proof cases
    case 8
    then show ?thesis
      using IH(8) by (simp add: parse_string_code [OF control_escape] word_less_def word_le_def utf8_small)
  next
    case 9
    then have "s = 128 # 168 # drop 2 s" by (intro at0_sep) auto
    then show ?thesis using 9 IH(9) by (simp add: parse_string_code hex_value_def utf8_separators)
  next
    case 10
    then have "s = 128 # 169 # drop 2 s" by (intro at0_sep) auto
    then show ?thesis using 10 IH(10) by (simp add: parse_string_code hex_value_def utf8_separators)
  next
    case 11
    then have "c \<noteq> 8" "c \<noteq> 12" "c \<noteq> 10" "c \<noteq> 13" "c \<noteq> 9" by auto
    moreover have "dump_chars (c # s) = c # dump_chars s"
      using 11 calculation by (subst dump_chars.simps) (simp only: if_False simp_thms insert_iff empty_iff de_Morgan_disj)
    ultimately show ?thesis using 11 IH(11) by (simp add: parse_string_plain del: dump_chars.simps)
  qed (simp_all add: parse_string_escape unescape_def IH)
qed

subsection \<open>Integers come back\<close>

text \<open>What may stand behind a number: no digit, point or exponent.\<close>

definition ends_number :: "str \<Rightarrow> bool" where
  "ends_number s \<longleftrightarrow> \<not> is_digit (at0 s) \<and> at0 s \<notin> {DOT, 101, 69}"

lemma dec_value_snoc: "dec_value (t @ [c]) = 10 * dec_value t + (uint c - 48)"
  by (simp add: dec_value_def)

lemma digit_byte: "n < 10 \<Longrightarrow> is_digit (48 + of_nat n) \<and> uint (48 + of_nat n :: byte) = 48 + int n
    \<and> (48 + of_nat n = (48 :: byte) \<longleftrightarrow> n = 0)"
proof -
  assume "n < 10"
  then have "n \<in> {0, 1, 2, 3, 4, 5, 6, 7, 8, 9}" by simp arith
  then show ?thesis by (elim insertE) (simp_all add: is_digit_def)
qed

lemma digit_zero: "n < 10 \<Longrightarrow> (of_nat n = (0 :: byte)) = (n = 0)"
  using digit_byte [of n] by simp

lemma dec_text_props: "list_all is_digit (dec_text n) \<and> dec_text n \<noteq> [] \<and> dec_value (dec_text n) = int n
    \<and> (hd (dec_text n) = 48 \<longleftrightarrow> n = 0)"
proof (induction n rule: dec_text.induct)
  case (1 n)
  show ?case
  proof (cases "n < 10")
    case True
    then show ?thesis
      by (simp add: dec_text.simps [of n] digit_byte digit_zero dec_value_def)
  next
    case False
    with 1 digit_byte [of "n mod 10"] show ?thesis
      by (simp add: dec_text.simps [of n] dec_value_snoc zmod_int zdiv_int)
  qed
qed

lemma dec_text_0: "dec_text 0 = [48]"
  by (simp add: dec_text.simps)

lemma digits_append: "list_all is_digit t \<Longrightarrow> \<not> is_digit (at0 rest) \<Longrightarrow> digits (t @ rest) = length t"
  by (induction t) (auto simp: digits_def at0_def split: list.splits)

lemma at0_append [simp]: "t \<noteq> [] \<Longrightarrow> at0 (t @ rest) = hd t"
  by (cases t) (simp_all add: at0_def)

lemma parse_number_dec:
  assumes "list_all is_digit t" "t \<noteq> []" "hd t = 48 \<Longrightarrow> t = [48]" "ends_number rest"
    and pre: "pre = [] \<or> pre = [MINUS]"
  shows "parse_number (pre @ t @ rest) = Some (
     (let v = (if pre = [] then 1 else - 1) * dec_value t in
      if length (pre @ t) \<le> 9 then JInt (word_of_int v) else JDouble (of_int v)), length (pre @ t))"
proof -
  have first: "is_digit (hd t)" using assms(1,2) by (cases t) auto
  then have minus: "hd t \<noteq> MINUS" by (auto simp: is_digit_def)
  have d: "digits (t @ rest) = length t" using assms(1,4) by (simp add: digits_append ends_number_def)
  have z: "\<not> is_digit (at0 rest)" "at0 rest \<noteq> DOT" "at0 rest \<noteq> 101" "at0 rest \<noteq> 69"
    using assms(4) by (auto simp: ends_number_def)
  show ?thesis
  proof (cases "hd t = 48")
    case True
    then have t: "t = [48]" by (rule assms(3))
    from pre show ?thesis by (elim disjE) (use z in \<open>simp_all add: t parse_number_def Let_def at0_def [of "_ # _"]\<close>)
  next
    case False
    from pre show ?thesis
      by (elim disjE) (use z d False first minus assms(2) in \<open>simp_all add: parse_number_def Let_def at0_def [of "_ # _"]\<close>)
  qed
qed

text \<open>An \<^verbatim>\<open>int\<close> whose text has more than nine characters is read back as a double of the same value.\<close>

definition reread_int :: "u32 \<Rightarrow> json" where
  "reread_int w = (if length (int_text w) \<le> 9 then JInt w else JDouble (of_int (sint w)))"

lemma parse_number_int:
  assumes "ends_number rest"
  shows "parse_number (int_text w @ rest) = Some (reread_int w, length (int_text w))"
proof (cases "sint w < 0")
  case True
  let ?t = "dec_text (nat (- sint w))"
  have "hd ?t = 48 \<Longrightarrow> ?t = [48]" using dec_text_props [of "nat (- sint w)"] True by simp
  with parse_number_dec [of ?t rest "[MINUS]"] dec_text_props [of "nat (- sint w)"] True assms
  show ?thesis by (simp add: int_text_def reread_int_def Let_def)
next
  case False
  let ?t = "dec_text (nat (sint w))"
  have "hd ?t = 48 \<Longrightarrow> ?t = [48]" using dec_text_props [of "nat (sint w)"] by (simp add: dec_text_0)
  with parse_number_dec [of ?t rest "[]"] dec_text_props [of "nat (sint w)"] False assms
  show ?thesis by (simp add: int_text_def reread_int_def Let_def)
qed

subsection \<open>Values come back\<close>

fun reread :: "json \<Rightarrow> json" where
  "reread (JInt w) = reread_int w"
| "reread (JArray js) = JArray (map reread js)"
| "reread (JObject m) = JObject (map (\<lambda>(k, v). (k, reread v)) m)"
| "reread j = j"

text \<open>Values without doubles, whose objects have their keys in order, and how deep they are nested.\<close>

fun json_ok :: "json \<Rightarrow> bool" where
  "json_ok (JDouble x) = False"
| "json_ok (JArray js) = (\<forall>j \<in> set js. json_ok j)"
| "json_ok (JObject m) = (sorted_wrt (<) (map fst m) \<and> (\<forall>(k, v) \<in> set m. json_ok v))"
| "json_ok _ = True"

fun json_depth :: "json \<Rightarrow> nat" where
  "json_depth (JArray js) = foldr (\<lambda>j n. max (Suc (json_depth j)) n) js 0"
| "json_depth (JObject m) = foldr (\<lambda>(k, v) n. max (Suc (json_depth v)) n) m 0"
| "json_depth _ = 0"

lemma foldr_max_le: "foldr (\<lambda>x n. max (f x) n) xs 0 \<le> (b :: nat) \<longleftrightarrow> (\<forall>x \<in> set xs. f x \<le> b)"
  by (induction xs) auto

lemma json_depth_le:
  "json_depth (JArray js) \<le> b \<longleftrightarrow> (\<forall>j \<in> set js. Suc (json_depth j) \<le> b)"
  "json_depth (JObject m) \<le> b \<longleftrightarrow> (\<forall>(k, v) \<in> set m. Suc (json_depth v) \<le> b)"
  using foldr_max_le [of "\<lambda>j. Suc (json_depth j)" js b] foldr_max_le [of "\<lambda>(k, v). Suc (json_depth v)" m b]
  by (simp_all add: case_prod_unfold)

lemma next_token [simp]: "\<not> is_ws c \<Longrightarrow> get_next_token (c # s) = Some (c, 1)"
  by (simp add: get_next_token_def consume_whitespace_def)

lemma next_token_space [simp]: "get_next_token (SPACE # s) = map_option (\<lambda>(c, k). (c, k + 1)) (get_next_token s)"
  by (simp add: get_next_token_def consume_whitespace_def is_ws_def Let_def split: list.splits)

lemma parse_json_space: "parse_json d (SPACE # s) = map_option (\<lambda>(v, k). (v, k + 1)) (parse_json d s)"
proof (cases "get_next_token s")
  case None
  then show ?thesis by (simp add: parse_json.simps)
next
  case (Some ck)
  then obtain c k where ck: "get_next_token s = Some (c, Suc k)"
    using get_next_token_pos [of s] by (cases ck) (metis gr0_implies_Suc)
  show ?thesis
    by (simp add: parse_json.simps [of d "SPACE # s"] parse_json.simps [of d s] ck option.map_comp comp_def
        case_prod_unfold split: option.splits)
qed

lemma dump_first: "json_ok j \<Longrightarrow> \<exists>c t. json_dump fmt j = c # t \<and> \<not> is_ws c \<and> c \<noteq> RBRACK \<and> c \<noteq> RBRACE"
proof (cases j)
  case (JInt w)
  show ?thesis
  proof (cases "sint w < 0")
    case False
    with dec_text_props [of "nat (sint w)"] JInt show ?thesis
      by (cases "dec_text (nat (sint w))") (auto simp: int_text_def is_ws_def is_digit_def)
  qed (simp add: JInt int_text_def is_ws_def)
qed (auto simp: text_null_def text_true_def text_false_def dump_string_def is_ws_def)

lemma ends_number_intros [simp]: "ends_number []" "ends_number (COMMA # s)" "ends_number (RBRACK # s)" "ends_number (RBRACE # s)"
  by (simp_all add: ends_number_def at0_def is_digit_def)

definition comes_back :: "(real \<Rightarrow> str) \<Rightarrow> nat \<Rightarrow> json \<Rightarrow> bool" where
  "comes_back fmt d j \<longleftrightarrow> (\<forall>rest. ends_number rest \<longrightarrow>
     parse_json d (json_dump fmt j @ rest) = Some (reread j, length (json_dump fmt j)))"

lemma comes_backD: "comes_back fmt d j \<Longrightarrow> ends_number rest \<Longrightarrow>
    parse_json d (json_dump fmt j @ rest) = Some (reread j, length (json_dump fmt j))"
  by (simp add: comes_back_def)

lemma not_ws [simp]: "\<not> is_ws COMMA" "\<not> is_ws COLON" "\<not> is_ws RBRACK" "\<not> is_ws RBRACE" "\<not> is_ws LBRACK" "\<not> is_ws LBRACE"
    "\<not> is_ws QUOTE"
  by (simp_all add: is_ws_def)

lemma parse_elements_dump:
  assumes "\<forall>j \<in> set js. comes_back fmt (d + 1) j \<and> json_ok j" "js \<noteq> []"
  shows "parse_elements d acc (comma_separated (map (json_dump fmt) js) @ RBRACK # rest)
    = Some (acc @ map reread js, length (comma_separated (map (json_dump fmt) js)) + 1)"
  using assms
proof (induction js arbitrary: acc rule: induct_list012)
  case (2 j)
  then show ?case
    using comes_backD [of fmt "d + 1" j "RBRACK # rest"] by (subst parse_elements.simps) simp
next
  case (3 j j' js)
  obtain q where q: "q = comma_separated (map (json_dump fmt) (j' # js))" by simp
  obtain c t where c: "json_dump fmt j' = c # t" "\<not> is_ws c" using dump_first [of j' fmt] "3.prems" by auto
  then obtain t' where q': "q = c # t'" unfolding q by (cases js) auto
  have "parse_json (d + 1) (json_dump fmt j @ COMMA # SPACE # q @ RBRACK # rest) = Some (reread j, length (json_dump fmt j))"
    using "3.prems" by (intro comes_backD) auto
  moreover have "parse_elements d (acc @ [reread j]) (q @ RBRACK # rest)
      = Some ((acc @ [reread j]) @ map reread (j' # js), length q + 1)"
    unfolding q using "3.prems" by (intro "3.IH"(2)) auto
  moreover have "comma_separated (map (json_dump fmt) (j # j' # js)) = json_dump fmt j @ COMMA # SPACE # q"
    by (simp add: q)
  ultimately show ?case
    by (subst parse_elements.simps) (simp add: q' c(2) del: list.map comma_separated.simps, simp)
qed simp

lemma obj_put_last: "(\<forall>i \<in> fst ` set m. i < k) \<Longrightarrow> obj_put k v m = m @ [(k, v)]"
  by (induction k v m rule: obj_put.induct) (auto dest: order.asym)

definition pair_text :: "(real \<Rightarrow> str) \<Rightarrow> str \<times> json \<Rightarrow> str" where
  "pair_text fmt = (\<lambda>(k, v). dump_string k @ [COLON, SPACE] @ json_dump fmt v)"

lemma drop_past: "drop (4 + length x) (a # b # c # x @ e # ys) = ys" "drop (6 + length x) (a # b # c # x @ e # g # h # ys) = ys"
  by (simp_all add: eval_nat_numeral)

text \<open>The members behind their first quote.\<close>

lemma parse_members_dump:
  assumes "\<forall>(k, v) \<in> set m. comes_back fmt (d + 1) v" "sorted_wrt (<) (map fst (acc @ m))"
    and "comma_separated (map (pair_text fmt) m) = QUOTE # q"
  shows "parse_members d QUOTE acc (q @ RBRACE # rest) = Some (acc @ map (\<lambda>(k, v). (k, reread v)) m, length q + 1)"
  using assms
proof (induction m arbitrary: acc q rule: induct_list012)
  case (2 kv)
  obtain k v where kv: "kv = (k, v)" by fastforce
  have put: "obj_put k (reread v) acc = acc @ [(k, reread v)]"
    using "2.prems"(2) kv by (intro obj_put_last) (auto simp: sorted_wrt_append)
  have q: "q = dump_chars k @ QUOTE # COLON # SPACE # json_dump fmt v"
    using "2.prems"(3) kv by (simp add: pair_text_def dump_string_def)
  show ?case
    using parse_dump_chars [of "- 1" "[]" k "COLON # SPACE # json_dump fmt v @ RBRACE # rest"]
      comes_backD [of fmt "d + 1" v "RBRACE # rest"] "2.prems"(1)
    by (subst parse_members.simps) (simp add: kv q put parse_json_space)
next
  case (3 kv kv' m)
  obtain k v where kv: "kv = (k, v)" by fastforce
  have put: "obj_put k (reread v) acc = acc @ [(k, reread v)]"
    using "3.prems"(2) kv by (intro obj_put_last) (auto simp: sorted_wrt_append)
  obtain q' where q': "comma_separated (map (pair_text fmt) (kv' # m)) = QUOTE # q'"
    by (cases m; cases kv') (simp_all add: pair_text_def dump_string_def)
  have q: "q = dump_chars k @ QUOTE # COLON # SPACE # json_dump fmt v @ COMMA # SPACE # QUOTE # q'"
    using "3.prems"(3) kv q' by (simp add: pair_text_def dump_string_def)
  have "sorted_wrt (<) (map fst ((acc @ [(k, reread v)]) @ kv' # m))" using "3.prems"(2) kv by simp
  then have "parse_members d QUOTE (acc @ [(k, reread v)]) (q' @ RBRACE # rest)
      = Some ((acc @ [(k, reread v)]) @ map (\<lambda>(k, v). (k, reread v)) (kv' # m), length q' + 1)"
    using "3.prems"(1) q' by (intro "3.IH"(2)) auto
  then show ?case
    using parse_dump_chars [of "- 1" "[]" k "COLON # SPACE # json_dump fmt v @ COMMA # SPACE # QUOTE # q' @ RBRACE # rest"]
      comes_backD [of fmt "d + 1" v "COMMA # SPACE # QUOTE # q' @ RBRACE # rest"] "3.prems"(1)
    by (subst parse_members.simps) (simp add: kv q put parse_json_space drop_past)
qed simp

lemma json_comes_back: "json_ok j \<Longrightarrow> d + json_depth j \<le> 200 \<Longrightarrow> comes_back fmt d j"
proof (induction j arbitrary: d)
  case (JArray js)
  have sub: "\<forall>j \<in> set js. comes_back fmt (d + 1) j \<and> json_ok j"
  proof
    fix j assume "j \<in> set js"
    moreover from this have "json_ok j" "Suc (json_depth j) \<le> json_depth (JArray js)"
      using JArray.prems(1) json_depth_le(1) [of js "json_depth (JArray js)"] by auto
    ultimately show "comes_back fmt (d + 1) j \<and> json_ok j"
      using JArray.IH [of j "d + 1"] JArray.prems(2) by linarith
  qed
  show ?case
  proof (cases js)
    case Nil
    then show ?thesis using JArray.prems(2) by (simp add: comes_back_def parse_json.simps is_digit_def)
  next
    case (Cons j js')
    obtain q where q: "q = comma_separated (map (json_dump fmt) js)" by simp
    obtain c t where c: "json_dump fmt j = c # t" "\<not> is_ws c" "c \<noteq> RBRACK"
      using dump_first [of j fmt] sub Cons by auto
    then obtain t' where q': "q = c # t'" unfolding q Cons by (cases js') auto
    have "parse_json d ((LBRACK # q @ [RBRACK]) @ rest) = Some (JArray (map reread js), length q + 2)" for rest
    proof -
      have "parse_elements d [] (q @ RBRACK # rest) = Some (map reread js, length q + 1)"
        using parse_elements_dump [OF sub, of "[]" rest] Cons by (simp only: q) simp
      then show ?thesis
        using c JArray.prems(2) by (subst parse_json.simps) (simp add: q' is_digit_def)
    qed
    then show ?thesis by (simp add: comes_back_def q)
  qed
next
  case (JObject m)
  have sub: "\<forall>(k, v) \<in> set m. comes_back fmt (d + 1) v"
  proof (intro ballI, clarify)
    fix k v assume kv: "(k, v) \<in> set m"
    moreover from this have "json_ok v" "Suc (json_depth v) \<le> json_depth (JObject m)"
      using JObject.prems(1) json_depth_le(2) [of m "json_depth (JObject m)"] by auto
    ultimately show "comes_back fmt (d + 1) v"
      using JObject.IH [of "(k, v)" v "d + 1"] JObject.prems(2) by (auto intro: snds.intros)
  qed
  show ?case
  proof (cases m)
    case Nil
    then show ?thesis using JObject.prems(2) by (simp add: comes_back_def parse_json.simps is_digit_def)
  next
    case (Cons kv m')
    obtain q where q: "comma_separated (map (pair_text fmt) m) = QUOTE # q"
      unfolding Cons by (cases m'; cases kv) (simp_all add: pair_text_def dump_string_def)
    have sorted: "sorted_wrt (<) (map fst ([] @ m))" using JObject.prems(1) by simp
    have "parse_json d ((LBRACE # (QUOTE # q) @ [RBRACE]) @ rest) = Some (JObject (map (\<lambda>(k, v). (k, reread v)) m), length q + 3)" for rest
      using parse_members_dump [OF sub sorted q, of rest] JObject.prems(2)
      by (subst parse_json.simps) (simp add: is_digit_def)
    then show ?thesis using q by (simp add: comes_back_def pair_text_def case_prod_unfold)
  qed
next
  case (JInt w)
  show ?case unfolding comes_back_def
  proof (intro allI impI)
    fix rest assume "ends_number rest"
    from parse_number_int [OF this, of w] obtain c t where c: "int_text w = c # t" "c = MINUS \<or> is_digit c"
      using dec_text_props [of "nat (sint w)"]
      by (cases "int_text w") (auto simp: int_text_def split: if_splits)
    moreover from c(2) have "\<not> is_ws c" by (auto simp: is_ws_def is_digit_def)
    ultimately show "parse_json d (json_dump fmt (JInt w) @ rest) = Some (reread (JInt w), length (json_dump fmt (JInt w)))"
      using parse_number_int [OF \<open>ends_number rest\<close>, of w] JInt.prems(2) by (simp add: parse_json.simps)
  qed
next
  case (JString s)
  then show ?case
    using parse_dump_chars [of "- 1" "[]" s]
    by (simp add: comes_back_def parse_json.simps is_digit_def dump_string_def)
qed (auto simp: comes_back_def parse_json.simps is_digit_def expect_def text_null_def text_true_def text_false_def is_ws_def)



end
