(* ===== verification/Server_Config.thy ===== *)
theory Server_Config
  imports Json
begin

section \<open>Server configuration and saved state (VoIPServerConfig.cpp, PublicAPI.cpp)\<close>

text \<open>
  Two clients of the JSON library: the configuration that the server sends, which answers the questions for tuning values all over the
  library, and the state that an application saves after a call and gives back before the next one.
\<close>

subsection \<open>The configuration\<close>

text \<open>The state is the parsed value, null at first; \<^verbatim>\<open>Update\<close> replaces it even when the text cannot be parsed.\<close>

definition sc_initial :: json where
  "sc_initial = JNull"

definition sc_update :: "str \<Rightarrow> json" where
  "sc_update text = (case json_parse text of None \<Rightarrow> JNull | Some j \<Rightarrow> j)"

definition contains_key :: "json \<Rightarrow> str \<Rightarrow> bool" where
  "contains_key config key \<longleftrightarrow> map_of (object_items config) key \<noteq> None"

definition get_boolean :: "json \<Rightarrow> str \<Rightarrow> bool \<Rightarrow> bool" where
  "get_boolean config name fallback = (if contains_key config name \<and> is_bool (json_field config name)
     then bool_value (json_field config name) else fallback)"

definition get_double :: "json \<Rightarrow> str \<Rightarrow> real \<Rightarrow> real" where
  "get_double config name fallback = (if contains_key config name \<and> is_number (json_field config name)
     then number_value (json_field config name) else fallback)"

definition get_int :: "json \<Rightarrow> str \<Rightarrow> u32 \<Rightarrow> exn + u32" where
  "get_int config name fallback = (if contains_key config name \<and> is_number (json_field config name)
     then int_value (json_field config name) else Inr fallback)"

text \<open>The unsigned value is the signed one with the same bits.\<close>

definition get_uint :: "json \<Rightarrow> str \<Rightarrow> u32 \<Rightarrow> exn + u32" where
  "get_uint config name fallback = (if contains_key config name \<and> is_number (json_field config name)
     then int_value (json_field config name) else Inr fallback)"

definition get_string :: "json \<Rightarrow> str \<Rightarrow> str \<Rightarrow> str" where
  "get_string config name fallback = (if contains_key config name \<and> is_string (json_field config name)
     then string_value (json_field config name) else fallback)"

subsection \<open>The saved state\<close>

text \<open>What is kept about the proxy: its name and which protocols it could carry.\<close>

record proxy_state =
  last_tested_proxy :: str
  proxy_udp :: bool
  proxy_tcp :: bool

definition key_ver :: str where "key_ver = [118, 101, 114]"
definition key_proxy :: str where "key_proxy = [112, 114, 111, 120, 121]"
definition key_server :: str where "key_server = [115, 101, 114, 118, 101, 114]"
definition key_udp :: str where "key_udp = [117, 100, 112]"
definition key_tcp :: str where "key_tcp = [116, 99, 112]"

lemmas keys_def = key_ver_def key_proxy_def key_server_def key_udp_def key_tcp_def

text \<open>\<^verbatim>\<open>c_str()\<close> ends at the first zero; \<^verbatim>\<open>snprintf\<close> into 128 bytes keeps 127 and its zero.\<close>

definition c_str :: "str \<Rightarrow> str" where
  "c_str s = takeWhile (\<lambda>c. c \<noteq> 0) s"

definition proxy_name :: "str \<Rightarrow> u16 \<Rightarrow> str" where
  "proxy_name addr port = take 127 (c_str addr @ COLON # dec_text (unat port))"

definition obj_of :: "(str \<times> 'v) list \<Rightarrow> (str \<times> 'v) list" where
  "obj_of kvs = fold (\<lambda>(k, v). obj_insert k v) kvs []"

definition get_persistent_state :: "(real \<Rightarrow> str) \<Rightarrow> bool \<Rightarrow> str \<Rightarrow> u16 \<Rightarrow> bool \<Rightarrow> bool \<Rightarrow> str" where
  "get_persistent_state fmt socks5 addr port udp tcp =
     (let obj = obj_of [(key_ver, JInt 1)];
          obj = (if socks5 then obj_insert key_proxy (JObject (obj_of
             [(key_server, JString (proxy_name addr port)), (key_udp, JBool udp), (key_tcp, JBool tcp)])) obj
            else obj) in
      c_str (json_dump fmt (JObject obj)))"

definition set_persistent_state :: "str \<Rightarrow> proxy_state \<Rightarrow> proxy_state" where
  "set_persistent_state text p =
     (if text = [] then p
      else case json_parse text of
        None \<Rightarrow> p
      | Some j \<Rightarrow> (case map_of (object_items j) key_proxy of
          None \<Rightarrow> p
        | Some proxy \<Rightarrow> p\<lparr>last_tested_proxy := string_value (json_field proxy key_server),
            proxy_udp := bool_value (json_field proxy key_udp), proxy_tcp := bool_value (json_field proxy key_tcp)\<rparr>))"

definition init_udp_proxy_skips :: "str \<Rightarrow> u16 \<Rightarrow> proxy_state \<Rightarrow> bool" where
  "init_udp_proxy_skips addr port p \<longleftrightarrow> take 127 (c_str addr @ COLON # dec_text (unat port)) = last_tested_proxy p \<and> \<not> proxy_udp p"

subsection \<open>Properties\<close>

text \<open>The value that the server gave for a name.\<close>

fun served_int :: "json option \<Rightarrow> u32 \<Rightarrow> u32" where
  "served_int (Some (JInt w)) fb = w"
| "served_int _ fb = fb"

fun served_double :: "json option \<Rightarrow> real \<Rightarrow> real" where
  "served_double (Some (JInt w)) fb = of_int (sint w)"
| "served_double _ fb = fb"

fun served_bool :: "json option \<Rightarrow> bool \<Rightarrow> bool" where
  "served_bool (Some (JBool b)) fb = b"
| "served_bool _ fb = fb"

fun served_string :: "json option \<Rightarrow> str \<Rightarrow> str" where
  "served_string (Some (JString s)) fb = s"
| "served_string _ fb = fb"

lemma reread_int_values:
  "is_number (reread_int w)" "\<not> is_bool (reread_int w)" "\<not> is_string (reread_int w)"
  "number_value (reread_int w) = of_int (sint w)" "int_value (reread_int w) = Inr w"
proof -
  show "number_value (reread_int w) = of_int (sint w)" "is_number (reread_int w)" "\<not> is_bool (reread_int w)"
    "\<not> is_string (reread_int w)"
    by (auto simp: reread_int_def)
  have "truncate_real (of_int (sint w)) = sint w" by (simp add: truncate_real_def del: of_int_sint)
  moreover have "word_of_int (sint w) = w" by (metis of_int_sint scast_id)
  ultimately show "int_value (reread_int w) = Inr w"
    using sint_range_size [of w] by (auto simp: reread_int_def word_size simp del: of_int_sint)
qed

lemma map_of_reread: "map_of (map (\<lambda>(k, v). (k, reread v)) m) name = map_option reread (map_of m name)"
  by (induction m) auto

lemma sc_update_dump:
  assumes "json_ok (JObject m)" "json_depth (JObject m) \<le> 200"
  shows "sc_update (json_dump fmt (JObject m)) = JObject (map (\<lambda>(k, v). (k, reread v)) m)"
  using json_comes_back [OF assms(1), of 0 fmt] assms(2)
  by (simp add: sc_update_def json_parse_def comes_back_def consume_whitespace_def)

text \<open>
  What the server sends is what the library reads: after an update with the text of an object, each getter
  gives the value of that name if there is one of the right kind, and its fallback otherwise; integers are exact over the whole range of
  32 bits, although long ones travel as doubles.
\<close>

theorem config_serves_values:
  assumes "json_ok (JObject m)" and "json_depth (JObject m) \<le> 200"
  shows "let c = sc_update (json_dump fmt (JObject m)); v = map_of m name in
      get_int c name i = Inr (served_int v i) \<and> get_uint c name i = Inr (served_int v i)
    \<and> get_double c name x = served_double v x \<and> get_boolean c name b = served_bool v b
    \<and> get_string c name s = served_string v s"
proof (cases "map_of m name")
  case (Some v)
  then have "json_ok v" using assms(1) by (auto dest: map_of_SomeD)
  with Some show ?thesis unfolding sc_update_dump [OF assms] Let_def
    by (cases v) (simp_all add: get_int_def get_uint_def get_double_def get_boolean_def
        get_string_def contains_key_def json_field_def map_of_reread reread_int_values del: of_int_sint)
next
  case None
  then show ?thesis unfolding sc_update_dump [OF assms] Let_def
    by (simp add: get_int_def get_uint_def get_double_def get_boolean_def
        get_string_def contains_key_def json_field_def map_of_reread)
qed

theorem config_serves_values_witness:
  "get_int (sc_update (json_dump (\<lambda>_. []) (JObject [([97], JInt 2000000000), ([98], JBool True)]))) [97] 7 = Inr 2000000000"
  using config_serves_values [of "[([97], JInt 2000000000), ([98], JBool True)]" "\<lambda>_. []" "[97]" 7 0 False "[]"]
  by (simp add: Let_def)

lemma hex_digit_nonzero: "d < 16 \<Longrightarrow> hex_digit d \<noteq> 0"
  by (auto simp: hex_digit_def word_less_nat_alt unat_word_ariths word_unat_eq_iff)

lemma nibbles: "c div 16 < 16" "c mod 16 < (16 :: byte)"
proof -
  show "c mod 16 < 16" by (simp add: word_less_nat_alt unat_mod)
  have "unat c < 256" using unsigned_less [of c, where ?'a = nat] by simp
  then show "c div 16 < 16" by (simp add: word_less_nat_alt unat_div)
qed

lemma dump_chars_nonzero: "0 \<notin> set (dump_chars t)"
proof (induction t rule: length_induct)
  case (1 t)
  show ?case
  proof (cases t)
    case (Cons c s)
    then have "0 \<notin> set (dump_chars s)" "0 \<notin> set (dump_chars (drop 2 s))" using 1 by simp_all
    moreover have "0 \<noteq> hex_digit (c div 16)" "0 \<noteq> hex_digit (c mod 16)"
      using hex_digit_nonzero nibbles [of c] by metis+
    moreover have "c \<noteq> 0" if "\<not> c \<le> 31" using that by auto
    ultimately show ?thesis unfolding Cons by simp
  qed simp
qed

lemma dec_text_nonzero: "0 \<notin> set (dec_text n)"
  using dec_text_props [of n] by (auto simp: list_all_iff is_digit_def)

lemma c_str_id: "0 \<notin> set t \<Longrightarrow> c_str t = t"
  by (induction t) (auto simp: c_str_def)

text \<open>The object that is saved.\<close>

definition saved_object :: "bool \<Rightarrow> str \<Rightarrow> bool \<Rightarrow> bool \<Rightarrow> json" where
  "saved_object socks5 name udp tcp = JObject ((if socks5 then [(key_proxy, JObject
     [(key_server, JString name), (key_tcp, JBool tcp), (key_udp, JBool udp)])] else []) @ [(key_ver, JInt 1)])"

lemma saved_object_ok: "json_ok (saved_object socks5 name udp tcp)" "json_depth (saved_object socks5 name udp tcp) \<le> 200"
  by (simp_all add: saved_object_def keys_def)

lemma saved_object_nonzero: "0 \<notin> set (json_dump fmt (saved_object socks5 name udp tcp))"
  using dump_chars_nonzero [of name] dec_text_nonzero [of "nat 1"]
  by (simp add: saved_object_def keys_def dump_string_def text_true_def text_false_def int_text_def)

lemma get_persistent_state_eq:
  "get_persistent_state fmt socks5 addr port udp tcp = json_dump fmt (saved_object socks5 (proxy_name addr port) udp tcp)"
proof -
  have "get_persistent_state fmt socks5 addr port udp tcp
      = c_str (json_dump fmt (saved_object socks5 (proxy_name addr port) udp tcp))"
    by (simp add: get_persistent_state_def saved_object_def obj_of_def obj_insert_def keys_def Let_def)
  then show ?thesis by (simp only: c_str_id [OF saved_object_nonzero])
qed

text \<open>
  An application that saves the state after a call and gives it back before the next one makes the library remember: the
  name of the proxy (address and port, cut at 127 bytes as in the comparison) and which protocols it carries, whatever bytes the address has;
  so a call with a proxy that could not carry UDP makes the next call with the same proxy
  go without it. Without a proxy the saved state changes nothing.
\<close>

theorem saved_state_comes_back:
  "set_persistent_state (get_persistent_state fmt True addr port udp tcp) p
      = p\<lparr>last_tested_proxy := proxy_name addr port, proxy_udp := udp, proxy_tcp := tcp\<rparr>
    \<and> set_persistent_state (get_persistent_state fmt False addr port udp tcp) p = p
    \<and> (init_udp_proxy_skips addr port (set_persistent_state (get_persistent_state fmt True addr port udp tcp) p) \<longleftrightarrow> \<not> udp)"
proof -
  have parse: "json_parse (json_dump fmt (saved_object b name udp tcp)) = Some (reread (saved_object b name udp tcp))" for b name
    using comes_backD [OF json_comes_back [OF saved_object_ok(1)], of 0 b name udp tcp "[]" fmt] saved_object_ok(2) [of b name udp tcp]
    by (simp add: json_parse_def consume_whitespace_def)
  have ne: "json_dump fmt (saved_object b name udp tcp) \<noteq> []" for b name by (simp add: saved_object_def)
  have "set_persistent_state (get_persistent_state fmt True addr port udp tcp) p
      = p\<lparr>last_tested_proxy := proxy_name addr port, proxy_udp := udp, proxy_tcp := tcp\<rparr>"
    unfolding set_persistent_state_def get_persistent_state_eq parse
    by (simp add: ne) (simp add: saved_object_def keys_def json_field_def)
  moreover have "set_persistent_state (get_persistent_state fmt False addr port udp tcp) p = p"
    unfolding set_persistent_state_def get_persistent_state_eq parse
    by (simp add: ne) (simp add: saved_object_def keys_def json_field_def)
  ultimately show ?thesis by (simp add: init_udp_proxy_skips_def proxy_name_def)
qed

end
