(* ===== verification/Echo.thy ===== *)
theory Echo
  imports Server_Config Buffers Blocking_Queue Sound
begin

section \<open>Echo canceller (controller/audio/EchoCanceller.cpp)\<close>

text \<open>
  The echo canceller hears what is played (the far end) and what is recorded, and hands both in halves
  of 480 samples to an audio processing library. What is played is copied into a buffer from a pool of ten and
  goes through a queue of eleven to a thread of its own. The audio processing itself is not part of the library: its state
  and what it does with a half are arguments.
\<close>

subsection \<open>The far end\<close>

text \<open>
  A buffer of the pool (its slot) with its contents, or the empty buffer that ends the thread. \<open>fe_current\<close> is the buffer that the
  thread is working on; \<open>fe_accepted\<close> and \<open>fe_fed\<close> are ghosts: the frames that entered the queue, and the halves that were
  given to the audio processing.
\<close>

datatype far_item = Frame nat "byte list" | Empty_Buffer

record 'a far_end =
  fe_pool :: pool
  fe_queue :: "far_item bqueue"
  fe_current :: "(nat \<times> byte list) option"
  fe_apm :: 'a
  fe_stopped :: bool
  fe_exited :: bool
  fe_accepted :: "byte list list"
  fe_fed :: "byte list list"

definition far_end_new :: "'a \<Rightarrow> 'a far_end" where
  "far_end_new a = \<lparr>fe_pool = pool_new 10, fe_queue = bq_new 11, fe_current = None, fe_apm = a,
     fe_stopped = False, fe_exited = False, fe_accepted = [], fe_fed = []\<rparr>"

text \<open>\<^verbatim>\<open>SpeakerOutCallback\<close>: without a free buffer the frame is dropped. \<open>None\<close>: the queue aborts the process.\<close>

definition speaker_out :: "bool \<Rightarrow> bool \<Rightarrow> byte list \<Rightarrow> 'a far_end \<Rightarrow> 'a far_end option" where
  "speaker_out enable_aec is_on bs s =
     (if length bs \<noteq> 960 * 2 \<or> \<not> enable_aec \<or> \<not> is_on then Some s
      else case pool_get (fe_pool s) of
        Inl _ \<Rightarrow> Some s
      | Inr (i, p) \<Rightarrow> (case bq_put (Frame i bs) (fe_queue s) of
          None \<Rightarrow> None
        | Some q \<Rightarrow> Some (s\<lparr>fe_pool := p, fe_queue := q, fe_accepted := fe_accepted s @ [bs]\<rparr>)))"

text \<open>
  One round of \<^verbatim>\<open>RunBufferFarendThread\<close>, in two parts: getting a buffer (\<open>None\<close>: it waits), and giving its halves to the audio
  processing; the buffer returns to the pool at the end of the round.
\<close>

definition far_get :: "'a far_end \<Rightarrow> 'a far_end option" where
  "far_get s = (case bq_acquire (fe_queue s) of None \<Rightarrow> None | Some q \<Rightarrow>
     (case bq_get_internal q of None \<Rightarrow> None
      | Some (Empty_Buffer, q1) \<Rightarrow> Some (s\<lparr>fe_queue := q1, fe_exited := True\<rparr>)
      | Some (Frame i bs, q1) \<Rightarrow> Some (s\<lparr>fe_queue := q1, fe_current := Some (i, bs)\<rparr>)))"

definition halves :: "byte list \<Rightarrow> byte list list" where
  "halves bs = [take (480 * 2) bs, take (480 * 2) (drop (480 * 2) bs)]"

definition far_process :: "('a \<Rightarrow> byte list \<Rightarrow> 'a) \<Rightarrow> 'a far_end \<Rightarrow> 'a far_end option" where
  "far_process reverse_stream s = (case fe_current s of None \<Rightarrow> None | Some (i, bs) \<Rightarrow>
     Some (s\<lparr>fe_apm := reverse_stream (reverse_stream (fe_apm s) (take (480 * 2) bs)) (take (480 * 2) (drop (480 * 2) bs)),
       fe_current := None, fe_pool := pool_free i (fe_pool s), fe_fed := fe_fed s @ halves bs\<rparr>))"

text \<open>The destructor puts an empty buffer and waits for the thread.\<close>

definition far_stop :: "'a far_end \<Rightarrow> 'a far_end option" where
  "far_stop s = (case bq_put Empty_Buffer (fe_queue s) of None \<Rightarrow> None
     | Some q \<Rightarrow> Some (s\<lparr>fe_queue := q, fe_stopped := True\<rparr>))"

text \<open>
  The threads in any order: nothing is played any more once the canceller is being destroyed, and the thread takes a
  buffer when it has none.
\<close>

inductive far_step :: "('a \<Rightarrow> byte list \<Rightarrow> 'a) \<Rightarrow> 'a far_end \<Rightarrow> 'a far_end \<Rightarrow> bool" for rev_stream where
  played: "\<not> fe_stopped s \<Longrightarrow> speaker_out aec on bs s = Some t \<Longrightarrow> far_step rev_stream s t"
| got: "fe_current s = None \<Longrightarrow> \<not> fe_exited s \<Longrightarrow> far_get s = Some t \<Longrightarrow> far_step rev_stream s t"
| processed: "far_process rev_stream s = Some t \<Longrightarrow> far_step rev_stream s t"
| stopped: "\<not> fe_stopped s \<Longrightarrow> far_stop s = Some t \<Longrightarrow> far_step rev_stream s t"

inductive far_reach :: "('a \<Rightarrow> byte list \<Rightarrow> 'a) \<Rightarrow> 'a \<Rightarrow> 'a far_end \<Rightarrow> bool" for rev_stream a where
  start: "far_reach rev_stream a (far_end_new a)"
| step: "far_reach rev_stream a s \<Longrightarrow> far_step rev_stream s t \<Longrightarrow> far_reach rev_stream a t"

subsection \<open>The near end\<close>

text \<open>The noise suppression level that the server asks for.\<close>

datatype ns_level = NsLow | NsModerate | NsHigh | NsVeryHigh

definition ns_level_of :: "u32 \<Rightarrow> ns_level" where
  "ns_level_of n = (if n = 0 then NsLow else if n = 1 then NsModerate else if n = 3 then NsVeryHigh else NsHigh)"

definition key_ns_level :: str where
  "key_ns_level = [119, 101, 98, 114, 116, 99, 95, 110, 115, 95, 108, 101, 118, 101, 108]"

definition chosen_ns_level :: "json \<Rightarrow> exn + ns_level" where
  "chosen_ns_level config = bind_res (get_int config key_ns_level 2) (\<lambda>n. Inr (ns_level_of n))"

record canceller =
  enable_aec :: bool
  enable_agc :: bool
  enable_ns :: bool
  enable_vad :: bool
  is_on :: bool

definition canceller_new :: "bool \<Rightarrow> bool \<Rightarrow> bool \<Rightarrow> canceller" where
  "canceller_new aec ns agc = \<lparr>enable_aec = aec, enable_agc = agc, enable_ns = ns, enable_vad = False, is_on = True\<rparr>"

definition canceller_enable :: "bool \<Rightarrow> canceller \<Rightarrow> canceller" where
  "canceller_enable b c = c\<lparr>is_on := b\<rparr>"

definition set_voice_detection :: "bool \<Rightarrow> canceller \<Rightarrow> canceller" where
  "set_voice_detection b c = c\<lparr>enable_vad := b\<rparr>"

text \<open>
  The audio processing: the estimated delay is set, a frame of 480 samples is processed (\<open>process\<close> says what each of its
  samples becomes), and it may be asked whether it heard a voice.
\<close>

record 'a apm =
  set_delay :: "int \<Rightarrow> 'a \<Rightarrow> 'a"
  process :: "'a \<Rightarrow> sample list \<Rightarrow> (nat \<Rightarrow> sample) \<times> 'a"
  has_voice :: "'a \<Rightarrow> bool"

definition process_half :: "'a apm \<Rightarrow> canceller \<Rightarrow> int \<Rightarrow> sample list \<Rightarrow> 'a \<Rightarrow> sample list \<times> 'a" where
  "process_half ap c delay x a = (let a1 = (if enable_aec c then set_delay ap delay a else a);
     (y, a2) = process ap a1 x in (map y [0..<480], a2))"

text \<open>\<^verbatim>\<open>ProcessInput\<close>: the samples and the flag \<^verbatim>\<open>hasVoice\<close> are changed in place.\<close>

definition process_input :: "'a apm \<Rightarrow> canceller \<Rightarrow> int \<Rightarrow> int \<Rightarrow> sample list \<Rightarrow> bool \<Rightarrow> 'a \<Rightarrow> exn + sample list \<times> bool \<times> 'a" where
  "process_input ap c in_delay out_delay x voice a =
     (if \<not> is_on c \<or> (\<not> enable_aec c \<and> \<not> enable_agc c \<and> \<not> enable_ns c) then Inr (x, voice, a)
      else if length x \<noteq> 960 then Inl AssertFail
      else let delay = in_delay + out_delay;
          (y, a1) = process_half ap c delay (take 480 x) a;
          v1 = (if enable_vad c then has_voice ap a1 else voice);
          (z, a2) = process_half ap c delay (drop 480 x) a1;
          v2 = (if enable_vad c then v1 \<or> has_voice ap a2 else v1) in
        Inr (y @ z, v2, a2))"

subsection \<open>The slots of the pool\<close>

text \<open>
  Buffers come back in the order in which they were taken, so the slots in use are consecutive and end before the offset of
  the pool. This is why the pool's search, which looks at one slot only, is enough here.
\<close>

definition ring :: "nat \<Rightarrow> nat \<Rightarrow> nat list" where
  "ring k n = map (\<lambda>j. (k + j) mod 10) [0..<n]"

lemma ring_snoc: "ring k (Suc n) = ring k n @ [(k + n) mod 10]"
  by (simp add: ring_def)

lemma ring_Cons: "ring k (Suc n) = (k mod 10) # ring (Suc k) n"
  by (simp add: ring_def upt_conv_Cons map_Suc_upt [symmetric] del: upt_Suc)

lemma length_ring [simp]: "length (ring k n) = n"
  by (simp add: ring_def)

lemma distinct_ring: "n \<le> 10 \<Longrightarrow> distinct (ring k n)"
proof -
  assume n: "n \<le> 10"
  have "i = j" if "(k + i) mod 10 = (k + j) mod 10" "i \<le> j" "j < n" for i j
  proof -
    have "10 dvd (k + j) - (k + i)" using that(1,2) by (intro mod_eq_dvd_iff_nat [THEN iffD1]) simp_all
    then show ?thesis using that n by (auto dest!: dvd_imp_le)
  qed
  then have "i = j" if "(k + i) mod 10 = (k + j) mod 10" "i < n" "j < n" for i j
    using that by (cases "i \<le> j") (blast, metis linorder_le_cases)
  then have "inj_on (\<lambda>j. (k + j) mod 10) (set [0..<n])" by (intro inj_onI) (simp only: set_upt atLeastLessThan_iff)
  then show ?thesis by (simp only: ring_def distinct_map distinct_upt simp_thms)
qed

definition slots_ok :: "pool \<Rightarrow> nat list \<Rightarrow> bool" where
  "slots_ok p ss \<longleftrightarrow> length ss \<le> 10 \<and> length (used p) = 10 \<and> (\<forall>i < 10. used p ! i \<longleftrightarrow> i \<in> set ss)
     \<and> (\<exists>k. ss = ring k (length ss) \<and> poff p = (k + length ss) mod 10)"

lemma slots_ok_new: "slots_ok (pool_new 10) []"
  by (auto simp: slots_ok_def pool_new_def ring_def intro: exI [of _ 0])

lemma slots_get:
  assumes "slots_ok p ss"
  shows "pool_get p = (if length ss = 10 then Inl BadAlloc
      else Inr (poff p, p\<lparr>used := (used p)[poff p := True], poff := (poff p + 1) mod 10\<rparr>))"
    and "length ss \<noteq> 10 \<Longrightarrow> slots_ok (p\<lparr>used := (used p)[poff p := True], poff := (poff p + 1) mod 10\<rparr>) (ss @ [poff p])"
proof -
  from assms obtain k where k: "ss = ring k (length ss)" "poff p = (k + length ss) mod 10"
    by (auto simp: slots_ok_def)
  have len: "length (used p) = 10" "length ss \<le> 10" and u: "\<forall>i < 10. used p ! i \<longleftrightarrow> i \<in> set ss"
    using assms by (auto simp: slots_ok_def)
  have "poff p \<in> set ss \<longleftrightarrow> length ss = 10"
  proof (cases "length ss = 10")
    case True
    then have "ss = k mod 10 # ring (Suc k) 9" using k(1) ring_Cons [of k 9] by simp
    then show ?thesis using k(2) True by (metis list.set_intros(1) mod_add_self2)
  next
    case False
    then have "distinct (ring k (Suc (length ss)))" using len(2) by (intro distinct_ring) simp
    then show ?thesis using False k by (simp add: ring_snoc)
  qed
  moreover have "poff p < 10" using k(2) by simp
  ultimately show "pool_get p = (if length ss = 10 then Inl BadAlloc
      else Inr (poff p, p\<lparr>used := (used p)[poff p := True], poff := (poff p + 1) mod 10\<rparr>))"
    using len u by (simp add: pool_get_def pool_get_loop_eq)
  show "slots_ok (p\<lparr>used := (used p)[poff p := True], poff := (poff p + 1) mod 10\<rparr>) (ss @ [poff p])" if "length ss \<noteq> 10"
    unfolding slots_ok_def
  proof (intro conjI exI [of _ k])
    show "ss @ [poff p] = ring k (length (ss @ [poff p]))" using k by (simp add: ring_snoc)
  qed (use that len u k \<open>poff p < 10\<close> in \<open>auto simp: nth_list_update mod_simps\<close>)
qed

lemma slots_free: "slots_ok p (i # ss) \<Longrightarrow> slots_ok (pool_free i p) ss"
proof -
  assume *: "slots_ok p (i # ss)"
  then obtain k where k: "i # ss = ring k (Suc (length ss))" "poff p = (k + Suc (length ss)) mod 10"
    by (auto simp: slots_ok_def)
  then have "ss = ring (Suc k) (length ss)" "i = k mod 10" by (simp_all add: ring_Cons)
  moreover have "distinct (i # ss)" unfolding k(1) using * by (intro distinct_ring) (simp add: slots_ok_def)
  ultimately show ?thesis using * k(2)
    by (auto simp: slots_ok_def pool_free_def nth_list_update intro!: exI [of _ "Suc k"])
qed

subsection \<open>The far end is heard in order\<close>

text \<open>The buffers that are on their way: the one the thread works on, and those in the queue.\<close>

definition pending :: "'a far_end \<Rightarrow> (nat \<times> byte list) list" where
  "pending s = (case fe_current s of None \<Rightarrow> [] | Some x \<Rightarrow> [x])
     @ concat (map (\<lambda>x. case x of Frame i bs \<Rightarrow> [(i, bs)] | Empty_Buffer \<Rightarrow> []) (bq_items (fe_queue s)))"

definition far_inv :: "('a \<Rightarrow> byte list \<Rightarrow> 'a) \<Rightarrow> 'a \<Rightarrow> 'a far_end \<Rightarrow> bool" where
  "far_inv rev_stream a s \<longleftrightarrow> slots_ok (fe_pool s) (map fst (pending s))
     \<and> bq_capacity (fe_queue s) = 11 \<and> bq_sem (fe_queue s) = length (bq_items (fe_queue s))
     \<and> (\<exists>gs. bq_items (fe_queue s) = gs @ (if fe_stopped s \<and> \<not> fe_exited s then [Empty_Buffer] else [])
          \<and> Empty_Buffer \<notin> set gs)
     \<and> (fe_exited s \<longrightarrow> fe_stopped s \<and> pending s = [])
     \<and> concat (map halves (fe_accepted s)) = fe_fed s @ concat (map halves (map snd (pending s)))
     \<and> fe_apm s = foldl rev_stream a (fe_fed s)"

lemma length_frames:
  "Empty_Buffer \<notin> set gs \<Longrightarrow> length (concat (map (\<lambda>x. case x of Frame i bs \<Rightarrow> [(i, bs)] | Empty_Buffer \<Rightarrow> []) gs)) = length gs"
  by (induction gs) (auto split: far_item.splits)

lemma far_inv_start: "far_inv rev_stream a (far_end_new a)"
  by (simp add: far_inv_def far_end_new_def pending_def bq_new_def slots_ok_new)

lemma queue_length:
  assumes "far_inv rev_stream a s"
  shows "length (bq_items (fe_queue s)) \<le> length (pending s) + (if fe_stopped s \<and> \<not> fe_exited s then 1 else 0)"
    and "length (pending s) \<le> 10"
proof -
  from assms obtain gs where "bq_items (fe_queue s) = gs @ (if fe_stopped s \<and> \<not> fe_exited s then [Empty_Buffer] else [])"
      "Empty_Buffer \<notin> set gs"
    by (auto simp: far_inv_def)
  then show "length (bq_items (fe_queue s)) \<le> length (pending s) + (if fe_stopped s \<and> \<not> fe_exited s then 1 else 0)"
    using length_frames [of gs] by (simp add: pending_def)
  show "length (pending s) \<le> 10" using assms by (simp add: far_inv_def slots_ok_def)
qed

text \<open>What playing a frame does: it is queued, or dropped when ten buffers are on their way.\<close>

lemma speaker_out_cases:
  assumes "far_inv rev_stream a s" "\<not> fe_stopped s"
  obtains "speaker_out aec on bs s = Some s" "length bs \<noteq> 1920 \<or> \<not> aec \<or> \<not> on \<or> length (pending s) = 10"
  | t i where "speaker_out aec on bs s = Some t" "length (pending s) < 10" "length bs = 1920" "aec" "on"
      "pending t = pending s @ [(i, bs)]" "far_inv rev_stream a t" "fe_accepted t = fe_accepted s @ [bs]"
      "fe_stopped t = fe_stopped s"
proof -
  from assms(1) have slots: "slots_ok (fe_pool s) (map fst (pending s))" by (simp add: far_inv_def)
  show thesis
  proof (cases "length bs \<noteq> 1920 \<or> \<not> aec \<or> \<not> on \<or> length (pending s) = 10")
    case True
    with slots_get(1) [OF slots] show thesis by (intro that(1)) (auto simp: speaker_out_def)
  next
    case False
    let ?i = "poff (fe_pool s)"
    let ?p = "(fe_pool s)\<lparr>used := (used (fe_pool s))[?i := True], poff := (?i + 1) mod 10\<rparr>"
    let ?q = "(fe_queue s)\<lparr>bq_items := bq_items (fe_queue s) @ [Frame ?i bs], bq_sem := bq_sem (fe_queue s) + 1\<rparr>"
    let ?t = "s\<lparr>fe_pool := ?p, fe_queue := ?q, fe_accepted := fe_accepted s @ [bs]\<rparr>"
    have len: "length (pending s) < 10" using queue_length(2) [OF assms(1)] False by simp
    have put: "bq_put (Frame ?i bs) (fe_queue s) = Some ?q"
      using queue_length [OF assms(1)] assms len by (simp add: bq_put_def far_inv_def Let_def)
    have pend: "pending ?t = pending s @ [(?i, bs)]" by (simp add: pending_def)
    have inv: "far_inv rev_stream a ?t"
      using assms slots_get(2) [OF slots] len unfolding far_inv_def pend by auto
    show thesis
      using that(2) [OF _ len, of ?t ?i] False pend inv slots_get(1) [OF slots] put len
      by (simp add: speaker_out_def)
  qed
qed

lemma far_get_inv:
  assumes "far_inv rev_stream a s" "fe_current s = None" "\<not> fe_exited s" "far_get s = Some t"
  shows "far_inv rev_stream a t"
proof -
  from assms(1) obtain gs where gs: "bq_items (fe_queue s) = gs @ (if fe_stopped s then [Empty_Buffer] else [])"
      "Empty_Buffer \<notin> set gs"
    using assms(3) by (auto simp: far_inv_def)
  from assms(4) obtain x xs where items: "bq_items (fe_queue s) = x # xs"
    by (cases "bq_items (fe_queue s)") (auto simp: far_get_def bq_acquire_def bq_get_internal_def split: if_splits)
  show ?thesis
  proof (cases x)
    case Empty_Buffer
    then have "gs = []" using gs items by (cases gs) auto
    then have "xs = []" "fe_stopped s" using gs items by (auto split: if_splits)
    moreover have "pending s = []" "pending t = []"
      using assms items Empty_Buffer calculation
      by (auto simp: pending_def far_get_def bq_acquire_def bq_get_internal_def split: if_splits)
    ultimately show ?thesis
      using assms items Empty_Buffer
      by (auto simp: far_inv_def far_get_def bq_acquire_def bq_get_internal_def split: if_splits)
  next
    case (Frame i bs)
    then obtain gs' where "gs = x # gs'" using gs items by (cases gs) (auto split: if_splits)
    then have xs: "xs = gs' @ (if fe_stopped s then [Empty_Buffer] else [])" "Empty_Buffer \<notin> set gs'"
      using gs items by auto
    have t: "t = s\<lparr>fe_queue := (fe_queue s)\<lparr>bq_items := xs, bq_sem := bq_sem (fe_queue s) - 1\<rparr>, fe_current := Some (i, bs)\<rparr>"
      using assms(4) items Frame by (auto simp: far_get_def bq_acquire_def bq_get_internal_def split: if_splits)
    have "pending t = pending s" using assms(2) items Frame by (simp add: t pending_def)
    with assms xs items show ?thesis unfolding far_inv_def by (simp add: t)
  qed
qed

lemma far_process_inv: "far_inv rev_stream a s \<Longrightarrow> far_process rev_stream s = Some t \<Longrightarrow> far_inv rev_stream a t"
proof -
  assume inv: "far_inv rev_stream a s" and "far_process rev_stream s = Some t"
  then obtain i bs where cur: "fe_current s = Some (i, bs)"
    and t: "t = s\<lparr>fe_apm := foldl rev_stream (fe_apm s) (halves bs), fe_current := None, fe_pool := pool_free i (fe_pool s),
      fe_fed := fe_fed s @ halves bs\<rparr>"
    by (auto simp: far_process_def halves_def split: option.splits)
  have "pending s = (i, bs) # pending t" using cur by (simp add: t pending_def)
  moreover have "fe_queue t = fe_queue s" "fe_stopped t = fe_stopped s" "fe_exited t = fe_exited s"
      "fe_accepted t = fe_accepted s" "fe_pool t = pool_free i (fe_pool s)" "fe_fed t = fe_fed s @ halves bs"
      "fe_apm t = foldl rev_stream (fe_apm s) (halves bs)"
    by (simp_all add: t)
  ultimately show ?thesis
    using inv slots_free [of "fe_pool s" i "map fst (pending t)"] unfolding far_inv_def by auto
qed

lemma far_stop_inv:
  assumes "far_inv rev_stream a s" "\<not> fe_stopped s"
  obtains t where "far_stop s = Some t" "far_inv rev_stream a t"
proof -
  let ?q = "(fe_queue s)\<lparr>bq_items := bq_items (fe_queue s) @ [Empty_Buffer], bq_sem := bq_sem (fe_queue s) + 1\<rparr>"
  have "bq_put Empty_Buffer (fe_queue s) = Some ?q"
    using queue_length [OF assms(1)] assms by (simp add: bq_put_def far_inv_def Let_def)
  moreover have "pending (s\<lparr>fe_queue := ?q, fe_stopped := True\<rparr>) = pending s" by (simp add: pending_def)
  ultimately show thesis
    using assms by (intro that [of "s\<lparr>fe_queue := ?q, fe_stopped := True\<rparr>"]) (auto simp: far_stop_def far_inv_def)
qed

inductive_cases far_stepE: "far_step rev_stream s t"

lemma far_reach_inv: "far_reach rev_stream a s \<Longrightarrow> far_inv rev_stream a s"
proof (induction rule: far_reach.induct)
  case (step s t)
  from step.hyps(2) show ?case
  proof (cases rule: far_step.cases)
    case (played aec on bs)
    then show ?thesis using speaker_out_cases [OF step.IH, of aec on bs] step.IH by (metis option.inject)
  next
    case stopped
    then show ?thesis using far_stop_inv [OF step.IH] by (metis option.inject)
  next
    case got
    then show ?thesis using far_get_inv [OF step.IH] by simp
  next
    case processed
    then show ?thesis using far_process_inv [OF step.IH] by simp
  qed
qed (rule far_inv_start)

lemma far_progress:
  assumes "far_inv rev_stream a s" "pending s \<noteq> [] \<or> fe_stopped s \<and> \<not> fe_exited s"
  shows "(\<exists>t. far_process rev_stream s = Some t) \<or> (fe_current s = None \<and> (\<exists>t. far_get s = Some t))"
proof (cases "fe_current s")
  case None
  have "bq_items (fe_queue s) \<noteq> []"
    using assms None by (auto simp: far_inv_def pending_def split: if_splits)
  then obtain x xs where "bq_items (fe_queue s) = x # xs" by (cases "bq_items (fe_queue s)") auto
  moreover have "bq_sem (fe_queue s) = length (bq_items (fe_queue s))" using assms(1) by (simp add: far_inv_def)
  ultimately have "\<exists>t. far_get s = Some t"
    by (cases x) (simp_all add: far_get_def bq_acquire_def bq_get_internal_def)
  then show ?thesis using None by simp
qed (auto simp: far_process_def)

text \<open>
  C19: however the threads interleave, the echo canceller hears what is played: the halves given to the audio processing, together with those of the
  buffers on their way, are the halves of the accepted frames in order, and when the thread has ended nothing is
  missing. A frame is dropped only when ten buffers are on their way, so the pool's search never fails while a buffer is free; the queue of
  eleven never overflows, not even when the destructor adds the empty buffer; and the
  thread never gets stuck while there is something to do.
\<close>

theorem echo_hears_what_is_played:
  assumes "far_reach rev_stream a s"
  shows "concat (map halves (fe_accepted s)) = fe_fed s @ concat (map halves (map snd (pending s)))
    \<and> fe_apm s = foldl rev_stream a (fe_fed s)
    \<and> (fe_exited s \<longrightarrow> fe_fed s = concat (map halves (fe_accepted s)))
    \<and> (\<not> fe_stopped s \<longrightarrow> far_stop s \<noteq> None
        \<and> (length bs = 1920 \<and> length (pending s) < 10 \<longrightarrow>
            (\<exists>t. speaker_out True True bs s = Some t \<and> fe_accepted t = fe_accepted s @ [bs]))
        \<and> (length (pending s) = 10 \<longrightarrow> speaker_out True True bs s = Some s))
    \<and> (pending s \<noteq> [] \<or> fe_stopped s \<and> \<not> fe_exited s \<longrightarrow>
        (\<exists>t. far_process rev_stream s = Some t) \<or> (fe_current s = None \<and> (\<exists>t. far_get s = Some t)))"
proof -
  note inv = far_reach_inv [OF assms]
  have "far_stop s \<noteq> None" if "\<not> fe_stopped s"
    using far_stop_inv [OF inv that] by (metis option.distinct(1))
  moreover have "(length bs = 1920 \<and> length (pending s) < 10 \<longrightarrow>
            (\<exists>t. speaker_out True True bs s = Some t \<and> fe_accepted t = fe_accepted s @ [bs]))
        \<and> (length (pending s) = 10 \<longrightarrow> speaker_out True True bs s = Some s)" if "\<not> fe_stopped s"
    by (rule speaker_out_cases [OF inv that, of True True bs]) auto
  moreover note far_progress [OF inv]
  ultimately show ?thesis using inv by (auto simp: far_inv_def)
qed

theorem echo_hears_what_is_played_witness:
  "\<exists>s. far_reach (\<lambda>n h. n + length h) (0 :: nat) s \<and> fe_accepted s = [replicate 1920 7]
     \<and> concat (map halves (fe_accepted s)) = fe_fed s @ concat (map halves (map snd (pending s)))"
proof -
  let ?rev = "\<lambda>n h. n + length (h :: byte list)" and ?bs = "replicate 1920 (7 :: byte)" and ?s = "far_end_new (0 :: nat)"
  have 0: "far_reach ?rev 0 ?s" by (rule far_reach.start)
  have s: "\<not> fe_stopped ?s" "length (pending ?s) < 10" "fe_accepted ?s = []"
    by (simp_all add: far_end_new_def pending_def bq_new_def)
  obtain t where t: "speaker_out True True ?bs ?s = Some t" "fe_accepted t = [?bs]"
    using echo_hears_what_is_played [OF 0, of ?bs] s by fastforce
  then have 1: "far_reach ?rev 0 t"
    using far_reach.step [OF 0 far_step.played] s(1) by blast
  with echo_hears_what_is_played [OF 1, of ?bs] t(2) show ?thesis by blast
qed

subsection \<open>The near end keeps the frame\<close>

lemma length_process_half [simp]: "length (fst (process_half ap c delay x a)) = 480"
  by (simp add: process_half_def case_prod_unfold Let_def)

text \<open>
  When the canceller is off or nothing is enabled, a frame passes unchanged; otherwise it has to be a whole frame and
  keeps its length; without voice detection the flag is not touched; and with it, a voice in either half is reported.
\<close>

lemma process_input_behaviour:
  "\<not> is_on c \<or> (\<not> enable_aec c \<and> \<not> enable_agc c \<and> \<not> enable_ns c) \<Longrightarrow> process_input ap c i j x v a = Inr (x, v, a)"
  "process_input ap c i j x v a = Inr (y, w, b) \<Longrightarrow> length y = length x"
  "process_input ap c i j x v a = Inr (y, w, b) \<Longrightarrow> \<not> enable_vad c \<Longrightarrow> w = v"
  by (auto simp: process_input_def Let_def case_prod_unfold split: if_splits)

lemma ns_level_default: "chosen_ns_level sc_initial = Inr NsHigh"
  by (simp add: chosen_ns_level_def get_int_def contains_key_def sc_initial_def ns_level_of_def)

end
