(* ===== verification/Facade.thy ===== *)
theory Facade
  imports Invariant Server_Config
begin

section \<open>The interface for applications (TgVoip.cpp)\<close>

text \<open>
  \<^verbatim>\<open>TgVoipImpl\<close> hides the controller from an application: it is constructed from everything a call needs, passes
  settings on in its own types, and ends the call with a summary. It calls the public functions of the controller
  in a fixed order; here these are the operations of the other theories, so that what an application gives is followed into
  the state of the call.
\<close>

subsection \<open>Types\<close>

datatype tg_endpoint_type = Tg_Inet | Tg_Lan | Tg_Udp_Relay | Tg_Tcp_Relay

datatype tg_net = Tg_Unknown | Tg_Gprs | Tg_Edge | Tg_Third_Generation | Tg_Hspa | Tg_Lte | Tg_WiFi | Tg_Ethernet
  | Tg_Other_High | Tg_Other_Low | Tg_Other_Mobile | Tg_Dialup

datatype tg_saving = Tg_Never | Tg_Mobile | Tg_Always

datatype tg_state = Tg_Wait_Init | Tg_Wait_Init_Ack | Tg_Established | Tg_Failed | Tg_Reconnecting

fun mapped_type :: "tg_endpoint_type \<Rightarrow> ep_type" where
  "mapped_type Tg_Udp_Relay = UDP_RELAY"
| "mapped_type Tg_Lan = UDP_P2P_LAN"
| "mapped_type Tg_Inet = UDP_P2P_INET"
| "mapped_type Tg_Tcp_Relay = TCP_RELAY"

fun mapped_net :: "tg_net \<Rightarrow> net_type" where
  "mapped_net Tg_Unknown = Net_Unknown"
| "mapped_net Tg_Gprs = Net_GPRS"
| "mapped_net Tg_Edge = Net_EDGE"
| "mapped_net Tg_Third_Generation = Net_3G"
| "mapped_net Tg_Hspa = Net_HSPA"
| "mapped_net Tg_Lte = Net_LTE"
| "mapped_net Tg_WiFi = Net_WiFi"
| "mapped_net Tg_Ethernet = Net_Ethernet"
| "mapped_net Tg_Other_High = Net_Other_High"
| "mapped_net Tg_Other_Low = Net_Other_Low"
| "mapped_net Tg_Other_Mobile = Net_Other_Mobile"
| "mapped_net Tg_Dialup = Net_Dialup"

fun mapped_saving :: "tg_saving \<Rightarrow> nat" where
  "mapped_saving Tg_Mobile = 1"
| "mapped_saving Tg_Always = 2"
| "mapped_saving Tg_Never = 0"

text \<open>What the application hears of the states, if it has set a function for them.\<close>

fun mapped_state :: "call_state \<Rightarrow> tg_state" where
  "mapped_state Wait_Init = Tg_Wait_Init"
| "mapped_state Wait_Init_Ack = Tg_Wait_Init_Ack"
| "mapped_state Established = Tg_Established"
| "mapped_state Failed = Tg_Failed"
| "mapped_state Reconnecting = Tg_Reconnecting"

definition state_callback :: "bool \<Rightarrow> call_state \<Rightarrow> tg_state option" where
  "state_callback has_function st = (if has_function then Some (mapped_state st) else None)"

fun last_error_text :: "call_error \<Rightarrow> string" where
  "last_error_text Error_Incompatible = ''ERROR_INCOMPATIBLE''"
| "last_error_text Error_Timeout = ''ERROR_TIMEOUT''"
| "last_error_text Error_Audio_IO = ''ERROR_AUDIO_IO''"
| "last_error_text Error_Proxy = ''ERROR_PROXY''"
| "last_error_text Error_Unknown = ''ERROR_UNKNOWN''"

text \<open>The hosts are given as texts, whose conversion to addresses is that of the system.\<close>

record tg_endpoint =
  te_id :: int
  te_port :: u16
  te_v4 :: naddr
  te_v6 :: naddr
  te_type :: tg_endpoint_type
  te_tag :: "byte list"

record tg_config =
  tc_init_timeout :: real
  tc_recv_timeout :: real
  tc_saving :: tg_saving
  tc_p2p :: bool
  tc_upgrade :: bool
  tc_layer :: int

record tg_call =
  ta_endpoints :: "tg_endpoint list"
  ta_saved :: str
  ta_proxy :: "(str \<times> u16) option"
  ta_config :: tg_config
  ta_net :: tg_net
  ta_key :: "byte list"
  ta_outgoing :: bool

definition mapped_endpoint :: "env \<Rightarrow> tg_endpoint \<Rightarrow> endpoint" where
  "mapped_endpoint env e = endpoint_new env (te_id e) (te_port e) (te_v4 e) (te_v6 e) (mapped_type (te_type e)) (te_tag e)"

definition mapped_config :: "tg_config \<Rightarrow> config" where
  "mapped_config c = \<lparr>c_init_timeout = tc_init_timeout c, c_recv_timeout = tc_recv_timeout c,
     c_data_saving = mapped_saving (tc_saving c), c_call_upgrade = tc_upgrade c, c_video_send = False, c_video_recv = False\<rparr>"

subsection \<open>The life of an instance\<close>

text \<open>
  The pointer to the controller, null after \<^verbatim>\<open>stop\<close>; the proxy; what the saved state said about the proxy
  tested last (whether it carries UDP is a field of the controller).
\<close>

record tg_instance =
  ti_call :: "controller option"
  ti_proxy :: "(str \<times> u16) option"
  ti_tested :: proxy_state

definition untested :: proxy_state where
  "untested = \<lparr>last_tested_proxy = [], proxy_udp = True, proxy_tcp = True\<rparr>"

text \<open>\<^verbatim>\<open>Start\<close>: when the UDP socket cannot be opened, the call has failed, but no caller asks.\<close>

definition start_call :: "env \<Rightarrow> bool \<Rightarrow> 'z routing_scheme \<Rightarrow> 'z routing_scheme" where
  "start_call env opened s = (if opened then s\<lparr>run_receiver := True\<rparr> else set_state env Failed s)"

text \<open>
  The constructor, on a new controller \<open>c\<close>: saved state, proxy, configuration, network, key, endpoints, start, connection.
  \<open>itf\<close> and \<open>v6\<close> are the name and the IPv6 address of the local interface.
\<close>

definition make_instance :: "env \<Rightarrow> bool \<Rightarrow> string \<Rightarrow> naddr \<Rightarrow> controller \<Rightarrow> tg_call \<Rightarrow> exn + tg_instance" where
  "make_instance env opened itf v6 c a =
     (let p = set_persistent_state (ta_saved a) untested;
          c1 = c\<lparr>proxy_supports_udp := proxy_udp p, via_socks5 := (ta_proxy a \<noteq> None)\<rparr>;
          c2 = set_network_type env (mapped_net (ta_net a)) itf v6 (set_config env (mapped_config (ta_config a)) c1) in
      bind_res (set_encryption_key (crypto env) (ta_key a) (ta_outgoing a)) (\<lambda>k.
      bind_res (set_remote_endpoints (map (mapped_endpoint env) (ta_endpoints a)) (tc_p2p (ta_config a)) (tc_layer (ta_config a))
          (c2\<lparr>cur_keys := k\<rparr>)) (\<lambda>c3.
      bind_res (connect env (start_call env opened c3)) (\<lambda>c4.
        Inr \<lparr>ti_call = Some c4, ti_proxy = ta_proxy a, ti_tested = p\<rparr>))))"

text \<open>The functions of the interface reach the controller through the pointer: after \<^verbatim>\<open>stop\<close> it is null.\<close>

definition on_call :: "tg_instance \<Rightarrow> (controller \<Rightarrow> 'a) \<Rightarrow> exn + 'a" where
  "on_call i f = (case ti_call i of None \<Rightarrow> Inl Undefined | Some s \<Rightarrow> Inr (f s))"

definition instance_set_net :: "env \<Rightarrow> string \<Rightarrow> naddr \<Rightarrow> tg_net \<Rightarrow> tg_instance \<Rightarrow> exn + tg_instance" where
  "instance_set_net env itf v6 t i = on_call i (\<lambda>s. i\<lparr>ti_call := Some (set_network_type env (mapped_net t) itf v6 s)\<rparr>)"

definition instance_set_mute :: "env \<Rightarrow> bool \<Rightarrow> tg_instance \<Rightarrow> exn + tg_instance" where
  "instance_set_mute env m i = on_call i (\<lambda>s. i\<lparr>ti_call := Some (set_mic_mute env m s)\<rparr>)"

definition instance_last_error :: "tg_instance \<Rightarrow> exn + string" where
  "instance_last_error i = on_call i (\<lambda>s. last_error_text (last_error s))"

definition instance_relay :: "tg_instance \<Rightarrow> exn + int" where
  "instance_relay i = on_call i preferred_relay"

definition need_rating :: "env \<Rightarrow> 'z routing_scheme \<Rightarrow> bool" where
  "need_rating env s \<longleftrightarrow> need_rate s \<and> cfg_bool env ''bad_call_rating'' False"

definition saved_text :: "(real \<Rightarrow> str) \<Rightarrow> tg_instance \<Rightarrow> controller \<Rightarrow> str" where
  "saved_text fmt i s = (case ti_proxy i of
     None \<Rightarrow> get_persistent_state fmt False [] 0 (proxy_supports_udp s) (proxy_tcp (ti_tested i))
   | Some (addr, port) \<Rightarrow> get_persistent_state fmt True addr port (proxy_supports_udp s) (proxy_tcp (ti_tested i)))"

record tg_final =
  tf_saved :: str
  tf_sent_wifi :: u64
  tf_received_wifi :: u64
  tf_sent_mobile :: u64
  tf_received_mobile :: u64
  tf_rating :: bool

text \<open>
  \<^verbatim>\<open>stop\<close> asks the call to stop (\<open>stop_call\<close>), waits until the threads have ended, and then reads the summary
  and deletes the controller. (The debug log is left out.)
\<close>

definition begin_stop :: "tg_instance \<Rightarrow> exn + tg_instance" where
  "begin_stop i = on_call i (\<lambda>s. i\<lparr>ti_call := Some (stop_call s)\<rparr>)"

definition end_stop :: "env \<Rightarrow> (real \<Rightarrow> str) \<Rightarrow> tg_instance \<Rightarrow> exn + tg_final \<times> tg_instance" where
  "end_stop env fmt i = on_call i (\<lambda>s.
     (\<lparr>tf_saved = saved_text fmt i s, tf_sent_wifi = bytes_sent_wifi s, tf_received_wifi = bytes_recv_wifi s,
       tf_sent_mobile = bytes_sent_mobile s, tf_received_mobile = bytes_recv_mobile s, tf_rating = need_rating env s\<rparr>,
      i\<lparr>ti_call := None\<rparr>))"

subsection \<open>What the steps of the constructor leave alone\<close>

lemma configured:
  "encoder s = None \<Longrightarrow> set_config env c s = s\<lparr>config := c, data_saving := (c_data_saving c = 2 \<or> c_data_saving c = 1 \<and> is_mobile (network s))\<rparr>"
  by (simp add: set_config_def update_data_saving_def update_bitrate_limit_def)

lemma network_chosen:
  assumes "encoder s = None" "active_itf s = []" "call_state s = Wait_Init"
  shows "\<exists>d cs. set_network_type env t itf v6 s
    = s\<lparr>network := t, data_saving := d, my_ipv6 := v6, active_itf := itf, calls := cs\<rparr>"
proof (cases "itf = []")
  case True
  let ?d = "data_saving (set_network_type env t itf v6 s)"
  have "set_network_type env t itf v6 s = s\<lparr>network := t, data_saving := ?d, my_ipv6 := v6, active_itf := itf, calls := calls s\<rparr>"
    using assms True by (simp add: set_network_type_def update_data_saving_def update_bitrate_limit_def)
  then show ?thesis by blast
next
  case False
  let ?d = "data_saving (set_network_type env t itf v6 s)"
  have "set_network_type env t itf v6 s
      = s\<lparr>network := t, data_saving := ?d, my_ipv6 := v6, active_itf := itf, calls := calls s @ [Interface_Changed]\<rparr>"
    using assms False by (simp add: set_network_type_def update_data_saving_def update_bitrate_limit_def call_out_def Let_def)
  then show ?thesis by blast
qed

text \<open>The endpoints that are given: each is found under its number, the first is in use.\<close>

definition put_given :: "endpoint \<Rightarrow> 'z routing_scheme \<Rightarrow> 'z routing_scheme" where
  "put_given e s = (let a = put_endpoint (ep_id e) e s;
     b = (if current_endpoint a = 0 then a\<lparr>current_endpoint := ep_id e\<rparr> else a)
   in if ep_type e = UDP_RELAY then b\<lparr>use_tcp := False\<rparr>
      else if ep_type e = TCP_RELAY then b\<lparr>did_add_tcp := True\<rparr> else b)"

lemma put_given_form: "0 \<notin> ep_id ` set es \<Longrightarrow> fold put_given es s = s\<lparr>
    endpoints := fold (\<lambda>e. om_put (ep_id e) e) es (endpoints s),
    current_endpoint := (if current_endpoint s = 0 \<and> es \<noteq> [] then ep_id (hd es) else current_endpoint s),
    use_tcp := (use_tcp s \<and> UDP_RELAY \<notin> ep_type ` set es),
    did_add_tcp := (did_add_tcp s \<or> TCP_RELAY \<in> ep_type ` set es)\<rparr>"
proof (induction es arbitrary: s)
  case (Cons e es)
  then show ?case by (auto simp: put_given_def put_endpoint_def Let_def)
qed simp

lemma given_others: "k \<notin> ep_id ` set es \<Longrightarrow> om_get (fold (\<lambda>e. om_put (ep_id e) e) es m) k = om_get m k"
  by (induction es arbitrary: m) (simp_all add: om_get_put)

lemma given_found: "distinct (map ep_id es) \<Longrightarrow> e \<in> set es \<Longrightarrow>
    om_get (fold (\<lambda>e. om_put (ep_id e) e) es m) (ep_id e) = Some e"
proof (induction es arbitrary: m)
  case (Cons x es)
  then show ?case using given_others [of "ep_id x" es "om_put (ep_id x) x m"] by (cases "e = x") (auto simp: om_get_put)
qed simp

lemma given_keys: "snd ` set (fold (\<lambda>e. om_put (ep_id e) e) es m) \<subseteq> set es \<union> snd ` set m"
proof (induction es arbitrary: m)
  case (Cons x es)
  from Cons [of "om_put (ep_id x) x m"] om_values_put [of "ep_id x" x m] show ?case by (simp add: subset_iff) blast
qed simp

lemma variants_form: "\<exists>m. fold add_variant vs s = s\<lparr>endpoints := m\<rparr> \<and> (\<forall>k. k \<notin> ep_id ` set vs \<longrightarrow> om_get m k = om_get (endpoints s) k)"
proof (induction vs arbitrary: s)
  case (Cons v vs)
  from Cons [of "add_variant v s"] obtain m where
    "fold add_variant vs (add_variant v s) = (add_variant v s)\<lparr>endpoints := m\<rparr>"
    "\<forall>k. k \<notin> ep_id ` set vs \<longrightarrow> om_get m k = om_get (endpoints (add_variant v s)) k" by blast
  then have "fold add_variant (v # vs) s = s\<lparr>endpoints := m\<rparr>
      \<and> (\<forall>k. k \<notin> ep_id ` set (v # vs) \<longrightarrow> om_get m k = om_get (endpoints s) k)"
    by (simp add: add_variant_def put_endpoint_def om_get_put)
  then show ?case by blast
next
  case Nil
  show ?case by (rule exI [of _ "endpoints s"]) simp
qed

lemma close_copies_form: "\<exists>cs. close_copies es s = s\<lparr>calls := cs\<rparr>"
proof (induction es arbitrary: s)
  case (Cons e es)
  have "close_copies (e # es) s = close_copies es (if ep_connected e then call_out (Close_Tcp (ep_id e)) s else s)"
    by (simp add: close_copies_def)
  with Cons [of "call_out (Close_Tcp (ep_id e)) s"] Cons [of s] show ?case
    by (auto simp: call_out_def)
next
  case Nil
  show ?case by (rule exI [of _ "calls s"]) (simp add: close_copies_def)
qed

lemma relays_form:
  "\<exists>m d cs. add_ipv6_relays s = s\<lparr>endpoints := m, did_add_ipv6 := d, calls := cs\<rparr>
    \<and> (\<forall>k. k \<notin> (\<lambda>e. ep_id e XOR ID_IPv6) ` snd ` set (endpoints s) \<longrightarrow> om_get m k = om_get (endpoints s) k)"
proof (cases "\<not> addr_empty (my_ipv6 s) \<and> \<not> did_add_ipv6 s")
  case True
  let ?es = "filter has_both (map snd (endpoints s))"
  let ?s = "s\<lparr>did_add_ipv6 := (?es \<noteq> [])\<rparr>"
  obtain m where m: "fold add_variant (map v6_variant ?es) ?s = ?s\<lparr>endpoints := m\<rparr>"
    "\<forall>k. k \<notin> ep_id ` set (map v6_variant ?es) \<longrightarrow> om_get m k = om_get (endpoints ?s) k"
    using variants_form [of "map v6_variant ?es" ?s] by (elim exE conjE)
  obtain cs where cs: "close_copies ?es (?s\<lparr>endpoints := m\<rparr>) = (?s\<lparr>endpoints := m\<rparr>)\<lparr>calls := cs\<rparr>"
    using close_copies_form [of ?es "?s\<lparr>endpoints := m\<rparr>"] by (elim exE)
  have "add_ipv6_relays s = s\<lparr>endpoints := m, did_add_ipv6 := (?es \<noteq> []), calls := cs\<rparr>"
    using True m(1) cs by (simp add: add_ipv6_relays_def Let_def)
  moreover have "\<forall>k. k \<notin> (\<lambda>e. ep_id e XOR ID_IPv6) ` snd ` set (endpoints s) \<longrightarrow> om_get m k = om_get (endpoints s) k"
    using m(2) by (auto simp: v6_variant_def image_iff)
  ultimately show ?thesis by blast
next
  case False
  then have "add_ipv6_relays s = s\<lparr>endpoints := endpoints s, did_add_ipv6 := did_add_ipv6 s, calls := calls s\<rparr>"
    by (auto simp: add_ipv6_relays_def)
  then show ?thesis by blast
qed

lemma given_type: "set_remote_endpoints es p2p layer s = (if run_receiver s then Inl AssertFail
    else let s2 = fold put_given es (s\<lparr>preferred_relay := 0, endpoints := [], did_add_tcp := False, use_tcp := True\<rparr>);
             s3 = s2\<lparr>preferred_relay := current_endpoint s2, allow_p2p := p2p, cur_ver := (cur_ver s2)\<lparr>max_layer := layer\<rparr>\<rparr>;
             s4 = (if layer \<ge> 74 then s3\<lparr>use_mtproto2 := True\<rparr> else s3)
         in Inr (add_ipv6_relays s4))"
  by (simp only: set_remote_endpoints_def put_given_def [abs_def] Let_def)

lemma endpoints_given:
  assumes "\<not> run_receiver s" "current_endpoint s = 0" "es \<noteq> []" "distinct (map ep_id es)" "0 \<notin> ep_id ` set es"
    and clash: "\<forall>e \<in> set es. \<forall>e' \<in> set es. ep_id e \<noteq> ep_id e' XOR ID_IPv6"
  shows "\<exists>m d cs. set_remote_endpoints es p2p layer s = Inr (s\<lparr>preferred_relay := ep_id (hd es), endpoints := m,
      did_add_tcp := (TCP_RELAY \<in> ep_type ` set es), use_tcp := (UDP_RELAY \<notin> ep_type ` set es),
      current_endpoint := ep_id (hd es), allow_p2p := p2p, cur_ver := (cur_ver s)\<lparr>max_layer := layer\<rparr>,
      use_mtproto2 := (use_mtproto2 s \<or> layer \<ge> 74), did_add_ipv6 := d, calls := cs\<rparr>)
    \<and> (\<forall>e \<in> set es. om_get m (ep_id e) = Some e)"
proof -
  let ?m = "fold (\<lambda>e. om_put (ep_id e) e) es []"
  let ?t = "s\<lparr>preferred_relay := ep_id (hd es), endpoints := ?m,
      did_add_tcp := (TCP_RELAY \<in> ep_type ` set es), use_tcp := (UDP_RELAY \<notin> ep_type ` set es),
      current_endpoint := ep_id (hd es), allow_p2p := p2p, cur_ver := (cur_ver s)\<lparr>max_layer := layer\<rparr>,
      use_mtproto2 := (use_mtproto2 s \<or> layer \<ge> 74)\<rparr>"
  let ?u = "fold put_given es (s\<lparr>preferred_relay := 0, endpoints := [], did_add_tcp := False, use_tcp := True\<rparr>)"
  let ?v = "?u\<lparr>preferred_relay := current_endpoint ?u, allow_p2p := p2p, cur_ver := (cur_ver ?u)\<lparr>max_layer := layer\<rparr>\<rparr>"
  have u: "?u = s\<lparr>preferred_relay := 0, endpoints := ?m, current_endpoint := ep_id (hd es),
      use_tcp := (UDP_RELAY \<notin> ep_type ` set es), did_add_tcp := (TCP_RELAY \<in> ep_type ` set es)\<rparr>"
    by (subst put_given_form [OF assms(5)]) (use assms(2,3) in simp)
  have "(if layer \<ge> 74 then ?v\<lparr>use_mtproto2 := True\<rparr> else ?v) = ?t"
    unfolding u by simp
  then have "set_remote_endpoints es p2p layer s = Inr (add_ipv6_relays ?t)"
    unfolding given_type Let_def using assms(1) by simp
  moreover obtain m d cs where m: "add_ipv6_relays ?t = ?t\<lparr>endpoints := m, did_add_ipv6 := d, calls := cs\<rparr>"
    "\<forall>k. k \<notin> (\<lambda>e. ep_id e XOR ID_IPv6) ` snd ` set ?m \<longrightarrow> om_get m k = om_get ?m k"
    using relays_form [of ?t] by auto
  moreover have "om_get m (ep_id e) = Some e" if "e \<in> set es" for e
  proof -
    have "ep_id e \<notin> (\<lambda>e. ep_id e XOR ID_IPv6) ` snd ` set ?m" using clash that given_keys [of es "[]"] by auto
    then show ?thesis using m(2) given_found [OF assms(4) that] by simp
  qed
  ultimately show ?thesis by (intro exI [of _ m] exI [of _ d] exI [of _ cs]) simp
qed

definition first_tasks :: "real \<Rightarrow> (task option \<times> real \<times> real) list" where
  "first_tasks t = [(Some Run_Send_Relay_Pings, 0, 2), (Some Run_Send_Init, 0, 0), (Some Run_Init_Timeout, t, 0)]"

lemma audio_form:
  assumes "output_ok env = Some True"
  shows "\<exists>e b cs. initialize_audio env s = s\<lparr>encoder := e, max_bitrate := b, calls := cs\<rparr>"
proof -
  let ?r = "initialize_audio env s"
  have "?r = s\<lparr>encoder := encoder ?r, max_bitrate := max_bitrate ?r, calls := calls ?r\<rparr>"
    using assms by (simp add: initialize_audio_def update_bitrate_limit_def call_out_def Let_def split_def)
  then show ?thesis by blast
qed

lemma put_message: "post_only env f delay ivl s = (if delay < 0 then s else s\<lparr>last_message_id := last_message_id s + 1,
    mt_queue := insert_message \<lparr>msg_id = last_message_id s, deliver_at = (if delay = 0 then 0 else now env + delay),
      interval = ivl, func = Some f\<rparr> (mt_queue s)\<rparr>)"
  by (simp add: post_only_def post_def mt_post_def mt_insert_def Let_def)

lemma timers_form:
  assumes "0 < t" "t = c_init_timeout (config s)" "mt_queue s = []" "0 \<le> now env" "n = last_message_id s"
  shows "initialize_timers env s = s\<lparr>init_timer := n, last_message_id := n + 2, mt_queue :=
      [\<lparr>msg_id = n + 1, deliver_at = 0, interval = 2, func = Some Run_Send_Relay_Pings\<rparr>,
       \<lparr>msg_id = n, deliver_at = now env + t, interval = 0, func = Some Run_Init_Timeout\<rparr>]\<rparr>"
proof -
  let ?m = "\<lparr>msg_id = n, deliver_at = now env + t, interval = 0, func = Some Run_Init_Timeout\<rparr>"
  have "post env Run_Init_Timeout t 0 s = (n, s\<lparr>last_message_id := n + 1, mt_queue := [?m]\<rparr>)"
    using assms by (simp add: post_def mt_post_def mt_insert_def insert_message_def)
  with assms show ?thesis
    by (simp add: initialize_timers_def put_message insert_message_def)
qed

lemma connected:
  assumes "call_state s \<noteq> Wait_Init_Ack" "output_ok env = Some True" "mt_queue s = []" "0 \<le> now env"
    "0 \<le> c_init_timeout (config s)"
  shows "\<exists>c e b cs i n q. connect env s = Inr (s\<lparr>config := c, encoder := e, max_bitrate := b, calls := cs, init_timer := i,
      last_message_id := n, mt_queue := q\<rparr>)
    \<and> map (\<lambda>m. (func m, deliver_at m, interval m)) q
        = first_tasks (now env + (if c_init_timeout (config s) = 0 then 30 else c_init_timeout (config s)))"
proof -
  define t where "t = (if c_init_timeout (config s) = 0 then 30 else c_init_timeout (config s))"
  define c where "c = (config s)\<lparr>c_init_timeout := t\<rparr>"
  define n where "n = last_message_id s"
  have c: "(if c_init_timeout (config s) = 0 then (config s)\<lparr>c_init_timeout := 30\<rparr> else config s) = c"
    by (simp add: c_def t_def)
  obtain e b cs where a: "initialize_audio env (s\<lparr>config := c\<rparr>) = s\<lparr>config := c, encoder := e, max_bitrate := b, calls := cs\<rparr>"
    using audio_form [OF assms(2), of "s\<lparr>config := c\<rparr>"] by (elim exE) simp
  have t: "0 < t" using assms(5) by (auto simp: t_def)
  let ?m = "\<lparr>msg_id = n, deliver_at = now env + t, interval = 0, func = Some Run_Init_Timeout\<rparr>"
  let ?p = "\<lparr>msg_id = n + 1, deliver_at = 0, interval = 2, func = Some Run_Send_Relay_Pings\<rparr>"
  let ?i = "\<lparr>msg_id = n + 2, deliver_at = 0, interval = 0, func = Some Run_Send_Init\<rparr>"
  let ?q = "[?p, ?i, ?m]"
  have q: "insert_message ?i [?p, ?m] = ?q"
    using t assms(4) by (simp add: insert_message_def)
  have "initialize_timers env (s\<lparr>config := c, encoder := e, max_bitrate := b, calls := cs\<rparr>)
      = s\<lparr>config := c, encoder := e, max_bitrate := b, calls := cs, init_timer := n,
          last_message_id := n + 2, mt_queue := [?p, ?m]\<rparr>"
    by (subst timers_form [OF t _ _ assms(4), of _ n]) (simp_all add: assms(3) c_def n_def)
  then have "connect env s = Inr (s\<lparr>config := c, encoder := e, max_bitrate := b, calls := cs, init_timer := n,
      last_message_id := n + 3, mt_queue := ?q\<rparr>)"
    unfolding connect_def Let_def c if_not_P [OF assms(1)] a by (simp add: put_message q)
  moreover have "map (\<lambda>m. (func m, deliver_at m, interval m)) ?q = first_tasks (now env + t)"
    by (simp add: first_tasks_def)
  ultimately show ?thesis unfolding t_def by blast
qed

lemma init_fields:
  fixes env e0 k0 mask0 ping0 max0 cfg_int
  defines "c \<equiv> controller_init env e0 k0 mask0 ping0 max0 cfg_int"
  shows "encoder c = None" "active_itf c = []" "call_state c = Wait_Init" "\<not> run_receiver c" "current_endpoint c = 0"
    "mt_queue c = []" "\<not> use_mtproto2 c"
  by (simp_all add: c_def controller_init_def flow_init_def routing_init_def flow.defs routing.defs)

lemma mapped_unmeasured: "unmeasured (mapped_endpoint env e)"
  by (simp add: unmeasured_def mapped_endpoint_def endpoint_new_def)

lemma keep_steps: "call_step\<^sup>*\<^sup>* s t \<Longrightarrow> call_ok s \<Longrightarrow> call_ok t"
  by (induction rule: rtranclp_induct) (auto intro: keep_call_step)

subsection \<open>The memory of the proxy\<close>

lemma proxy_kept:
  "proxy_supports_udp (post_only env f d ivl s) = proxy_supports_udp s"
  "proxy_supports_udp (set_state env st s) = proxy_supports_udp s"
proof -
  show p: "proxy_supports_udp (post_only env f d ivl s) = proxy_supports_udp s" for f d ivl and s :: "'a routing_scheme"
    by (simp add: put_message)
  have m: "proxy_supports_udp (send_mic_flags t) = proxy_supports_udp t" for t :: "'a routing_scheme"
    by (simp add: send_mic_flags_def send_stream_flags_def Let_def send_extra_def split: option.split)
  show "proxy_supports_udp (set_state env st s) = proxy_supports_udp s"
    by (simp add: set_state_def enter_state_def set_mic_mute_def call_out_def p m Let_def)
qed

lemma proxy_kept_by_limits:
  "proxy_supports_udp (update_bitrate_limit env s) = proxy_supports_udp s"
  "proxy_supports_udp (update_data_saving s) = proxy_supports_udp s"
  by (simp_all add: update_data_saving_def update_bitrate_limit_def call_out_def split_def Let_def split: option.split)

lemma proxy_kept_by_start:
  "proxy_supports_udp (set_network_type env t itf v6 s) = proxy_supports_udp s"
  "proxy_supports_udp (set_config env c s) = proxy_supports_udp s"
  "proxy_supports_udp (start_call env b r) = proxy_supports_udp r"
  "proxy_supports_udp (initialize_audio env s) = proxy_supports_udp s"
  "proxy_supports_udp (initialize_timers env s) = proxy_supports_udp s"
proof -
  have p: "proxy_supports_udp (snd (post env f d ivl u)) = proxy_supports_udp u" for f d ivl and u :: "'a controller_scheme"
    using proxy_kept(1) [of env f d ivl u] by (simp add: post_only_def)
  show "proxy_supports_udp (set_network_type env t itf v6 s) = proxy_supports_udp s"
    by (simp add: set_network_type_def Let_def proxy_kept proxy_kept_by_limits call_out_def)
  show "proxy_supports_udp (set_config env c s) = proxy_supports_udp s"
    by (simp add: set_config_def proxy_kept_by_limits)
  show "proxy_supports_udp (start_call env b r) = proxy_supports_udp r"
    by (simp add: start_call_def proxy_kept)
  show "proxy_supports_udp (initialize_audio env s) = proxy_supports_udp s"
    by (simp add: initialize_audio_def Let_def proxy_kept proxy_kept_by_limits)
  show "proxy_supports_udp (initialize_timers env s) = proxy_supports_udp s"
    by (simp add: initialize_timers_def split_def proxy_kept p)
qed

lemma proxy_kept_by_connect: "connect env s = Inr t \<Longrightarrow> proxy_supports_udp t = proxy_supports_udp s"
  by (auto simp: connect_def Let_def proxy_kept proxy_kept_by_start split: if_splits)

lemma proxy_kept_by_endpoints:
  assumes "set_remote_endpoints es p2p layer s = Inr t"
  shows "proxy_supports_udp t = proxy_supports_udp s"
proof -
  have f: "proxy_supports_udp (fold put_given es u) = proxy_supports_udp u" for u :: "'a routing_scheme"
    by (induction es arbitrary: u) (simp_all add: put_given_def put_endpoint_def Let_def)
  have r: "proxy_supports_udp (add_ipv6_relays u) = proxy_supports_udp u" for u :: "'a routing_scheme"
    using relays_form [of u] by auto
  show ?thesis using assms unfolding given_type Let_def by (auto simp: f r split: if_splits)
qed

subsection \<open>A constructor that returns\<close>

lemma settings_leave:
  "call_state (set_config env c s) = call_state s" "run_receiver (set_config env c s) = run_receiver s"
  "call_state (set_network_type env t itf v6 s) = call_state s" "run_receiver (set_network_type env t itf v6 s) = run_receiver s"
proof -
  have b: "call_state (update_bitrate_limit env u) = call_state u" "run_receiver (update_bitrate_limit env u) = run_receiver u"
    for u :: "'a controller_scheme"
    by (simp_all add: update_bitrate_limit_def call_out_def split_def Let_def split: option.split)
  have d: "call_state (update_data_saving u) = call_state u" "run_receiver (update_data_saving u) = run_receiver u"
    for u :: "'a controller_scheme"
    by (simp_all add: update_data_saving_def)
  show "call_state (set_config env c s) = call_state s" "run_receiver (set_config env c s) = run_receiver s"
    by (simp_all add: set_config_def b d)
  show "call_state (set_network_type env t itf v6 s) = call_state s" "run_receiver (set_network_type env t itf v6 s) = run_receiver s"
    by (simp_all add: set_network_type_def Let_def b d call_out_def put_message)
qed

lemma endpoints_leave_state:
  assumes "\<not> run_receiver s"
  shows "\<exists>t. set_remote_endpoints es p2p layer s = Inr t \<and> call_state t = call_state s"
proof -
  have f: "call_state (fold put_given es u) = call_state u" for u :: "'a routing_scheme"
    by (induction es arbitrary: u) (simp_all add: put_given_def put_endpoint_def Let_def)
  have r: "call_state (add_ipv6_relays u) = call_state u" for u :: "'a routing_scheme"
    using relays_form [of u] by auto
  show ?thesis using assms unfolding given_type Let_def by (simp add: f r)
qed

lemma set_state_enters: "st \<noteq> Established \<Longrightarrow> call_state (set_state env st s) = st"
  by (simp add: set_state_def enter_state_def put_message)

lemma instance_returns:
  assumes "256 \<le> length (ta_key a)" "\<not> run_receiver c" "call_state c = Wait_Init"
  shows "\<exists>j. make_instance env opened itf v6 c a = Inr j"
proof -
  obtain k where k: "set_encryption_key (crypto env) (ta_key a) (ta_outgoing a) = Inr k"
    using assms(1) by (simp add: set_encryption_key_def Let_def)
  let ?c1 = "c\<lparr>proxy_supports_udp := proxy_udp (set_persistent_state (ta_saved a) untested), via_socks5 := (ta_proxy a \<noteq> None)\<rparr>"
  let ?c2 = "set_network_type env (mapped_net (ta_net a)) itf v6 (set_config env (mapped_config (ta_config a)) ?c1)"
  have "\<not> run_receiver (?c2\<lparr>cur_keys := k\<rparr>)" using assms(2) by (simp add: settings_leave)
  from endpoints_leave_state [OF this] obtain c3 where c3:
    "set_remote_endpoints (map (mapped_endpoint env) (ta_endpoints a)) (tc_p2p (ta_config a)) (tc_layer (ta_config a)) (?c2\<lparr>cur_keys := k\<rparr>) = Inr c3"
    "call_state c3 = call_state (?c2\<lparr>cur_keys := k\<rparr>)" by blast
  have "call_state (start_call env opened c3) \<noteq> Wait_Init_Ack"
    using c3(2) assms(3) by (simp add: start_call_def settings_leave set_state_enters)
  then have "\<exists>c4. connect env (start_call env opened c3) = Inr c4" by (simp add: connect_def Let_def)
  then show ?thesis unfolding make_instance_def Let_def k bind_res.simps c3(1) by auto
qed

subsection \<open>Properties\<close>

text \<open>
  C3: an application that constructs an instance gets a call that runs.
\<close>

theorem instance_starts_call:
  fixes env e0 k0 mask0 ping0 max0 cfg_int a
  defines "c \<equiv> controller_init env e0 k0 mask0 ping0 max0 cfg_int"
    and "es \<equiv> map (mapped_endpoint env) (ta_endpoints a)"
    and "T \<equiv> (if tc_init_timeout (ta_config a) = 0 then 30 else tc_init_timeout (ta_config a))"
  assumes "256 \<le> length (ta_key a)" "output_ok env = Some True" "0 \<le> now env" "0 \<le> tc_init_timeout (ta_config a)"
    and "es \<noteq> []" "distinct (map ep_id es)" "0 \<notin> ep_id ` set es"
    and "\<forall>e \<in> set es. \<forall>e' \<in> set es. ep_id e \<noteq> ep_id e' XOR ID_IPv6"
  shows "\<exists>s p. make_instance env True itf v6 c a = Inr \<lparr>ti_call = Some s, ti_proxy = ta_proxy a, ti_tested = p\<rparr>
    \<and> call_state s = Wait_Init \<and> run_receiver s
    \<and> current_endpoint s = ep_id (hd es) \<and> preferred_relay s = ep_id (hd es)
    \<and> (\<forall>e \<in> set es. om_get (endpoints s) (ep_id e) = Some e)
    \<and> (use_tcp s \<longleftrightarrow> UDP_RELAY \<notin> ep_type ` set es)
    \<and> enc_key (cur_keys s) = take 256 (ta_key a) \<and> is_outgoing (cur_keys s) = ta_outgoing a
    \<and> network s = mapped_net (ta_net a) \<and> allow_p2p s = tc_p2p (ta_config a)
    \<and> map (\<lambda>m. (func m, deliver_at m, interval m)) (mt_queue s) = first_tasks (now env + T)
    \<and> (\<forall>t. call_step\<^sup>*\<^sup>* s t \<longrightarrow> call_ok t)"
proof -
  define p where "p = set_persistent_state (ta_saved a) untested"
  define c1 where "c1 = c\<lparr>proxy_supports_udp := proxy_udp p, via_socks5 := (ta_proxy a \<noteq> None)\<rparr>"
  define k where "k = \<lparr>enc_key = take 256 (ta_key a), fingerprint = piece 12 8 (cf_sha1 (crypto env) (take 256 (ta_key a))),
      call_id = piece 16 16 (cf_sha256 (crypto env) (take 256 (ta_key a))), is_outgoing = ta_outgoing a\<rparr>"
  note c = init_fields [of env e0 k0 mask0 ping0 max0 cfg_int, folded c_def]
  have c1: "encoder c1 = None" "active_itf c1 = []" "call_state c1 = Wait_Init" "\<not> run_receiver c1" "current_endpoint c1 = 0"
    "mt_queue c1 = []" "call_ok c1"
    using c call_ok_initial by (simp_all add: c1_def c_def)
  define c2 where "c2 = set_network_type env (mapped_net (ta_net a)) itf v6 (set_config env (mapped_config (ta_config a)) c1)"
  obtain d0 where d0: "set_config env (mapped_config (ta_config a)) c1 = c1\<lparr>config := mapped_config (ta_config a), data_saving := d0\<rparr>"
    using configured [OF c1(1)] by blast
  have "encoder (c1\<lparr>config := mapped_config (ta_config a), data_saving := d0\<rparr>) = None"
    "active_itf (c1\<lparr>config := mapped_config (ta_config a), data_saving := d0\<rparr>) = []"
    "call_state (c1\<lparr>config := mapped_config (ta_config a), data_saving := d0\<rparr>) = Wait_Init"
    using c1 by simp_all
  from network_chosen [OF this, of env "mapped_net (ta_net a)" itf v6] obtain d cs where
    c2: "c2 = c1\<lparr>config := mapped_config (ta_config a), data_saving := d0, network := mapped_net (ta_net a),
      data_saving := d, my_ipv6 := v6, active_itf := itf, calls := cs\<rparr>"
    unfolding c2_def d0 by blast
  have k: "set_encryption_key (crypto env) (ta_key a) (ta_outgoing a) = Inr k"
    using assms(4) by (simp add: set_encryption_key_def k_def Let_def)
  let ?c2 = "c2\<lparr>cur_keys := k\<rparr>"
  have "\<not> run_receiver ?c2" "current_endpoint ?c2 = 0" using c1 by (simp_all add: c2)
  from endpoints_given [OF this assms(8-11)] obtain m d2 cs2 where
    c3: "set_remote_endpoints es (tc_p2p (ta_config a)) (tc_layer (ta_config a)) ?c2
      = Inr (?c2\<lparr>preferred_relay := ep_id (hd es), endpoints := m,
        did_add_tcp := (TCP_RELAY \<in> ep_type ` set es), use_tcp := (UDP_RELAY \<notin> ep_type ` set es),
        current_endpoint := ep_id (hd es), allow_p2p := tc_p2p (ta_config a),
        cur_ver := (cur_ver ?c2)\<lparr>max_layer := tc_layer (ta_config a)\<rparr>,
        use_mtproto2 := (use_mtproto2 ?c2 \<or> tc_layer (ta_config a) \<ge> 74), did_add_ipv6 := d2, calls := cs2\<rparr>)"
      (is "_ = Inr ?c3")
    and m: "\<forall>e \<in> set es. om_get m (ep_id e) = Some e"
    by blast
  let ?s = "?c3\<lparr>run_receiver := True\<rparr>"
  have s: "call_state ?s \<noteq> Wait_Init_Ack" "mt_queue ?s = []" "0 \<le> c_init_timeout (config ?s)"
    "c_init_timeout (config ?s) = tc_init_timeout (ta_config a)"
    using c1 assms(7) by (simp_all add: c2 mapped_config_def)
  from connected [OF s(1) assms(5) s(2) assms(6) s(3)] obtain cf e b cs3 i n q where
    c4: "connect env ?s = Inr (?s\<lparr>config := cf, encoder := e, max_bitrate := b, calls := cs3, init_timer := i,
      last_message_id := n, mt_queue := q\<rparr>)" (is "_ = Inr ?c4")
    and q: "map (\<lambda>m. (func m, deliver_at m, interval m)) q = first_tasks (now env + T)"
    unfolding s(4) T_def [symmetric] by blast
  have "call_ok c2" unfolding c2_def by (intro keeps c1(7))
  then have "call_ok ?c2" by (simp only: call_ok_record)
  moreover have "\<forall>e \<in> set es. unmeasured e" by (simp add: es_def mapped_unmeasured)
  ultimately have "ok_res call_ok (set_remote_endpoints es (tc_p2p (ta_config a)) (tc_layer (ta_config a)) ?c2)"
    by (rule keep_remote_endpoints)
  then have "call_ok ?c3" unfolding c3 ok_res_simps .
  then have "call_ok ?s" by (simp only: call_ok_record)
  then have "ok_res call_ok (connect env ?s)" by (rule keep_connect)
  then have "call_ok ?c4" unfolding c4 ok_res_simps .
  then have "\<forall>t. call_step\<^sup>*\<^sup>* ?c4 t \<longrightarrow> call_ok t" using keep_steps by blast
  moreover have "make_instance env True itf v6 c a = Inr \<lparr>ti_call = Some ?c4, ti_proxy = ta_proxy a, ti_tested = p\<rparr>"
    unfolding make_instance_def Let_def p_def [symmetric] c1_def [symmetric] c2_def [symmetric] es_def [symmetric] k
      bind_res.simps c3 start_call_def if_True c4 ..
  ultimately show ?thesis using m q c1(3)
    by (intro exI [of _ ?c4] exI [of _ p]) (simp add: c2 k_def)
qed

definition sample_tg_call :: tg_call where
  "sample_tg_call = \<lparr>ta_endpoints = [\<lparr>te_id = 5, te_port = 443, te_v4 = IPv4 3, te_v6 = IPv6 (replicate 16 9),
       te_type = Tg_Udp_Relay, te_tag = replicate 16 1\<rparr>], ta_saved = [], ta_proxy = Some ([49], 1080),
     ta_config = \<lparr>tc_init_timeout = 0, tc_recv_timeout = 20, tc_saving = Tg_Mobile, tc_p2p = True, tc_upgrade = False, tc_layer = 92\<rparr>,
     ta_net = Tg_WiFi, ta_key = replicate 256 7, ta_outgoing = True\<rparr>"

theorem instance_starts_call_witness:
  "\<exists>s p. make_instance sample_env True ''wlan0'' no_address (controller_init sample_env Error_Unknown (plain_keys True) 0 0 0 (\<lambda>_ d. d))
       sample_tg_call = Inr \<lparr>ti_call = Some s, ti_proxy = Some ([49], 1080), ti_tested = p\<rparr>
    \<and> call_state s = Wait_Init \<and> current_endpoint s = 5 \<and> map (\<lambda>m. deliver_at m) (mt_queue s) = [0, 0, 40]"
proof -
  let ?es = "map (mapped_endpoint sample_env) (ta_endpoints sample_tg_call)"
  have e: "map ep_id ?es = [5]" "ep_id (hd ?es) = 5"
    by (simp_all add: sample_tg_call_def mapped_endpoint_def endpoint_new_def)
  have "\<forall>x \<in> set (map ep_id ?es). \<forall>y \<in> set (map ep_id ?es). x \<noteq> y XOR ID_IPv6"
    unfolding e by (simp add: ID_IPv6_def id_of_name_def fourcc_def)
  then have x: "\<forall>x \<in> set ?es. \<forall>y \<in> set ?es. ep_id x \<noteq> ep_id y XOR ID_IPv6" by simp
  have h: "256 \<le> length (ta_key sample_tg_call)" "output_ok sample_env = Some True" "0 \<le> now sample_env"
    "0 \<le> tc_init_timeout (ta_config sample_tg_call)" "?es \<noteq> []" "distinct (map ep_id ?es)" "0 \<notin> ep_id ` set ?es"
    unfolding e set_map [symmetric] by (simp_all add: sample_tg_call_def sample_env_def)
  have q: "map (\<lambda>m. deliver_at m) ms = [0, 0, 40]"
    if "map (\<lambda>m. (func m, deliver_at m, interval m)) ms = first_tasks 40" for ms :: "task message list"
  proof -
    have "map (\<lambda>x. fst (snd x)) (map (\<lambda>m. (func m, deliver_at m, interval m)) ms) = [0, 0, 40]"
      unfolding that by (simp add: first_tasks_def)
    then show ?thesis by (simp add: comp_def)
  qed
  have T: "now sample_env + (if tc_init_timeout (ta_config sample_tg_call) = 0 then 30 else tc_init_timeout (ta_config sample_tg_call)) = 40"
    "ta_proxy sample_tg_call = Some ([49], 1080)"
    by (simp_all add: sample_env_def sample_tg_call_def)
  show ?thesis using instance_starts_call [OF h x, of "''wlan0''" no_address Error_Unknown "plain_keys True" 0 0 0 "\<lambda>_ d. d"] q
    unfolding T e(2) by blast
qed

text \<open>
  C17: what a call has learned about its proxy, the next one knows.
\<close>

theorem next_call_remembers:
  assumes "ti_call i = Some s" "ti_proxy i = Some (addr, port)" "end_stop env fmt i = Inr (f, i')"
    and "ta_saved a = tf_saved f" "make_instance env2 opened itf v6 c a = Inr j"
  shows "ti_call i' = None \<and> (\<forall>g. on_call i' g = Inl Undefined)
    \<and> last_tested_proxy (ti_tested j) = proxy_name addr port
    \<and> (\<exists>t. ti_call j = Some t \<and> proxy_supports_udp t = proxy_supports_udp s
      \<and> (proxy_tested env3 = (proxy_name addr port = last_tested_proxy (ti_tested j)) \<longrightarrow>
         \<not> proxy_supports_udp s \<longrightarrow> \<not> udp_is_proxied t \<longrightarrow> init_udp_proxy env3 t = post_only env3 Run_Reset_Udp 0 0 t))"
proof -
  have f: "tf_saved f = get_persistent_state fmt True addr port (proxy_supports_udp s) (proxy_tcp (ti_tested i))" "i' = i\<lparr>ti_call := None\<rparr>"
    using assms(1-3) by (auto simp: end_stop_def on_call_def saved_text_def)
  have p: "set_persistent_state (ta_saved a) untested
      = untested\<lparr>last_tested_proxy := proxy_name addr port, proxy_udp := proxy_supports_udp s, proxy_tcp := proxy_tcp (ti_tested i)\<rparr>"
    unfolding assms(4) f(1) using saved_state_comes_back [of fmt addr port "proxy_supports_udp s" "proxy_tcp (ti_tested i)" untested]
    by (rule conjunct1)
  from assms(5) obtain t where t: "ti_call j = Some t" "proxy_supports_udp t = proxy_supports_udp s"
    "ti_tested j = set_persistent_state (ta_saved a) untested"
    unfolding make_instance_def Let_def p
    by (auto simp: bind_res_Inr_conv proxy_kept_by_start dest!: proxy_kept_by_connect proxy_kept_by_endpoints)
  moreover have "\<not> proxy_supports_udp s \<longrightarrow> \<not> udp_is_proxied t \<longrightarrow> init_udp_proxy env3 t = post_only env3 Run_Reset_Udp 0 0 t"
    if "proxy_tested env3"
    using that t(2) by (simp add: init_udp_proxy_def)
  ultimately show ?thesis unfolding t(3) p by (auto simp: f(2) on_call_def)
qed

theorem next_call_remembers_witness:
  "\<exists>f j t. end_stop sample_env (\<lambda>_. []) \<lparr>ti_call = Some ((controller_init sample_env Error_Unknown (plain_keys True) 0 0 0
        (\<lambda>_ d. d))\<lparr>proxy_supports_udp := False\<rparr>), ti_proxy = Some ([49], 1080), ti_tested = untested\<rparr>
      = Inr (f, \<lparr>ti_call = None, ti_proxy = Some ([49], 1080), ti_tested = untested\<rparr>)
    \<and> make_instance sample_env True ''wlan0'' no_address (controller_init sample_env Error_Unknown (plain_keys True) 0 0 0 (\<lambda>_ d. d))
        (sample_tg_call\<lparr>ta_saved := tf_saved f\<rparr>) = Inr j
    \<and> last_tested_proxy (ti_tested j) = [49, 58, 49, 48, 56, 48]
    \<and> ti_call j = Some t \<and> \<not> proxy_supports_udp t"
proof -
  let ?c = "controller_init sample_env Error_Unknown (plain_keys True) 0 0 0 (\<lambda>_ d. d)"
  let ?s = "?c\<lparr>proxy_supports_udp := False\<rparr>"
  let ?i = "\<lparr>ti_call = Some ?s, ti_proxy = Some ([49], 1080), ti_tested = untested\<rparr>"
  obtain f i' where f: "end_stop sample_env (\<lambda>_. []) ?i = Inr (f, i')" "i' = ?i\<lparr>ti_call := None\<rparr>"
    by (simp add: end_stop_def on_call_def)
  let ?a = "sample_tg_call\<lparr>ta_saved := tf_saved f\<rparr>"
  have "256 \<le> length (ta_key ?a)" by (simp add: sample_tg_call_def)
  from instance_returns [OF this init_fields(4,3)] obtain j where
    j: "make_instance sample_env True ''wlan0'' no_address ?c ?a = Inr j" by blast
  have i: "ti_call ?i = Some ?s" "ti_proxy ?i = Some ([49], 1080)" "ta_saved ?a = tf_saved f" by simp_all
  have n: "proxy_name [49] 1080 = [49, 58, 49, 48, 56, 48]"
    by (simp add: proxy_name_def c_str_def dec_text.simps [of 1080] dec_text.simps [of 108] dec_text.simps [of 10] dec_text.simps [of "Suc 0"])
  show ?thesis using next_call_remembers [OF i(1,2) f(1) i(3) j] f j unfolding n by auto
qed

end
