(* ===== verification/Spec2Isabelle.thy ===== *)
theory Spec2Isabelle
  imports Redundancy Sockets Threads Decoder Encoder Video_Sender Video_In Winsock Devices Echo Facade
begin

text \<open>
  A model of libtgvoip, the library for voice calls, and the theorems about it.

  \<^bold>\<open>The program.\<close> A call is run by one object, \<^verbatim>\<open>VoIPController\<close>. All of its work happens on one thread that runs posted
  functions in the order of their times (\<^verbatim>\<open>MessageThread\<close>). Around it are other threads: the receive
  thread waits for sockets and posts each datagram; the send thread takes finished packets from a
  blocking queue; the thread of the encoder collects what the microphone delivers and posts encoded
  frames; the thread of the decoder asks the jitter buffer for frames and fills a queue for the
  loudspeaker. A packet travels through relays (reflectors) over UDP or TCP, or directly to the peer, is encrypted
  with MTProto 1 or 2, carries media data of a stream and signaling (\<^verbatim>\<open>Extra\<close>), and acknowledges with a number and
  a mask. Peers of three generations of the protocol are supported.

  \<^bold>\<open>Parts and theories.\<close> File names are relative to the directory of the sources.

  \<^item> Prelude: words and bytes, the C++ errors (\<open>exn\<close>), results (\<open>exn + 'a\<close> with \<open>bind_res\<close>), and the
    automation shared by all theories.
  \<^item> Buffers (tools/Buffers): the input stream with the checked and the throwing reads, the output stream,
    buffers with their ownership, the pool.
  \<^item> Wire (controller/protocol/protocol/Interface.h): the templates of the format, as combinators of parsers and
    serializers; Extras (Extra.h, Extra.cpp): the signaling objects; Version (VersionInfo.h, Constants.h).
  \<^item> Packet_Manager (packets/PacketManager), Packets (packets/PacketStructs), Legacy (packets/Legacy.cpp):
    numbers and acknowledgments, the present format, the two older ones.
  \<^item> Historic (tools/utils.h), Messages (tools/MessageThread), Blocking_Queue (tools/BlockingQueue), Omap (\<^verbatim>\<open>std::map\<close>):
    data structures and the message thread.
  \<^item> Jitter (controller/net/JitterBuffer), Congestion (controller/net/CongestionControl), Reassembler
    (controller/net/PacketReassembler), Video_FEC (video/VideoFEC): the estimates and buffers of a stream.
  \<^item> Crypto (controller/controller/Crypto.cpp): keys and both versions of the encryption.
  \<^item> Session, Endpoints, Sending, Receiving, Ticks, Control (VoIPController.h, controller/protocol/,
    controller/controller/, controller/media/, controller/audio/AudioPacketSender): the controller. The record of its state grows
    from theory to theory: the message thread, the call with its streams and pending signaling,
    the endpoints, the queues of packets, the estimates and settings, the states of the network threads. Control ends with \<open>exec_task\<close>, which
    dispatches the posted tasks, and \<open>call_step\<close>, the steps of all threads and of the application.
  \<^item> Invariant, Delivery, Calls, Redundancy, Threads: theorems about the controller, see below.
  \<^item> Sockets (controller/net/NetworkSocket.cpp): obfuscated TCP and the client of a SOCKS5 proxy; Posix
    (os/posix/NetworkSocketPosix): what the library does around the system calls for sockets.
  \<^item> Sound (audio/Resampler.cpp, controller/media/MediaStreamItf, the volume of controller/audio/EchoCanceller),
    Decoder (controller/audio/OpusDecoder), Encoder (controller/audio/OpusEncoder): what happens to samples.
  \<^item> Devices (audio/AudioIOCallback, audio/AudioInputTester and the classes under os/ for PulseAudio, ALSA, OpenSL ES, WASAPI, Wave
    and Audio Units): what lies between the sizes of a device and the frames of the library. Echo
    (controller/audio/EchoCanceller): the canceller around the audio processing.
  \<^item> Winsock (os/windows/NetworkSocketWinsock): the sockets of Windows.
  \<^item> Json (tools/json11), Server_Config (VoIPServerConfig, and the saved state in controller/controller/PublicAPI.cpp): the configuration
    from the server, and what is kept from call to call.
  \<^item> Facade (TgVoip.cpp): the interface for applications, composed of the operations of the controller.
  \<^item> Scream (video/ScreamCongestionController), Video_Sender (video/VideoPacketSender), Video_In (controller/media/Video.cpp,
    os/android/VideoRendererAndroid): video, as far as this version has it.

  \<^bold>\<open>Conventions.\<close> Machine integers are words of their width, so that wrapping is that of the code;
  \<^verbatim>\<open>size_t\<close> has 64 bits where its width matters, and is a natural number where it counts elements of a list. Floating point values
  are exact reals, except where a value may be no number or infinite (\<open>fp\<close>). A thrown exception, a
  failed assertion and undefined behaviour are values: \<open>Inl\<close> of an \<open>exn\<close>, or \<open>None\<close> where there is only one way to
  fail. Nothing catches an exception on the message thread, so an uncaught one is noted in the field
  \<open>crashed\<close>, after which nothing happens. An operation sees one value of the clock. Values that C++ leaves
  uninitialized are arguments. Pointers to endpoints are the keys of the map; a socket is seen through
  whether it exists and is ready. Calls to the outside (application, devices, sockets) are recorded in the
  order in which they are made. Cryptographic functions, random numbers, Opus, the audio processing and the answers of the system are
  parameters, and in the controller the configured values; what is needed of them is stated by named hypotheses
  (\<open>crypto_ok\<close>, \<open>stream_cipher\<close>, \<open>opus_ok\<close>), each with an instance in the examples.

  \<^bold>\<open>Interfaces.\<close> \<open>byte_sink\<close> is what the serializers rely on (Buffers, interpreted by the output stream);
  \<open>wire_codec\<close> and its extension \<open>wire_body\<close> are the contract of a wire object, from which the templates
  \<^verbatim>\<open>Array\<close>, \<^verbatim>\<open>Mask\<close> and \<^verbatim>\<open>Wrapped\<close> inherit their round trips (Wire, interpreted by byte strings, numbers, codecs, descriptions of
  streams and signaling objects); \<open>ordered_map\<close> is the contract of \<^verbatim>\<open>std::map\<close> (Omap);
  \<open>socket_methods\<close> is what \<^verbatim>\<open>Select\<close> relies on in the sockets it is given (Posix, interpreted by those that are not wrapped);
  \<open>frame_puller\<close> and \<open>frame_pusher\<close> are what an adapter of a device promises (Devices, each interpreted by four devices).

  \<^bold>\<open>What is shown.\<close>

  \<^item> Formats: what is written is read back, for packets of the present and the older formats, for every signaling object and for encrypted packets,
    with the exact losses where there are some; parsing arbitrary bytes never throws and never
    leaves the packet; decryption accepts only what is authentic. \<open>packet_delivery\<close> composes these
    from the sender's call to what the receiver processes.
  \<^item> Data structures: \<^verbatim>\<open>ackRemoteSeq\<close> implements a set of numbers; a pass of the message thread runs what
    is due, in order; the queue is first in, first out under all interleavings; the count of bytes in
    flight is exact; fragments may arrive in any order; parity recovers one lost packet; the
    first packet after a reset is played after the minimum delay.
  \<^item> The call: Invariant proves that every operation and every task keeps \<open>call_ok\<close>, one
    lemma per operation, collected in \<open>keeps\<close>; \<open>call_invariant\<close> states it for every reachable
    state. Calls has what follows for timers, bitrate, bars and lost connections, Redundancy the
    end of repetition and the copies of earlier frames.
  \<^item> Threads: datagrams reach the message thread once and in order; both network threads end when the
    call is stopped; the decoder keeps two packets ahead in every interleaving with the device, and a
    waiting device is served.
  \<^item> Sockets: the conversation with a proxy is a prefix of the protocol in every reachable state, and leads to the connection; the two
    ends of an obfuscated connection stay in step; the outcome of \<^verbatim>\<open>Select\<close> is one that the step of the receive
    loop allows; addresses survive the translation for NAT64.
  \<^item> Samples: no access outside a buffer, no overflow when frames are stretched, mixing is the
    saturated sum, the encoder is given everything that was captured. Whatever sizes a device asks for or delivers, within the stated bounds,
    it plays and hands on one stream without loss; the echo canceller hears what is played.
  \<^item> Configuration: the text of a JSON value is read back as that value, each getter serves what the server sent,
    and the saved state makes the next call remember the proxy.
  \<^item> The interface: constructing an instance yields a started call in the first state, with the relays, keys and settings
    that were given, from which every reachable state keeps the invariant; what \<^verbatim>\<open>stop\<close> returns
    restores the memory of the proxy in the next instance.
  \<^item> Video: the renderer shows the key frames and the frames that follow a shown one, in the configuration of the last
    key frame; on Android the fifty-first frame before the first reset ends the process.
  \<^item> Behaviour that deviates from the intention is stated as theorems too, such as the
    shifted datagrams behind a proxy, the choice of relays that never happens, the end
    of the send thread by a port of 0, and the misplaced packets of the jitter array.

  \<^bold>\<open>Bounds and termination.\<close> All functions are total, and there is no fuel: loops over containers recurse over the
  list, the loops of the threads are single passes inside step relations. A repeated packet is gone
  after 256 passes, as its number of tries is a byte; the encryption looks for its padding by
  a formula. Queues have the capacities of the code (64 raw packets, 32 decoded and 10 captured ones).

  \<^bold>\<open>Not modelled.\<close> Group calls (VoIPGroupController.cpp), which are not part of the build and do not fit the present
  controller. The debug output, the statistics file and the log, which only format state. Opening, choosing and listing audio
  devices, which are sequences of system calls, the audio units with floats or another sampling rate, and video sources and renderers other than that of Android. In the JSON
  library comments, several values in one text, and the texts of errors. The audio processing behind the echo
  canceller (WebRTC). The body of \<^verbatim>\<open>VideoPacketSender::SendFrame\<close>, which is commented out in this version. The
  bindings under client/, which only convert types, and the vendored code under webrtc_dsp and cm256.
\<close>

end
